(* ===== verification/Prelude.thy ===== *)
theory Prelude
  imports Complex_Main "HOL-Library.Word" "HOL-Library.Product_Lexorder"
begin

text \<open>
  Shared vocabulary of the development: the model's basic types, the exceptions of the
  Python code as values, the string methods the sources call (on characters below 256, where
  they are exact), dictionaries with defaults, and SQL tables as lists of rows in rowid order
  with the statements the sources execute on them. The collections declared here
  (\<open>tables\<close>, \<open>pystr\<close>) carry the component proofs.
\<close>

section \<open>Basic types\<close>

type_synonym byte = "8 word"
type_synonym bytes = "8 word list"
type_synonym cid = string
type_synonym time = real
type_synonym publisher = string

text \<open>
  An exception raised by the source is a value of this type; a computation that may raise
  returns \<open>pyerr + 'a\<close>, with \<open>Inl\<close> for the raised exception. \<open>BindError\<close> is what
  sqlite3 raises for a parameter it cannot bind (a list or a dict), \<open>IntegrityError\<close> what it
  raises for a duplicate primary key.
\<close>

datatype pyerr =
    TypeError | ValueError | KeyError | IndexError | OverflowError
  | AttributeError | BindError | IntegrityError | RuntimeError | OperationalError

type_synonym 'a res = "pyerr + 'a"

named_theorems tables \<comment> \<open>laws of the SQL statements on tables\<close>
named_theorems pystr \<comment> \<open>laws of the string methods\<close>

section \<open>Lists\<close>

lemma find_Some_iff_set: "find P xs = Some x \<Longrightarrow> x \<in> set xs \<and> P x"
  by (induction xs) (auto split: if_splits)

lemma find_None_set: "find P xs = None \<longleftrightarrow> (\<forall>x\<in>set xs. \<not> P x)"
  by (induction xs) auto

lemma find_append: "find P (xs @ ys) = (case find P xs of None \<Rightarrow> find P ys | Some x \<Rightarrow> Some x)"
  by (induction xs) auto

lemma filter_False_id: "(\<And>x. x \<in> set xs \<Longrightarrow> P x) \<Longrightarrow> filter P xs = xs"
  by (induction xs) auto

lemma length_filter_mono: "(\<And>x. x \<in> set xs \<Longrightarrow> P x \<Longrightarrow> Q x) \<Longrightarrow>
    length (filter P xs) \<le> length (filter Q xs)"
  by (induction xs) auto

lemma set_take_in: "x \<in> set (take n xs) \<Longrightarrow> x \<in> set xs"
  by (rule in_set_takeD)

section \<open>String methods\<close>

text \<open>Code points of \<open>str.isspace\<close> below 256, and of the C locale's \<open>isspace\<close> for bytes.\<close>

definition py_isspace :: "char \<Rightarrow> bool" where
  "py_isspace c \<longleftrightarrow>
     (of_char c :: nat) \<in> {9, 10, 11, 12, 13, 28, 29, 30, 31, 32, 133, 160}"

definition lower_char :: "char \<Rightarrow> char" where
  "lower_char c =
     (let n = (of_char c :: nat)
      in if (65 \<le> n \<and> n \<le> 90) \<or> (192 \<le> n \<and> n \<le> 222 \<and> n \<noteq> 215) then char_of (n + 32) else c)"

definition py_lower :: "string \<Rightarrow> string" where
  "py_lower s = map lower_char s"

text \<open>
  \<open>str.upper\<close> maps sharp s to two letters. The two Latin-1 letters whose upper case lies
  above 255 (micro sign, y with diaeresis) are kept: they are outside ASCII either way.
\<close>

definition upper_char :: "char \<Rightarrow> string" where
  "upper_char c =
     (let n = (of_char c :: nat)
      in if (97 \<le> n \<and> n \<le> 122) \<or> (224 \<le> n \<and> n \<le> 254 \<and> n \<noteq> 247) then [char_of (n - 32)]
         else if n = 223 then ''SS'' else [c])"

definition py_upper :: "string \<Rightarrow> string" where
  "py_upper s = concat (map upper_char s)"

definition py_startswith :: "'a list \<Rightarrow> 'a list \<Rightarrow> bool" where
  "py_startswith s p \<longleftrightarrow> take (length p) s = p"

text \<open>\<open>needle in haystack\<close>.\<close>

fun contains :: "'a list \<Rightarrow> 'a list \<Rightarrow> bool" where
  "contains p [] = (p = [])"
| "contains p (c # s) = (py_startswith (c # s) p \<or> contains p s)"

definition py_endswith :: "'a list \<Rightarrow> 'a list \<Rightarrow> bool" where
  "py_endswith s p \<longleftrightarrow> length p \<le> length s \<and> drop (length s - length p) s = p"

definition py_lstrip :: "('a \<Rightarrow> bool) \<Rightarrow> 'a list \<Rightarrow> 'a list" where
  "py_lstrip P s = dropWhile P s"

definition py_rstrip :: "('a \<Rightarrow> bool) \<Rightarrow> 'a list \<Rightarrow> 'a list" where
  "py_rstrip P s = rev (dropWhile P (rev s))"

definition py_strip :: "string \<Rightarrow> string" where
  "py_strip s = py_rstrip py_isspace (py_lstrip py_isspace s)"

lemma py_strip_id: "\<forall>c\<in>set s. \<not> py_isspace c \<Longrightarrow> py_strip s = s"
proof -
  have drop: "\<forall>c\<in>set s. \<not> py_isspace c \<Longrightarrow> dropWhile py_isspace s = s" for s
    by (cases s) auto
  show "\<forall>c\<in>set s. \<not> py_isspace c \<Longrightarrow> py_strip s = s"
    using drop [of s] drop [of "rev s"] by (simp add: py_strip_def py_rstrip_def py_lstrip_def)
qed

lemma py_strip_trimmed: "s \<noteq> [] \<Longrightarrow> \<not> py_isspace (hd s) \<Longrightarrow> \<not> py_isspace (last s) \<Longrightarrow> py_strip s = s"
proof -
  assume s: "s \<noteq> []" "\<not> py_isspace (hd s)" "\<not> py_isspace (last s)"
  then have "dropWhile py_isspace s = s" "dropWhile py_isspace (rev s) = rev s"
    by (simp_all add: dropWhile_eq_self_iff hd_rev)
  then show "py_strip s = s" by (simp add: py_strip_def py_lstrip_def py_rstrip_def)
qed

lemma py_strip_ends: "py_strip s \<noteq> [] \<Longrightarrow> \<not> py_isspace (hd (py_strip s)) \<and> \<not> py_isspace (last (py_strip s))"
proof -
  let ?l = "dropWhile py_isspace s"
  let ?r = "dropWhile py_isspace (rev ?l)"
  assume "py_strip s \<noteq> []"
  then have ne: "?r \<noteq> []" by (simp add: py_strip_def py_lstrip_def py_rstrip_def)
  then have "\<not> py_isspace (hd ?r)" by (simp add: hd_dropWhile)
  moreover have "last ?r = last (rev ?l)" using ne by (metis dropWhile_last dropWhile_eq_Nil_conv)
  moreover have "\<not> py_isspace (hd ?l)" using ne by (intro hd_dropWhile) (auto dest: set_dropWhileD)
  ultimately show "\<not> py_isspace (hd (py_strip s)) \<and> \<not> py_isspace (last (py_strip s))"
    using ne by (auto simp: py_strip_def py_lstrip_def py_rstrip_def hd_rev last_rev)
qed

lemma py_strip_idem [simp]: "py_strip (py_strip s) = py_strip s"
proof (cases "py_strip s = []")
  case True
  then show ?thesis by (simp only: True) (simp add: py_strip_def py_lstrip_def py_rstrip_def)
next
  case False
  then show ?thesis using py_strip_trimmed [of "py_strip s"] py_strip_ends [of s] by blast
qed

text \<open>Splitting at every separator (\<open>s.split(sep)\<close>) and at runs of white space (\<open>s.split()\<close>).\<close>

fun split_by :: "('a \<Rightarrow> bool) \<Rightarrow> 'a list \<Rightarrow> 'a list list" where
  "split_by P [] = [[]]"
| "split_by P (x # xs) =
     (if P x then [] # split_by P xs
      else (case split_by P xs of [] \<Rightarrow> [[x]] | w # ws \<Rightarrow> (x # w) # ws))"

definition py_split_ws :: "string \<Rightarrow> string list" where
  "py_split_ws s = filter (\<lambda>w. w \<noteq> []) (split_by py_isspace s)"

fun py_join :: "'a list \<Rightarrow> 'a list list \<Rightarrow> 'a list" where
  "py_join sep [] = []"
| "py_join sep [w] = w"
| "py_join sep (w # v # ws) = w @ sep @ py_join sep (v # ws)"

text \<open>The idiom \<open>" ".join(s.split())\<close>.\<close>

definition collapse :: "string \<Rightarrow> string" where
  "collapse s = py_join '' '' (py_split_ws s)"

definition replace_char :: "char \<Rightarrow> char \<Rightarrow> string \<Rightarrow> string" where
  "replace_char a b s = map (\<lambda>c. if c = a then b else c) s"

lemma split_by_not_Nil [simp]: "split_by P s \<noteq> []"
  by (induction s) (auto split: list.splits)

lemma split_by_no_sep: "w \<in> set (split_by P s) \<Longrightarrow> \<forall>c\<in>set w. \<not> P c"
proof (induction s arbitrary: w)
  case Nil
  then show ?case by simp
next
  case (Cons x xs)
  then show ?case by (cases "split_by P xs") (fastforce split: if_splits)+
qed

lemma split_by_id: "\<forall>c\<in>set s. \<not> P c \<Longrightarrow> split_by P s = [s]"
  by (induction s) auto

lemma split_by_append_sep:
  "\<forall>c\<in>set w. \<not> P c \<Longrightarrow> P x \<Longrightarrow> split_by P (w @ x # s) = w # split_by P s"
  by (induction w) auto

lemma split_by_join:
  assumes "\<forall>w\<in>set ws. \<forall>c\<in>set w. \<not> P c" "P x" "ws \<noteq> []"
  shows "split_by P (py_join [x] ws) = ws"
  using assms(1,3)
proof (induction ws rule: induct_list012)
  case (3 w v ws)
  then show ?case using assms(2) by (simp add: split_by_append_sep)
qed (auto simp: split_by_id)

lemma split_ws_no_space:
  "w \<in> set (py_split_ws s) \<Longrightarrow> w \<noteq> [] \<and> (\<forall>c\<in>set w. \<not> py_isspace c)"
  using split_by_no_sep by (auto simp: py_split_ws_def)

lemma split_ws_join:
  assumes "\<forall>w\<in>set ws. w \<noteq> [] \<and> (\<forall>c\<in>set w. \<not> py_isspace c)"
  shows "py_split_ws (py_join '' '' ws) = ws"
proof (cases "ws = []")
  case True
  then show ?thesis by (simp add: py_split_ws_def)
next
  case False
  have "split_by py_isspace (py_join '' '' ws) = ws"
    by (rule split_by_join) (use assms False in \<open>auto simp: py_isspace_def\<close>)
  with assms show ?thesis by (simp add: py_split_ws_def filter_id_conv)
qed

lemma collapse_idem [pystr, simp]: "collapse (collapse s) = collapse s"
  using split_ws_join [of "py_split_ws s"] split_ws_no_space [of _ s]
  by (simp add: collapse_def)

lemma collapse_Nil_iff: "collapse s = [] \<longleftrightarrow> py_split_ws s = []"
proof (cases "py_split_ws s")
  case (Cons w ws)
  then show ?thesis using split_ws_no_space [of w s] by (cases ws) (auto simp: collapse_def)
qed (simp add: collapse_def)

section \<open>Dictionaries with defaults\<close>

text \<open>\<open>config.FETCH.get(key, default)\<close> on a section of integers of the configuration file.\<close>

type_synonym intcfg = "string \<rightharpoonup> int"

definition cfg_get :: "intcfg \<Rightarrow> string \<Rightarrow> int \<Rightarrow> int" where
  "cfg_get m k d = (case m k of None \<Rightarrow> d | Some v \<Rightarrow> v)"

text \<open>\<open>x or y\<close> on optional strings: None and the empty string are false.\<close>

definition str_or :: "string option \<Rightarrow> string \<Rightarrow> string" where
  "str_or x y = (case x of None \<Rightarrow> y | Some s \<Rightarrow> if s = [] then y else s)"

section \<open>SQL tables\<close>

text \<open>
  A table is the list of its rows in rowid order. \<open>INSERT OR REPLACE\<close> deletes the row with
  the same key and appends the new one (a fresh rowid), \<open>INSERT OR IGNORE\<close> keeps the old one.
  \<open>ORDER BY k LIMIT n\<close> sorts by the key; rows with equal keys keep rowid order, which is one
  of the orders SQLite may choose.
\<close>

definition sql_delete :: "('r \<Rightarrow> bool) \<Rightarrow> 'r list \<Rightarrow> 'r list" where
  "sql_delete P t = filter (\<lambda>r. \<not> P r) t"

definition sql_update :: "('r \<Rightarrow> bool) \<Rightarrow> ('r \<Rightarrow> 'r) \<Rightarrow> 'r list \<Rightarrow> 'r list" where
  "sql_update P f t = map (\<lambda>r. if P r then f r else r) t"

definition insert_or_replace :: "('r \<Rightarrow> 'k) \<Rightarrow> 'r \<Rightarrow> 'r list \<Rightarrow> 'r list" where
  "insert_or_replace key r t = filter (\<lambda>x. key x \<noteq> key r) t @ [r]"

definition has_key :: "('r \<Rightarrow> 'k) \<Rightarrow> 'k \<Rightarrow> 'r list \<Rightarrow> bool" where
  "has_key key k t \<longleftrightarrow> (\<exists>r\<in>set t. key r = k)"

definition insert_or_ignore :: "('r \<Rightarrow> 'k) \<Rightarrow> 'r \<Rightarrow> 'r list \<Rightarrow> 'r list" where
  "insert_or_ignore key r t = (if has_key key (key r) t then t else t @ [r])"

definition sql_get :: "('r \<Rightarrow> 'k) \<Rightarrow> 'k \<Rightarrow> 'r list \<Rightarrow> 'r option" where
  "sql_get key k t = find (\<lambda>r. key r = k) t"

definition sql_count :: "('r \<Rightarrow> bool) \<Rightarrow> 'r list \<Rightarrow> int" where
  "sql_count P t = int (length (filter P t))"

definition order_limit :: "('r \<Rightarrow> 'k::linorder) \<Rightarrow> nat \<Rightarrow> 'r list \<Rightarrow> 'r list" where
  "order_limit key n t = take n (sort_key key t)"

definition pk :: "('r \<Rightarrow> 'k) \<Rightarrow> 'r list \<Rightarrow> bool" where
  "pk key t \<longleftrightarrow> distinct (map key t)"

lemma set_sql_delete [tables, simp]: "set (sql_delete P t) = {r \<in> set t. \<not> P r}"
  by (auto simp: sql_delete_def)

lemma set_insert_or_replace [tables, simp]:
  "set (insert_or_replace key r t) = insert r {x \<in> set t. key x \<noteq> key r}"
  by (auto simp: insert_or_replace_def)

lemma set_insert_or_ignore [tables]:
  "set (insert_or_ignore key r t) = (if has_key key (key r) t then set t else insert r (set t))"
  by (auto simp: insert_or_ignore_def)

lemma set_sql_update [tables, simp]:
  "set (sql_update P f t) = (\<lambda>r. if P r then f r else r) ` set t"
  by (auto simp: sql_update_def)

lemma in_updateE:
  assumes "r \<in> set (sql_update P f t)"
  obtains x where "x \<in> set t" "P x" "r = f x" | "r \<in> set t" "\<not> P r"
  using assms by (auto simp: sql_update_def split: if_splits)

lemma length_sql_update [simp]: "length (sql_update P f t) = length t"
  by (simp add: sql_update_def)

lemma has_key_map: "has_key key k t \<longleftrightarrow> k \<in> key ` set t"
  by (auto simp: has_key_def)

lemma pk_Nil [simp]: "pk key []"
  by (simp add: pk_def)

lemma pk_delete [tables, intro]: "pk key t \<Longrightarrow> pk key (sql_delete P t)"
  by (simp add: pk_def sql_delete_def distinct_map_filter)

lemma pk_replace [tables, intro]: "pk key t \<Longrightarrow> pk key (insert_or_replace key r t)"
  by (auto simp: pk_def insert_or_replace_def distinct_map_filter)

lemma pk_ignore [tables, intro]: "pk key t \<Longrightarrow> pk key (insert_or_ignore key r t)"
  by (auto simp: pk_def insert_or_ignore_def has_key_map)

lemma pk_append: "pk key t \<Longrightarrow> \<not> has_key key (key r) t \<Longrightarrow> pk key (t @ [r])"
  by (auto simp: pk_def has_key_map)

lemma map_key_update:
  "(\<And>r. key (f r) = key r) \<Longrightarrow> map key (sql_update P f t) = map key t"
  by (simp add: sql_update_def)

lemma pk_update [tables]: "pk key t \<Longrightarrow> (\<And>r. key (f r) = key r) \<Longrightarrow> pk key (sql_update P f t)"
  by (simp add: pk_def map_key_update)

lemma pk_unique: "pk key t \<Longrightarrow> r \<in> set t \<Longrightarrow> r' \<in> set t \<Longrightarrow> key r = key r' \<Longrightarrow> r = r'"
  by (metis distinct_map inj_onD pk_def)

lemma sql_get_Some: "sql_get key k t = Some r \<Longrightarrow> r \<in> set t \<and> key r = k"
  unfolding sql_get_def by (rule find_Some_iff_set)

lemma sql_get_None: "sql_get key k t = None \<longleftrightarrow> \<not> has_key key k t"
  by (auto simp: sql_get_def has_key_def find_None_set)

lemma sql_get_Nil [simp]: "sql_get key k [] = None"
  by (simp add: sql_get_def)

lemma sql_get_pk: "pk key t \<Longrightarrow> r \<in> set t \<Longrightarrow> sql_get key (key r) t = Some r"
proof (cases "sql_get key (key r) t")
  case None
  assume "r \<in> set t"
  with None show ?thesis by (auto simp: sql_get_None has_key_def)
next
  case (Some r')
  assume "pk key t" "r \<in> set t"
  with Some show ?thesis using pk_unique [of key t r' r] by (auto dest: sql_get_Some)
qed

lemma sql_get_replace: "sql_get key k (insert_or_replace key r t) =
    (if k = key r then Some r else sql_get key k t)"
proof (cases "k = key r")
  case True
  then have "find (\<lambda>x. key x = k) (filter (\<lambda>x. key x \<noteq> key r) t) = None"
    by (auto simp: find_None_set)
  with True show ?thesis by (simp add: sql_get_def insert_or_replace_def find_append)
next
  case False
  then have "find (\<lambda>x. key x = k) (filter (\<lambda>x. key x \<noteq> key r) t) = find (\<lambda>x. key x = k) t"
    by (induction t) auto
  with False show ?thesis
    by (auto simp: sql_get_def insert_or_replace_def find_append split: option.splits)
qed

lemma sql_get_delete_key: "sql_get key k (sql_delete (\<lambda>r. key r = k') t) =
    (if k = k' then None else sql_get key k t)"
  by (induction t) (auto simp: sql_get_def sql_delete_def)

lemma sql_get_ignore: "sql_get key k (insert_or_ignore key r t) =
    (if has_key key (key r) t then sql_get key k t
     else if k = key r then Some r else sql_get key k t)"
proof -
  have "sql_get key k (t @ [r]) = (case sql_get key k t of None \<Rightarrow> if key r = k then Some r else None
      | Some x \<Rightarrow> Some x)"
    by (auto simp: sql_get_def find_append split: option.splits)
  moreover have "\<not> has_key key (key r) t \<Longrightarrow> sql_get key (key r) t = None"
    by (simp add: sql_get_None)
  ultimately show ?thesis
    by (auto simp: insert_or_ignore_def split: option.splits)
qed

lemma length_order_limit: "length (order_limit key n t) \<le> n"
  by (simp add: order_limit_def)

lemma set_order_limit: "set (order_limit key n t) \<subseteq> set t"
  by (auto simp: order_limit_def dest: in_set_takeD)

lemma order_limit_all: "length t \<le> n \<Longrightarrow> set (order_limit key n t) = set t"
  by (simp add: order_limit_def)

lemma sql_count_nonneg [simp]: "0 \<le> sql_count P t"
  by (simp add: sql_count_def)

lemma sql_count_Nil [simp]: "sql_count P [] = 0"
  by (simp add: sql_count_def)

lemma sql_count_split: "sql_count P t = sql_count (\<lambda>r. P r \<and> Q r) t + sql_count (\<lambda>r. P r \<and> \<not> Q r) t"
  by (induction t) (auto simp: sql_count_def)

lemma sql_count_delete: "sql_count P (sql_delete Q t) = sql_count (\<lambda>r. P r \<and> \<not> Q r) t"
  by (simp add: sql_count_def sql_delete_def conj_commute)

lemma sql_count_mono: "(\<And>r. r \<in> set t \<Longrightarrow> P r \<Longrightarrow> Q r) \<Longrightarrow> sql_count P t \<le> sql_count Q t"
  by (simp add: sql_count_def length_filter_mono)

subsection \<open>The interface of a keyed table\<close>

text \<open>
  What a client of a table with a primary key may rely on: \<open>get\<close> after \<open>put\<close> and
  \<open>del\<close>, and that both keep the key unique. The catalog's and the work queue's tables are
  interpretations of it.
\<close>

locale keyed_table =
  fixes key :: "'r \<Rightarrow> 'k"
    and get :: "'k \<Rightarrow> 'r list \<Rightarrow> 'r option"
    and put :: "'r \<Rightarrow> 'r list \<Rightarrow> 'r list"
    and del :: "'k \<Rightarrow> 'r list \<Rightarrow> 'r list"
    and wf :: "'r list \<Rightarrow> bool"
  assumes get_put: "get k (put r t) = (if k = key r then Some r else get k t)"
    and get_del: "get k (del k' t) = (if k = k' then None else get k t)"
    and wf_put: "wf t \<Longrightarrow> wf (put r t)"
    and wf_del: "wf t \<Longrightarrow> wf (del k t)"
    and wf_empty: "wf []"
    and get_empty: "get k [] = None"
begin

definition abs :: "'r list \<Rightarrow> 'k \<rightharpoonup> 'r" where
  "abs t = (\<lambda>k. get k t)"

lemma abs_put: "abs (put r t) = (abs t)(key r \<mapsto> r)"
  by (auto simp: abs_def get_put)

lemma abs_del: "abs (del k t) = (abs t)(k := None)"
  by (auto simp: abs_def get_del)

lemma put_last_wins: "abs (put r (put r' t)) = (if key r = key r' then abs (put r t)
    else (abs t)(key r' \<mapsto> r', key r \<mapsto> r))"
  by (auto simp: abs_put)

lemma get_fold_put:
  "get k (fold put rs t) = (case find (\<lambda>r. key r = k) (rev rs) of None \<Rightarrow> get k t | Some r \<Rightarrow> Some r)"
proof (induction rs arbitrary: t)
  case (Cons r rs)
  then show ?case by (auto simp: find_append get_put split: option.splits)
qed simp

lemma wf_fold_put: "wf t \<Longrightarrow> wf (fold put rs t)"
  by (induction rs arbitrary: t) (auto intro: wf_put)

end

lemma keyed_table_sql:
  "keyed_table key (sql_get key) (insert_or_replace key) (\<lambda>k. sql_delete (\<lambda>r. key r = k)) (pk key)"
  by unfold_locales
    (auto simp: sql_get_replace sql_get_delete_key)

end
