(* ===== verification/Cidutil.thy ===== *)
theory Cidutil
  imports Prelude
begin

unbundle bit_operations_syntax

text \<open>
  \<open>observer/cidutil.py\<close>: decoding of textual CIDs (base58 for CIDv0 and multibase \<open>z\<close>,
  base32 for \<open>b\<close> and \<open>B\<close>, base16 for \<open>f\<close> and \<open>F\<close>), the varint reader, and the
  check that a block's bytes are the ones its CID addresses. The decoders of Python's standard
  library (\<open>int.to_bytes\<close>, \<open>base64.b32decode\<close>, \<open>bytes.fromhex\<close>) are written out; the
  SHA-256 digest is an argument of \<open>verify_block\<close>. A byte string with a read position is
  modelled by the bytes that are left.
\<close>

section \<open>Positional notation\<close>

text \<open>Most significant digit first, without leading zeros (\<open>int.to_bytes\<close> with the least length).\<close>

fun be_digits :: "nat \<Rightarrow> nat \<Rightarrow> nat list" where
  "be_digits b n = (if n = 0 \<or> b < 2 then [] else be_digits b (n div b) @ [n mod b])"

declare be_digits.simps [simp del]

definition to_bytes :: "nat \<Rightarrow> bytes" where
  "to_bytes n = map of_nat (be_digits 256 n)"

text \<open>\<open>n.to_bytes(k, "big")\<close> for \<open>n < 256 ^ k\<close>.\<close>

fun be_fixed :: "nat \<Rightarrow> nat \<Rightarrow> bytes" where
  "be_fixed 0 n = []"
| "be_fixed (Suc k) n = be_fixed k (n div 256) @ [of_nat (n mod 256)]"

text \<open>\<open>int.from_bytes(raw, "big")\<close> in any base.\<close>

definition be_value :: "nat \<Rightarrow> nat list \<Rightarrow> nat" where
  "be_value b ds = foldl (\<lambda>n d. n * b + d) 0 ds"

definition from_bytes :: "bytes \<Rightarrow> nat" where
  "from_bytes raw = be_value 256 (map unat raw)"

fun index_in :: "'a list \<Rightarrow> 'a \<Rightarrow> nat option" where
  "index_in [] x = None"
| "index_in (y # ys) x = (if x = y then Some 0 else map_option Suc (index_in ys x))"

section \<open>Base 58, base 32, base 16\<close>

definition B58_ALPHABET :: string where
  "B58_ALPHABET = ''123456789ABCDEFGHJKLMNPQRSTUVWXYZabcdefghijkmnopqrstuvwxyz''"

definition B58_INDEX :: "char \<Rightarrow> nat option" where
  "B58_INDEX c = index_in B58_ALPHABET c"

fun b58_number :: "nat \<Rightarrow> string \<Rightarrow> nat res" where
  "b58_number num [] = Inr num"
| "b58_number num (ch # s) =
     (case B58_INDEX ch of None \<Rightarrow> Inl KeyError | Some i \<Rightarrow> b58_number (num * 58 + i) s)"

definition b58decode :: "string \<Rightarrow> bytes res" where
  "b58decode s =
     (case b58_number 0 s of
        Inl e \<Rightarrow> Inl e
      | Inr num \<Rightarrow>
          Inr (replicate (length s - length (py_lstrip (\<lambda>c. c = CHR ''1'') s)) 0 @ to_bytes num))"

text \<open>\<open>base64.b32decode\<close> without \<open>casefold\<close>: the quanta of eight letters, then the padding.\<close>

definition B32_ALPHABET :: string where
  "B32_ALPHABET = ''ABCDEFGHIJKLMNOPQRSTUVWXYZ234567''"

fun b32_acc :: "nat \<Rightarrow> string \<Rightarrow> nat res" where
  "b32_acc acc [] = Inr acc"
| "b32_acc acc (c # s) =
     (case index_in B32_ALPHABET c of None \<Rightarrow> Inl ValueError | Some v \<Rightarrow> b32_acc (acc * 32 + v) s)"

function b32_quanta :: "string \<Rightarrow> bytes \<Rightarrow> nat \<Rightarrow> (bytes \<times> nat) res" where
  "b32_quanta s decoded acc =
     (if s = [] then Inr (decoded, acc)
      else case b32_acc 0 (take 8 s) of
          Inl e \<Rightarrow> Inl e
        | Inr acc' \<Rightarrow> b32_quanta (drop 8 s) (decoded @ be_fixed 5 acc') acc')"
  by pat_completeness auto
termination
  by (relation "measure (\<lambda>(s, d, a). length s)") auto

declare b32_quanta.simps [simp del]

definition b32decode :: "string \<Rightarrow> bytes res" where
  "b32decode s =
     (if list_ex (\<lambda>c. 127 < (of_char c :: nat)) s then Inl ValueError
      else if length s mod 8 \<noteq> 0 then Inl ValueError
      else
        let t = py_rstrip (\<lambda>c. c = CHR ''='') s; padchars = length s - length t in
        case b32_quanta t [] 0 of
          Inl e \<Rightarrow> Inl e
        | Inr (decoded, acc) \<Rightarrow>
            if padchars \<notin> {0, 1, 3, 4, 6} then Inl ValueError
            else if padchars \<noteq> 0 \<and> decoded \<noteq> [] then
              Inr (take (length decoded - 5) decoded
                   @ take ((43 - 5 * padchars) div 8) (be_fixed 5 (acc * 2 ^ (5 * padchars))))
            else Inr decoded)"

definition hexval :: "char \<Rightarrow> nat option" where
  "hexval c = index_in ''0123456789abcdef'' (lower_char c)"

text \<open>\<open>bytes.fromhex\<close>: pairs of hex digits, ASCII white space allowed between the pairs.\<close>

fun fromhex :: "string \<Rightarrow> bytes res" where
  "fromhex [] = Inr []"
| "fromhex (c # s) =
     (if (of_char c :: nat) \<in> {9, 10, 11, 12, 13, 32} then fromhex s
      else case s of
          [] \<Rightarrow> Inl ValueError
        | d # s' \<Rightarrow>
            (case (hexval c, hexval d) of
               (Some h, Some l) \<Rightarrow>
                 (case fromhex s' of Inl e \<Rightarrow> Inl e | Inr bs \<Rightarrow> Inr (of_nat (h * 16 + l) # bs))
             | _ \<Rightarrow> Inl ValueError))"

section \<open>Varints\<close>

text \<open>\<open>_read_varint\<close>: seven bits per byte, least significant first; at most ten bytes.\<close>

fun read_varint_loop :: "bytes \<Rightarrow> nat \<Rightarrow> nat \<Rightarrow> (nat \<times> bytes) res" where
  "read_varint_loop [] result shift = Inl ValueError"
| "read_varint_loop (b # data) result shift =
     (let result' = result OR push_bit shift (unat (b AND 0x7F))
      in if b AND 0x80 = 0 then Inr (result', data)
         else if shift + 7 > 63 then Inl ValueError
         else read_varint_loop data result' (shift + 7))"

definition read_varint :: "bytes \<Rightarrow> (nat \<times> bytes) res" where
  "read_varint data = read_varint_loop data 0 0"

section \<open>CIDs\<close>

record cid_info =
  ci_version :: nat
  ci_codec :: string
  ci_codec_code :: nat
  ci_mh_code :: nat
  ci_digest :: bytes

definition SHA2_256 :: nat where "SHA2_256 = 0x12"
definition IDENTITY :: nat where "IDENTITY = 0x00"

definition hex_nat :: "nat \<Rightarrow> string" where
  "hex_nat n = (if n = 0 then ''0'' else map (\<lambda>d. ''0123456789abcdef'' ! d) (be_digits 16 n))"

definition CODECS :: "nat \<Rightarrow> string" where
  "CODECS code =
     (if code = 0x55 then ''raw''
      else if code = 0x70 then ''dag-pb''
      else if code = 0x71 then ''dag-cbor''
      else if code = 0x0129 then ''dag-json''
      else if code = 0x72 then ''libp2p-key''
      else if code = 0x0200 then ''json''
      else ''codec-0x'' @ hex_nat code)"

text \<open>The binary form of a CIDv1, after multibase decoding; every exception gives None.\<close>

definition decode_v1 :: "bytes \<Rightarrow> cid_info option" where
  "decode_v1 data =
     (case read_varint data of
        Inl e \<Rightarrow> None
      | Inr (version, d1) \<Rightarrow>
          if version \<noteq> 1 then None
          else (case read_varint d1 of
              Inl e \<Rightarrow> None
            | Inr (codec_code, d2) \<Rightarrow>
                (case read_varint d2 of
                   Inl e \<Rightarrow> None
                 | Inr (mh_code, d3) \<Rightarrow>
                     (case read_varint d3 of
                        Inl e \<Rightarrow> None
                      | Inr (mh_len, d4) \<Rightarrow>
                          let digest = take mh_len d4 in
                          if mh_len = 0 \<or> length digest \<noteq> mh_len then None
                          else Some \<lparr>ci_version = 1, ci_codec = CODECS codec_code,
                                     ci_codec_code = codec_code, ci_mh_code = mh_code,
                                     ci_digest = digest\<rparr>))))"

definition decode_v0 :: "bytes \<Rightarrow> cid_info option" where
  "decode_v0 mh =
     (case mh of
        m0 # m1 # rest \<Rightarrow>
          if unat m0 \<noteq> SHA2_256 then None
          else let digest = take (unat m1) rest in
            if length digest \<noteq> unat m1 then None
            else Some \<lparr>ci_version = 0, ci_codec = ''dag-pb'', ci_codec_code = 0x70,
                       ci_mh_code = SHA2_256, ci_digest = digest\<rparr>
      | _ \<Rightarrow> None)"

definition b32_pad :: "string \<Rightarrow> string" where
  "b32_pad rest = replicate (nat (- int (length rest) mod 8)) (CHR ''='')"

text \<open>\<open>base64.b32decode(rest.upper() + pad)\<close>.\<close>

definition b32_untext :: "string \<Rightarrow> bytes res" where
  "b32_untext rest = b32decode (py_upper rest @ b32_pad rest)"

definition res_decode :: "(bytes \<Rightarrow> cid_info option) \<Rightarrow> bytes res \<Rightarrow> cid_info option" where
  "res_decode f r = (case r of Inl e \<Rightarrow> None | Inr data \<Rightarrow> f data)"

definition decode_cid :: "cid \<Rightarrow> cid_info option" where
  "decode_cid cid =
     (case cid of
        [] \<Rightarrow> None
      | prefix # rest \<Rightarrow>
          if length cid = 46 \<and> py_startswith cid ''Qm'' then res_decode decode_v0 (b58decode cid)
          else if prefix = CHR ''b'' then
            res_decode decode_v1 (b32_untext rest)
          else if prefix = CHR ''B'' then res_decode decode_v1 (b32decode (rest @ b32_pad rest))
          else if prefix = CHR ''z'' then res_decode decode_v1 (b58decode rest)
          else if prefix = CHR ''f'' \<or> prefix = CHR ''F'' then res_decode decode_v1 (fromhex rest)
          else None)"

definition valid :: "cid \<Rightarrow> bool" where
  "valid cid = (case decode_cid cid of None \<Rightarrow> False | Some parsed \<Rightarrow> ci_digest parsed \<noteq> [])"

definition codec_of :: "cid \<Rightarrow> string" where
  "codec_of cid = (case decode_cid cid of None \<Rightarrow> ''unknown'' | Some parsed \<Rightarrow> ci_codec parsed)"

definition verify_block :: "(bytes \<Rightarrow> bytes) \<Rightarrow> cid \<Rightarrow> bytes option \<Rightarrow> bool" where
  "verify_block sha256 cid data =
     (case data of
        None \<Rightarrow> False
      | Some d \<Rightarrow>
          (case decode_cid cid of
             None \<Rightarrow> False
           | Some parsed \<Rightarrow>
               if ci_mh_code parsed = SHA2_256 then sha256 d = ci_digest parsed
               else if ci_mh_code parsed = IDENTITY then d = ci_digest parsed
               else False))"

section \<open>Lemmas on positional notation\<close>

text \<open>Fixed-width digits; \<open>be_fixed\<close> is base 256 of it.\<close>

fun dig_fixed :: "nat \<Rightarrow> nat \<Rightarrow> nat \<Rightarrow> nat list" where
  "dig_fixed b 0 n = []"
| "dig_fixed b (Suc k) n = dig_fixed b k (n div b) @ [n mod b]"

lemma be_fixed_dig: "be_fixed k n = map of_nat (dig_fixed 256 k n)"
  by (induction k arbitrary: n) auto

lemma length_dig_fixed [simp]: "length (dig_fixed b k n) = k"
  by (induction k arbitrary: n) auto

lemma length_be_fixed [simp]: "length (be_fixed k n) = k"
  by (simp add: be_fixed_dig)

lemma be_fixed_eq_Nil [simp]: "be_fixed k n = [] \<longleftrightarrow> k = 0"
  by (metis length_0_conv length_be_fixed)

lemma dig_fixed_add: "dig_fixed b (k + m) n = dig_fixed b k (n div b ^ m) @ dig_fixed b m n"
proof (induction m arbitrary: n)
  case (Suc m)
  have "dig_fixed b (k + Suc m) n = dig_fixed b (k + m) (n div b) @ [n mod b]" by simp
  also have "\<dots> = dig_fixed b k (n div b ^ Suc m) @ dig_fixed b m (n div b) @ [n mod b]"
    by (simp add: Suc.IH div_mult2_eq)
  finally show ?case by simp
qed simp

lemma dig_fixed_Suc_front:
  "dig_fixed b (Suc k) n = ((n div b ^ k) mod b) # dig_fixed b k n"
  using dig_fixed_add [of b 1 k n] by simp

lemma dig_fixed_mod: "0 < b \<Longrightarrow> dig_fixed b k (n mod b ^ k) = dig_fixed b k n"
proof (induction k arbitrary: n)
  case (Suc k)
  have "(n mod b ^ Suc k) div b = (n div b) mod b ^ k"
    using Suc.prems by (simp add: mod_mult2_eq)
  moreover have "(n mod b ^ Suc k) mod b = n mod b"
    by (simp add: mod_mult2_eq)
  ultimately show ?case using Suc by simp
qed simp

lemma dig_fixed_less: "0 < b \<Longrightarrow> d \<in> set (dig_fixed b k n) \<Longrightarrow> d < b"
  by (induction k arbitrary: n) auto

lemma be_value_snoc [simp]: "be_value b (ds @ [d]) = be_value b ds * b + d"
  by (simp add: be_value_def)

lemma be_value_Nil [simp]: "be_value b [] = 0"
  by (simp add: be_value_def)

lemma be_value_foldl: "foldl (\<lambda>n d. n * b + d) a ds = a * b ^ length ds + be_value b ds"
proof (induction ds rule: rev_induct)
  case (snoc d ds)
  then show ?case by (simp add: algebra_simps)
qed (simp add: be_value_def)

lemma be_value_append: "be_value b (xs @ ys) = be_value b xs * b ^ length ys + be_value b ys"
  using be_value_foldl [of b "be_value b xs" ys] by (simp add: be_value_def)

lemma be_value_Cons: "be_value b (d # ds) = d * b ^ length ds + be_value b ds"
  using be_value_append [of b "[d]" ds] by (simp add: be_value_def)

lemma be_value_less: "\<forall>d\<in>set ds. d < b \<Longrightarrow> be_value b ds < b ^ length ds"
proof (induction ds rule: rev_induct)
  case (snoc d ds)
  then have "be_value b ds + 1 \<le> b ^ length ds" and "d < b" by auto
  then have "(be_value b ds + 1) * b \<le> b ^ length ds * b" by (intro mult_le_mono1)
  with \<open>d < b\<close> show ?case by (simp add: algebra_simps)
qed simp

lemma be_value_dig_fixed: "0 < b \<Longrightarrow> be_value b (dig_fixed b k n) = n mod b ^ k"
proof (induction k arbitrary: n)
  case (Suc k)
  then show ?case by (simp add: mod_mult2_eq mult.commute)
qed simp

lemma dig_fixed_be_value: "\<forall>d\<in>set ds. d < b \<Longrightarrow> dig_fixed b (length ds) (be_value b ds) = ds"
proof (induction ds rule: rev_induct)
  case (snoc d ds)
  then have "d < b" by simp
  then show ?case using snoc by simp
qed simp

lemma be_digits_step: "1 < b \<Longrightarrow> be_digits b (n * b + d) =
    (if n = 0 \<and> d = 0 then [] else be_digits b n @ [d])" if "d < b"
  using that by (subst be_digits.simps) auto

lemma be_digits_0 [simp]: "be_digits b 0 = []"
  by (subst be_digits.simps) simp

lemma be_digits_be_value:
  "1 < b \<Longrightarrow> \<forall>d\<in>set ds. d < b \<Longrightarrow> be_digits b (be_value b ds) = dropWhile (\<lambda>d. d = 0) ds"
proof (induction ds rule: rev_induct)
  case (snoc d ds)
  then have IH: "be_digits b (be_value b ds) = dropWhile (\<lambda>d. d = 0) ds" and "d < b" by auto
  have "be_value b ds = 0 \<longleftrightarrow> (\<forall>x\<in>set ds. x = 0)"
  proof
    assume "be_value b ds = 0"
    with IH have "dropWhile (\<lambda>d. d = 0) ds = []" by simp
    then show "\<forall>x\<in>set ds. x = 0" by simp
  next
    assume "\<forall>x\<in>set ds. x = 0"
    then show "be_value b ds = 0"
      by (induction ds rule: rev_induct) auto
  qed
  with IH \<open>d < b\<close> snoc.prems(1) show ?case
    by (auto simp: be_digits_step dropWhile_append)
qed simp

lemma be_value_be_digits: "1 < b \<Longrightarrow> be_value b (be_digits b n) = n"
proof (induction n rule: less_induct)
  case (less n)
  then show ?case
  proof (cases "n = 0")
    case False
    with less show ?thesis by (subst be_digits.simps) auto
  qed simp
qed

lemma be_digits_less: "1 < b \<Longrightarrow> d \<in> set (be_digits b n) \<Longrightarrow> d < b"
proof (induction n rule: less_induct)
  case (less n)
  then show ?case
  proof (cases "n = 0")
    case False
    have "be_digits b n = be_digits b (n div b) @ [n mod b]"
      using False less.prems(1) by (subst be_digits.simps) auto
    with less.prems False less.IH [of "n div b"] show ?thesis by auto
  qed simp
qed

lemma be_digits_no_leading_zero: "1 < b \<Longrightarrow> dropWhile (\<lambda>d. d = 0) (be_digits b n) = be_digits b n"
  using be_digits_be_value [of b "be_digits b n"] be_digits_less [of b]
  by (simp add: be_value_be_digits)

lemma index_in_nth: "distinct xs \<Longrightarrow> i < length xs \<Longrightarrow> index_in xs (xs ! i) = Some i"
proof (induction xs arbitrary: i)
  case (Cons x xs)
  then show ?case by (cases i) auto
qed simp

lemma index_in_Some: "index_in xs x = Some i \<Longrightarrow> i < length xs \<and> xs ! i = x"
  by (induction xs arbitrary: i) (auto split: if_splits)

section \<open>Base 58 and base 32 decode positionally\<close>

lemma B58_length [simp]: "length B58_ALPHABET = 58"
  by (simp add: B58_ALPHABET_def)

lemma B58_INDEX_nth: "d < 58 \<Longrightarrow> B58_INDEX (B58_ALPHABET ! d) = Some d"
  unfolding B58_INDEX_def by (rule index_in_nth) (simp_all add: B58_ALPHABET_def)

lemma b58_number_digits:
  "\<forall>d\<in>set ds. d < 58 \<Longrightarrow>
   b58_number n (map (\<lambda>d. B58_ALPHABET ! d) ds) = Inr (foldl (\<lambda>n d. n * 58 + d) n ds)"
  by (induction ds arbitrary: n) (auto simp: B58_INDEX_nth)

lemma B58_ALPHABET_one: "d < 58 \<Longrightarrow> B58_ALPHABET ! d = CHR ''1'' \<longleftrightarrow> d = 0"
proof
  assume "d < 58" and "B58_ALPHABET ! d = CHR ''1''"
  then have "Some d = B58_INDEX (CHR ''1'')" using B58_INDEX_nth [of d] by simp
  then show "d = 0" by (simp add: B58_INDEX_def B58_ALPHABET_def)
qed (simp add: B58_ALPHABET_def)

lemma dropWhile_map: "dropWhile P (map f xs) = map f (dropWhile (\<lambda>x. P (f x)) xs)"
  by (induction xs) auto

lemma takeWhile_replicate_dropWhile:
  "replicate (length xs - length (dropWhile (\<lambda>x. x = z) xs)) z @ dropWhile (\<lambda>x. x = z) xs = xs"
proof (induction xs)
  case (Cons x xs)
  have "length (dropWhile (\<lambda>x. x = z) xs) \<le> length xs" by (rule length_dropWhile_le)
  with Cons show ?case by (auto simp: Suc_diff_le)
qed simp

text \<open>A string of base-58 digits decodes to leading zero bytes and the number's bytes.\<close>

lemma b58decode_digits:
  assumes "\<forall>d\<in>set ds. d < 58" and "dropWhile (\<lambda>d. d = 0) ds = ds"
  shows "b58decode (replicate k (CHR ''1'') @ map (\<lambda>d. B58_ALPHABET ! d) ds)
       = Inr (replicate k 0 @ to_bytes (be_value 58 ds))"
proof -
  let ?s = "map (\<lambda>d. B58_ALPHABET ! d) ds"
  have "dropWhile (\<lambda>c. c = CHR ''1'') ?s = ?s"
  proof (cases ds)
    case (Cons d ds')
    with assms have "d < 58" "d \<noteq> 0" by (auto split: if_splits dest: arg_cong [where f = length])
      (metis impossible_Cons length_dropWhile_le)
    with Cons show ?thesis by (simp add: B58_ALPHABET_one)
  qed simp
  then have "dropWhile (\<lambda>c. c = CHR ''1'') (replicate k (CHR ''1'') @ ?s) = ?s"
    by (induction k) auto
  moreover have "b58_number 0 (replicate k (CHR ''1'') @ ?s) = Inr (be_value 58 ds)"
  proof (induction k)
    case 0
    then show ?case using assms(1) by (simp add: b58_number_digits be_value_def)
  next
    case (Suc k)
    have "B58_INDEX (CHR ''1'') = Some 0" by (simp add: B58_INDEX_def B58_ALPHABET_def)
    with Suc show ?case by simp
  qed
  ultimately show ?thesis by (simp add: b58decode_def py_lstrip_def)
qed

lemma B32_length [simp]: "length B32_ALPHABET = 32"
  by (simp add: B32_ALPHABET_def)

abbreviation b32_letters :: "nat list \<Rightarrow> string" where
  "b32_letters ds \<equiv> map (\<lambda>d. B32_ALPHABET ! d) ds"

lemma b32_acc_digits:
  "\<forall>d\<in>set ds. d < 32 \<Longrightarrow> b32_acc a (b32_letters ds) = Inr (foldl (\<lambda>n d. n * 32 + d) a ds)"
proof (induction ds arbitrary: a)
  case (Cons d ds)
  then have "index_in B32_ALPHABET (B32_ALPHABET ! d) = Some d"
    by (intro index_in_nth) (simp_all add: B32_ALPHABET_def)
  with Cons show ?case by simp
qed simp

lemma b32_acc_value: "\<forall>d\<in>set ds. d < 32 \<Longrightarrow> b32_acc 0 (b32_letters ds) = Inr (be_value 32 ds)"
  by (simp add: b32_acc_digits be_value_def)

lemma be_fixed_add: "be_fixed (k + m) n = be_fixed k (n div 256 ^ m) @ be_fixed m n"
  by (simp add: be_fixed_dig dig_fixed_add)

lemma be_fixed_mod: "be_fixed k (n mod 256 ^ k) = be_fixed k n"
  by (simp add: be_fixed_dig dig_fixed_mod)

lemma b32_quanta_step:
  "s \<noteq> [] \<Longrightarrow> b32_acc 0 (take 8 s) = Inr a \<Longrightarrow>
   b32_quanta s dec acc = b32_quanta (drop 8 s) (dec @ be_fixed 5 a) a"
  by (subst b32_quanta.simps) simp

text \<open>The full quanta give the big-endian bytes; a partial one is left in the accumulator.\<close>

lemma b32_quanta_digits:
  assumes "\<forall>d\<in>set ds. d < 32" "\<forall>d\<in>set es. d < 32" "length ds = 8 * q" "length es < 8"
  shows "\<exists>a. b32_quanta (b32_letters (ds @ es)) dec acc =
     Inr (dec @ be_fixed (5 * q) (be_value 32 ds) @ (if es = [] then [] else be_fixed 5 (be_value 32 es)),
          if es = [] then a else be_value 32 es)"
  using assms
proof (induction q arbitrary: ds dec acc)
  case 0
  then have ds: "ds = []" by simp
  show ?case
  proof (cases "es = []")
    case True
    with ds show ?thesis by (subst b32_quanta.simps) simp
  next
    case False
    have "b32_quanta (b32_letters es) dec acc
        = b32_quanta (drop 8 (b32_letters es)) (dec @ be_fixed 5 (be_value 32 es)) (be_value 32 es)"
      by (rule b32_quanta_step) (use False 0 in \<open>simp_all add: b32_acc_value\<close>)
    with 0 ds False show ?thesis by (simp add: b32_quanta.simps [of "[]"])
  qed
next
  case (Suc q)
  define xs ys where "xs = take 8 ds" and "ys = drop 8 ds"
  have ds: "ds = xs @ ys" and len: "length xs = 8" "length ys = 8 * q"
    using Suc.prems(3) by (simp_all add: xs_def ys_def)
  have lt: "\<forall>d\<in>set xs. d < 32" "\<forall>d\<in>set ys. d < 32" using Suc.prems(1) ds by auto
  let ?v = "be_value 32 xs" and ?w = "be_value 32 ys"
  have "b32_quanta (b32_letters (ds @ es)) dec acc
      = b32_quanta (drop 8 (b32_letters (ds @ es))) (dec @ be_fixed 5 ?v) ?v"
    by (rule b32_quanta_step) (use ds len lt in \<open>auto simp: b32_acc_value\<close>)
  also have "drop 8 (b32_letters (ds @ es)) = b32_letters (ys @ es)"
    using ds len by simp
  finally have step: "b32_quanta (b32_letters (ds @ es)) dec acc
      = b32_quanta (b32_letters (ys @ es)) (dec @ be_fixed 5 ?v) ?v" .
  have "?w < 32 ^ (8 * q)" using be_value_less [of ys 32] lt len by simp
  then have "?w < 256 ^ (5 * q)" by (simp add: power_mult)
  then have "be_fixed (5 * q) (?v * 256 ^ (5 * q) + ?w) = be_fixed (5 * q) ?w"
    using be_fixed_mod [of "5 * q" "?v * 256 ^ (5 * q) + ?w"] by simp
  moreover have "(?v * 256 ^ (5 * q) + ?w) div 256 ^ (5 * q) = ?v"
    using \<open>?w < 256 ^ (5 * q)\<close> by simp
  moreover have "be_value 32 ds = ?v * 256 ^ (5 * q) + ?w"
    by (simp add: ds be_value_append len power_mult)
  ultimately have "be_fixed (5 * Suc q) (be_value 32 ds) = be_fixed 5 ?v @ be_fixed (5 * q) ?w"
    using be_fixed_add [of 5 "5 * q" "be_value 32 ds"] by simp
  with step Suc.IH [OF lt(2) Suc.prems(2) len(2) Suc.prems(4), of "dec @ be_fixed 5 ?v" ?v]
  show ?case by simp
qed

lemma b32_pad_length: "b32_pad s = replicate ((8 - length s mod 8) mod 8) (CHR ''='')"
proof -
  have "nat (- int n mod 8) = (8 - n mod 8) mod 8" for n
  proof -
    have m: "int n mod 8 = int (n mod 8)" by (simp add: zmod_int)
    have "- int n mod 8 = (if n mod 8 = 0 then 0 else 8 - int (n mod 8))"
      by (simp only: zmod_zminus1_eq_if m) simp
    then show ?thesis by simp arith
  qed
  then show ?thesis by (simp add: b32_pad_def)
qed

lemma pad_to_multiple: "(n + (8 - n mod 8) mod 8) mod 8 = (0::nat)"
proof -
  have "(n + (8 - n mod 8) mod 8) mod 8 = (n mod 8 + (8 - n mod 8)) mod 8"
    by (simp only: mod_simps)
  also have "n mod 8 + (8 - n mod 8) = 8" using mod_less_divisor [of 8 n] by linarith
  finally show ?thesis by simp
qed

lemma byte_less: "unat (b :: byte) < 256"
  using unsigned_less [of b] by simp

lemma b32_letter_ascii: "d < 32 \<Longrightarrow> (of_char (B32_ALPHABET ! d) :: nat) \<le> 127"
proof -
  assume "d < 32"
  then have "B32_ALPHABET ! d \<in> set B32_ALPHABET" by (intro nth_mem) simp
  moreover have "\<forall>c\<in>set B32_ALPHABET. (of_char c :: nat) \<le> 127" by (simp add: B32_ALPHABET_def)
  ultimately show ?thesis by blast
qed

lemma b32_letter_not_pad: "d < 32 \<Longrightarrow> B32_ALPHABET ! d \<noteq> CHR ''=''"
proof -
  assume "d < 32"
  then have "B32_ALPHABET ! d \<in> set B32_ALPHABET" by (intro nth_mem) simp
  moreover have "CHR ''='' \<notin> set B32_ALPHABET" by (simp add: B32_ALPHABET_def)
  ultimately show ?thesis by metis
qed

lemma rstrip_replicate: "(\<And>c. c \<in> set s \<Longrightarrow> \<not> P c) \<Longrightarrow> P x \<Longrightarrow> py_rstrip P (s @ replicate k x) = s"
proof -
  assume *: "\<And>c. c \<in> set s \<Longrightarrow> \<not> P c" "P x"
  have "dropWhile P (replicate k x @ rev s) = dropWhile P (rev s)"
    using *(2) by (induction k) auto
  also have "\<dots> = rev s" using *(1) by (cases "rev s") auto
  finally show ?thesis by (simp add: py_rstrip_def)
qed

text \<open>The last, partial quantum: \<open>r\<close> letters carry \<open>lo\<close> bytes and \<open>s\<close> spare bits.\<close>

lemma b32_tail:
  assumes "(r, pad, lo, s) \<in> {(2, 6, 1, 2), (4, 4, 2, 4), (5, 3, 3, 1), (7, 1, 4, 3 :: nat)}"
    and "v < (32 :: nat) ^ r"
  shows "be_fixed (5 * q) w @ take lo (be_fixed 5 (v * 2 ^ (5 * pad)))
       = be_fixed (5 * q + lo) ((w * 32 ^ r + v) div 2 ^ s)"
proof -
  have p: "(32 :: nat) ^ r = 2 ^ s * 256 ^ lo" "5 = lo + (5 - lo)" "(2 :: nat) ^ (5 * pad) > 0"
    "(256 :: nat) ^ (5 - lo) = 2 ^ s * 2 ^ (5 * pad)"
    using assms(1) by auto
  have "take lo (be_fixed 5 n) = be_fixed lo (n div 256 ^ (5 - lo))" for n
    using be_fixed_add [of lo "5 - lo" n] p(2) by simp
  then have tk: "take lo (be_fixed 5 (v * 2 ^ (5 * pad))) = be_fixed lo (v div 2 ^ s)"
    using p(3,4) by simp
  let ?n = "(w * 32 ^ r + v) div 2 ^ s"
  have n: "?n = w * 256 ^ lo + v div 2 ^ s"
  proof -
    have "w * 32 ^ r + v = v + (w * 256 ^ lo) * 2 ^ s" by (simp add: p(1))
    then show ?thesis by (simp only: div_mult_self1 [of "2 ^ s :: nat"]) simp
  qed
  have "v div 2 ^ s < 256 ^ lo"
    using assms(2) p(1) by (metis less_mult_imp_div_less mult.commute)
  then have "?n div 256 ^ lo = w" "?n mod 256 ^ lo = v div 2 ^ s"
    by (simp_all add: n)
  then show ?thesis
    using be_fixed_add [of "5 * q" lo ?n] be_fixed_mod [of lo ?n] tk by simp
qed

text \<open>
  \<open>b32decode\<close> of padded letters is positional: the number the letters spell, less the spare
  low bits, as big-endian bytes.
\<close>

lemma b32decode_digits:
  assumes lt: "\<forall>d\<in>set ds. d < 32" and r: "length ds mod 8 \<in> {0, 2, 4, 5, 7}"
  shows "b32decode (b32_letters ds @ replicate ((8 - length ds mod 8) mod 8) (CHR ''=''))
       = Inr (be_fixed (5 * length ds div 8) (be_value 32 ds div 2 ^ (5 * length ds mod 8)))"
proof -
  let ?N = "length ds" let ?pad = "(8 - ?N mod 8) mod 8"
  let ?s = "b32_letters ds @ replicate ?pad (CHR ''='')"
  define q where "q = ?N div 8"
  define xs es where "xs = take (8 * q) ds" and "es = drop (8 * q) ds"
  have ds: "ds = xs @ es" "length xs = 8 * q" "length es = ?N mod 8"
    by (auto simp: xs_def es_def q_def minus_mult_div_eq_mod)
  have lts: "\<forall>d\<in>set xs. d < 32" "\<forall>d\<in>set es. d < 32" using lt ds(1) by auto
  have ascii: "\<not> list_ex (\<lambda>c. 127 < (of_char c :: nat)) ?s"
    using lt b32_letter_ascii by (fastforce simp: list_ex_iff)
  have len: "length ?s mod 8 = 0" using pad_to_multiple [of ?N] by simp
  have strip: "py_rstrip (\<lambda>c. c = CHR ''='') ?s = b32_letters ds"
    by (rule rstrip_replicate) (use lt b32_letter_not_pad in auto)
  have "length es < 8" using ds(3) by simp
  from b32_quanta_digits [OF lts ds(2) this, of "[]" 0]
  obtain a where quanta: "b32_quanta (b32_letters ds) [] 0 =
      Inr (be_fixed (5 * q) (be_value 32 xs) @ (if es = [] then [] else be_fixed 5 (be_value 32 es)),
           if es = [] then a else be_value 32 es)"
    unfolding ds(1) [symmetric] by auto
  have N: "?N = 8 * q + ?N mod 8" by (simp add: q_def)
  show ?thesis
  proof (cases "es = []")
    case True
    then have "?N mod 8 = 0" using ds(3) by simp
    moreover from this N have "?N = 8 * q" by simp
    ultimately show ?thesis using ascii len strip quanta True ds(1)
      by (simp add: b32decode_def Let_def)
  next
    case False
    then have r': "?N mod 8 \<in> {2, 4, 5, 7}" using r ds(3) by auto
    define lo s where "lo = (43 - 5 * ?pad) div 8" and "s = 5 * ?N mod 8"
    have s: "s = 5 * (?N mod 8) mod 8" by (simp add: s_def mod_mult_right_eq)
    have tup: "(?N mod 8, ?pad, lo, s) \<in> {(2, 6, 1, 2), (4, 4, 2, 4), (5, 3, 3, 1), (7, 1, 4, 3)}"
    proof -
      from r' consider "?N mod 8 = 2" | "?N mod 8 = 4" | "?N mod 8 = 5" | "?N mod 8 = 7" by blast
      then show ?thesis by cases (simp_all only: lo_def s, simp_all)
    qed
    have bytes: "5 * ?N div 8 = 5 * q + lo"
    proof -
      have "5 * ?N = 5 * (?N mod 8) + 8 * (5 * q)" using N by linarith
      then have "5 * ?N div 8 = 5 * (?N mod 8) div 8 + 5 * q" by simp
      moreover have "5 * (?N mod 8) div 8 = lo" using tup by auto
      ultimately show ?thesis by simp
    qed
    have v: "be_value 32 es < 32 ^ (?N mod 8)"
      using be_value_less [OF lts(2)] ds(3) by simp
    have val: "be_value 32 ds = be_value 32 xs * 32 ^ (?N mod 8) + be_value 32 es"
      by (subst ds(1)) (simp only: be_value_append ds(3))
    have "b32decode ?s = Inr (be_fixed (5 * q) (be_value 32 xs)
        @ take lo (be_fixed 5 (be_value 32 es * 2 ^ (5 * ?pad))))"
    proof -
      define pd where "pd = ?pad"
      have pad: "pd \<in> {0, 1, 3, 4, 6}" "pd \<noteq> 0" using tup by (auto simp: pd_def)
      let ?t = "b32_letters ds @ replicate pd (CHR ''='')"
      have facts: "\<not> list_ex (\<lambda>c. 127 < (of_char c :: nat)) ?t" "length ?t mod 8 = 0"
        "py_rstrip (\<lambda>c. c = CHR ''='') ?t = b32_letters ds"
        using ascii len strip unfolding pd_def by auto
      then have "b32decode ?t = Inr (be_fixed (5 * q) (be_value 32 xs)
          @ take ((43 - 5 * pd) div 8) (be_fixed 5 (be_value 32 es * 2 ^ (5 * pd))))"
        using quanta pad False unfolding b32decode_def Let_def by simp
      then show ?thesis unfolding pd_def lo_def .
    qed
    also have "\<dots> = Inr (be_fixed (5 * q + lo) (be_value 32 ds div 2 ^ s))"
      using b32_tail [OF tup v] val by simp
    finally show ?thesis by (simp add: bytes s_def)
  qed
qed

lemma from_bytes_less: "from_bytes raw < 256 ^ length raw"
proof -
  have "\<forall>d\<in>set (map unat raw). d < 256" using byte_less by auto
  then show ?thesis using be_value_less [of "map unat raw" 256] by (simp add: from_bytes_def)
qed

lemma be_fixed_from_bytes: "be_fixed (length raw) (from_bytes raw) = raw"
proof -
  have "\<forall>d\<in>set (map unat raw). d < 256" using byte_less by auto
  then have "dig_fixed 256 (length raw) (from_bytes raw) = map unat raw"
    using dig_fixed_be_value [of "map unat raw" 256] by (simp add: from_bytes_def)
  then show ?thesis by (simp add: be_fixed_dig comp_def)
qed

lemma to_bytes_from_bytes: "to_bytes (from_bytes raw) = dropWhile (\<lambda>b. b = 0) raw"
proof -
  have "\<forall>d\<in>set (map unat raw). d < 256" using byte_less by auto
  then have "be_digits 256 (from_bytes raw) = dropWhile (\<lambda>d. d = 0) (map unat raw)"
    unfolding from_bytes_def by (intro be_digits_be_value) auto
  then show ?thesis by (simp add: to_bytes_def dropWhile_map comp_def unat_eq_zero)
qed

end
