(* ===== verification/Protocol.thy ===== *)
theory Protocol
  imports Cidutil "HOL-Library.List_Lexorder" "HOL-Library.Char_ord"
begin

text \<open>
  \<open>observer/protocol.py\<close>: the JSON values of gossiped messages, their canonical text, the
  payload hash, and signing. Numbers are integers, as in every message of the protocol; an
  object is its list of members in insertion order, with distinct keys. SHA-256 and Ed25519
  (\<open>hashlib\<close>, PyNaCl) are arguments.
\<close>

section \<open>JSON values\<close>

datatype json =
    JNull
  | JBool bool
  | JInt int
  | JStr string
  | JList "json list"
  | JObj "(string \<times> json) list"

text \<open>\<open>obj.get(key)\<close>: None when absent.\<close>

definition jget :: "(string \<times> json) list \<Rightarrow> string \<Rightarrow> json" where
  "jget obj k = (case map_of obj k of None \<Rightarrow> JNull | Some v \<Rightarrow> v)"

fun truthy :: "json \<Rightarrow> bool" where
  "truthy JNull = False"
| "truthy (JBool b) = b"
| "truthy (JInt n) = (n \<noteq> 0)"
| "truthy (JStr s) = (s \<noteq> [])"
| "truthy (JList xs) = (xs \<noteq> [])"
| "truthy (JObj kvs) = (kvs \<noteq> [])"

text \<open>\<open>str()\<close> of an integer.\<close>

definition DIGITS :: string where
  "DIGITS = ''0123456789''"

definition dec_nat :: "nat \<Rightarrow> string" where
  "dec_nat n = (if n = 0 then ''0'' else map (\<lambda>d. DIGITS ! d) (be_digits 10 n))"

definition dec_int :: "int \<Rightarrow> string" where
  "dec_int n = (if n < 0 then CHR ''-'' # dec_nat (nat (- n)) else dec_nat (nat n))"

definition hex2 :: "nat \<Rightarrow> string" where
  "hex2 n = [''0123456789abcdef'' ! (n div 16 mod 16), ''0123456789abcdef'' ! (n mod 16)]"

text \<open>\<open>repr\<close> of a string: double quotes only when it holds a single and no double quote.\<close>

definition repr_char :: "char \<Rightarrow> char \<Rightarrow> string" where
  "repr_char q c =
     (let n = (of_char c :: nat) in
      if c = q \<or> n = 92 then [char_of (92 :: nat), c]
      else if n = 9 then [char_of (92 :: nat), CHR ''t'']
      else if n = 10 then [char_of (92 :: nat), CHR ''n'']
      else if n = 13 then [char_of (92 :: nat), CHR ''r'']
      else if n < 32 \<or> (127 \<le> n \<and> n \<le> 160) \<or> n = 173 then [char_of (92 :: nat), CHR ''x''] @ hex2 n
      else [c])"

definition repr_str :: "string \<Rightarrow> string" where
  "repr_str s =
     (let q = (if char_of (39 :: nat) \<in> set s \<and> char_of (34 :: nat) \<notin> set s
               then char_of (34 :: nat) else char_of (39 :: nat))
      in q # concat (map (repr_char q) s) @ [q])"

fun py_repr :: "json \<Rightarrow> string" where
  "py_repr JNull = ''None''"
| "py_repr (JBool b) = (if b then ''True'' else ''False'')"
| "py_repr (JInt n) = dec_int n"
| "py_repr (JStr s) = repr_str s"
| "py_repr (JList xs) = ''['' @ py_join '', '' (map py_repr xs) @ '']''"
| "py_repr (JObj kvs) = ''{'' @ py_join '', '' (map (\<lambda>(k, v). repr_str k @ '': '' @ py_repr v) kvs) @ ''}''"

definition py_str :: "json \<Rightarrow> string" where
  "py_str j = (case j of JStr s \<Rightarrow> s | _ \<Rightarrow> py_repr j)"

section \<open>Text form\<close>

text \<open>\<open>json.dumps\<close> with \<open>ensure_ascii=False\<close> and no white space.\<close>

definition json_char :: "char \<Rightarrow> string" where
  "json_char c =
     (let n = (of_char c :: nat); bs = char_of (92 :: nat) in
      if n = 34 \<or> n = 92 then [bs, c]
      else if n = 10 then [bs, CHR ''n'']
      else if n = 13 then [bs, CHR ''r'']
      else if n = 9 then [bs, CHR ''t'']
      else if n = 8 then [bs, CHR ''b'']
      else if n = 12 then [bs, CHR ''f'']
      else if n < 32 then [bs, CHR ''u'', CHR ''0'', CHR ''0''] @ hex2 n
      else [c])"

definition json_quote :: "string \<Rightarrow> string" where
  "json_quote s = char_of (34 :: nat) # concat (map json_char s) @ [char_of (34 :: nat)]"

fun dumps :: "json \<Rightarrow> string" where
  "dumps JNull = ''null''"
| "dumps (JBool b) = (if b then ''true'' else ''false'')"
| "dumps (JInt n) = dec_int n"
| "dumps (JStr s) = json_quote s"
| "dumps (JList xs) = ''['' @ py_join '','' (map dumps xs) @ '']''"
| "dumps (JObj kvs) = ''{'' @ py_join '','' (map (\<lambda>(k, v). json_quote k @ '':'' @ dumps v) kvs) @ ''}''"

definition wire_dumps :: "json \<Rightarrow> string" where
  "wire_dumps obj = dumps obj"

fun strip_sig :: "json \<Rightarrow> json"
  and strip_items :: "json list \<Rightarrow> json list"
  and strip_members :: "(string \<times> json) list \<Rightarrow> (string \<times> json) list" where
  "strip_sig (JObj kvs) = JObj (strip_members kvs)"
| "strip_sig (JList xs) = JList (strip_items xs)"
| "strip_sig JNull = JNull"
| "strip_sig (JBool b) = JBool b"
| "strip_sig (JInt n) = JInt n"
| "strip_sig (JStr s) = JStr s"
| "strip_items [] = []"
| "strip_items (x # xs) = strip_sig x # strip_items xs"
| "strip_members [] = []"
| "strip_members ((k, v) # kvs) =
     (if k = ''sig'' then strip_members kvs else (k, strip_sig v) # strip_members kvs)"

text \<open>\<open>sort_keys=True\<close>: the members of every object in the order of their keys.\<close>

fun sort_json :: "json \<Rightarrow> json" where
  "sort_json (JObj kvs) = JObj (sort_key fst (map (\<lambda>(k, v). (k, sort_json v)) kvs))"
| "sort_json (JList xs) = JList (map sort_json xs)"
| "sort_json j = j"

definition canonical_dumps :: "json \<Rightarrow> string" where
  "canonical_dumps obj = dumps (sort_json (strip_sig obj))"

section \<open>Hashes and signatures\<close>

text \<open>\<open>str.encode("utf-8")\<close> of code points below 256.\<close>

definition utf8_char :: "char \<Rightarrow> bytes" where
  "utf8_char c =
     (let n = (of_char c :: nat) in
      if n < 128 then [of_nat n] else [of_nat (192 + n div 64), of_nat (128 + n mod 64)])"

definition utf8_encode :: "string \<Rightarrow> bytes" where
  "utf8_encode s = concat (map utf8_char s)"

text \<open>\<open>bytes.hex()\<close>.\<close>

definition hex_bytes :: "bytes \<Rightarrow> string" where
  "hex_bytes bs = concat (map (\<lambda>b. hex2 (unat b)) bs)"

definition payload_hash :: "(bytes \<Rightarrow> bytes) \<Rightarrow> json \<Rightarrow> string" where
  "payload_hash sha256 obj = hex_bytes (sha256 (utf8_encode (canonical_dumps obj)))"

definition text_sha256 :: "(bytes \<Rightarrow> bytes) \<Rightarrow> string \<Rightarrow> string" where
  "text_sha256 sha256 s = hex_bytes (sha256 (utf8_encode s))"

definition KINDS :: "string list" where
  "KINDS = [''claim'', ''skip'', ''classify'', ''alias'', ''report'']"

definition REPORT_REASONS :: "string list" where
  "REPORT_REASONS = [''wrong'', ''abusive'', ''clear'']"

definition sign :: "('k \<Rightarrow> bytes \<Rightarrow> bytes) \<Rightarrow> (string \<times> json) list \<Rightarrow> 'k \<Rightarrow> (string \<times> json) list" where
  "sign nacl_sign obj signing_key =
     (let body = filter (\<lambda>(k, v). k \<noteq> ''sig'') obj;
          sig = nacl_sign signing_key (utf8_encode (canonical_dumps (JObj body)))
      in body @ [(''sig'', JStr (hex_bytes sig))])"

text \<open>
  \<open>verify\<close>: \<open>mk_key\<close> is the constructor \<open>VerifyKey\<close> (None where it raises), \<open>nacl_verify\<close> its
  check. A signature or public key that is not a string makes \<open>bytes.fromhex\<close> raise
  TypeError, which only the second call is guarded against.
\<close>

definition verify :: "(bytes \<Rightarrow> 'v option) \<Rightarrow> ('v \<Rightarrow> bytes \<Rightarrow> bytes \<Rightarrow> bool) \<Rightarrow>
    (string \<times> json) list \<Rightarrow> 'v option \<Rightarrow> bool res" where
  "verify mk_key nacl_verify obj verify_key =
     (let sig_hex = jget obj ''sig'' in
      if \<not> truthy sig_hex then Inr False
      else case sig_hex of
        JStr s \<Rightarrow>
          (case fromhex s of
             Inl e \<Rightarrow> Inr False
           | Inr sig \<Rightarrow>
               (let check = (\<lambda>key. nacl_verify key (utf8_encode (canonical_dumps (JObj obj))) sig) in
                case verify_key of
                  Some key \<Rightarrow> Inr (check key)
                | None \<Rightarrow>
                    (case jget obj ''pubkey'' of
                       JStr pub \<Rightarrow>
                         if pub = [] then Inr False
                         else (case fromhex pub of
                                 Inl e \<Rightarrow> Inr False
                               | Inr raw \<Rightarrow>
                                   (case mk_key raw of None \<Rightarrow> Inr False | Some key \<Rightarrow> Inr (check key)))
                     | _ \<Rightarrow> Inr False)))
      | _ \<Rightarrow> Inl TypeError)"

section \<open>Lemmas: signing\<close>

lemma strip_members_filter: "strip_members (filter (\<lambda>(k, v). k \<noteq> ''sig'') obj) = strip_members obj"
  by (induction obj) auto

lemma strip_members_append: "strip_members (xs @ ys) = strip_members xs @ strip_members ys"
  by (induction xs) auto

lemma canonical_sign: "canonical_dumps (JObj (sign ns obj k)) = canonical_dumps (JObj obj)"
  by (simp add: canonical_dumps_def sign_def Let_def strip_members_append strip_members_filter)

lemma hexval_hex: "n < 16 \<Longrightarrow> hexval (''0123456789abcdef'' ! n) = Some n"
proof -
  have "list_all (\<lambda>n. hexval (''0123456789abcdef'' ! n) = Some n) [0..<16]" by code_simp
  then show "n < 16 \<Longrightarrow> ?thesis" by (simp add: list_all_iff)
qed

lemma hex_not_space: "n < 16 \<Longrightarrow> (of_char (''0123456789abcdef'' ! n) :: nat) \<notin> {9, 10, 11, 12, 13, 32}"
proof -
  have "list_all (\<lambda>n. (of_char (''0123456789abcdef'' ! n) :: nat) \<notin> {9, 10, 11, 12, 13, 32})
      [0, 1, 2, 3, 4, 5, 6, 7, 8, 9, 10, 11, 12, 13, 14, 15]"
    by simp
  moreover have "[0..<16] = [0, 1, 2, 3, 4, 5, 6, 7, 8, 9, 10, 11, 12, 13, 14, 15]" by code_simp
  ultimately have "list_all (\<lambda>n. (of_char (''0123456789abcdef'' ! n) :: nat) \<notin> {9, 10, 11, 12, 13, 32}) [0..<16]"
    by simp
  then show "n < 16 \<Longrightarrow> ?thesis" by (simp add: list_all_iff)
qed

lemma fromhex_hex: "fromhex (hex_bytes bs) = Inr bs"
proof (induction bs)
  case (Cons b bs)
  have "unat b div 16 < 16" using byte_less [of b] by simp
  moreover have "of_nat (unat b div 16 * 16 + unat b mod 16) = b" by simp
  ultimately show ?case
    using Cons hex_not_space [of "unat b div 16"]
    by (simp add: hex_bytes_def hex2_def hexval_hex del: nth_Cons_0)
qed (simp add: hex_bytes_def)

text \<open>
  A signed message verifies under the public key of its signer: the signature that
  \<open>sign\<close> puts into the message covers the same canonical text that \<open>verify\<close> checks, whatever
  signature the message carried before. What is assumed of PyNaCl is that a signature of a key
  verifies under its public half and is not empty.
\<close>

theorem verify_sign:
  assumes "\<And>k msg. nacl_verify (public k) msg (nacl_sign k msg)"
    and "\<And>k msg. nacl_sign k msg \<noteq> []"
  shows "verify mk_key nacl_verify (sign nacl_sign obj k) (Some (public k)) = Inr True"
proof -
  let ?m = "utf8_encode (canonical_dumps (JObj (filter (\<lambda>(k, v). k \<noteq> ''sig'') obj)))"
  have "map_of (filter (\<lambda>(k, v). k \<noteq> ''sig'') obj) ''sig'' = None"
    by (induction obj) auto
  then have sig: "jget (sign nacl_sign obj k) ''sig'' = JStr (hex_bytes (nacl_sign k ?m))"
    by (simp add: jget_def sign_def Let_def map_add_def)
  have "hex_bytes (nacl_sign k ?m) \<noteq> []"
    using assms(2) [of k ?m] by (auto simp: hex_bytes_def hex2_def)
  moreover have "canonical_dumps (JObj (sign nacl_sign obj k)) = canonical_dumps (JObj (filter (\<lambda>(k, v). k \<noteq> ''sig'') obj))"
    using canonical_sign [of nacl_sign obj k] by (simp add: canonical_dumps_def strip_members_filter)
  ultimately show ?thesis
    using assms(1) by (simp add: verify_def Let_def sig fromhex_hex)
qed

theorem verify_sign_witness:
  "verify (\<lambda>b. Some ()) (\<lambda>_ m s. s = 1 # m) (sign (\<lambda>_ m. 1 # m) [(''kind'', JStr ''skip'')] ()) (Some ()) = Inr True"
  by (rule verify_sign [where public = "\<lambda>_. ()"]) simp_all


section \<open>Lemmas: the canonical text determines the value\<close>

text \<open>The inverse of the escapes that \<open>json_char\<close> writes.\<close>

definition unescape :: "string \<Rightarrow> char \<times> string" where
  "unescape s =
     (case s of
        [] \<Rightarrow> (CHR ''?'', [])
      | a # xs \<Rightarrow>
          if (of_char a :: nat) \<noteq> 92 then (a, xs)
          else (case xs of
                  [] \<Rightarrow> (CHR ''?'', [])
                | e # ys \<Rightarrow>
                    if e = CHR ''n'' then (char_of (10 :: nat), ys)
                    else if e = CHR ''r'' then (char_of (13 :: nat), ys)
                    else if e = CHR ''t'' then (char_of (9 :: nat), ys)
                    else if e = CHR ''b'' then (char_of (8 :: nat), ys)
                    else if e = CHR ''f'' then (char_of (12 :: nat), ys)
                    else if e = CHR ''u'' then
                      (char_of (16 * the (hexval (ys ! 2)) + the (hexval (ys ! 3))), drop 4 ys)
                    else (e, ys)))"

lemma unescape_json_char: "unescape (json_char c @ x) = (c, x)"
proof -
  let ?n = "of_char c :: nat"
  have hx: "hexval (''0123456789abcdef'' ! (?n div 16)) = Some (?n div 16)"
    "hexval (''0123456789abcdef'' ! (?n mod 16)) = Some (?n mod 16)" if "?n < 32"
    using that by (auto intro!: hexval_hex)
  have known: "list_all (\<lambda>n. unescape (json_char (char_of n) @ x) = (char_of n, x)) [34, 92, 10, 13, 9, 8, 12 :: nat]"
    by (simp add: unescape_def json_char_def Let_def char_of_def bit_0)
  consider "?n \<in> set [34, 92, 10, 13, 9, 8, 12]" | "?n < 32" "?n \<notin> {8, 9, 10, 12, 13}"
    | "32 \<le> ?n" "?n \<notin> {34, 92}" by fastforce
  then show ?thesis
  proof cases
    case 1
    then have "unescape (json_char (char_of ?n) @ x) = (char_of ?n, x)"
      using known unfolding list_all_iff by blast
    then show ?thesis by simp
  next
    case 2
    have "json_char c = [char_of (92 :: nat), CHR ''u'', CHR ''0'', CHR ''0''] @ hex2 ?n"
      using 2 by (simp add: json_char_def Let_def)
    moreover have "hex2 ?n = [''0123456789abcdef'' ! (?n div 16), ''0123456789abcdef'' ! (?n mod 16)]"
      using 2 by (simp add: hex2_def)
    ultimately show ?thesis using hx 2 by (simp add: unescape_def)
  next
    case 3
    then have "json_char c = [c]" by (simp add: json_char_def Let_def)
    then show ?thesis using 3 by (simp add: unescape_def)
  qed
qed

lemma json_char_inject: "json_char c @ x = json_char d @ y \<Longrightarrow> c = d \<and> x = y"
  by (metis unescape_json_char prod.inject)

lemma json_char_not_quote: "json_char c = a # s \<Longrightarrow> (of_char a :: nat) \<noteq> 34"
  by (auto simp: json_char_def Let_def split: if_splits)

lemma json_char_not_Nil: "json_char c \<noteq> []"
  by (simp add: json_char_def Let_def)

lemma json_quote_inject: "json_quote s @ x = json_quote t @ y \<Longrightarrow> s = t \<and> x = y"
proof -
  let ?q = "char_of (34 :: nat) :: char" let ?e = "\<lambda>s. concat (map json_char s)"
  have no: "json_char c @ z \<noteq> ?q # w" for c z w
    using json_char_not_Nil [of c] json_char_not_quote [of c] by (cases "json_char c") auto
  have "?e s @ ?q # x = ?e t @ ?q # y \<Longrightarrow> s = t \<and> x = y"
  proof (induction s arbitrary: t)
    case Nil
    then show ?case using no [symmetric] by (cases t) (auto simp: no)
  next
    case (Cons c s)
    show ?case
    proof (cases t)
      case Nil
      then show ?thesis using Cons.prems no [of c "?e s @ ?q # x" y] by simp
    next
      case (Cons d t')
      then show ?thesis using Cons.prems Cons.IH [of t']
          json_char_inject [of c "?e s @ ?q # x" d "?e t' @ ?q # y"] by auto
    qed
  qed
  then show "json_quote s @ x = json_quote t @ y \<Longrightarrow> s = t \<and> x = y"
    by (simp add: json_quote_def)
qed


lemma DIGITS_props: "length DIGITS = 10" "distinct DIGITS" "0 < n \<Longrightarrow> DIGITS ! 0 = CHR ''0''"
  by (simp_all add: DIGITS_def)

definition digit_char :: "char \<Rightarrow> bool" where "digit_char c \<longleftrightarrow> c \<in> set DIGITS"

lemma dec_nat_digits: "c \<in> set (dec_nat n) \<Longrightarrow> digit_char c"
proof -
  have "digit_char (DIGITS ! d)" if "d \<in> set (be_digits 10 n)" for d
    using that be_digits_less [of 10 d n] by (simp add: digit_char_def DIGITS_props)
  then show "c \<in> set (dec_nat n) \<Longrightarrow> digit_char c"
    by (auto simp: dec_nat_def split: if_splits) (simp add: digit_char_def DIGITS_def)
qed

lemma dec_nat_not_Nil: "dec_nat n \<noteq> []"
  by (auto simp: dec_nat_def be_digits.simps)

lemma dec_nat_inject: "dec_nat m = dec_nat n \<Longrightarrow> m = n"
proof -
  let ?ix = "\<lambda>c. the (index_in DIGITS c)"
  have val: "be_value 10 (map ?ix (dec_nat n)) = n" for n
  proof (cases "n = 0")
    case False
    have "map (\<lambda>d. ?ix (DIGITS ! d)) (be_digits 10 n) = be_digits 10 n"
    proof (rule map_idI)
      fix d assume "d \<in> set (be_digits 10 n)"
      then have "d < 10" using be_digits_less [of 10 d n] by simp
      then show "?ix (DIGITS ! d) = d" by (simp add: index_in_nth DIGITS_props)
    qed
    with False show ?thesis by (simp add: dec_nat_def be_value_be_digits o_def)
  qed (simp add: dec_nat_def be_value_def DIGITS_def)
  assume "dec_nat m = dec_nat n"
  then show "m = n" using val by metis
qed

text \<open>What may follow a value: the end, a comma or a closing bracket.\<close>

definition stop :: "string \<Rightarrow> bool" where
  "stop x \<longleftrightarrow> x = [] \<or> hd x = CHR '','' \<or> hd x = CHR '']'' \<or> hd x = CHR ''}''"

lemma sep_not_digit: "\<not> digit_char (CHR '','')" "\<not> digit_char (CHR '']'')" "\<not> digit_char (CHR ''}'')"
  "\<not> digit_char (CHR ''-'')"
  by (simp_all add: digit_char_def DIGITS_def)

lemma dec_nat_prefix: "dec_nat m @ x = dec_nat n @ y \<Longrightarrow> stop x \<Longrightarrow> stop y \<Longrightarrow> m = n \<and> x = y"
proof -
  have tw: "takeWhile digit_char (dec_nat k @ z) = dec_nat k" if "stop z" for k z
    using that dec_nat_digits [of _ k]
    by (cases z) (auto simp: stop_def takeWhile_append sep_not_digit)
  assume "dec_nat m @ x = dec_nat n @ y" "stop x" "stop y"
  then have "dec_nat m = dec_nat n" using tw by metis
  moreover from this have "x = y" using \<open>dec_nat m @ x = dec_nat n @ y\<close> by simp
  ultimately show ?thesis using dec_nat_inject by blast
qed

lemma dec_int_prefix: "dec_int m @ x = dec_int n @ y \<Longrightarrow> stop x \<Longrightarrow> stop y \<Longrightarrow> m = n \<and> x = y"
proof -
  assume eq: "dec_int m @ x = dec_int n @ y" and st: "stop x" "stop y"
  have no: "dec_nat k @ z \<noteq> CHR ''-'' # w" for k z w
  proof -
    obtain a l where dl: "dec_nat k = a # l" using dec_nat_not_Nil [of k] by (cases "dec_nat k") simp_all
    then have "digit_char a" using dec_nat_digits [of a k] by simp
    then show ?thesis unfolding dl using sep_not_digit(4) by auto
  qed
  show ?thesis
  proof (cases "m < 0")
    case True
    have "n < 0"
    proof (rule ccontr)
      assume "\<not> n < 0"
      then have "dec_nat (nat n) @ y = CHR ''-'' # dec_nat (nat (- m)) @ x"
        using True eq by (simp add: dec_int_def)
      then show False using no by blast
    qed
    then show ?thesis
      using True eq st dec_nat_prefix [of "nat (- m)" x "nat (- n)" y] by (auto simp: dec_int_def)
  next
    case False
    have "\<not> n < 0"
    proof
      assume "n < 0"
      then have "dec_nat (nat m) @ x = CHR ''-'' # dec_nat (nat (- n)) @ y"
        using False eq by (simp add: dec_int_def)
      then show False using no by blast
    qed
    then show ?thesis
      using False eq st dec_nat_prefix [of "nat m" x "nat n" y] by (auto simp: dec_int_def)
  qed
qed

text \<open>The first character of the text tells what kind of value it is.\<close>

fun kind_no :: "json \<Rightarrow> nat" where
  "kind_no JNull = 0" | "kind_no (JBool b) = (if b then 1 else 2)" | "kind_no (JInt n) = 3"
| "kind_no (JStr s) = 4" | "kind_no (JList xs) = 5" | "kind_no (JObj kvs) = 6"

definition kind_char :: "char \<Rightarrow> nat" where
  "kind_char c = (if c = CHR ''n'' then 0 else if c = CHR ''t'' then 1 else if c = CHR ''f'' then 2
     else if c = char_of (34 :: nat) then 4 else if c = CHR ''['' then 5 else if c = CHR ''{'' then 6 else 3)"

lemma dumps_lead: "\<exists>c s. dumps j = c # s \<and> kind_char c = kind_no j"
proof (cases j)
  case (JInt n)
  have "kind_char c = 3" if "c = CHR ''-'' \<or> digit_char c" for c
    using that by (auto simp: kind_char_def char_of_def bit_0 digit_char_def DIGITS_def)
  moreover have "\<exists>c s. dec_int n = c # s \<and> (c = CHR ''-'' \<or> digit_char c)"
    using dec_nat_not_Nil [of "nat n"] dec_nat_digits [of _ "nat n"]
    by (cases "dec_nat (nat n)") (auto simp: dec_int_def)
  ultimately show ?thesis using JInt by auto
qed (auto simp: kind_char_def json_quote_def char_of_def bit_0)

lemma dumps_no_close: "dumps c \<noteq> [] \<and> hd (dumps c) \<noteq> CHR '']''"
proof (cases c)
  case (JInt n)
  have "hd (dec_nat k) \<noteq> CHR '']''" for k
    using dec_nat_not_Nil [of k] dec_nat_digits [of "hd (dec_nat k)" k] by (auto simp: sep_not_digit)
  then show ?thesis using JInt dec_nat_not_Nil by (auto simp: dec_int_def)
qed (auto simp: json_quote_def char_of_def bit_0)

lemma dumps_same_kind: "dumps a @ x = dumps b @ y \<Longrightarrow> kind_no a = kind_no b"
  using dumps_lead [of a] dumps_lead [of b] by auto

text \<open>Comma-separated items with a closing character, for any item encoding.\<close>

lemma join_inject:
  assumes "\<And>a b u v. a \<in> set xs \<Longrightarrow> f a @ u = f b @ v \<Longrightarrow> stop u \<Longrightarrow> stop v \<Longrightarrow> a = b \<and> u = v"
    and "\<And>a. f a \<noteq> [] \<and> hd (f a) \<noteq> e" and "e = CHR '']'' \<or> e = CHR ''}''"
    and "py_join '','' (map f xs) @ e # x = py_join '','' (map f ys) @ e # y"
  shows "xs = ys \<and> x = y"
  using assms(1,4)
proof (induction xs arbitrary: ys)
  case Nil
  have "ys = []"
  proof (rule ccontr)
    assume "ys \<noteq> []"
    then obtain b ys' where ys: "ys = b # ys'" by (cases ys) auto
    then have "\<exists>z. py_join '','' (map f ys) = f b @ z" by (cases ys') auto
    then show False using Nil assms(2) [of b] by (cases "f b") auto
  qed
  with Nil show ?case by simp
next
  case (Cons a xs)
  define jt where "jt zs = (if zs = [] then [] else CHR '','' # py_join '','' (map f zs))" for zs
  have jt: "py_join '','' (map f (z # zs)) = f z @ jt zs" for z zs
    by (cases zs) (simp_all add: jt_def)
  have st: "stop (jt zs @ e # w)" for zs w using assms(3) by (auto simp: jt_def stop_def)
  show ?case
  proof (cases ys)
    case Nil
    have "f a @ jt xs @ e # x = e # y" using Cons.prems(2) unfolding Nil jt by simp
    then show ?thesis using assms(2) [of a] by (cases "f a") auto
  next
    case ys: (Cons b ys')
    have "f a @ (jt xs @ e # x) = f b @ (jt ys' @ e # y)"
      using Cons.prems(2) unfolding ys jt by simp
    then have ab: "a = b" "jt xs @ e # x = jt ys' @ e # y"
      using Cons.prems(1) [of a] st by auto
    have "xs = [] \<longleftrightarrow> ys' = []" using ab(2) assms(3) by (auto simp: jt_def split: if_splits)
    then have "py_join '','' (map f xs) @ e # x = py_join '','' (map f ys') @ e # y"
      using ab(2) by (auto simp: jt_def split: if_splits)
    then have "xs = ys' \<and> x = y" using Cons.IH [of ys'] Cons.prems(1) by auto
    with ab ys show ?thesis by simp
  qed
qed

lemma dumps_inject: "dumps a @ x = dumps b @ y \<Longrightarrow> stop x \<Longrightarrow> stop y \<Longrightarrow> a = b \<and> x = y"
proof (induction a arbitrary: b x y)
  case (JList xs)
  then obtain ys where b: "b = JList ys" using dumps_same_kind [OF JList(2)] by (cases b) (auto split: if_splits)
  have "xs = ys \<and> x = y"
    using JList b by (intro join_inject [where f = dumps and e = "CHR '']''"]) (auto simp: dumps_no_close)
  with b show ?case by simp
next
  case (JObj kvs)
  let ?f = "\<lambda>(k, v). json_quote k @ '':'' @ dumps v"
  obtain kws where b: "b = JObj kws" using dumps_same_kind [OF JObj(2)] by (cases b) (auto split: if_splits)
  have inj: "p = q \<and> u = v" if "p \<in> set kvs" "?f p @ u = ?f q @ v" "stop u" "stop v" for p q u v
  proof -
    have "json_quote (fst p) @ '':'' @ dumps (snd p) @ u = json_quote (fst q) @ '':'' @ dumps (snd q) @ v"
      using that(2) by (simp add: case_prod_beta)
    from json_quote_inject [OF this] have "fst p = fst q" "dumps (snd p) @ u = dumps (snd q) @ v" by simp_all
    moreover from this(2) have "snd p = snd q \<and> u = v"
      using JObj(1) [OF that(1), of "snd p"] that(3,4) by (simp add: snds.simps)
    ultimately show ?thesis by (simp add: prod_eq_iff)
  qed
  have lead: "?f p \<noteq> [] \<and> hd (?f p) \<noteq> CHR ''}''" for p
    by (auto simp: json_quote_def char_of_def case_prod_beta)
  have eq: "py_join '','' (map ?f kvs) @ CHR ''}'' # x = py_join '','' (map ?f kws) @ CHR ''}'' # y"
    using JObj(2) b by simp
  have "kvs = kws \<and> x = y"
    by (rule join_inject [OF inj lead _ eq]) (assumption+, simp)
  with b show ?case by simp
next
  case JNull
  then show ?case using dumps_same_kind [OF JNull(1)] by (cases b) (auto split: if_splits)
next
  case (JBool c)
  then show ?case using dumps_same_kind [OF JBool(1)] by (cases b) (auto split: if_splits)
next
  case (JInt n)
  then obtain m where "b = JInt m" using dumps_same_kind [OF JInt(1)] by (cases b) (auto split: if_splits)
  then show ?case using JInt dec_int_prefix [of n x m y] by simp
next
  case (JStr s)
  then obtain t where "b = JStr t" using dumps_same_kind [OF JStr(1)] by (cases b) (auto split: if_splits)
  then show ?case using JStr json_quote_inject [of s x t y] by simp
qed

text \<open>
  C40: Two payloads have the same canonical text, and so the same hash input and signed bytes,
  exactly when they are equal up to the order of members and the fields named \<open>sig\<close>.
\<close>

theorem canonical_dumps_inject:
  "canonical_dumps a = canonical_dumps b \<longleftrightarrow> sort_json (strip_sig a) = sort_json (strip_sig b)"
  using dumps_inject [of "sort_json (strip_sig a)" "[]" "sort_json (strip_sig b)" "[]"]
  by (auto simp: canonical_dumps_def stop_def)

end
