(* ===== verification/Club.thy ===== *)
theory Club
  imports Protocol
begin

text \<open>
  \<open>observer/club.py\<close>, \<open>observer/fields.py\<close> and \<open>config.validate_club_id\<close>: the profile of
  the joined club, its field vocabulary and the skip reasons that persist. A club directory is
  given by the parsed \<open>club.toml\<close> (a JSON-like object; None when the file is missing) and the
  lines of \<open>fields.txt\<close>; TOML parsing and the import of a club's \<open>prior.py\<close> are not modelled.
\<close>

section \<open>Club ids\<close>

definition slug_char :: "char \<Rightarrow> bool" where
  "slug_char c \<longleftrightarrow> (let n = (of_char c :: nat) in (97 \<le> n \<and> n \<le> 122) \<or> (48 \<le> n \<and> n \<le> 57))"

text \<open>The regular expression \<open>_CLUB_ID_RE\<close>, matched against the whole string.\<close>

definition club_id_ok :: "string \<Rightarrow> bool" where
  "club_id_ok s \<longleftrightarrow> s \<noteq> [] \<and> length s \<le> 32 \<and> slug_char (hd s) \<and> slug_char (last s)
     \<and> list_all (\<lambda>c. slug_char c \<or> c = CHR ''-'') s"

definition validate_club_id :: "json \<Rightarrow> string res" where
  "validate_club_id v =
     (let s = py_lower (py_strip (py_str (if truthy v then v else JStr []))) in
      if club_id_ok s then Inr s else Inl ValueError)"

section \<open>Profiles\<close>

definition LIKELY :: string where "LIKELY = ''likely''"
definition UNLIKELY :: string where "UNLIKELY = ''unlikely''"
definition UNCERTAIN :: string where "UNCERTAIN = ''uncertain''"

definition SCOPE_SKIP_REASON :: string where "SCOPE_SKIP_REASON = ''out_of_scope''"
definition SCOPE_SKIP_REASONS :: "string list" where
  "SCOPE_SKIP_REASONS = [SCOPE_SKIP_REASON, ''not_academic'']"
definition DIRECTORY_SKIP_REASON :: string where "DIRECTORY_SKIP_REASON = ''directory''"
definition PERSIST_SKIP_REASONS :: "string list" where
  "PERSIST_SKIP_REASONS = SCOPE_SKIP_REASONS @ [DIRECTORY_SKIP_REASON]"

definition is_persist_skip :: "string option \<Rightarrow> bool" where
  "is_persist_skip reason \<longleftrightarrow> str_or reason [] \<in> set PERSIST_SKIP_REASONS"

record club =
  club_id :: string
  club_name :: string
  prompt_ver :: string
  club_fields :: "string list"
  club_aliases :: "(string \<times> string) list"
  in_scope_description :: string

definition normalize_field :: "club \<Rightarrow> json \<Rightarrow> string" where
  "normalize_field P v =
     (if \<not> truthy v then ''other''
      else
        let key = collapse (replace_char (CHR ''_'') (CHR ''-'') (py_lower (py_strip (py_str v)))) in
        if key \<in> set (club_fields P) then key
        else
          let collapsed = replace_char (CHR '' '') (CHR ''-'') key in
          if collapsed \<in> set (club_fields P) then collapsed
          else str_or (map_of (club_aliases P) key)
                 (str_or (map_of (club_aliases P) collapsed) ''other''))"

definition read_lines :: "string list \<Rightarrow> string list" where
  "read_lines raw =
     filter (\<lambda>line. line \<noteq> [] \<and> \<not> py_startswith line ''#'') (map py_strip raw)"

text \<open>A later key of the alias table overrides an equal earlier one.\<close>

fun alias_table :: "(string \<times> json) list \<Rightarrow> (string \<times> string) list \<Rightarrow> (string \<times> string) list" where
  "alias_table [] acc = acc"
| "alias_table ((k, v) # kvs) acc =
     alias_table kvs ((py_lower (py_strip k), py_lower (py_strip (py_str v)))
                      # filter (\<lambda>p. fst p \<noteq> py_lower (py_strip k)) acc)"

text \<open>\<open>(meta.get("aliases") or {}).items()\<close> of a value that is not a table raises.\<close>

definition meta_aliases :: "json \<Rightarrow> (string \<times> string) list res" where
  "meta_aliases v =
     (if \<not> truthy v then Inr []
      else case v of JObj kvs \<Rightarrow> Inr (alias_table kvs []) | _ \<Rightarrow> Inl AttributeError)"

definition or_str :: "json \<Rightarrow> string \<Rightarrow> string" where
  "or_str v d = (if truthy v then py_str v else d)"

definition load_club :: "json \<Rightarrow> (string \<times> json) list option \<Rightarrow> string list option \<Rightarrow> club res" where
  "load_club cid_value meta field_lines =
     (case validate_club_id cid_value of
        Inl e \<Rightarrow> Inl e
      | Inr cid \<Rightarrow>
          (case meta of
             None \<Rightarrow> Inl ValueError
           | Some m \<Rightarrow>
               if py_lower (py_strip (or_str (jget m ''id'') cid)) \<noteq> cid then Inl ValueError
               else (case field_lines of
                   None \<Rightarrow> Inl ValueError
                 | Some ls \<Rightarrow>
                     let flds = read_lines ls in
                     if flds = [] then Inl ValueError
                     else case meta_aliases (jget m ''aliases'') of
                       Inl e \<Rightarrow> Inl e
                     | Inr al \<Rightarrow> Inr \<lparr>club_id = cid,
                               club_name = or_str (jget m ''name'') cid,
                               prompt_ver = or_str (jget m ''prompt_ver'') ''1'',
                               club_fields = (if ''other'' \<in> set flds then flds else flds @ [''other'']),
                               club_aliases = al,
                               in_scope_description = or_str (jget m ''in_scope_description'')
                                 ''True when the content matches this club's topic.''\<rparr>)))"

section \<open>Lemmas\<close>

lemma load_club_other: "load_club v meta ls = Inr P \<Longrightarrow> ''other'' \<in> set (club_fields P)"
  by (auto simp: load_club_def Let_def split: sum.splits option.splits if_splits)

text \<open>
  For a loaded club whose aliases point into its vocabulary, \<open>normalize_field\<close> always
  returns a slug of the vocabulary.
\<close>

theorem normalize_field_in_vocabulary:
  assumes "load_club v meta ls = Inr P" "\<And>k s. map_of (club_aliases P) k = Some s \<Longrightarrow> s \<noteq> [] \<Longrightarrow> s \<in> set (club_fields P)"
  shows "normalize_field P x \<in> set (club_fields P)"
  using load_club_other [OF assms(1)] assms(2)
  by (auto simp: normalize_field_def Let_def str_or_def split: option.splits)

lemma normalize_field_not_Nil: "[] \<notin> set (club_fields P) \<Longrightarrow> normalize_field P x \<noteq> []"
  by (auto simp: normalize_field_def Let_def str_or_def split: option.splits)


definition ex_meta :: "(string \<times> json) list" where
  "ex_meta = [(''id'', JStr ''academic''), (''aliases'', JObj [(''cs'', JStr ''computer-science'')])]"

definition ex_club :: club where
  "ex_club = \<lparr>club_id = ''academic'', club_name = ''academic'', prompt_ver = ''1'',
     club_fields = [''computer-science'', ''other''], club_aliases = [(''cs'', ''computer-science'')],
     in_scope_description = ''True when the content matches this club's topic.''\<rparr>"

lemma ex_load: "load_club (JStr ''academic'') (Some ex_meta) (Some [''computer-science'', ''# end'']) = Inr ex_club"
  by code_simp

theorem normalize_field_witness: "normalize_field ex_club (JStr ''CS'') \<in> set (club_fields ex_club)"
  by (rule normalize_field_in_vocabulary [OF ex_load]) (auto simp: ex_club_def split: if_splits)

end
