(* ===== verification/Catalog.thy ===== *)
theory Catalog
  imports Club "HOL-Library.AList"
begin

text \<open>
  The tables of \<open>observer/store.py\<close>, the surroundings its functions read (configuration,
  club profile, clock, peer id), and how SQLite stores the JSON values bound to its columns.
  A text column holds None or a string. The column \<open>classifier\<close> holds canonical JSON text,
  which its only reader parses again; here it is the JSON value itself.
\<close>

section \<open>Tables\<close>

datatype dbval = DNull | DInt int | DText string

record message =
  m_hash :: string
  m_kind :: string
  m_cid :: cid
  m_publisher :: publisher
  m_body :: string
  m_received :: time

record crow =
  c_hash :: string
  c_cid :: cid
  c_publisher :: publisher
  c_mime :: "string option"
  c_size :: dbval
  c_filename :: "string option"
  c_field :: string
  c_topic :: "string option"
  c_keywords :: "string option"
  c_license :: "string option"
  c_text_sha256 :: "string option"
  c_classifier :: json
  c_indexed_at :: time
  c_received :: time

record drow =
  d_rowid :: int
  d_cid :: cid
  d_publisher :: publisher
  d_mime :: "string option"
  d_size :: dbval
  d_filename :: "string option"
  d_field :: string
  d_topic :: "string option"
  d_keywords :: "string option"
  d_license :: "string option"
  d_text_sha256 :: "string option"
  d_indexed_at :: time
  d_received :: time

record ftsrow =
  f_rowid :: int
  f_cid :: cid
  f_filename :: string
  f_field :: string
  f_topic :: string
  f_keywords :: string

record skiprow =
  s_cid :: cid
  s_publisher :: publisher
  s_mime :: "string option"
  s_reason :: "string option"
  s_received :: time

record claimrow =
  cl_publisher :: publisher
  cl_cid :: cid
  cl_until :: time

record reportrow =
  rp_cid :: cid
  rp_publisher :: publisher
  rp_reason :: string
  rp_received :: time

record aliasrow =
  a_publisher :: publisher
  a_alias :: string
  a_hash :: string
  a_received :: time

record blackrow =
  b_publisher :: publisher
  b_alias :: string
  b_received :: time

record proposal =
  p_cid :: cid
  p_reason :: string
  p_count :: int
  p_proposed_at :: time

text \<open>Of the table \<open>settings\<close> the code uses the two keys \<open>docs_count\<close> and \<open>alias\<close>.\<close>

record catalog =
  messages :: "message list"
  classifies :: "crow list"
  docs :: "drow list"
  skips :: "skiprow list"
  claims :: "claimrow list"
  reports :: "reportrow list"
  aliases :: "aliasrow list"
  docs_count :: "int option"
  alias_setting :: "string option"
  blacklisted :: "blackrow list"
  proposals :: "proposal list"
  docs_fts :: "ftsrow list"

definition empty_catalog :: catalog where
  "empty_catalog = \<lparr>messages = [], classifies = [], docs = [], skips = [], claims = [], reports = [],
     aliases = [], docs_count = Some 0, alias_setting = None, blacklisted = [], proposals = [],
     docs_fts = []\<rparr>"

section \<open>Surroundings\<close>

text \<open>
  \<open>sha256\<close>, \<open>float_str\<close> (Python's \<open>float()\<close> of a string, None where it raises) and
  \<open>int_affinity\<close> (SQLite's conversion of text bound to an INTEGER column) stand for library
  code; \<open>peer\<close> is what clubd reports as this node's id.
\<close>

record env =
  e_club :: club
  e_fetch :: intcfg
  e_sha256 :: "bytes \<Rightarrow> bytes"
  e_float_str :: "string \<Rightarrow> real option"
  e_int_affinity :: "string \<Rightarrow> dbval"
  e_peer :: "publisher option"
  e_now :: time

section \<open>Binding JSON values\<close>

definition int64 :: "int \<Rightarrow> bool" where
  "int64 n \<longleftrightarrow> - (2 ^ 63) \<le> n \<and> n < 2 ^ 63"

definition text_col :: "json \<Rightarrow> string option res" where
  "text_col v =
     (case v of
        JNull \<Rightarrow> Inr None
      | JStr s \<Rightarrow> Inr (Some s)
      | JBool b \<Rightarrow> Inr (Some (if b then ''1'' else ''0''))
      | JInt n \<Rightarrow> if int64 n then Inr (Some (dec_int n)) else Inl OverflowError
      | JList xs \<Rightarrow> Inl BindError
      | JObj kvs \<Rightarrow> Inl BindError)"

definition int_col :: "env \<Rightarrow> json \<Rightarrow> dbval res" where
  "int_col E v =
     (case v of
        JNull \<Rightarrow> Inr DNull
      | JStr s \<Rightarrow> Inr (e_int_affinity E s)
      | JBool b \<Rightarrow> Inr (DInt (if b then 1 else 0))
      | JInt n \<Rightarrow> if int64 n then Inr (DInt n) else Inl OverflowError
      | JList xs \<Rightarrow> Inl BindError
      | JObj kvs \<Rightarrow> Inl BindError)"

text \<open>\<open>float(v or default)\<close>. Integers beyond the range of a double raise OverflowError.\<close>

definition py_float :: "env \<Rightarrow> json \<Rightarrow> time \<Rightarrow> time res" where
  "py_float E v d =
     (if \<not> truthy v then Inr d
      else case v of
        JInt n \<Rightarrow> if \<bar>n\<bar> < 2 ^ 1024 - 2 ^ 970 then Inr (of_int n) else Inl OverflowError
      | JBool b \<Rightarrow> Inr 1
      | JStr s \<Rightarrow> (case e_float_str E s of None \<Rightarrow> Inl ValueError | Some x \<Rightarrow> Inr x)
      | _ \<Rightarrow> Inl TypeError)"

text \<open>A column's value as the JSON value \<open>dict(row)\<close> gives.\<close>

definition opt_json :: "string option \<Rightarrow> json" where
  "opt_json x = (case x of None \<Rightarrow> JNull | Some s \<Rightarrow> JStr s)"

end
