(* ===== verification/Labels.thy ===== *)
theory Labels
  imports Catalog
begin

text \<open>
  \<open>observer/labels.py\<close>: the vote across independent classifications of one CID. A Python dict
  is an association list in insertion order (\<open>AList.update\<close> replaces in place or appends).
\<close>

section \<open>Ballots\<close>

definition classifier_kind :: "crow \<Rightarrow> string" where
  "classifier_kind row =
     (case c_classifier row of
        JObj kvs \<Rightarrow> or_str (jget kvs ''kind'') ''llm''
      | _ \<Rightarrow> ''llm'')"

definition norm_text :: "string option \<Rightarrow> string" where
  "norm_text v = collapse (py_lower (py_strip (str_or v [])))"

fun split_keywords_loop :: "string list \<Rightarrow> string list \<Rightarrow> string list" where
  "split_keywords_loop [] out = out"
| "split_keywords_loop (part # parts) out =
     (let key = norm_text (Some part) in
      if key = [] \<or> key \<in> set out then split_keywords_loop parts out
      else split_keywords_loop parts (out @ [key]))"

definition split_keywords :: "string option \<Rightarrow> string list" where
  "split_keywords v = split_keywords_loop (split_by (\<lambda>c. c = CHR '','') (str_or v [])) []"

definition prefer_independent :: "crow list \<Rightarrow> crow list" where
  "prefer_independent rows =
     (let independent = filter (\<lambda>r. classifier_kind r \<noteq> ''reuse'') rows
      in if independent = [] then rows else independent)"

text \<open>\<open>SELECT * FROM classifies WHERE cid = ? ORDER BY received_at ASC\<close>.\<close>

definition rows_of :: "catalog \<Rightarrow> cid \<Rightarrow> crow list" where
  "rows_of db cid = sort_key c_received (filter (\<lambda>r. c_cid r = cid) (classifies db))"

definition eligible_rows :: "catalog \<Rightarrow> cid \<Rightarrow> crow list" where
  "eligible_rows db cid = prefer_independent (rows_of db cid)"

definition latest_step :: "crow \<Rightarrow> (publisher \<times> crow) list \<Rightarrow> (publisher \<times> crow) list" where
  "latest_step row by_pub =
     (case map_of by_pub (c_publisher row) of
        None \<Rightarrow> AList.update (c_publisher row) row by_pub
      | Some prev \<Rightarrow>
          if c_received row \<ge> c_received prev then AList.update (c_publisher row) row by_pub
          else by_pub)"

definition latest_per_publisher :: "crow list \<Rightarrow> crow list" where
  "latest_per_publisher rows = map snd (fold latest_step rows [])"

definition independent_publishers :: "catalog \<Rightarrow> cid \<Rightarrow> publisher list" where
  "independent_publishers db cid =
     (let independent = filter (\<lambda>r. classifier_kind r \<noteq> ''reuse'') (rows_of db cid)
      in if independent = [] then [] else map c_publisher (latest_per_publisher independent))"

section \<open>Counting\<close>

definition count_step :: "string \<times> string \<Rightarrow> (string \<times> int) list \<times> (string \<times> string) list \<Rightarrow>
    (string \<times> int) list \<times> (string \<times> string) list" where
  "count_step item acc =
     (case (item, acc) of
        ((key, shown), (votes, display)) \<Rightarrow>
          if key = [] then (votes, display)
          else (AList.update key ((case map_of votes key of None \<Rightarrow> 0 | Some n \<Rightarrow> n) + 1) votes,
                if map_of display key = None then display @ [(key, shown)] else display))"

definition count_votes :: "(string \<times> string) list \<Rightarrow> (string \<times> int) list \<times> (string \<times> string) list" where
  "count_votes items = fold count_step items ([], [])"

definition winner :: "(string \<times> int) list \<Rightarrow> (string \<times> string) list \<Rightarrow> string option" where
  "winner votes display =
     (if votes = [] then None
      else
        let top = Max (set (map snd votes)) in
        map_option snd (find (\<lambda>(key, shown). map_of votes key = Some top) display))"

definition keep_keywords :: "(string \<times> int) list \<Rightarrow> (string \<times> string) list \<Rightarrow> string list" where
  "keep_keywords votes display =
     map (\<lambda>(k, n). the (map_of display k)) (take 10 (sort_key (\<lambda>(k, n). (- n, k)) votes))"

record tally =
  t_field :: "string option"
  t_topic :: "string option"
  t_keywords :: string
  t_label_voters :: int
  t_field_votes :: "(string \<times> int) list"
  t_topic_votes :: "(string \<times> int) list"
  t_keyword_votes :: "(string \<times> int) list"

definition field_items :: "club \<Rightarrow> crow list \<Rightarrow> (string \<times> string) list" where
  "field_items P voters =
     map (\<lambda>row. let field = normalize_field P (JStr (c_field row)) in (field, field)) voters"

definition topic_items :: "crow list \<Rightarrow> (string \<times> string) list" where
  "topic_items voters =
     concat (map (\<lambda>row. let key = norm_text (c_topic row) in
                        if key = [] then [] else [(key, py_strip (str_or (c_topic row) []))]) voters)"

definition keyword_items :: "crow list \<Rightarrow> (string \<times> string) list" where
  "keyword_items voters = concat (map (\<lambda>row. map (\<lambda>key. (key, key)) (split_keywords (c_keywords row))) voters)"

definition tally_rows :: "club \<Rightarrow> crow list \<Rightarrow> tally" where
  "tally_rows P rows =
     (let voters = latest_per_publisher rows;
          (field_votes, field_disp) = count_votes (field_items P voters);
          (topic_votes, topic_disp) = count_votes (topic_items voters);
          (keyword_votes, keyword_disp) = count_votes (keyword_items voters)
      in \<lparr>t_field = winner field_votes field_disp,
          t_topic = winner topic_votes topic_disp,
          t_keywords = py_join '', '' (keep_keywords keyword_votes keyword_disp),
          t_label_voters = int (length voters),
          t_field_votes = field_votes,
          t_topic_votes = topic_votes,
          t_keyword_votes = keyword_votes\<rparr>)"

definition consensus :: "club \<Rightarrow> catalog \<Rightarrow> cid \<Rightarrow> tally" where
  "consensus P db cid = tally_rows P (eligible_rows db cid)"

section \<open>Many CIDs at once\<close>

definition IN_CHUNK :: nat where "IN_CHUNK = 400"

text \<open>\<open>dict.fromkeys\<close>: the first occurrence of each.\<close>

definition first_occurrences :: "'a list \<Rightarrow> 'a list" where
  "first_occurrences xs = rev (remdups (rev xs))"

function chunks :: "nat \<Rightarrow> 'a list \<Rightarrow> 'a list list" where
  "chunks n xs = (if xs = [] \<or> n = 0 then [] else take n xs # chunks n (drop n xs))"
  by pat_completeness auto
termination by (relation "measure (\<lambda>(n, xs). length xs)") auto

declare chunks.simps [simp del]

definition group_step :: "crow \<Rightarrow> (cid \<times> crow list) list \<Rightarrow> (cid \<times> crow list) list" where
  "group_step row grouped =
     (case map_of grouped (c_cid row) of
        None \<Rightarrow> grouped
      | Some bucket \<Rightarrow> AList.update (c_cid row) (bucket @ [row]) grouped)"

definition chunk_rows :: "catalog \<Rightarrow> cid list \<Rightarrow> crow list" where
  "chunk_rows db chunk = sort_key c_received (filter (\<lambda>r. c_cid r \<in> set chunk) (classifies db))"

definition consensus_many :: "club \<Rightarrow> catalog \<Rightarrow> cid list \<Rightarrow> (cid \<times> tally) list" where
  "consensus_many P db cs =
     (let order = first_occurrences (filter (\<lambda>c. c \<noteq> []) cs) in
      if order = [] then []
      else
        let grouped = fold (\<lambda>chunk g. fold group_step (chunk_rows db chunk) g)
                        (chunks IN_CHUNK order) (map (\<lambda>c. (c, [])) order)
        in map (\<lambda>(c, rows). (c, tally_rows P (prefer_independent rows))) grouped)"

text \<open>\<open>apply\<close> and \<open>apply_many\<close> overwrite the labels of a row with the vote; here the row is
  paired with the vote that overwrites it.\<close>

definition apply_vote :: "club \<Rightarrow> catalog \<Rightarrow> cid \<Rightarrow> 'r \<Rightarrow> 'r \<times> tally" where
  "apply_vote P db cid out = (out, consensus P db cid)"

definition apply_many :: "club \<Rightarrow> catalog \<Rightarrow> ('r \<Rightarrow> cid) \<Rightarrow> 'r list \<Rightarrow> ('r \<times> tally option) list" where
  "apply_many P db key rows =
     (let votes = consensus_many P db (map key rows)
      in map (\<lambda>row. (row, map_of votes (key row))) rows)"


section \<open>Lemmas: one ballot per publisher\<close>

declare map_of_eq_Some_iff [simp del]

lemma map_of_update [simp]: "map_of (AList.update k v xs) k' = (if k' = k then Some v else map_of xs k')"
  by (simp add: AList.update_conv')

text \<open>On rows in the order they were received, the ballot of a publisher is its last row.\<close>

lemma map_of_latest:
  "sorted (map c_received rows) \<Longrightarrow>
   map_of (fold latest_step rows []) p =
     (let rs = filter (\<lambda>r. c_publisher r = p) rows in if rs = [] then None else Some (last rs))"
proof (induction rows arbitrary: p rule: rev_induct)
  case (snoc x xs)
  let ?d = "fold latest_step xs []"
  have IH: "map_of ?d p =
      (let rs = filter (\<lambda>r. c_publisher r = p) xs in if rs = [] then None else Some (last rs))" for p
    using snoc by (simp add: sorted_append)
  have le: "c_received r \<le> c_received x" if "map_of ?d q = Some r" for q r
  proof -
    have "r \<in> set (filter (\<lambda>r. c_publisher r = q) xs)"
      using that last_in_set unfolding IH Let_def by (metis option.distinct(1) option.inject)
    then show ?thesis using snoc.prems by (simp add: sorted_append)
  qed
  then have "latest_step x ?d = AList.update (c_publisher x) x ?d"
    by (auto simp: latest_step_def split: option.splits)
  then show ?case using IH [of p] by (simp add: Let_def)
qed simp

lemma latest_keys:
  "distinct (map fst (fold latest_step rows [])) \<and>
   (\<forall>p r. map_of (fold latest_step rows []) p = Some r \<longrightarrow> c_publisher r = p)"
proof (induction rows rule: rev_induct)
  case (snoc x xs)
  let ?d = "fold latest_step xs []" let ?u = "AList.update (c_publisher x) x ?d"
  have cases: "latest_step x ?d = ?d \<or> latest_step x ?d = ?u"
    by (auto simp: latest_step_def split: option.splits)
  have dist: "distinct (map fst ?u)" using snoc by (simp add: AList.distinct_update)
  have pubs: "\<forall>p r. map_of ?u p = Some r \<longrightarrow> c_publisher r = p"
  proof (intro allI impI)
    fix p r assume "map_of ?u p = Some r"
    then show "c_publisher r = p" using snoc by (auto split: if_splits)
  qed
  have "fold latest_step (xs @ [x]) [] = latest_step x ?d" by simp
  with cases show ?case
  proof (elim disjE)
    assume "fold latest_step (xs @ [x]) [] = latest_step x ?d" "latest_step x ?d = ?u"
    then have "fold latest_step (xs @ [x]) [] = ?u" by (rule trans)
    with dist pubs show ?case by (simp only:)
  qed (use snoc in simp)
qed simp

lemma map_publisher_latest: "map c_publisher (latest_per_publisher rows) = map fst (fold latest_step rows [])"
  using latest_keys [of rows] by (auto simp: latest_per_publisher_def map_of_eq_Some_iff)

text \<open>
  One ballot per publisher. Of the rows that are eligible to vote on a CID, each publisher
  has exactly one ballot, and it is the one received last.
\<close>

theorem one_ballot_per_publisher:
  "distinct (map c_publisher (latest_per_publisher (eligible_rows db cid)))
   \<and> set (latest_per_publisher (eligible_rows db cid))
     = {last (filter (\<lambda>r. c_publisher r = p) (eligible_rows db cid)) | p. p \<in> c_publisher ` set (eligible_rows db cid)}"
proof -
  let ?rows = "eligible_rows db cid" let ?d = "fold latest_step ?rows []"
  have "sorted (map c_received ?rows)"
    by (simp add: eligible_rows_def prefer_independent_def rows_of_def sorted_filter Let_def)
  note look = map_of_latest [OF this]
  have dist: "distinct (map fst ?d)" using latest_keys by blast
  have "set (map snd ?d) = {r. \<exists>p. map_of ?d p = Some r}"
    using dist by (auto simp: image_iff map_of_eq_Some_iff) force
  also have "\<dots> = {last (filter (\<lambda>r. c_publisher r = p) ?rows) | p. p \<in> c_publisher ` set ?rows}"
    unfolding look Let_def by (auto simp: filter_empty_conv image_iff split: if_splits)
  finally have "set (latest_per_publisher ?rows)
      = {last (filter (\<lambda>r. c_publisher r = p) ?rows) | p. p \<in> c_publisher ` set ?rows}"
    by (simp only: latest_per_publisher_def)
  moreover have "distinct (map c_publisher (latest_per_publisher ?rows))"
    using dist by (simp only: map_publisher_latest)
  ultimately show ?thesis by blast
qed


section \<open>Lemmas: counting\<close>

definition votes_for :: "(string \<times> string) list \<Rightarrow> string \<Rightarrow> nat" where
  "votes_for items k = length (filter (\<lambda>p. fst p = k) items)"

lemma votes_for_snoc: "votes_for (xs @ [x]) k = votes_for xs k + (if fst x = k then 1 else 0)"
  by (simp add: votes_for_def)

lemma count_votes_spec:
  "(\<forall>k. map_of (fst (count_votes items)) k =
      (if k = [] \<or> votes_for items k = 0 then None else Some (int (votes_for items k))))
   \<and> distinct (map fst (fst (count_votes items)))
   \<and> map fst (snd (count_votes items)) = map fst (fst (count_votes items))
   \<and> set (snd (count_votes items)) \<subseteq> set items"
proof (induction items rule: rev_induct)
  case (snoc x xs)
  obtain k sh where x: "x = (k, sh)" by (cases x)
  obtain v d where vd: "count_votes xs = (v, d)" by (cases "count_votes xs")
  have step: "count_votes (xs @ [x]) = count_step x (v, d)" using vd by (simp add: count_votes_def)
  have IH: "\<And>k. map_of v k = (if k = [] \<or> votes_for xs k = 0 then None else Some (int (votes_for xs k)))"
    "distinct (map fst v)" "map fst d = map fst v" "set d \<subseteq> set xs"
    using snoc vd by auto
  show ?case
  proof (cases "k = []")
    case True
    then have "count_votes (xs @ [x]) = (v, d)" using step x by (simp add: count_step_def)
    then show ?thesis using IH True x by (auto simp: votes_for_snoc)
  next
    case False
    let ?v = "AList.update k ((case map_of v k of None \<Rightarrow> 0 | Some n \<Rightarrow> n) + 1) v"
    let ?d = "if map_of d k = None then d @ [(k, sh)] else d"
    have st: "count_votes (xs @ [x]) = (?v, ?d)" using False step x by (simp add: count_step_def)
    have "map_of ?v k' = (if k' = [] \<or> votes_for (xs @ [x]) k' = 0 then None
        else Some (int (votes_for (xs @ [x]) k')))" for k'
      using IH(1) [of k'] IH(1) [of k] False x by (auto simp: votes_for_snoc)
    moreover have "distinct (map fst ?v)" using IH(2) by (rule AList.distinct_update)
    moreover have "map fst ?d = map fst ?v"
    proof -
      have "map_of d k = None \<longleftrightarrow> k \<notin> set (map fst v)" using IH(3) by (metis list.set_map map_of_eq_None_iff)
      then show ?thesis using IH(3) by (auto simp: AList.update_keys)
    qed
    moreover have "set ?d \<subseteq> set (xs @ [x])" using IH(4) x by auto
    ultimately show ?thesis unfolding st by simp
  qed
qed (simp add: count_votes_def votes_for_def)

lemma winner_spec:
  assumes "winner (fst (count_votes items)) (snd (count_votes items)) = Some s"
  shows "\<exists>k. k \<noteq> [] \<and> (k, s) \<in> set items \<and> (\<forall>k'. k' \<noteq> [] \<longrightarrow> votes_for items k' \<le> votes_for items k)"
proof -
  let ?v = "fst (count_votes items)" let ?d = "snd (count_votes items)"
  let ?top = "Max (set (map snd ?v))"
  have ne: "?v \<noteq> []" using assms by (auto simp: winner_def)
  then obtain p where p: "find (\<lambda>(key, shown). map_of ?v key = Some ?top) ?d = Some p" "snd p = s"
    using assms by (auto simp: winner_def Let_def)
  then have k: "p \<in> set ?d" "map_of ?v (fst p) = Some ?top"
    using find_Some_iff_set [OF p(1)] by (auto simp: case_prod_beta)
  have look: "map_of ?v k = (if k = [] \<or> votes_for items k = 0 then None else Some (int (votes_for items k)))" for k
    using count_votes_spec by blast
  have top: "?top = int (votes_for items (fst p))" "fst p \<noteq> []"
    using k(2) look [of "fst p"] by (auto split: if_splits)
  have "votes_for items k' \<le> votes_for items (fst p)" if "k' \<noteq> []" for k'
  proof (cases "votes_for items k' = 0")
    case False
    with that look have "map_of ?v k' = Some (int (votes_for items k'))" by simp
    then have "int (votes_for items k') \<in> set (map snd ?v)" by (force dest: map_of_SomeD)
    then have "int (votes_for items k') \<le> ?top" by (intro Max_ge) auto
    with top show ?thesis by simp
  qed simp
  moreover have "p \<in> set items" using k(1) count_votes_spec by blast
  ultimately show ?thesis using top(2) p(2) by (intro exI [of _ "fst p"]) (auto simp: prod_eq_iff)
qed

lemma votes_for_field: "votes_for (field_items P voters) g =
    length (filter (\<lambda>r. normalize_field P (JStr (c_field r)) = g) voters)"
  by (induction voters) (simp_all add: votes_for_def field_items_def Let_def)

text \<open>
  The displayed field is a plurality winner. If the vote on a CID shows the field \<open>f\<close>, no
  other field has more ballots than \<open>f\<close>, one ballot per publisher, and \<open>f\<close> has at least one.
\<close>

theorem field_plurality:
  assumes "t_field (consensus P db cid) = Some f"
  shows "(\<exists>r\<in>set (latest_per_publisher (eligible_rows db cid)). normalize_field P (JStr (c_field r)) = f)
    \<and> (\<forall>g. g \<noteq> [] \<longrightarrow>
      length (filter (\<lambda>r. normalize_field P (JStr (c_field r)) = g) (latest_per_publisher (eligible_rows db cid)))
      \<le> length (filter (\<lambda>r. normalize_field P (JStr (c_field r)) = f) (latest_per_publisher (eligible_rows db cid))))"
proof -
  let ?items = "field_items P (latest_per_publisher (eligible_rows db cid))"
  have "winner (fst (count_votes ?items)) (snd (count_votes ?items)) = Some f"
    using assms by (simp add: consensus_def tally_rows_def Let_def case_prod_beta)
  then obtain k where k: "k \<noteq> []" "(k, f) \<in> set ?items" "\<forall>k'. k' \<noteq> [] \<longrightarrow> votes_for ?items k' \<le> votes_for ?items k"
    using winner_spec by blast
  then have "k = f" by (auto simp: field_items_def Let_def)
  moreover have "\<exists>r\<in>set (latest_per_publisher (eligible_rows db cid)). normalize_field P (JStr (c_field r)) = f"
    using k(2) by (auto simp: field_items_def Let_def)
  ultimately show ?thesis using k(3) unfolding votes_for_field by blast
qed

section \<open>Lemmas: keywords\<close>

text \<open>
  The displayed keywords are the ten with the most ballots: there are at most ten, all
  different, in the order of falling votes (ties by name), and no keyword left out comes before
  one that is shown.
\<close>

theorem keywords_top_ten:
  "\<exists>ks. t_keywords (consensus P db cid) = py_join '', '' ks
     \<and> length ks = min 10 (length (t_keyword_votes (consensus P db cid)))
     \<and> distinct ks
     \<and> (let n = (\<lambda>k. the (map_of (t_keyword_votes (consensus P db cid)) k)) in
        sorted (map (\<lambda>k. (- n k, k)) ks)
        \<and> (\<forall>k\<in>set ks. \<forall>k'\<in>fst ` set (t_keyword_votes (consensus P db cid)) - set ks.
             (- n k, k) \<le> (- n k', k')))"
proof -
  let ?items = "keyword_items (latest_per_publisher (eligible_rows db cid))"
  let ?v = "fst (count_votes ?items)" let ?d = "snd (count_votes ?items)"
  let ?key = "\<lambda>(k, n). (- n, k) :: int \<times> string" let ?n = "\<lambda>k. the (map_of ?v k)"
  define s where "s = sort_key ?key ?v"
  let ?ks = "map fst (take 10 s)"
  have votes: "t_keyword_votes (consensus P db cid) = ?v"
    by (simp add: consensus_def tally_rows_def Let_def case_prod_beta)
  have dist: "distinct (map fst ?v)" and keys: "map fst ?d = map fst ?v" and sub: "set ?d \<subseteq> set ?items"
    using count_votes_spec by blast+
  have dists: "distinct (map fst s)"
    using dist by (simp add: s_def distinct_map)
  have disp: "the (map_of ?d k) = k" if "k \<in> fst ` set ?v" for k
  proof -
    have "k \<in> set (map fst ?d)" using that keys by simp
    then obtain sh where "map_of ?d k = Some sh" by (metis map_of_eq_None_iff list.set_map not_None_eq)
    moreover from this have "(k, sh) \<in> set ?items" using sub map_of_SomeD by fastforce
    ultimately show ?thesis by (auto simp: keyword_items_def)
  qed
  have sets: "set s = set ?v" by (simp add: s_def)
  have "keep_keywords ?v ?d = map (\<lambda>(k, n). the (map_of ?d k)) (take 10 s)"
    by (simp add: keep_keywords_def s_def)
  also have "\<dots> = ?ks"
    by (rule map_cong [OF refl]) (auto simp: sets intro!: disp dest!: in_set_takeD, force)
  finally have kw: "t_keywords (consensus P db cid) = py_join '', '' ?ks"
    by (simp add: consensus_def tally_rows_def Let_def case_prod_beta)
  have n: "?n k = m" if "(k, m) \<in> set s" for k m using that dist sets by (simp add: map_of_eq_Some_iff)
  have srt: "sorted (map ?key s)" by (simp add: s_def)
  have mp: "map (\<lambda>k. (- ?n k, k)) (map fst xs) = map ?key xs" if "set xs \<subseteq> set s" for xs
    using that n by (auto simp: subset_iff)
  have "sorted (map (\<lambda>k. (- ?n k, k)) ?ks)"
    unfolding mp [OF set_take_subset] using srt by (simp flip: take_map)
  moreover have "(- ?n k, k) \<le> (- ?n k', k')" if kk: "k \<in> set ?ks" "k' \<in> fst ` set ?v - set ?ks" for k k'
  proof -
    obtain a where a: "k = fst a" "a \<in> set (take 10 s)" using kk(1) by auto
    obtain b where b: "k' = fst b" "b \<in> set s" using kk(2) sets by auto
    note ab = a b
    then have "b \<in> set (drop 10 s)" using kk(2) by (metis DiffD2 UnE append_take_drop_id image_eqI list.set_map set_append)
    moreover have "\<forall>x\<in>set (take 10 s). \<forall>y\<in>set (drop 10 s). ?key x \<le> ?key y"
      using srt by (metis (no_types, lifting) append_take_drop_id sorted_append map_append image_eqI list.set_map)
    ultimately have "?key a \<le> ?key b" using ab(2) by blast
    moreover have "?n k = snd a" "?n k' = snd b"
      using ab n [of "fst a" "snd a"] n [of "fst b" "snd b"] in_set_takeD [OF a(2)] by simp_all
    ultimately show ?thesis using ab(1,3) by (simp add: case_prod_beta)
  qed
  moreover have "distinct ?ks" using dists by (metis distinct_take take_map)
  ultimately show ?thesis unfolding votes using kw
    by (intro exI [of _ ?ks]) (simp add: Let_def s_def)
qed


section \<open>Lemmas: the batched vote\<close>

lemma concat_chunks: "0 < n \<Longrightarrow> concat (chunks n xs) = xs"
proof (induction n xs rule: chunks.induct)
  case (1 n xs)
  then show ?case by (subst chunks.simps) (auto simp: chunks.simps)
qed

lemma group_fold:
  "map fst (fold group_step rs g) = map fst g
   \<and> (map_of g c = Some b \<longrightarrow> map_of (fold group_step rs g) c = Some (b @ filter (\<lambda>r. c_cid r = c) rs))"
proof (induction rs arbitrary: g b)
  case (Cons r rs)
  have keys: "map fst (group_step r g) = map fst g"
    by (auto simp: group_step_def AList.update_keys split: option.splits)
       (simp_all add: map_of_eq_None_iff)
  have look: "map_of (group_step r g) c = Some (b @ (if c_cid r = c then [r] else []))" if "map_of g c = Some b"
    using that by (auto simp: group_step_def split: option.splits)
  show ?case using Cons.IH [of "group_step r g"] keys look by auto
qed simp

lemma chunk_rows_of: "filter (\<lambda>r. c_cid r = c) (chunk_rows db chunk) = (if c \<in> set chunk then rows_of db c else [])"
proof -
  have "filter (\<lambda>r. c_cid r \<in> set chunk \<and> c_cid r = c) (t :: crow list) = (if c \<in> set chunk then filter (\<lambda>r. c_cid r = c) t else [])" for t
    by (induction t) auto
  then show ?thesis by (simp add: chunk_rows_def rows_of_def filter_sort)
qed

lemma group_chunks:
  "distinct (concat css) \<Longrightarrow> map_of g c = Some b \<Longrightarrow>
   map_of (fold (\<lambda>chunk g. fold group_step (chunk_rows db chunk) g) css g) c
     = Some (b @ (if c \<in> set (concat css) then rows_of db c else []))"
proof (induction css arbitrary: g b)
  case (Cons ch css)
  have "map_of (fold group_step (chunk_rows db ch) g) c = Some (b @ (if c \<in> set ch then rows_of db c else []))"
    using group_fold [of "chunk_rows db ch" g c b] Cons.prems(2) by (simp add: chunk_rows_of)
  from Cons.IH [OF _ this] Cons.prems(1) show ?case by auto
qed simp

lemma group_chunks_keys:
  "map fst (fold (\<lambda>chunk g. fold group_step (chunk_rows db chunk) g) css g) = map fst g"
  by (induction css arbitrary: g) (simp_all add: group_fold [THEN conjunct1])

lemma map_of_map_snd: "map_of (map (\<lambda>(c, rows). (c, h rows)) g) k = map_option h (map_of g k)"
  by (induction g) auto

text \<open>
  C36: The batched vote is the single vote. \<open>consensus_many\<close>, which reads the rows of all CIDs
  in chunks of 400 and groups them, gives every CID it is asked for the result of \<open>consensus\<close>,
  and nothing for any other.
\<close>

theorem consensus_many_eq:
  "map_of (consensus_many P db cs) c =
     (if c \<in> set cs \<and> c \<noteq> [] then Some (consensus P db c) else None)"
proof -
  let ?order = "first_occurrences (filter (\<lambda>c. c \<noteq> []) cs)"
  let ?g = "fold (\<lambda>chunk g. fold group_step (chunk_rows db chunk) g) (chunks IN_CHUNK ?order) (map (\<lambda>c. (c, [])) ?order)"
  have mem: "c \<in> set ?order \<longleftrightarrow> c \<in> set cs \<and> c \<noteq> []" by (auto simp: first_occurrences_def)
  have whole: "concat (chunks IN_CHUNK ?order) = ?order" by (simp add: concat_chunks IN_CHUNK_def)
  have eq: "consensus_many P db cs = map (\<lambda>(c, rows). (c, tally_rows P (prefer_independent rows))) ?g" if "?order \<noteq> []"
    using that by (simp add: consensus_many_def Let_def)
  show ?thesis
  proof (cases "c \<in> set ?order")
    case True
    then have "map_of (map (\<lambda>c. (c, [] :: crow list)) ?order) c = Some []" by (simp add: map_of_map_restrict)
    from group_chunks [OF _ this, of "chunks IN_CHUNK ?order" db]
    have "map_of ?g c = Some (rows_of db c)"
      using True unfolding whole by (simp add: first_occurrences_def)
    moreover have "?order \<noteq> []" using True by auto
    ultimately show ?thesis
      using True mem by (simp add: eq map_of_map_snd consensus_def eligible_rows_def)
  next
    case False
    have "map fst ?g = ?order" by (simp only: group_chunks_keys) (simp add: o_def)
    then have "c \<notin> fst ` set ?g" using False by (simp only: flip: set_map) simp
    then have "map_of ?g c = None" by (simp only: map_of_eq_None_iff) simp
    then show ?thesis using False mem eq
      by (cases "?order = []") (simp_all add: consensus_many_def map_of_map_snd)
  qed
qed


section \<open>A concrete vote\<close>

definition ex_crow :: "string \<Rightarrow> publisher \<Rightarrow> string \<Rightarrow> time \<Rightarrow> crow" where
  "ex_crow h pub field t = \<lparr>c_hash = h, c_cid = ''f01551203aabbcc'', c_publisher = pub, c_mime = None,
     c_size = DNull, c_filename = None, c_field = field, c_topic = None, c_keywords = Some ''A, b,a'',
     c_license = None, c_text_sha256 = None, c_classifier = JNull, c_indexed_at = t, c_received = t\<rparr>"

definition ex_split_db :: catalog where
  "ex_split_db = empty_catalog\<lparr>classifies :=
     [ex_crow ''h1'' ''peer1'' ''computer-science'' 1, ex_crow ''h2'' ''peer2'' ''other'' 2]\<rparr>"

lemma ex_split_vote: "t_field (consensus ex_club ex_split_db ''f01551203aabbcc'') = Some ''computer-science''"
  by code_simp

theorem field_plurality_witness:
  "\<exists>r\<in>set (latest_per_publisher (eligible_rows ex_split_db ''f01551203aabbcc'')).
     normalize_field ex_club (JStr (c_field r)) = ''computer-science''"
  using field_plurality [OF ex_split_vote] by blast

text \<open>Twelve ballots of one keyword each: two keywords do not make the list.\<close>

definition ex_keyword_db :: catalog where
  "ex_keyword_db = empty_catalog\<lparr>classifies :=
     map (\<lambda>i. (ex_crow ''h'' [char_of (97 + i)] ''other'' (of_nat i))\<lparr>c_keywords := Some [char_of (97 + i)]\<rparr>) [0..<12]\<rparr>"

lemma ex_keyword_votes: "map fst (t_keyword_votes (consensus ex_club ex_keyword_db ''f01551203aabbcc''))
    = map (\<lambda>i. [char_of (97 + i)]) [0..<12]"
  by code_simp

theorem keywords_top_ten_witness:
  "\<exists>ks. t_keywords (consensus ex_club ex_keyword_db ''f01551203aabbcc'') = py_join '', '' ks
     \<and> length ks = 10 \<and> distinct ks"
proof -
  have "length (t_keyword_votes (consensus ex_club ex_keyword_db ''f01551203aabbcc'')) = 12"
    using arg_cong [OF ex_keyword_votes, of length] by simp
  with keywords_top_ten [of ex_club ex_keyword_db "''f01551203aabbcc''"] show ?thesis by auto
qed

text \<open>
  A split vote still shows a label. With one ballot for each of two fields no field is a
  unique winner, and the vote shows the one of the ballot received first.
\<close>

theorem split_vote_shows_first:
  "\<exists>P db cid f g. f \<noteq> g \<and> t_field_votes (consensus P db cid) = [(f, 1), (g, 1)]
     \<and> t_field (consensus P db cid) = Some f"
proof (intro exI conjI)
  show "''computer-science'' \<noteq> ''other''" by simp
  show "t_field_votes (consensus ex_club ex_split_db ''f01551203aabbcc'') = [(''computer-science'', 1), (''other'', 1)]"
    by code_simp
  show "t_field (consensus ex_club ex_split_db ''f01551203aabbcc'') = Some ''computer-science''"
    by (rule ex_split_vote)
qed

end
