(* ===== verification/Unixfs.thy ===== *)
theory Unixfs
  imports Cidutil
begin

text \<open>
  \<open>observer/unixfs.py\<close>: the dag-pb and UnixFS decoder, the encoding of a link's binary CID
  as text, and the choice of file names from link names. UTF-8 decoding of link names
  (\<open>bytes.decode("utf-8", errors="replace")\<close>) is the argument \<open>utf8\<close>. A malformed block makes
  the source raise; here that is \<open>Inl\<close>.
\<close>

section \<open>Protobuf\<close>

definition UNIXFS_TYPES :: "nat \<Rightarrow> string" where
  "UNIXFS_TYPES v =
     (if v = 0 then ''raw'' else if v = 1 then ''directory'' else if v = 2 then ''file''
      else if v = 3 then ''metadata'' else if v = 4 then ''symlink''
      else if v = 5 then ''hamt-shard'' else ''unknown'')"

fun pb_varint_loop :: "bytes \<Rightarrow> nat \<Rightarrow> nat \<Rightarrow> (nat \<times> bytes) res" where
  "pb_varint_loop [] shift result = Inl IndexError"
| "pb_varint_loop (b # data) shift result =
     (let result' = result OR push_bit shift (unat (b AND 0x7F))
      in if b AND 0x80 = 0 then Inr (result', data)
         else pb_varint_loop data (shift + 7) result')"

definition pb_read_varint :: "bytes \<Rightarrow> (nat \<times> bytes) res" where
  "pb_read_varint data = pb_varint_loop data 0 0"

lemma pb_varint_loop_shorter:
  "pb_varint_loop data sh r = Inr (v, rest) \<Longrightarrow> length rest < length data"
proof (induction data sh r rule: pb_varint_loop.induct)
  case (2 b data sh r)
  then show ?case by (fastforce simp: Let_def split: if_splits)
qed simp

lemma pb_read_varint_shorter: "pb_read_varint data = Inr (v, rest) \<Longrightarrow> length rest < length data"
  unfolding pb_read_varint_def by (rule pb_varint_loop_shorter)

datatype pbval = VInt nat | VBytes bytes

definition cons_field :: "nat \<times> nat \<times> pbval \<Rightarrow> (nat \<times> nat \<times> pbval) list res \<Rightarrow>
    (nat \<times> nat \<times> pbval) list res" where
  "cons_field f r = (case r of Inl e \<Rightarrow> Inl e | Inr fs \<Rightarrow> Inr (f # fs))"

text \<open>
  \<open>_read_fields\<close>: every field of a message. The generator's consumer has no effect of its own
  before the message is exhausted, so a raise in the middle is a raise of the whole.
\<close>

function read_fields :: "bytes \<Rightarrow> (nat \<times> nat \<times> pbval) list res" where
  "read_fields data =
     (if data = [] then Inr []
      else (case pb_read_varint data of
              Inl e \<Rightarrow> Inl e
            | Inr (key, d) \<Rightarrow>
                let field = drop_bit 3 key; wt = key AND 7 in
                if wt = 0 then
                  (case pb_read_varint d of
                     Inl e \<Rightarrow> Inl e
                   | Inr (val, d') \<Rightarrow> cons_field (field, wt, VInt val) (read_fields d'))
                else if wt = 2 then
                  (case pb_read_varint d of
                     Inl e \<Rightarrow> Inl e
                   | Inr (len, d') \<Rightarrow>
                       cons_field (field, wt, VBytes (take len d')) (read_fields (drop len d')))
                else if wt = 5 then
                  cons_field (field, wt, VBytes (take 4 d)) (read_fields (drop 4 d))
                else if wt = 1 then
                  cons_field (field, wt, VBytes (take 8 d)) (read_fields (drop 8 d))
                else Inr []))"
  by pat_completeness auto
termination
  by (relation "measure length") (auto dest!: pb_read_varint_shorter)

declare read_fields.simps [simp del]

section \<open>Link CIDs as text\<close>

definition B32_LOWER :: string where
  "B32_LOWER = ''abcdefghijklmnopqrstuvwxyz234567''"

text \<open>The inner loop \<open>while bits >= 5\<close>: the letters it appends and the bits it leaves.\<close>

fun b32_drain :: "nat \<Rightarrow> nat \<Rightarrow> string \<times> nat" where
  "b32_drain num bits =
     (if 5 \<le> bits then
        (case b32_drain num (bits - 5) of
           (out, bits') \<Rightarrow> (B32_LOWER ! (drop_bit (bits - 5) num AND 0x1F) # out, bits'))
      else ([], bits))"

declare b32_drain.simps [simp del]

fun b32_bytes :: "nat \<Rightarrow> nat \<Rightarrow> bytes \<Rightarrow> string \<times> nat \<times> nat" where
  "b32_bytes num bits [] = ([], num, bits)"
| "b32_bytes num bits (byte # raw) =
     (let num' = push_bit 8 num OR unat byte in
      case b32_drain num' (bits + 8) of
        (out, bits') \<Rightarrow>
          (case b32_bytes num' bits' raw of (out', v, b) \<Rightarrow> (out @ out', v, b)))"

definition b58encode :: "bytes \<Rightarrow> string" where
  "b58encode raw =
     replicate (length raw - length (py_lstrip (\<lambda>b. b = 0) raw)) (CHR ''1'')
     @ map (\<lambda>d. B58_ALPHABET ! d) (be_digits 58 (from_bytes raw))"

text \<open>The letters the loop over the bytes collects, with the left-over bits at the end.\<close>

definition b32_text :: "bytes \<Rightarrow> string" where
  "b32_text raw =
     (case b32_bytes 0 0 raw of
        (out, num, bits) \<Rightarrow>
          out @ (if bits \<noteq> 0 then [B32_LOWER ! (push_bit (5 - bits) num AND 0x1F)] else []))"

definition cid_from_hash :: "bytes \<Rightarrow> cid" where
  "cid_from_hash raw =
     (if length raw = 34 \<and> raw ! 0 = 0x12 \<and> raw ! 1 = 0x20 then b58encode raw
      else CHR ''b'' # b32_text raw)"

section \<open>dag-pb nodes\<close>

record node =
  unixfs_type :: "string option"
  inline_data :: bytes
  links :: "(string option \<times> cid) list"
  is_directory :: bool
  is_file :: bool
  filesize :: "nat option"

definition new_node :: node where
  "new_node = \<lparr>unixfs_type = None, inline_data = [], links = [], is_directory = False,
               is_file = False, filesize = None\<rparr>"

text \<open>One PBLink: the last Hash and the last Name of the message count.\<close>

fun link_fields :: "(bytes \<Rightarrow> string) \<Rightarrow> (nat \<times> nat \<times> pbval) list \<Rightarrow>
    string option \<times> cid option \<Rightarrow> string option \<times> cid option" where
  "link_fields utf8 [] (name, chash) = (name, chash)"
| "link_fields utf8 ((lf, lwt, lval) # fs) (name, chash) =
     (case lval of
        VBytes b \<Rightarrow>
          if lf = 1 \<and> lwt = 2 then link_fields utf8 fs (name, Some (cid_from_hash b))
          else if lf = 2 \<and> lwt = 2 then link_fields utf8 fs (Some (utf8 b), chash)
          else link_fields utf8 fs (name, chash)
      | VInt n \<Rightarrow> link_fields utf8 fs (name, chash))"

fun block_fields :: "(bytes \<Rightarrow> string) \<Rightarrow> (nat \<times> nat \<times> pbval) list \<Rightarrow>
    (string option \<times> cid) list \<Rightarrow> bytes option \<Rightarrow>
    ((string option \<times> cid) list \<times> bytes option) res" where
  "block_fields utf8 [] ls pbdata = Inr (ls, pbdata)"
| "block_fields utf8 ((field, wt, val) # fs) ls pbdata =
     (case val of
        VBytes b \<Rightarrow>
          if field = 1 \<and> wt = 2 then block_fields utf8 fs ls (Some b)
          else if field = 2 \<and> wt = 2 then
            (case read_fields b of
               Inl e \<Rightarrow> Inl e
             | Inr lfs \<Rightarrow>
                 (case link_fields utf8 lfs (None, None) of
                    (name, Some chash) \<Rightarrow>
                      if chash \<noteq> [] then block_fields utf8 fs (ls @ [(name, chash)]) pbdata
                      else block_fields utf8 fs ls pbdata
                  | (name, None) \<Rightarrow> block_fields utf8 fs ls pbdata))
          else block_fields utf8 fs ls pbdata
      | VInt n \<Rightarrow> block_fields utf8 fs ls pbdata)"

fun data_fields :: "(nat \<times> nat \<times> pbval) list \<Rightarrow> node \<Rightarrow> node" where
  "data_fields [] node = node"
| "data_fields ((field, wt, val) # fs) node =
     (case val of
        VInt n \<Rightarrow>
          if field = 1 \<and> wt = 0 then data_fields fs (node\<lparr>unixfs_type := Some (UNIXFS_TYPES n)\<rparr>)
          else if field = 3 \<and> wt = 0 then data_fields fs (node\<lparr>filesize := Some n\<rparr>)
          else data_fields fs node
      | VBytes b \<Rightarrow>
          if field = 2 \<and> wt = 2 then data_fields fs (node\<lparr>inline_data := b\<rparr>)
          else data_fields fs node)"

definition set_kind :: "node \<Rightarrow> node" where
  "set_kind node =
     node\<lparr>is_directory := unixfs_type node \<in> {Some ''directory'', Some ''hamt-shard''},
          is_file := unixfs_type node \<in> {Some ''file'', Some ''raw''}\<rparr>"

definition parse_dag_pb :: "(bytes \<Rightarrow> string) \<Rightarrow> bytes \<Rightarrow> node res" where
  "parse_dag_pb utf8 block =
     (case read_fields block of
        Inl e \<Rightarrow> Inl e
      | Inr fs \<Rightarrow>
          (case block_fields utf8 fs [] None of
             Inl e \<Rightarrow> Inl e
           | Inr (ls, pbdata) \<Rightarrow>
               let node = new_node\<lparr>links := ls\<rparr> in
               (case pbdata of
                  None \<Rightarrow> Inr (set_kind node)
                | Some d \<Rightarrow>
                    (case read_fields d of
                       Inl e \<Rightarrow> Inl e
                     | Inr dfs \<Rightarrow> Inr (set_kind (data_fields dfs node))))))"

section \<open>File names\<close>

definition FILE_EXT :: "string list" where
  "FILE_EXT = [''.pdf'', ''.html'', ''.htm'', ''.txt'', ''.md'', ''.css'', ''.js'', ''.mjs'',
     ''.cjs'', ''.ts'', ''.jsx'', ''.tsx'', ''.map'', ''.json'', ''.wasm'', ''.less'', ''.scss'']"

definition DOC_CHILD_EXT :: "string list" where
  "DOC_CHILD_EXT = [''.pdf'']"

text \<open>\<open>name.replace("\\", "/").rsplit("/", 1)[-1].strip()\<close>.\<close>

definition base_name :: "string \<Rightarrow> string" where
  "base_name name =
     py_strip (last (split_by (\<lambda>c. c = CHR ''/'') (replace_char (char_of (92::nat)) (CHR ''/'') name)))"

definition bad_base :: "string \<Rightarrow> bool" where
  "bad_base base \<longleftrightarrow> base = [] \<or> base = ''.'' \<or> base = ''..'' \<or> 180 < length base"

definition has_ext :: "string list \<Rightarrow> string \<Rightarrow> bool" where
  "has_ext exts base \<longleftrightarrow> list_ex (\<lambda>ext. py_endswith (py_lower base) ext) exts"

fun doc_child_loop :: "int \<Rightarrow> (string \<times> cid) list \<Rightarrow> (string option \<times> cid) list \<Rightarrow>
    (string \<times> cid) list" where
  "doc_child_loop max_n out [] = out"
| "doc_child_loop max_n out ((name, cid) # ls) =
     (if int (length out) \<ge> max_n then out
      else (case name of
              None \<Rightarrow> doc_child_loop max_n out ls
            | Some nm \<Rightarrow>
                if nm = [] \<or> cid = [] then doc_child_loop max_n out ls
                else
                  let base = base_name nm in
                  if bad_base base then doc_child_loop max_n out ls
                  else if \<not> has_ext DOC_CHILD_EXT base then doc_child_loop max_n out ls
                  else doc_child_loop max_n (out @ [(base, cid)]) ls))"

definition doc_child_links :: "int \<Rightarrow> (string option \<times> cid) list \<Rightarrow> (string \<times> cid) list" where
  "doc_child_links max_n ls = doc_child_loop max_n [] ls"

definition py_isdigit :: "string \<Rightarrow> bool" where
  "py_isdigit s \<longleftrightarrow> s \<noteq> [] \<and>
     list_all (\<lambda>c. let n = (of_char c :: nat) in (48 \<le> n \<and> n \<le> 57) \<or> n \<in> {178, 179, 185}) s"

fun pick_filename_loop :: "string option \<Rightarrow> string list \<Rightarrow> string option" where
  "pick_filename_loop fallback [] = fallback"
| "pick_filename_loop fallback (raw # names) =
     (if raw = [] then pick_filename_loop fallback names
      else
        let base = base_name raw in
        if bad_base base then pick_filename_loop fallback names
        else if py_isdigit base then pick_filename_loop fallback names
        else if has_ext FILE_EXT base then Some base
        else pick_filename_loop (case fallback of None \<Rightarrow> Some base | Some f \<Rightarrow> Some f) names)"

definition pick_filename :: "string list \<Rightarrow> string option" where
  "pick_filename names = pick_filename_loop None names"

section \<open>Lemmas: encoding a link is inverse to decoding its text\<close>

lemma b58decode_b58encode: "b58decode (b58encode raw) = Inr raw"
proof -
  let ?ds = "be_digits 58 (from_bytes raw)"
  have "b58decode (b58encode raw)
      = Inr (replicate (length raw - length (dropWhile (\<lambda>b. b = 0) raw)) 0
             @ to_bytes (be_value 58 ?ds))"
    unfolding b58encode_def py_lstrip_def
    by (rule b58decode_digits) (auto simp: be_digits_no_leading_zero intro: be_digits_less)
  also have "be_value 58 ?ds = from_bytes raw" by (simp add: be_value_be_digits)
  finally show ?thesis
    by (simp add: to_bytes_from_bytes takeWhile_replicate_dropWhile)
qed

abbreviation lower_letters :: "nat list \<Rightarrow> string" where
  "lower_letters ds \<equiv> map (\<lambda>d. B32_LOWER ! d) ds"

lemma b32_drain_digits:
  "b32_drain num bits =
     (lower_letters (dig_fixed 32 (bits div 5) (num div 2 ^ (bits mod 5))), bits mod 5)"
proof (induction bits rule: less_induct)
  case (less bits)
  show ?case
  proof (cases "5 \<le> bits")
    case True
    let ?k = "(bits - 5) div 5" let ?r = "bits mod 5"
    have k: "bits div 5 = Suc ?k" "(bits - 5) mod 5 = ?r" "bits - 5 = 5 * ?k + ?r"
      using True by (simp_all add: le_div_geq le_mod_geq)
    have "(2 :: nat) ^ (bits - 5) = 2 ^ ?r * 32 ^ ?k"
      by (subst k(3)) (simp add: power_add power_mult)
    then have "drop_bit (bits - 5) num AND 31 = num div 2 ^ ?r div 32 ^ ?k mod 32"
      using take_bit_eq_mask [of 5 "drop_bit (bits - 5) num"]
      by (simp add: drop_bit_eq_div take_bit_eq_mod mask_eq_exp_minus_1 div_mult2_eq)
    with True less.IH [of "bits - 5"] k show ?thesis
      by (subst b32_drain.simps) (simp add: dig_fixed_Suc_front del: dig_fixed.simps)
  next
    case False
    then show ?thesis by (subst b32_drain.simps) simp
  qed
qed

lemma push_or_byte: "push_bit 8 num OR unat (b :: byte) = num * 256 + unat b"
proof -
  have "push_bit 8 num OR unat b = push_bit 8 num + unat b"
  proof (rule disjunctive_add [symmetric])
    fix n
    have "n < 8" if "bit (unat b) n"
    proof (rule ccontr)
      assume "\<not> n < 8"
      then have "(256 :: nat) \<le> 2 ^ n" using power_increasing [of 8 n "2 :: nat"] by simp
      with byte_less [of b] have "unat b < 2 ^ n" by linarith
      with that show False by (simp add: bit_iff_odd)
    qed
    then show "\<not> bit (push_bit 8 num) n \<or> \<not> bit (unat b) n"
      by (auto simp: bit_push_bit_iff)
  qed
  then show ?thesis by (simp add: push_bit_eq_mult)
qed

lemma bit_budget: "5 * n + b = m + 8 * l \<Longrightarrow> 5 * k + m = c + 8 \<Longrightarrow> 5 * (k + n) + b = c + 8 * Suc l"
  for n :: nat
  by simp

lemma b32_bytes_digits:
  assumes "bits < 5"
  shows "\<exists>n b. b32_bytes acc bits raw =
     (lower_letters (dig_fixed 32 n ((acc * 256 ^ length raw + from_bytes raw) div 2 ^ b)),
      acc * 256 ^ length raw + from_bytes raw, b)
     \<and> b < 5 \<and> 5 * n + b = bits + 8 * length raw"
  using assms
proof (induction raw arbitrary: acc bits)
  case Nil
  then show ?case by (intro exI [of _ 0] exI [of _ bits]) (simp add: from_bytes_def)
next
  case (Cons byte raw)
  let ?num = "acc * 256 + unat byte"
  let ?b = "(bits + 8) mod 5"
  let ?k = "(bits + 8) div 5"
  from Cons.IH [of ?b ?num] obtain n b where
    rest: "b32_bytes ?num ?b raw =
      (lower_letters (dig_fixed 32 n ((?num * 256 ^ length raw + from_bytes raw) div 2 ^ b)),
       ?num * 256 ^ length raw + from_bytes raw, b)"
    and b: "b < 5" "5 * n + b = ?b + 8 * length raw" by auto
  let ?v = "?num * 256 ^ length raw + from_bytes raw"
  have v: "acc * 256 ^ length (byte # raw) + from_bytes (byte # raw) = ?v"
    by (simp add: from_bytes_def be_value_Cons algebra_simps)
  have "?v div 2 ^ b div 32 ^ n = ?num div 2 ^ ?b"
  proof -
    have "(2 :: nat) ^ b * 32 ^ n = 256 ^ length raw * 2 ^ ?b"
    proof -
      have "(2 :: nat) ^ b * 32 ^ n = 2 ^ (5 * n + b)" by (simp add: power_add power_mult)
      also have "\<dots> = 2 ^ (8 * length raw + ?b)" using b(2) by (simp add: add.commute)
      also have "\<dots> = 256 ^ length raw * 2 ^ ?b" by (simp add: power_add power_mult)
      finally show ?thesis .
    qed
    moreover have "?v div 256 ^ length raw = ?num" using from_bytes_less [of raw] by simp
    ultimately show ?thesis by (metis div_mult2_eq)
  qed
  then have "lower_letters (dig_fixed 32 ?k (?num div 2 ^ ?b))
      @ lower_letters (dig_fixed 32 n (?v div 2 ^ b)) = lower_letters (dig_fixed 32 (?k + n) (?v div 2 ^ b))"
    by (simp add: dig_fixed_add)
  then have "b32_bytes acc bits (byte # raw) = (lower_letters (dig_fixed 32 (?k + n) (?v div 2 ^ b)), ?v, b)"
    using rest by (simp add: push_or_byte b32_drain_digits Let_def)
  moreover have "5 * (?k + n) + b = bits + 8 * length (byte # raw)"
    using bit_budget [OF b(2) mult_div_mod_eq] by simp
  ultimately show ?case using b(1) v by metis
qed

lemma lower_letters_upper:
  "\<forall>d\<in>set ds. d < 32 \<Longrightarrow> py_upper (lower_letters ds) = b32_letters ds"
proof (induction ds)
  case (Cons d ds)
  have "list_all (\<lambda>d. upper_char (B32_LOWER ! d) = [B32_ALPHABET ! d]) [0..<32]"
    by code_simp
  then have "upper_char (B32_LOWER ! d) = [B32_ALPHABET ! d]"
    using Cons.prems by (simp add: list_all_iff)
  with Cons show ?case by (simp add: py_upper_def)
qed (simp add: py_upper_def)

text \<open>The text of \<open>L\<close> bytes: \<open>N\<close> letters spelling the number shifted by the \<open>p\<close> spare bits.\<close>

lemma b32_text_digits:
  "\<exists>N p. b32_text raw = lower_letters (dig_fixed 32 N (from_bytes raw * 2 ^ p))
         \<and> p < 5 \<and> 5 * N = 8 * length raw + p"
proof -
  obtain n b where bytes: "b32_bytes 0 0 raw =
      (lower_letters (dig_fixed 32 n (from_bytes raw div 2 ^ b)), from_bytes raw, b)"
    and b: "b < 5" "5 * n + b = 8 * length raw"
    using b32_bytes_digits [of 0 0 raw] by auto
  show ?thesis
  proof (cases "b = 0")
    case True
    with bytes b show ?thesis
      by (intro exI [of _ n] exI [of _ 0]) (simp add: b32_text_def)
  next
    case False
    let ?v = "from_bytes raw" let ?p = "5 - b"
    have pw: "(2 :: nat) ^ b * 2 ^ ?p = 32" using b(1) by (simp flip: power_add)
    then have "?v * 2 ^ ?p div 32 = ?v div 2 ^ b"
      by (metis div_mult_mult2 power_not_zero zero_neq_numeral)
    moreover have "push_bit ?p ?v AND 31 = ?v * 2 ^ ?p mod 32"
      using take_bit_eq_mask [of 5 "push_bit ?p ?v"]
      by (simp add: push_bit_eq_mult take_bit_eq_mod mask_eq_exp_minus_1)
    ultimately have "b32_text raw = lower_letters (dig_fixed 32 (Suc n) (?v * 2 ^ ?p))"
      using False bytes by (simp add: b32_text_def)
    moreover have "5 * Suc n = 8 * length raw + ?p" using b by simp
    ultimately show ?thesis using False by (intro exI [of _ "Suc n"] exI [of _ ?p]) auto
  qed
qed

lemma b32_untext_text: "b32_untext (b32_text raw) = Inr raw"
proof -
  obtain N p where letters: "b32_text raw = lower_letters (dig_fixed 32 N (from_bytes raw * 2 ^ p))"
    and p: "p < 5" "5 * N = 8 * length raw + p"
    using b32_text_digits by blast
  let ?ds = "dig_fixed 32 N (from_bytes raw * 2 ^ p)"
  have lt: "\<forall>d\<in>set ?ds. d < 32" using dig_fixed_less [of 32] by auto
  have "5 * N mod 8 = p" "5 * N div 8 = length raw" using p by simp_all
  moreover have "N mod 8 \<in> {0, 2, 4, 5, 7}"
  proof -
    have "5 * (N mod 8) mod 8 = p" using \<open>5 * N mod 8 = p\<close> by (simp add: mod_mult_right_eq)
    moreover have "N mod 8 \<in> {0, 1, 2, 3, 4, 5, 6, 7}" using mod_less_divisor [of 8 N] by auto
    ultimately show ?thesis using p(1) by auto
  qed
  moreover have "from_bytes raw * 2 ^ p < 32 ^ N"
  proof -
    have "from_bytes raw * 2 ^ p < 256 ^ length raw * 2 ^ p" using from_bytes_less [of raw] by simp
    also have "\<dots> = 2 ^ (8 * length raw + p)" by (simp add: power_add power_mult)
    also have "\<dots> = 32 ^ N" by (simp flip: p(2) add: power_mult)
    finally show ?thesis .
  qed
  then have "be_value 32 ?ds = from_bytes raw * 2 ^ p" by (simp add: be_value_dig_fixed)
  ultimately have "b32decode (b32_letters ?ds @ replicate ((8 - N mod 8) mod 8) (CHR ''=''))
      = Inr (be_fixed (length raw) (from_bytes raw))"
    using b32decode_digits [OF lt] by simp
  then show ?thesis
    by (simp add: b32_untext_def letters lower_letters_upper [OF lt] b32_pad_length
        be_fixed_from_bytes)
qed

subsection \<open>The interface of a byte-to-text encoding\<close>

text \<open>
  What the code relies on when it turns the binary CID of a link into text and later decodes
  that text: decoding inverts encoding. Interpreted on both encodings in use.
\<close>

locale text_codec =
  fixes encode :: "bytes \<Rightarrow> string" and decode :: "string \<Rightarrow> bytes res"
  assumes decode_encode: "decode (encode raw) = Inr raw"
begin

lemma encode_inject: "encode raw = encode raw' \<Longrightarrow> raw = raw'"
  by (metis decode_encode sum.inject(2))

lemma res_decode_encode: "res_decode f (decode (encode raw)) = f raw"
  by (simp add: res_decode_def decode_encode)

end

interpretation b58: text_codec b58encode b58decode
  by unfold_locales (rule b58decode_b58encode)

interpretation b32: text_codec b32_text b32_untext
  by unfold_locales (rule b32_untext_text)

lemma be_digits_dig_fixed:
  "1 < b \<Longrightarrow> b ^ k \<le> n \<Longrightarrow> n < b ^ Suc k \<Longrightarrow> be_digits b n = dig_fixed b (Suc k) n"
proof (induction k arbitrary: n)
  case 0
  then show ?case by (subst be_digits.simps) auto
next
  case (Suc k)
  have "b ^ k \<le> n div b"
    using Suc.prems by (metis less_eq_div_iff_mult_less_eq mult.commute not_one_less_zero
        neq0_conv power_Suc)
  moreover have "n div b < b ^ Suc k"
    using Suc.prems by (metis less_mult_imp_div_less mult.commute power_Suc)
  ultimately have "be_digits b (n div b) = dig_fixed b (Suc k) (n div b)"
    using Suc by blast
  moreover have "n \<noteq> 0" using Suc.prems by (metis le_zero_eq power_eq_0_iff not_one_less_zero)
  ultimately show ?case using Suc.prems(1) by (subst be_digits.simps) simp
qed

text \<open>A sha2-256 multihash encodes to the 46 letters of a CIDv0 that start with \<open>Qm\<close>.\<close>

lemma b58encode_v0:
  assumes "length rest = 32"
  shows "length (b58encode (0x12 # 0x20 # rest)) = 46
       \<and> py_startswith (b58encode (0x12 # 0x20 # rest)) ''Qm''"
proof -
  let ?raw = "0x12 # 0x20 # rest" let ?n = "from_bytes ?raw"
  have n: "?n = 0x1220 * 256 ^ 32 + from_bytes rest"
    using assms by (simp add: from_bytes_def be_value_Cons)
  have "from_bytes rest < 256 ^ 32" using from_bytes_less [of rest] assms by simp
  then have bounds: "1378 * 58 ^ 44 \<le> ?n" "?n < 1379 * 58 ^ 44" by (simp_all add: n)
  then have "?n div 58 ^ 44 = 1378" by (simp add: div_nat_eqI)
  moreover have "58 ^ 45 \<le> ?n" "?n < 58 ^ Suc 45" using bounds by simp_all
  then have "be_digits 58 ?n = dig_fixed 58 (2 + 44) ?n"
    using be_digits_dig_fixed [of 58 45 ?n] by simp
  ultimately have "be_digits 58 ?n = [23, 44] @ dig_fixed 58 44 ?n"
    by (simp only: dig_fixed_add) (simp add: numeral_2_eq_2)
  then have "b58encode ?raw = ''Qm'' @ map (\<lambda>d. B58_ALPHABET ! d) (dig_fixed 58 44 ?n)"
    by (simp add: b58encode_def py_lstrip_def B58_ALPHABET_def)
  then show ?thesis by (simp add: py_startswith_def)
qed

section \<open>Lemmas: reading protobuf messages\<close>

text \<open>The protobuf encoding of the two wire types dag-pb and UnixFS use.\<close>

fun enc_varint :: "nat \<Rightarrow> bytes" where
  "enc_varint n = (if n < 128 then [of_nat n] else of_nat (n mod 128 + 128) # enc_varint (n div 128))"

declare enc_varint.simps [simp del]

datatype pbfield = IntField nat nat | BytesField nat bytes

fun enc_field :: "pbfield \<Rightarrow> bytes" where
  "enc_field (IntField f n) = enc_varint (8 * f) @ enc_varint n"
| "enc_field (BytesField f b) = enc_varint (8 * f + 2) @ enc_varint (length b) @ b"

fun field_of :: "pbfield \<Rightarrow> nat \<times> nat \<times> pbval" where
  "field_of (IntField f n) = (f, 0, VInt n)"
| "field_of (BytesField f b) = (f, 2, VBytes b)"

lemma or_push_add: "r < 2 ^ sh \<Longrightarrow> r OR push_bit sh x = r + x * 2 ^ sh" for r x :: nat
proof -
  assume r: "r < 2 ^ sh"
  have "r OR push_bit sh x = r + push_bit sh x"
  proof (rule disjunctive_add [symmetric])
    fix n
    have "n < sh" if "bit r n"
    proof (rule ccontr)
      assume "\<not> n < sh"
      then have "(2 :: nat) ^ sh \<le> 2 ^ n" by simp
      with r have "r < 2 ^ n" by linarith
      with that show False by (simp add: bit_iff_odd)
    qed
    then show "\<not> bit r n \<or> \<not> bit (push_bit sh x) n" by (auto simp: bit_push_bit_iff)
  qed
  then show ?thesis by (simp add: push_bit_eq_mult)
qed

lemma byte_low7: "unat ((b :: byte) AND 0x7F) = unat b mod 128"
  using take_bit_eq_mask [of 7 "unat b"]
  by (simp add: unsigned_and_eq take_bit_eq_mod mask_eq_exp_minus_1)

lemma byte_high_bit: "(b :: byte) AND 0x80 = 0 \<longleftrightarrow> unat b < 128"
proof -
  have "b AND 0x80 = 0 \<longleftrightarrow> \<not> bit b 7"
    using and_exp_eq_0_iff_not_bit [of b 7] by simp
  also have "bit b 7 \<longleftrightarrow> bit (unat b) 7" by (simp add: bit_unsigned_iff)
  also have "bit (unat b) 7 \<longleftrightarrow> odd (unat b div 128)" by (simp only: bit_iff_odd) simp
  also have "odd (unat b div 128) \<longleftrightarrow> 128 \<le> unat b"
  proof -
    have "unat b div 128 < 2" using byte_less [of b] by simp
    then show ?thesis by (cases "unat b div 128") (auto simp: less_Suc_eq div_eq_0_iff)
  qed
  finally show ?thesis by auto
qed


lemma pb_varint_loop_enc:
  "r < 2 ^ sh \<Longrightarrow> pb_varint_loop (enc_varint n @ rest) sh r = Inr (r + n * 2 ^ sh, rest)"
proof (induction n arbitrary: sh r rule: enc_varint.induct)
  case (1 n)
  show ?case
  proof (cases "n < 128")
    case True
    then have "unat (of_nat n :: byte) = n" by (simp add: unat_of_nat)
    with True 1 show ?thesis
      by (subst enc_varint.simps) (simp add: byte_low7 byte_high_bit or_push_add)
  next
    case False
    let ?b = "of_nat (n mod 128 + 128) :: byte"
    have b: "unat ?b = n mod 128 + 128" by (simp only: unat_of_nat) simp
    have "r + n mod 128 * 2 ^ sh < 2 ^ (sh + 7)"
    proof -
      have "r + n mod 128 * 2 ^ sh < 2 ^ sh + n mod 128 * 2 ^ sh" using 1 by simp
      also have "\<dots> = (n mod 128 + 1) * 2 ^ sh" by simp
      also have "\<dots> \<le> 128 * 2 ^ sh" by (intro mult_le_mono1) (simp add: Suc_le_eq)
      also have "\<dots> = 2 ^ (sh + 7)" by (simp add: power_add)
      finally show ?thesis .
    qed
    from 1(1) [OF False this]
    have "pb_varint_loop (enc_varint n @ rest) sh r
        = Inr (r + n mod 128 * 2 ^ sh + n div 128 * 2 ^ (sh + 7), rest)"
      using False 1(2) b
      by (subst enc_varint.simps) (simp add: byte_low7 byte_high_bit or_push_add Let_def)
    also have "r + n mod 128 * 2 ^ sh + n div 128 * 2 ^ (sh + 7)
        = r + (n div 128 * 128 + n mod 128) * 2 ^ sh"
      by (simp only: power_add add_mult_distrib) simp
    finally show ?thesis by simp
  qed
qed

lemma pb_read_varint_enc [simp]: "pb_read_varint (enc_varint n @ rest) = Inr (n, rest)"
  using pb_varint_loop_enc [of 0 0 n rest] by (simp add: pb_read_varint_def)

lemma enc_varint_not_Nil [simp]: "enc_varint n \<noteq> []"
  by (subst enc_varint.simps) simp

lemma field_key: "drop_bit 3 (8 * f + w) = f" "(8 * f + w) AND 7 = w" if "w < 8" for f w :: nat
  using that take_bit_eq_mask [of 3 "8 * f + w"]
  by (simp_all add: drop_bit_eq_div take_bit_eq_mod mask_eq_exp_minus_1)

lemma read_fields_enc_field:
  "read_fields (enc_field f @ rest) = cons_field (field_of f) (read_fields rest)"
proof (cases f)
  case (IntField n v)
  then show ?thesis
    using field_key [of 0 n] by (subst read_fields.simps) (simp add: Let_def)
next
  case (BytesField n b)
  then show ?thesis
    using field_key [of 2 n] by (subst read_fields.simps) (simp add: Let_def)
qed

lemma read_fields_enc: "read_fields (concat (map enc_field fs)) = Inr (map field_of fs)"
proof (induction fs)
  case Nil
  then show ?case by (simp add: read_fields.simps)
next
  case (Cons f fs)
  then show ?case by (simp add: read_fields_enc_field cons_field_def)
qed

text \<open>The serialisations of a PBLink, of a UnixFS Data message and of a PBNode.\<close>

definition enc_link :: "(bytes \<times> bytes) \<Rightarrow> bytes" where
  "enc_link l = concat (map enc_field [BytesField 1 (fst l), BytesField 2 (snd l)])"

definition enc_data :: "nat \<Rightarrow> bytes \<Rightarrow> nat \<Rightarrow> bytes" where
  "enc_data ty body fsize = concat (map enc_field [IntField 1 ty, BytesField 2 body, IntField 3 fsize])"

definition enc_node :: "(bytes \<times> bytes) list \<Rightarrow> bytes \<Rightarrow> bytes" where
  "enc_node ls d = concat (map enc_field (map (\<lambda>l. BytesField 2 (enc_link l)) ls @ [BytesField 1 d]))"

lemma cid_from_hash_not_Nil: "cid_from_hash raw \<noteq> []"
proof (cases "length raw = 34 \<and> raw ! 0 = 0x12 \<and> raw ! 1 = 0x20")
  case True
  then obtain rest where "raw = 0x12 # 0x20 # rest" "length rest = 32"
    by (cases raw; cases "tl raw") auto
  with True show ?thesis using b58encode_v0 [of rest] by (auto simp: cid_from_hash_def)
qed (auto simp: cid_from_hash_def)

lemma block_fields_links:
  "block_fields utf8 (map (\<lambda>l. field_of (BytesField 2 (enc_link l))) ls @ fs) acc d
   = block_fields utf8 fs (acc @ map (\<lambda>(h, n). (Some (utf8 n), cid_from_hash h)) ls) d"
proof (induction ls arbitrary: acc)
  case (Cons l ls)
  have "read_fields (enc_link l) = Inr [(1, 2, VBytes (fst l)), (2, 2, VBytes (snd l))]"
    unfolding enc_link_def by (simp only: read_fields_enc) simp
  with Cons show ?case
    by (simp add: cid_from_hash_not_Nil case_prod_beta)
qed simp

text \<open>
  C37: A serialised UnixFS node is parsed back: its links in order, each with its decoded name
  and the text of its CID, its type, its inline data and its size.
\<close>

theorem parse_dag_pb_enc_node:
  "parse_dag_pb utf8 (enc_node ls (enc_data ty body fsize)) = Inr \<lparr>
     unixfs_type = Some (UNIXFS_TYPES ty), inline_data = body,
     links = map (\<lambda>(h, n). (Some (utf8 n), cid_from_hash h)) ls,
     is_directory = (ty = 1 \<or> ty = 5), is_file = (ty = 0 \<or> ty = 2), filesize = Some fsize\<rparr>"
proof -
  have d: "read_fields (enc_data ty body fsize)
      = Inr [(1, 0, VInt ty), (2, 2, VBytes body), (3, 0, VInt fsize)]"
    unfolding enc_data_def by (simp only: read_fields_enc) simp
  have "read_fields (enc_node ls (enc_data ty body fsize))
      = Inr (map (\<lambda>l. field_of (BytesField 2 (enc_link l))) ls @ [(1, 2, VBytes (enc_data ty body fsize))])"
    unfolding enc_node_def by (simp only: read_fields_enc) (simp add: o_def)
  then have "parse_dag_pb utf8 (enc_node ls (enc_data ty body fsize))
      = Inr (set_kind (data_fields [(1, 0, VInt ty), (2, 2, VBytes body), (3, 0, VInt fsize)]
          (new_node\<lparr>links := map (\<lambda>(h, n). (Some (utf8 n), cid_from_hash h)) ls\<rparr>)))"
    by (simp only: parse_dag_pb_def sum.case block_fields_links) (simp add: d)
  then show ?thesis by (simp add: set_kind_def new_node_def UNIXFS_TYPES_def)
qed

text \<open>The text of a link that is not a CIDv0 decodes as CIDv1.\<close>

lemma decode_cid_v1:
  assumes "\<not> (length raw = 34 \<and> raw ! 0 = 0x12 \<and> raw ! 1 = 0x20)"
  shows "decode_cid (cid_from_hash raw) = decode_v1 raw"
proof -
  have "decode_cid (cid_from_hash raw) = res_decode decode_v1 (b32_untext (b32_text raw))"
    using assms by (auto simp: cid_from_hash_def decode_cid_def py_startswith_def)
  then show ?thesis by (simp add: b32.res_decode_encode)
qed

text \<open>
  The text that \<open>cid_from_hash\<close> makes of a link's binary CID decodes to that CID: a
  sha2-256 multihash of 34 bytes as CIDv0 with its 32 byte digest, anything else as the CIDv1
  those bytes spell (or as nothing, when they spell none).
\<close>

theorem decode_cid_from_hash:
  "decode_cid (cid_from_hash raw) =
     (if length raw = 34 \<and> raw ! 0 = 0x12 \<and> raw ! 1 = 0x20
      then Some \<lparr>ci_version = 0, ci_codec = ''dag-pb'', ci_codec_code = 0x70,
                 ci_mh_code = SHA2_256, ci_digest = drop 2 raw\<rparr>
      else decode_v1 raw)"
proof (cases "length raw = 34 \<and> raw ! 0 = 0x12 \<and> raw ! 1 = 0x20")
  case True
  then obtain rest where raw: "raw = 0x12 # 0x20 # rest" "length rest = 32"
    by (cases raw; cases "tl raw") auto
  then have "decode_cid (cid_from_hash raw) = res_decode decode_v0 (b58decode (b58encode raw))"
    using True b58encode_v0 [of rest] cid_from_hash_not_Nil [of raw]
    by (auto simp: cid_from_hash_def decode_cid_def split: list.splits)
  with True raw show ?thesis by (simp add: b58.res_decode_encode decode_v0_def SHA2_256_def)
next
  case False
  then show ?thesis using decode_cid_v1 [of raw] by auto
qed

section \<open>Lemmas: file names\<close>

text \<open>A link that \<open>doc_child_links\<close> takes, with the base name of its link name.\<close>

definition doc_child :: "string option \<times> cid \<Rightarrow> (string \<times> cid) option" where
  "doc_child l = (case l of
     (Some nm, cid) \<Rightarrow>
       if nm \<noteq> [] \<and> cid \<noteq> [] \<and> \<not> bad_base (base_name nm) \<and> has_ext DOC_CHILD_EXT (base_name nm)
       then Some (base_name nm, cid) else None
   | (None, cid) \<Rightarrow> None)"

lemma doc_child_loop_eq:
  "doc_child_loop max_n out ls = out @ take (nat (max_n - int (length out))) (List.map_filter doc_child ls)"
proof (induction max_n out ls rule: doc_child_loop.induct)
  case (1 max_n out)
  then show ?case by (simp)
next
  case (2 max_n out name cid ls)
  show ?case
  proof (cases "int (length out) \<ge> max_n")
    case True
    then show ?thesis by simp
  next
    case False
    then have "nat (max_n - int (length out)) = Suc (nat (max_n - int (length out) - 1))" by simp
    moreover have "nat (max_n - int (length out) - 1) = nat (max_n - (1 + int (length out)))"
      by (simp add: algebra_simps)
    ultimately show ?thesis using 2 False
      by (auto simp: doc_child_def Let_def split: option.splits)
  qed
qed

text \<open>
  \<open>doc_child_links\<close> returns the first \<open>max_n\<close> PDF children of a directory, in link order.
\<close>

theorem doc_child_links_spec:
  "doc_child_links max_n ls = take (nat max_n) (List.map_filter doc_child ls)"
  by (simp add: doc_child_links_def doc_child_loop_eq)

text \<open>The usable base names of a list of link names, and those with a known extension.\<close>

definition usable :: "string list \<Rightarrow> string list" where
  "usable names = filter (\<lambda>b. \<not> bad_base b \<and> \<not> py_isdigit b) (map base_name (filter (\<lambda>r. r \<noteq> []) names))"

lemma usable_Cons: "usable (raw # names) =
    (if raw \<noteq> [] \<and> \<not> bad_base (base_name raw) \<and> \<not> py_isdigit (base_name raw)
     then base_name raw # usable names else usable names)"
  by (simp add: usable_def)

lemma pick_filename_loop_eq:
  "pick_filename_loop fb names = (case find (has_ext FILE_EXT) (usable names) of
     Some b \<Rightarrow> Some b
   | None \<Rightarrow> (case fb of Some f \<Rightarrow> Some f | None \<Rightarrow> (case usable names of [] \<Rightarrow> None | b # bs \<Rightarrow> Some b)))"
proof (induction fb names rule: pick_filename_loop.induct)
  case (1 fallback)
  then show ?case by (simp add: usable_def split: option.splits)
next
  case (2 fallback raw names)
  then show ?case by (auto simp: usable_Cons Let_def split: option.splits)
qed

text \<open>
  \<open>pick_filename\<close> prefers the first usable link name with a known document extension and
  falls back to the first usable one; it returns None only when no name is usable.
\<close>

theorem pick_filename_spec:
  "pick_filename names = (case find (has_ext FILE_EXT) (usable names) of
     Some b \<Rightarrow> Some b
   | None \<Rightarrow> (case usable names of [] \<Rightarrow> None | b # bs \<Rightarrow> Some b))"
  by (simp add: pick_filename_def pick_filename_loop_eq split: option.splits)

end
