(* ===== verification/Work.thy ===== *)
theory Work
  imports Unixfs
begin

text \<open>
  \<open>observer/work.py\<close>: the local queue of sniffed CIDs. The SQLite file is the record \<open>queue\<close>
  with one list of rows per table; a write statement is a function on it and every operation
  of the module runs under the module's process lock, so it is one atomic step. The section
  \<open>fetch\<close> of the configuration is the argument \<open>F\<close>, the clock reading the argument
  \<open>now\<close>. What the module asks of the catalog (\<open>store.local_classified\<close>,
  \<open>store.already_catalogued\<close>) is an argument too and is supplied by \<open>Store\<close>.
\<close>

section \<open>Tables\<close>

datatype status = Discovered | Processing | Indexed | Skipped

datatype source = Sniff | Report | Named

record wrow =
  r_cid :: cid
  r_codec :: string
  r_first_seen :: time
  r_last_seen :: time
  r_peer_count :: int
  r_want_count :: int
  r_status :: status
  r_attempts :: int
  r_mime_type :: "string option"
  r_size :: "int option"
  r_filename :: "string option"
  r_last_retrieved :: "time option"
  r_last_checked :: "time option"
  r_error :: "string option"
  r_source :: source

record evrow =
  e_cid :: cid
  e_peer_count :: int
  e_evicted_at :: time

record unrow =
  u_cid :: cid
  u_mime_type :: "string option"
  u_seen_at :: time

record queue =
  cids :: "wrow list"
  cid_peers :: "(cid \<times> string) list"
  evicted :: "evrow list"
  seen_cids :: "(cid \<times> time) list"
  spool_offsets :: "(string \<times> int) list"
  unprocessable :: "unrow list"

definition empty_queue :: queue where
  "empty_queue = \<lparr>cids = [], cid_peers = [], evicted = [], seen_cids = [],
                  spool_offsets = [], unprocessable = []\<rparr>"

text \<open>A row as an \<open>INSERT\<close> that leaves the other columns to their defaults makes it.\<close>

definition new_row :: "cid \<Rightarrow> string \<Rightarrow> time \<Rightarrow> time \<Rightarrow> int \<Rightarrow> int \<Rightarrow> source \<Rightarrow> string option \<Rightarrow> wrow" where
  "new_row c codec first lst peers wants src fname =
     \<lparr>r_cid = c, r_codec = codec, r_first_seen = first, r_last_seen = lst, r_peer_count = peers,
      r_want_count = wants, r_status = Discovered, r_attempts = 0, r_mime_type = None,
      r_size = None, r_filename = fname, r_last_retrieved = None, r_last_checked = None,
      r_error = None, r_source = src\<rparr>"

section \<open>Row predicates, the SQL fragments of the module\<close>

text \<open>\<open>lower()\<close> and \<open>LIKE\<close> of SQLite fold ASCII letters only.\<close>

definition sql_lower :: "string \<Rightarrow> string" where
  "sql_lower s = map (\<lambda>c. let n = (of_char c :: nat) in if 65 \<le> n \<and> n \<le> 90 then char_of (n + 32) else c) s"

definition like_suffix :: "string option \<Rightarrow> string \<Rightarrow> bool" where
  "like_suffix s p \<longleftrightarrow> py_endswith (sql_lower (case s of None \<Rightarrow> [] | Some t \<Rightarrow> t)) p"

definition like_prefix :: "string option \<Rightarrow> string \<Rightarrow> bool" where
  "like_prefix s p \<longleftrightarrow> py_startswith (sql_lower (case s of None \<Rightarrow> [] | Some t \<Rightarrow> t)) p"

definition keep_src :: "wrow \<Rightarrow> bool" where
  "keep_src r \<longleftrightarrow> r_source r \<in> {Report, Named}"

definition live :: "wrow \<Rightarrow> bool" where
  "live r \<longleftrightarrow> r_status r \<in> {Discovered, Processing}"

definition named_pdf_file :: "wrow \<Rightarrow> bool" where
  "named_pdf_file r \<longleftrightarrow> like_suffix (r_filename r) ''.pdf''"

definition doc_sql :: "wrow \<Rightarrow> bool" where
  "doc_sql r \<longleftrightarrow> r_codec r \<in> {''raw'', ''dag-pb''} \<or> named_pdf_file r \<or> keep_src r"

definition named_sql :: "wrow \<Rightarrow> bool" where
  "named_sql r \<longleftrightarrow> keep_src r \<or> named_pdf_file r"

definition probe_sql :: "wrow \<Rightarrow> bool" where
  "probe_sql r \<longleftrightarrow> r_codec r = ''dag-pb'' \<and> \<not> keep_src r \<and> \<not> named_pdf_file r"

definition fill_sql :: "wrow \<Rightarrow> bool" where
  "fill_sql r \<longleftrightarrow> doc_sql r \<and> \<not> probe_sql r"

definition pdf_lane :: "wrow \<Rightarrow> bool" where
  "pdf_lane r \<longleftrightarrow> named_pdf_file r \<or> r_source r = Named \<or> r_codec r = ''dag-pb''"

definition html_lane :: "wrow \<Rightarrow> bool" where
  "html_lane r \<longleftrightarrow> \<not> pdf_lane r"

definition take_order :: "wrow \<Rightarrow> int" where
  "take_order r =
     (if r_source r \<in> {Report, Named} \<or> named_pdf_file r then 0
      else if like_suffix (r_filename r) ''.html'' \<or> like_suffix (r_filename r) ''.htm'' then 1
      else if r_codec r = ''dag-pb'' then 2
      else 3)"

section \<open>Settings\<close>

definition max_age_seconds :: "intcfg \<Rightarrow> int" where
  "max_age_seconds F = cfg_get F ''max_age_seconds'' 900"

definition max_queue :: "intcfg \<Rightarrow> int" where
  "max_queue F = cfg_get F ''max_queue'' 400"

definition skip_ttl_seconds :: "intcfg \<Rightarrow> int" where
  "skip_ttl_seconds F = cfg_get F ''skip_ttl_seconds'' 21600"

definition prefer_min_peer_count :: "intcfg \<Rightarrow> int" where
  "prefer_min_peer_count F = cfg_get F ''prefer_min_peer_count'' 2"

definition max_dir_queue :: "intcfg \<Rightarrow> int" where
  "max_dir_queue F = cfg_get F ''max_dir_queue'' 40"

definition lane_workers :: "intcfg \<Rightarrow> int" where
  "lane_workers F = max 1 (cfg_get F ''concurrency'' 16 div 2)"

definition lane_cap :: "intcfg \<Rightarrow> int" where
  "lane_cap F = max 1 (max_queue F div 2)"

definition max_dir_probes :: "intcfg \<Rightarrow> int" where
  "max_dir_probes F = (case F ''max_dir_probes'' of Some v \<Rightarrow> v | None \<Rightarrow> lane_workers F)"

section \<open>Counts\<close>

definition dir_queue_count :: "queue \<Rightarrow> int" where
  "dir_queue_count q = sql_count (\<lambda>r. live r \<and> probe_sql r) (cids q)"

definition dir_probe_count :: "queue \<Rightarrow> int" where
  "dir_probe_count q = sql_count (\<lambda>r. r_status r = Processing \<and> probe_sql r) (cids q)"

definition pdf_live_count :: "queue \<Rightarrow> int" where
  "pdf_live_count q = sql_count (\<lambda>r. live r \<and> pdf_lane r) (cids q)"

definition html_live_count :: "queue \<Rightarrow> int" where
  "html_live_count q = sql_count (\<lambda>r. live r \<and> html_lane r) (cids q)"

definition html_can_admit :: "intcfg \<Rightarrow> queue \<Rightarrow> bool" where
  "html_can_admit F q \<longleftrightarrow>
     html_live_count q < max_queue F - min (pdf_live_count q) (lane_cap F)"

definition pdf_can_admit :: "intcfg \<Rightarrow> queue \<Rightarrow> bool" where
  "pdf_can_admit F q \<longleftrightarrow>
     pdf_live_count q < max_queue F - min (html_live_count q) (lane_cap F)"

definition lane_busy :: "(wrow \<Rightarrow> bool) \<Rightarrow> queue \<Rightarrow> int" where
  "lane_busy P q = sql_count (\<lambda>r. r_status r = Processing \<and> P r) (cids q)"

definition live_count :: "queue \<Rightarrow> int" where
  "live_count q = sql_count live (cids q)"

definition at_cap :: "intcfg \<Rightarrow> queue \<Rightarrow> bool" where
  "at_cap F q \<longleftrightarrow> live_count q \<ge> max_queue F"

definition is_unprocessable :: "cid \<Rightarrow> queue \<Rightarrow> bool" where
  "is_unprocessable c q \<longleftrightarrow> has_key u_cid c (unprocessable q)"

section \<open>Writes\<close>

definition forget_cid :: "cid \<Rightarrow> queue \<Rightarrow> queue" where
  "forget_cid c q =
     q\<lparr>cid_peers := sql_delete (\<lambda>p. fst p = c) (cid_peers q),
       cids := sql_delete (\<lambda>r. r_cid r = c) (cids q)\<rparr>"

text \<open>The loop \<open>for row in rows: forget_cid(conn, row[0])\<close>.\<close>

definition forget_rows :: "wrow list \<Rightarrow> queue \<Rightarrow> queue" where
  "forget_rows rows q = fold (\<lambda>r. forget_cid (r_cid r)) rows q"

definition enqueue_review :: "intcfg \<Rightarrow> time \<Rightarrow> bool \<Rightarrow> cid \<Rightarrow> queue \<Rightarrow> bool \<times> queue" where
  "enqueue_review F now local_classified c q =
     (if \<not> valid c \<or> local_classified then (False, q)
      else
        let first = now - of_int (cfg_get F ''min_age_seconds'' 10) - 1 in
        (True,
         if has_key r_cid c (cids q) then
           q\<lparr>cids := sql_update (\<lambda>r. r_cid r = c)
               (\<lambda>r. r\<lparr>r_last_seen := now, r_first_seen := min (r_first_seen r) first,
                      r_source := Report, r_peer_count := max (r_peer_count r) 1,
                      r_status := Discovered, r_attempts := 0, r_error := None\<rparr>) (cids q)\<rparr>
         else q\<lparr>cids := cids q @ [new_row c (codec_of c) first now 1 1 Report None]\<rparr>))"

definition remember_binary :: "time \<Rightarrow> cid \<Rightarrow> string option \<Rightarrow> queue \<Rightarrow> queue" where
  "remember_binary now c mime q =
     forget_cid c
       (q\<lparr>unprocessable := insert_or_replace u_cid \<lparr>u_cid = c, u_mime_type = mime, u_seen_at = now\<rparr>
            (unprocessable q)\<rparr>)"

definition drop_directory :: "time \<Rightarrow> cid \<Rightarrow> queue \<Rightarrow> queue" where
  "drop_directory now c q =
     (let peers = (case sql_get r_cid c (cids q) of
                     None \<Rightarrow> 1
                   | Some r \<Rightarrow> if r_peer_count r = 0 then 1 else r_peer_count r)
      in q\<lparr>evicted := insert_or_replace e_cid
               \<lparr>e_cid = c, e_peer_count = peers, e_evicted_at = now\<rparr> (evicted q),
           cid_peers := sql_delete (\<lambda>p. fst p = c) (cid_peers q),
           cids := sql_delete (\<lambda>r. r_cid r = c) (cids q)\<rparr>)"

definition drop_lonely_raw :: "intcfg \<Rightarrow> queue \<Rightarrow> int \<times> queue" where
  "drop_lonely_raw F q =
     (let need = prefer_min_peer_count F in
      if need \<le> 1 then (0, q)
      else
        let rows = filter (\<lambda>r. r_status r = Discovered \<and> \<not> keep_src r \<and> r_codec r \<noteq> ''dag-pb''
                             \<and> \<not> named_pdf_file r \<and> r_peer_count r < need) (cids q) in
        (int (length rows),
         fold (\<lambda>row q. q\<lparr>cids := sql_delete (\<lambda>r. r_cid r = r_cid row) (cids q)\<rparr>) rows q))"

definition drop_named_non_pdf :: "queue \<Rightarrow> int \<times> queue" where
  "drop_named_non_pdf q =
     (let rows = filter (\<lambda>r. r_source r = Named \<and> r_status r = Discovered \<and> \<not> named_pdf_file r)
                   (cids q)
      in (int (length rows), forget_rows rows q))"

text \<open>The rows a \<open>SELECT cid ... ORDER BY last_seen ASC LIMIT n\<close> finds.\<close>

definition oldest :: "(wrow \<Rightarrow> bool) \<Rightarrow> int \<Rightarrow> queue \<Rightarrow> wrow list" where
  "oldest P n q = order_limit r_last_seen (nat n) (filter P (cids q))"

definition evict_for_unixfs :: "int \<Rightarrow> queue \<Rightarrow> int \<times> queue" where
  "evict_for_unixfs n q =
     (let rows = oldest (\<lambda>r. r_status r = Discovered \<and> \<not> keep_src r \<and> r_codec r \<noteq> ''dag-pb''
                     \<and> \<not> named_pdf_file r \<and> \<not> like_suffix (r_filename r) ''.html''
                     \<and> \<not> like_suffix (r_filename r) ''.htm'') n q
      in (int (length rows), forget_rows rows q))"

definition evict_dir_probes :: "int \<Rightarrow> queue \<Rightarrow> int \<times> queue" where
  "evict_dir_probes n q =
     (let rows = oldest (\<lambda>r. r_status r = Discovered \<and> probe_sql r) n q
      in (int (length rows), forget_rows rows q))"

fun enqueue_children_loop :: "intcfg \<Rightarrow> time \<Rightarrow> (cid \<Rightarrow> bool) \<Rightarrow> cid option \<Rightarrow> (string \<times> cid) list \<Rightarrow>
    int \<Rightarrow> int \<Rightarrow> queue \<Rightarrow> int \<times> queue" where
  "enqueue_children_loop F now catalogued skip_cid [] named_n n q = (n, q)"
| "enqueue_children_loop F now catalogued skip_cid ((filename, c) # picked) named_n n q =
     (if named_n \<ge> cfg_get F ''max_named'' 80 then (n, q)
      else if Some c = skip_cid \<or> \<not> valid c then
        enqueue_children_loop F now catalogued skip_cid picked named_n n q
      else if is_unprocessable c q \<or> catalogued c then
        enqueue_children_loop F now catalogued skip_cid picked named_n n q
      else if has_key r_cid c (cids q) then
        enqueue_children_loop F now catalogued skip_cid picked named_n n
          (q\<lparr>cids := sql_update (\<lambda>r. r_cid r = c)
               (\<lambda>r. r\<lparr>r_filename := (case r_filename r of None \<Rightarrow> Some filename | Some f \<Rightarrow> Some f)\<rparr>)
               (cids q)\<rparr>)
      else
        let (room, q') = (if pdf_can_admit F q then (1, q) else evict_dir_probes 1 q) in
        if room = 0 then (n, q')
        else
          let first = now - of_int (cfg_get F ''min_age_seconds'' 10) - 1 in
          enqueue_children_loop F now catalogued skip_cid picked (named_n + 1) (n + 1)
            (q'\<lparr>cids := cids q' @ [new_row c (codec_of c) first now 1 1 Named (Some filename)]\<rparr>))"

definition enqueue_doc_children :: "intcfg \<Rightarrow> time \<Rightarrow> (cid \<Rightarrow> bool) \<Rightarrow> (string option \<times> cid) list \<Rightarrow>
    cid option \<Rightarrow> queue \<Rightarrow> int \<times> queue" where
  "enqueue_doc_children F now catalogued ls skip_cid q =
     (let picked = doc_child_links (cfg_get F ''max_dir_docs'' 16) ls in
      if picked = [] then (0, q)
      else
        let q1 = snd (drop_named_non_pdf q);
            named_n = sql_count (\<lambda>r. r_source r = Named \<and> live r) (cids q1)
        in enqueue_children_loop F now catalogued skip_cid picked named_n 0 q1)"


section \<open>Pruning\<close>

text \<open>The first update is made on \<open>pdf_retry\<close> rows, the second sees its result.\<close>

definition pdf_retry_row :: "time \<Rightarrow> wrow \<Rightarrow> bool" where
  "pdf_retry_row cutoff r \<longleftrightarrow> r_status r = Skipped \<and> r_mime_type r = Some ''application/pdf''
     \<and> r_error r \<in> {Some ''out_of_scope'', Some ''not_academic'', Some ''not_academic_document''}
     \<and> (case r_last_checked r of None \<Rightarrow> r_last_seen r | Some t \<Rightarrow> t) < cutoff"

definition skip_expired_row :: "time \<Rightarrow> wrow \<Rightarrow> bool" where
  "skip_expired_row cutoff r \<longleftrightarrow> r_status r = Skipped
     \<and> r_error r \<in> {Some ''unprocessable'', Some ''llm_disagreed'', Some ''incomplete''}
     \<and> \<not> like_prefix (r_mime_type r) ''image/'' \<and> \<not> like_prefix (r_mime_type r) ''video/''
     \<and> \<not> like_prefix (r_mime_type r) ''audio/''
     \<and> (case r_last_checked r of None \<Rightarrow> r_last_seen r | Some t \<Rightarrow> t) < cutoff"

definition requeue :: "string \<Rightarrow> wrow \<Rightarrow> wrow" where
  "requeue err r = r\<lparr>r_status := Discovered, r_attempts := 0, r_error := Some err\<rparr>"

definition expire_local_skips :: "intcfg \<Rightarrow> time \<Rightarrow> queue \<Rightarrow> int \<times> queue" where
  "expire_local_skips F now q =
     (let ttl = skip_ttl_seconds F in
      if ttl \<le> 0 then (0, q)
      else
        let cutoff = now - of_int ttl;
            n1 = sql_count (pdf_retry_row cutoff) (cids q);
            t1 = sql_update (pdf_retry_row cutoff) (requeue ''pdf_retry'') (cids q);
            n2 = sql_count (skip_expired_row cutoff) t1;
            t2 = sql_update (skip_expired_row cutoff) (requeue ''skip_expired'') t1
        in (n1 + n2, q\<lparr>cids := t2\<rparr>))"

definition prune_stale :: "intcfg \<Rightarrow> time \<Rightarrow> queue \<Rightarrow> int \<times> queue" where
  "prune_stale F now q =
     (let cutoff = now - of_int (max_age_seconds F);
          stale = filter (\<lambda>r. live r \<and> \<not> keep_src r \<and> r_last_seen r < cutoff) (cids q)
      in (int (length stale), forget_rows stale q))"

text \<open>Forget the \<open>n\<close> oldest rows of a kind when \<open>n\<close> is positive.\<close>

definition forget_oldest :: "(wrow \<Rightarrow> bool) \<Rightarrow> int \<Rightarrow> queue \<Rightarrow> int \<times> queue" where
  "forget_oldest P n q =
     (if n > 0 then let old = oldest P n q in (int (length old), forget_rows old q) else (0, q))"

definition prune_lanes :: "intcfg \<Rightarrow> queue \<Rightarrow> int \<times> queue" where
  "prune_lanes F q =
     (let cap = max_queue F; half = lane_cap F;
          pdf_n = pdf_live_count q; html_n = html_live_count q;
          extra_html = html_n - (cap - min pdf_n half);
          (d1, q1) = forget_oldest (\<lambda>r. r_status r = Discovered \<and> html_lane r) extra_html q;
          html_n' = (if extra_html > 0 then html_n - extra_html else html_n);
          extra_pdf = pdf_n - (cap - min html_n' half);
          (d2, q2) = forget_oldest (\<lambda>r. r_status r = Discovered \<and> probe_sql r) extra_pdf q1
      in (d1 + d2, q2))"

definition cap_order :: "wrow \<Rightarrow> int \<times> time" where
  "cap_order r =
     (if r_codec r = ''dag-pb'' \<and> \<not> named_pdf_file r then 0
      else if r_codec r = ''raw'' then 1 else 2, r_last_seen r)"

definition prune_cap :: "intcfg \<Rightarrow> queue \<Rightarrow> int \<times> queue" where
  "prune_cap F q =
     (let extra = live_count q - max_queue F in
      if extra > 0 then
        let old = order_limit cap_order (nat extra) (filter (\<lambda>r. live r \<and> \<not> keep_src r) (cids q))
        in (int (length old), forget_rows old q)
      else (0, q))"

definition prune_dirs :: "intcfg \<Rightarrow> queue \<Rightarrow> int \<times> queue" where
  "prune_dirs F q =
     (if max_dir_queue F \<noteq> 0
      then forget_oldest (\<lambda>r. r_status r = Discovered \<and> probe_sql r)
             (dir_queue_count q - max_dir_queue F) q
      else (0, q))"

definition prune :: "intcfg \<Rightarrow> time \<Rightarrow> queue \<Rightarrow> int \<times> queue" where
  "prune F now q =
     (let (d1, q1) = drop_named_non_pdf q;
          (d2, q2) = drop_lonely_raw F q1;
          (d3, q3) = prune_stale F now q2;
          (d4, q4) = prune_lanes F q3;
          (d5, q5) = prune_cap F q4;
          (d6, q6) = prune_dirs F q5;
          (n, q7) = expire_local_skips F now q6;
          (d7, q8) = drop_lonely_raw F q7
      in (d1 + d2 + d3 + d4 + d5 + d6 + d7 + n, q8))"

section \<open>Marking\<close>

text \<open>The keyword arguments of \<open>mark\<close>: the columns its callers set.\<close>

datatype colset =
    SetMime "string option" | SetSize "int option" | SetFilename "string option"
  | SetError "string option" | SetLastChecked time | SetAttempts int

fun set_col :: "colset \<Rightarrow> wrow \<Rightarrow> wrow" where
  "set_col (SetMime m) r = r\<lparr>r_mime_type := m\<rparr>"
| "set_col (SetSize n) r = r\<lparr>r_size := n\<rparr>"
| "set_col (SetFilename f) r = r\<lparr>r_filename := f\<rparr>"
| "set_col (SetError e) r = r\<lparr>r_error := e\<rparr>"
| "set_col (SetLastChecked t) r = r\<lparr>r_last_checked := Some t\<rparr>"
| "set_col (SetAttempts n) r = r\<lparr>r_attempts := n\<rparr>"

definition mark :: "cid \<Rightarrow> status \<Rightarrow> colset list \<Rightarrow> queue \<Rightarrow> queue" where
  "mark c st flds q =
     q\<lparr>cids := sql_update (\<lambda>r. r_cid r = c) (\<lambda>r. fold set_col flds (r\<lparr>r_status := st\<rparr>)) (cids q)\<rparr>"

definition bump_attempts :: "cid \<Rightarrow> int \<Rightarrow> queue \<Rightarrow> queue" where
  "bump_attempts c attempts q =
     q\<lparr>cids := sql_update (\<lambda>r. r_cid r = c) (\<lambda>r. r\<lparr>r_attempts := attempts\<rparr>) (cids q)\<rparr>"

definition note_fetch :: "time \<Rightarrow> cid \<Rightarrow> time option \<Rightarrow> queue \<Rightarrow> queue" where
  "note_fetch now c retrieved q =
     q\<lparr>cids := sql_update (\<lambda>r. r_cid r = c)
         (\<lambda>r. r\<lparr>r_last_checked := Some now,
                r_last_retrieved := (case retrieved of None \<Rightarrow> r_last_retrieved r | Some t \<Rightarrow> Some t)\<rparr>)
         (cids q)\<rparr>"

text \<open>\<open>main\<close> at start-up: rows left in flight by a previous process.\<close>

definition release_processing :: "queue \<Rightarrow> int \<times> queue" where
  "release_processing q =
     (sql_count (\<lambda>r. r_status r = Processing) (cids q),
      q\<lparr>cids := sql_update (\<lambda>r. r_status r = Processing) (\<lambda>r. r\<lparr>r_status := Discovered\<rparr>) (cids q)\<rparr>)"

section \<open>Taking work\<close>

record targs =
  max_first_seen :: time
  min_last_seen :: time
  attempt_cap :: int

definition take_args :: "intcfg \<Rightarrow> time \<Rightarrow> targs" where
  "take_args F now =
     \<lparr>max_first_seen = now - of_int (cfg_get F ''min_age_seconds'' 10),
      min_last_seen = now - of_int (max_age_seconds F),
      attempt_cap = max (cfg_get F ''max_retries'' 1) (cfg_get F ''max_timeout_retries'' 3) + 1\<rparr>"

definition eligible :: "(wrow \<Rightarrow> bool) \<Rightarrow> int \<Rightarrow> targs \<Rightarrow> wrow \<Rightarrow> bool" where
  "eligible extra_where min_peers a r \<longleftrightarrow>
     r_status r = Discovered \<and> r_peer_count r \<ge> min_peers \<and> r_first_seen r \<le> max_first_seen a
     \<and> (r_last_seen r \<ge> min_last_seen a \<or> keep_src r) \<and> r_attempts r < attempt_cap a
     \<and> r_codec r \<notin> {''libp2p-key'', ''json'', ''dag-json''} \<and> extra_where r"

definition select_key :: "wrow \<Rightarrow> int \<times> int \<times> time" where
  "select_key r = (take_order r, - r_peer_count r, - r_last_seen r)"

definition select_discovered :: "(wrow \<Rightarrow> bool) \<Rightarrow> int \<Rightarrow> targs \<Rightarrow> nat \<Rightarrow> queue \<Rightarrow> wrow list" where
  "select_discovered extra_where min_peers a limit q =
     order_limit select_key limit (filter (eligible extra_where min_peers a) (cids q))"

definition pick_one :: "(wrow \<Rightarrow> bool) \<Rightarrow> int \<Rightarrow> targs \<Rightarrow> queue \<Rightarrow> wrow option" where
  "pick_one extra_where min_peers a q =
     (case select_discovered extra_where min_peers a 1 q of [] \<Rightarrow> None | r # rs \<Rightarrow> Some r)"

definition next_pdf :: "intcfg \<Rightarrow> int \<Rightarrow> targs \<Rightarrow> queue \<Rightarrow> wrow option" where
  "next_pdf F min_peers a q =
     (case pick_one named_sql min_peers a q of
        Some r \<Rightarrow> Some r
      | None \<Rightarrow> if dir_probe_count q < max_dir_probes F then pick_one probe_sql min_peers a q else None)"

definition next_html :: "int \<Rightarrow> targs \<Rightarrow> queue \<Rightarrow> wrow option" where
  "next_html prefer a q = pick_one html_lane prefer a q"

datatype lane = PdfLane | HtmlLane

text \<open>The choice between the two lanes' candidates.\<close>

definition choose_lane :: "int \<Rightarrow> int \<Rightarrow> int \<Rightarrow> wrow option \<Rightarrow> wrow option \<Rightarrow> (wrow \<times> lane) option" where
  "choose_lane half pdf_busy html_busy pdf_row html_row =
     (case (pdf_row, html_row) of
        (Some p, Some h) \<Rightarrow>
          if pdf_busy < half \<and> pdf_busy \<le> html_busy then Some (p, PdfLane)
          else if html_busy < half then Some (h, HtmlLane)
          else if pdf_busy < half then Some (p, PdfLane)
          else None
      | (Some p, None) \<Rightarrow> Some (p, PdfLane)
      | (None, Some h) \<Rightarrow> Some (h, HtmlLane)
      | (None, None) \<Rightarrow> None)"

definition set_processing :: "cid \<Rightarrow> queue \<Rightarrow> queue" where
  "set_processing c q =
     q\<lparr>cids := sql_update (\<lambda>r. r_cid r = c) (\<lambda>r. r\<lparr>r_status := Processing\<rparr>) (cids q)\<rparr>"

definition is_report :: "wrow \<Rightarrow> bool" where
  "is_report r \<longleftrightarrow> r_source r = Report"

fun take_loop :: "intcfg \<Rightarrow> targs \<Rightarrow> nat \<Rightarrow> int \<Rightarrow> int \<Rightarrow> wrow list \<Rightarrow> queue \<Rightarrow> wrow list \<times> queue" where
  "take_loop F a 0 pdf_extra html_extra rows q = (rows, q)"
| "take_loop F a (Suc k) pdf_extra html_extra rows q =
     (let min_peers = cfg_get F ''min_peer_count'' 1;
          prefer = max min_peers (prefer_min_peer_count F)
      in case pick_one is_report min_peers a q of
           Some r \<Rightarrow>
             take_loop F a k pdf_extra html_extra (rows @ [r]) (set_processing (r_cid r) q)
         | None \<Rightarrow>
             (case choose_lane (lane_workers F) (lane_busy pdf_lane q + pdf_extra)
                     (lane_busy html_lane q + html_extra)
                     (next_pdf F min_peers a q) (next_html prefer a q) of
                None \<Rightarrow> (rows, q)
              | Some (r, PdfLane) \<Rightarrow>
                  take_loop F a k (pdf_extra + 1) html_extra (rows @ [r]) (set_processing (r_cid r) q)
              | Some (r, HtmlLane) \<Rightarrow>
                  take_loop F a k pdf_extra (html_extra + 1) (rows @ [r]) (set_processing (r_cid r) q)))"

definition take_batch :: "intcfg \<Rightarrow> time \<Rightarrow> int \<Rightarrow> queue \<Rightarrow> wrow list \<times> queue" where
  "take_batch F now limit q = take_loop F (take_args F now) (nat limit) 0 0 [] q"

section \<open>Statistics\<close>

record qstats =
  s_discovered :: int
  s_processing :: int
  s_indexed :: int
  s_skipped :: int
  s_seen :: int
  s_backlog :: int
  s_pdf_live :: int
  s_html_live :: int
  s_pdf_busy :: int
  s_html_busy :: int
  s_oldest_age :: int
  s_newest_age :: int

text \<open>\<open>int()\<close> of a float truncates; a missing or zero time gives age 0.\<close>

definition py_int :: "real \<Rightarrow> int" where
  "py_int x = (if 0 \<le> x then \<lfloor>x\<rfloor> else \<lceil>x\<rceil>)"

definition age_of :: "time \<Rightarrow> time list \<Rightarrow> (time \<Rightarrow> time \<Rightarrow> time) \<Rightarrow> int" where
  "age_of now ts f =
     (case ts of
        [] \<Rightarrow> 0
      | t # ts' \<Rightarrow> let m = fold f ts' t in if m = 0 then 0 else py_int (now - m))"

definition stats :: "intcfg \<Rightarrow> time \<Rightarrow> queue \<Rightarrow> qstats" where
  "stats F now q =
     (let n = (\<lambda>P. sql_count P (cids q)); seen = map r_last_seen (filter live (cids q)) in
      \<lparr>s_discovered = n (\<lambda>r. r_status r = Discovered),
       s_processing = n (\<lambda>r. r_status r = Processing),
       s_indexed = n (\<lambda>r. r_status r = Indexed),
       s_skipped = n (\<lambda>r. r_status r = Skipped),
       s_seen = int (length (seen_cids q)),
       s_backlog = n (\<lambda>r. r_status r = Discovered \<and> r_peer_count r \<ge> cfg_get F ''min_peer_count'' 1),
       s_pdf_live = n (\<lambda>r. live r \<and> pdf_lane r),
       s_html_live = n (\<lambda>r. live r \<and> html_lane r),
       s_pdf_busy = n (\<lambda>r. r_status r = Processing \<and> pdf_lane r),
       s_html_busy = n (\<lambda>r. r_status r = Processing \<and> html_lane r),
       s_oldest_age = age_of now seen min,
       s_newest_age = age_of now seen max\<rparr>)"

end
