(* ===== verification/Store.thy ===== *)
theory Store
  imports Labels Work
begin

text \<open>
  \<open>observer/store.py\<close>: the catalog of verified club messages. An operation that may raise
  after it has written returns the exception together with the state it leaves: sqlite3 keeps
  the statements before the exception in the open transaction of the connection, and the next
  \<open>commit\<close> makes them durable. A loop over a Python set runs over a duplicate-free list.
\<close>

section \<open>Counters and the search index\<close>

definition add_stat :: "int \<Rightarrow> catalog \<Rightarrow> catalog" where
  "add_stat delta db =
     db\<lparr>docs_count := Some (case docs_count db of None \<Rightarrow> delta | Some n \<Rightarrow> n + delta)\<rparr>"

definition cached_count :: "catalog \<Rightarrow> int \<times> catalog" where
  "cached_count db =
     (case docs_count db of
        Some n \<Rightarrow> (n, db)
      | None \<Rightarrow> let n = int (length (docs db)) in (n, db\<lparr>docs_count := Some n\<rparr>))"

definition fts_of :: "drow \<Rightarrow> ftsrow" where
  "fts_of d = \<lparr>f_rowid = d_rowid d, f_cid = d_cid d, f_filename = str_or (d_filename d) [],
     f_field = d_field d, f_topic = str_or (d_topic d) [], f_keywords = str_or (d_keywords d) []\<rparr>"

definition index_doc :: "cid \<Rightarrow> catalog \<Rightarrow> catalog" where
  "index_doc c db =
     (case sql_get d_cid c (docs db) of
        None \<Rightarrow> db
      | Some d \<Rightarrow>
          db\<lparr>docs_fts := sql_delete (\<lambda>f. f_rowid f = d_rowid d) (docs_fts db) @ [fts_of d]\<rparr>)"

text \<open>SQLite gives a new row the largest rowid plus one.\<close>

definition next_rowid :: "drow list \<Rightarrow> int" where
  "next_rowid t = (if t = [] then 1 else Max (d_rowid ` set t) + 1)"

definition doc_of :: "string \<Rightarrow> time \<Rightarrow> crow \<Rightarrow> int \<Rightarrow> drow" where
  "doc_of field indexed c rowid =
     \<lparr>d_rowid = rowid, d_cid = c_cid c, d_publisher = c_publisher c, d_mime = c_mime c,
      d_size = c_size c, d_filename = c_filename c, d_field = field, d_topic = c_topic c,
      d_keywords = c_keywords c, d_license = c_license c, d_text_sha256 = c_text_sha256 c,
      d_indexed_at = indexed, d_received = c_received c\<rparr>"

text \<open>
  \<open>_upsert_doc\<close>: its argument is the message just stored as the classify \<open>c\<close>, or the row \<open>c\<close>
  itself when a doc is rebuilt; \<open>field\<close> and \<open>indexed\<close> are the values it computes for the columns
  of that name, the others are those of \<open>c\<close>.
\<close>

definition upsert_doc :: "string \<Rightarrow> time \<Rightarrow> crow \<Rightarrow> catalog \<Rightarrow> catalog" where
  "upsert_doc field indexed c db =
     (if has_key d_cid (c_cid c) (docs db) then db
      else add_stat 1 (index_doc (c_cid c)
             (db\<lparr>docs := docs db @ [doc_of field indexed c (next_rowid (docs db))]\<rparr>)))"

definition first_classifies :: "crow list \<Rightarrow> crow list" where
  "first_classifies t =
     filter (\<lambda>c. \<forall>c'\<in>set t. c_cid c' = c_cid c \<longrightarrow> c_received c \<le> c_received c') t"

definition backfill_doc :: "crow \<Rightarrow> drow list \<Rightarrow> drow list" where
  "backfill_doc c t = (if has_key d_cid (c_cid c) t then t else t @ [doc_of (c_field c) (c_indexed_at c) c (next_rowid t)])"

definition ensure_docs :: "catalog \<Rightarrow> catalog" where
  "ensure_docs db =
     (if docs db \<noteq> [] then snd (cached_count db)
      else
        let t = fold backfill_doc (first_classifies (classifies db)) [] in
        snd (cached_count (fold (\<lambda>d db. db\<lparr>docs_fts :=
                 sql_delete (\<lambda>f. f_rowid f = d_rowid d) (docs_fts db) @ [fts_of d]\<rparr>) t
               (db\<lparr>docs := t\<rparr>))))"

section \<open>Lookups\<close>

datatype cls = FromDoc drow | FromRow crow

datatype hit = HitClassify cls | HitClaim claimrow | HitSkip skiprow

fun cls_mime :: "cls \<Rightarrow> string option" where
  "cls_mime (FromDoc d) = d_mime d"
| "cls_mime (FromRow c) = c_mime c"

definition preferred_classify :: "catalog \<Rightarrow> cid \<Rightarrow> cls option" where
  "preferred_classify db c =
     (case sql_get d_cid c (docs db) of
        Some d \<Rightarrow> Some (FromDoc d)
      | None \<Rightarrow> (case rows_of db c of [] \<Rightarrow> None | r # rs \<Rightarrow> Some (FromRow r)))"

definition skip_ttl :: "env \<Rightarrow> int" where
  "skip_ttl E = cfg_get (e_fetch E) ''skip_ttl_seconds'' 21600"

definition skip_is_live :: "env \<Rightarrow> skiprow \<Rightarrow> bool" where
  "skip_is_live E s =
     (if is_persist_skip (s_reason s) then True
      else if skip_ttl E \<le> 0 then True
      else s_received s + of_int (skip_ttl E) > e_now E)"

definition lookup_cid :: "env \<Rightarrow> catalog \<Rightarrow> cid \<Rightarrow> hit option" where
  "lookup_cid E db c =
     (case preferred_classify db c of
        Some cl \<Rightarrow> Some (HitClassify cl)
      | None \<Rightarrow>
          (case find (\<lambda>r. cl_cid r = c \<and> cl_until r > e_now E \<and> cl_publisher r \<noteq> str_or (e_peer E) [])
                  (claims db) of
             Some r \<Rightarrow> Some (HitClaim r)
           | None \<Rightarrow>
               (case sql_get s_cid c (skips db) of
                  Some s \<Rightarrow> if skip_is_live E s then Some (HitSkip s) else None
                | None \<Rightarrow> None)))"

definition classify_by_text_hash :: "catalog \<Rightarrow> string \<Rightarrow> cls option" where
  "classify_by_text_hash db h =
     (case find (\<lambda>d. d_text_sha256 d = Some h) (docs db) of
        Some d \<Rightarrow> Some (FromDoc d)
      | None \<Rightarrow>
          (case sort_key c_received (filter (\<lambda>c. c_text_sha256 c = Some h) (classifies db)) of
             [] \<Rightarrow> None | r # rs \<Rightarrow> Some (FromRow r)))"

definition pdf_deserves_retry :: "hit option \<Rightarrow> bool" where
  "pdf_deserves_retry h =
     (case h of
        Some (HitSkip s) \<Rightarrow> s_mime s = Some ''application/pdf'' \<and> is_persist_skip (s_reason s)
      | _ \<Rightarrow> False)"

definition local_classified :: "env \<Rightarrow> catalog \<Rightarrow> cid \<Rightarrow> bool" where
  "local_classified E db c =
     (case e_peer E of
        None \<Rightarrow> False
      | Some me \<Rightarrow> me \<noteq> [] \<and> list_ex (\<lambda>r. c_cid r = c \<and> c_publisher r = me) (classifies db))"

definition needs_review :: "catalog \<Rightarrow> cid \<Rightarrow> bool" where
  "needs_review db c = list_ex (\<lambda>r. rp_cid r = c \<and> rp_reason r = ''wrong'') (reports db)"

definition should_second_classify :: "env \<Rightarrow> catalog \<Rightarrow> cid \<Rightarrow> bool" where
  "should_second_classify E db c =
     (\<not> local_classified E db c \<and> length (independent_publishers db c) = 1)"

definition must_classify :: "env \<Rightarrow> catalog \<Rightarrow> cid \<Rightarrow> bool" where
  "must_classify E db c =
     (\<not> local_classified E db c \<and> (needs_review db c \<or> should_second_classify E db c))"

definition already_catalogued :: "env \<Rightarrow> catalog \<Rightarrow> cid \<Rightarrow> bool" where
  "already_catalogued E db c =
     (case lookup_cid E db c of
        None \<Rightarrow> False
      | Some (HitClaim r) \<Rightarrow> False
      | Some h \<Rightarrow> \<not> pdf_deserves_retry (Some h) \<and> \<not> must_classify E db c)"

definition is_abusive :: "catalog \<Rightarrow> cid \<Rightarrow> bool" where
  "is_abusive db c = list_ex (\<lambda>r. rp_cid r = c \<and> rp_reason r = ''abusive'') (reports db)"

section \<open>Proposals\<close>

definition p_key :: "proposal \<Rightarrow> cid \<times> string" where
  "p_key p = (p_cid p, p_reason p)"

definition propose_report :: "time \<Rightarrow> cid \<Rightarrow> string option \<Rightarrow> catalog \<Rightarrow> bool \<times> catalog" where
  "propose_report now c reason db =
     (let r = py_lower (py_strip (str_or reason [])) in
      if r \<notin> {''abusive'', ''wrong''} \<or> \<not> valid c then (False, db)
      else if r = ''abusive'' \<and> is_abusive db c then (False, db)
      else
        (True,
         if has_key p_key (c, r) (proposals db)
         then db\<lparr>proposals := sql_update (\<lambda>p. p_key p = (c, r))
                   (\<lambda>p. p\<lparr>p_count := p_count p + 1, p_proposed_at := now\<rparr>) (proposals db)\<rparr>
         else db\<lparr>proposals := proposals db
                   @ [\<lparr>p_cid = c, p_reason = r, p_count = 1, p_proposed_at = now\<rparr>]\<rparr>))"

definition drop_proposal :: "cid \<Rightarrow> string option \<Rightarrow> catalog \<Rightarrow> catalog" where
  "drop_proposal c reason db =
     (if str_or reason [] \<noteq> []
      then db\<lparr>proposals := sql_delete (\<lambda>p. p_key p = (c, str_or reason [])) (proposals db)\<rparr>
      else db\<lparr>proposals := sql_delete (\<lambda>p. p_cid p = c) (proposals db)\<rparr>)"

definition list_proposals :: "catalog \<Rightarrow> (proposal \<times> drow option) list" where
  "list_proposals db =
     map (\<lambda>p. (p, sql_get d_cid (p_cid p) (docs db))) (sort_key (\<lambda>p. - p_proposed_at p) (proposals db))"

section \<open>Blacklist\<close>

definition is_blacklisted :: "publisher \<Rightarrow> catalog \<Rightarrow> bool" where
  "is_blacklisted p db \<longleftrightarrow> p \<noteq> [] \<and> has_key b_publisher p (blacklisted db)"

definition list_blacklisted :: "catalog \<Rightarrow> blackrow list" where
  "list_blacklisted db = sort_key (\<lambda>b. - b_received b) (blacklisted db)"

text \<open>The loop over the rows of a CID (at most one: the CID is the primary key).\<close>

definition drop_doc :: "cid \<Rightarrow> catalog \<Rightarrow> catalog" where
  "drop_doc c db =
     (let db1 = fold (\<lambda>d db. add_stat (- 1) (db\<lparr>docs_fts := sql_delete (\<lambda>f. f_rowid f = d_rowid d) (docs_fts db)\<rparr>))
                  (filter (\<lambda>d. d_cid d = c) (docs db)) db
      in db1\<lparr>docs := sql_delete (\<lambda>d. d_cid d = c) (docs db1)\<rparr>)"

definition rebuild_doc :: "club \<Rightarrow> cid \<Rightarrow> catalog \<Rightarrow> catalog" where
  "rebuild_doc P c db =
     (let db1 = drop_doc c db in
      case rows_of db1 c of
        [] \<Rightarrow> db1
      | r # rs \<Rightarrow> 
          upsert_doc (normalize_field P (JStr (c_field r)))
            (if c_indexed_at r = 0 then c_received r else c_indexed_at r) r db1)"

definition blacklist :: "env \<Rightarrow> publisher option \<Rightarrow> catalog \<Rightarrow> bool \<times> catalog" where
  "blacklist E publisher db =
     (let p = py_strip (str_or publisher []) in
      if p = [] then (False, db)
      else if e_peer E = Some p then (False, db)
      else
        let name = (case sql_get a_publisher p (aliases db) of None \<Rightarrow> [] | Some a \<Rightarrow> a_alias a);
            cs = remdups (filter (\<lambda>c. c \<noteq> [])
                   (map c_cid (filter (\<lambda>r. c_publisher r = p) (classifies db))
                    @ map rp_cid (filter (\<lambda>r. rp_publisher r = p) (reports db))));
            db1 = db\<lparr>blacklisted := insert_or_replace b_publisher
                        \<lparr>b_publisher = p, b_alias = name, b_received = e_now E\<rparr> (blacklisted db),
                      classifies := sql_delete (\<lambda>r. c_publisher r = p) (classifies db),
                      reports := sql_delete (\<lambda>r. rp_publisher r = p) (reports db),
                      skips := sql_delete (\<lambda>r. s_publisher r = p) (skips db),
                      claims := sql_delete (\<lambda>r. cl_publisher r = p) (claims db),
                      aliases := sql_delete (\<lambda>r. a_publisher r = p) (aliases db),
                      messages := sql_delete (\<lambda>r. m_publisher r = p) (messages db)\<rparr>
        in (True, fold (rebuild_doc (e_club E)) cs db1))"

definition unblacklist :: "publisher option \<Rightarrow> catalog \<Rightarrow> bool \<times> catalog" where
  "unblacklist publisher db =
     (let p = py_strip (str_or publisher []) in
      if p = [] then (False, db)
      else (True, db\<lparr>blacklisted := sql_delete (\<lambda>b. b_publisher b = p) (blacklisted db)\<rparr>))"


section \<open>Ingesting messages\<close>

text \<open>
  The row that \<open>_insert_classify\<close> stores: the columns are bound after \<open>float(indexed_at)\<close> is
  taken; a value that cannot be bound raises before anything is written.
\<close>

definition res_bind :: "'a res \<Rightarrow> ('a \<Rightarrow> 'b res) \<Rightarrow> 'b res" where
  "res_bind x f = (case x of Inl e \<Rightarrow> Inl e | Inr a \<Rightarrow> f a)"

definition classify_row :: "env \<Rightarrow> (string \<times> json) list \<Rightarrow> string \<Rightarrow> cid \<Rightarrow> publisher \<Rightarrow> time \<Rightarrow> crow res" where
  "classify_row E obj h c p now =
     res_bind (py_float E (jget obj ''indexed_at'') now) (\<lambda>indexed.
     res_bind (text_col (jget obj ''mime_type'')) (\<lambda>mime.
     res_bind (int_col E (jget obj ''size'')) (\<lambda>sz.
     res_bind (text_col (jget obj ''filename'')) (\<lambda>filename.
     res_bind (text_col (jget obj ''topic'')) (\<lambda>topic.
     res_bind (text_col (jget obj ''keywords'')) (\<lambda>keywords.
     res_bind (text_col (jget obj ''license'')) (\<lambda>license.
     res_bind (text_col (jget obj ''text_sha256'')) (\<lambda>sha.
       Inr \<lparr>c_hash = h, c_cid = c, c_publisher = p, c_mime = mime, c_size = sz,
            c_filename = filename, c_field = normalize_field (e_club E) (jget obj ''field''),
            c_topic = topic, c_keywords = keywords, c_license = license, c_text_sha256 = sha,
            c_classifier = (if truthy (jget obj ''classifier'') then strip_sig (jget obj ''classifier'') else JNull),
            c_indexed_at = indexed, c_received = now\<rparr>))))))))"

definition insert_classify :: "crow \<Rightarrow> catalog \<Rightarrow> catalog" where
  "insert_classify row db =
     upsert_doc (c_field row) (c_indexed_at row) row
       (db\<lparr>classifies := insert_or_ignore c_hash row (classifies db),
           claims := sql_delete (\<lambda>r. cl_cid r = c_cid row) (claims db)\<rparr>)"

definition upsert_alias :: "publisher \<Rightarrow> json \<Rightarrow> string \<Rightarrow> time \<Rightarrow> catalog \<Rightarrow> catalog" where
  "upsert_alias p alias h now db =
     (let name = collapse (py_str (if truthy alias then alias else JStr [])) in
      if name = [] then db\<lparr>aliases := sql_delete (\<lambda>a. a_publisher a = p) (aliases db)\<rparr>
      else db\<lparr>aliases := insert_or_replace a_publisher
                \<lparr>a_publisher = p, a_alias = take 32 name, a_hash = h, a_received = now\<rparr> (aliases db)\<rparr>)"

definition ingest_skip :: "(string \<times> json) list \<Rightarrow> cid \<Rightarrow> publisher \<Rightarrow> time \<Rightarrow> catalog \<Rightarrow> unit res \<times> catalog" where
  "ingest_skip obj c p now db =
     (case res_bind (text_col (jget obj ''mime_type'')) (\<lambda>m.
           res_bind (text_col (jget obj ''reason'')) (\<lambda>r. Inr (m, r))) of
        Inl e \<Rightarrow> (Inl e, db)
      | Inr (mime, reason) \<Rightarrow>
          (Inr (), db\<lparr>skips := insert_or_replace s_cid
                        \<lparr>s_cid = c, s_publisher = p, s_mime = mime, s_reason = reason, s_received = now\<rparr> (skips db),
                      claims := sql_delete (\<lambda>r. cl_cid r = c) (claims db)\<rparr>))"

definition ingest_claim :: "env \<Rightarrow> (string \<times> json) list \<Rightarrow> cid \<Rightarrow> publisher \<Rightarrow> catalog \<Rightarrow> unit res \<times> catalog" where
  "ingest_claim E obj c p db =
     (case py_float E (jget obj ''until'') 0 of
        Inl e \<Rightarrow> (Inl e, db)
      | Inr until \<Rightarrow>
          (Inr (),
           if until > e_now E
              \<and> \<not> list_ex (\<lambda>r. cl_publisher r = p \<and> cl_cid r \<noteq> c \<and> cl_until r > e_now E) (claims db)
           then db\<lparr>claims := insert_or_replace cl_publisher
                     \<lparr>cl_publisher = p, cl_cid = c, cl_until = until\<rparr> (claims db)\<rparr>
           else db))"

definition rp_key :: "reportrow \<Rightarrow> cid \<times> publisher" where
  "rp_key r = (rp_cid r, rp_publisher r)"

definition ingest_report :: "string \<Rightarrow> cid \<Rightarrow> publisher \<Rightarrow> time \<Rightarrow> catalog \<Rightarrow> catalog" where
  "ingest_report reason c p now db =
     (if reason = ''clear''
      then db\<lparr>reports := sql_delete (\<lambda>r. rp_key r = (c, p)) (reports db)\<rparr>
      else db\<lparr>reports := insert_or_replace rp_key
                \<lparr>rp_cid = c, rp_publisher = p, rp_reason = reason, rp_received = now\<rparr> (reports db)\<rparr>)"

text \<open>The table a message of a kind updates, after its row in \<open>messages\<close> is stored.\<close>

definition dispatch :: "env \<Rightarrow> (string \<times> json) list \<Rightarrow> string \<Rightarrow> string \<Rightarrow> cid \<Rightarrow> publisher \<Rightarrow> time \<Rightarrow>
    catalog \<Rightarrow> unit res \<times> catalog" where
  "dispatch E obj kind h c p now db =
     (if kind = ''classify'' then
        (case classify_row E obj h c p now of
           Inl e \<Rightarrow> (Inl e, db)
         | Inr row \<Rightarrow> (Inr (), insert_classify row db))
      else if kind = ''alias'' then (Inr (), upsert_alias p (jget obj ''alias'') h now db)
      else if kind = ''skip'' then ingest_skip obj c p now db
      else if kind = ''claim'' then ingest_claim E obj c p db
      else (Inr (), ingest_report (case jget obj ''reason'' of JStr r \<Rightarrow> r | _ \<Rightarrow> []) c p now db))"

text \<open>\<open>x in frozenset(...)\<close>: a list or a dict is not hashable.\<close>

definition in_strings :: "json \<Rightarrow> string list \<Rightarrow> bool res" where
  "in_strings v xs =
     (case v of
        JStr s \<Rightarrow> Inr (s \<in> set xs)
      | JList ys \<Rightarrow> Inl TypeError
      | JObj kvs \<Rightarrow> Inl TypeError
      | _ \<Rightarrow> Inr False)"

text \<open>
  The guards of \<open>ingest_message\<close>: an exception, a refusal, or the kind, CID and publisher of a
  message to store.
\<close>

definition admit :: "env \<Rightarrow> (string \<times> json) list \<Rightarrow> catalog \<Rightarrow> (string \<times> cid \<times> publisher) option res" where
  "admit E obj db =
     res_bind (in_strings (jget obj ''kind'') KINDS) (\<lambda>known.
     if \<not> known then Inr None
     else
       let kind = py_str (jget obj ''kind''); msg_club = jget obj ''club'';
           cidv = (if truthy (jget obj ''cid'') then jget obj ''cid'' else JStr []);
           pubv = jget obj ''publisher''
       in
       if truthy msg_club \<and> py_str msg_club \<noteq> club_id (e_club E) then Inr None
       else if \<not> truthy pubv then Inr None
       else
         res_bind (text_col pubv) (\<lambda>pub.
         let p = str_or pub [] in
         if is_blacklisted p db then Inr None
         else if kind \<noteq> ''alias'' \<and> (case cidv of JStr c \<Rightarrow> \<not> valid c | _ \<Rightarrow> True) then Inr None
         else
           res_bind (if kind = ''report'' then in_strings (jget obj ''reason'') REPORT_REASONS else Inr True)
             (\<lambda>ok.
              if \<not> ok then Inr None
              else res_bind (text_col cidv) (\<lambda>c. Inr (Some (kind, str_or c [], p))))))"

definition ingest_message :: "env \<Rightarrow> time option \<Rightarrow> (string \<times> json) list \<Rightarrow> catalog \<times> queue \<Rightarrow>
    bool res \<times> catalog \<times> queue" where
  "ingest_message E received_at obj st =
     (case st of (db, q) \<Rightarrow>
       (case admit E obj db of
          Inl e \<Rightarrow> (Inl e, db, q)
        | Inr None \<Rightarrow> (Inr False, db, q)
        | Inr (Some (kind, c, p)) \<Rightarrow>
            let h = payload_hash (e_sha256 E) (JObj obj);
                now = (case received_at of Some t \<Rightarrow> t | None \<Rightarrow> e_now E)
            in
            if has_key m_hash h (messages db) then (Inr False, db, q)
            else
              (case dispatch E obj kind h c p now
                      (db\<lparr>messages := messages db
                          @ [\<lparr>m_hash = h, m_kind = kind, m_cid = c, m_publisher = p,
                              m_body = wire_dumps (JObj obj), m_received = now\<rparr>]\<rparr>) of
                 (Inl e, db') \<Rightarrow> (Inl e, db', q)
               | (Inr u, db') \<Rightarrow>
                   (Inr True, db',
                    if kind = ''report'' \<and> jget obj ''reason'' = JStr ''wrong''
                    then snd (enqueue_review (e_fetch E) (e_now E) (local_classified E db' c) c q)
                    else q))))"

definition maybe_enqueue_second :: "env \<Rightarrow> catalog \<Rightarrow> cid \<Rightarrow> queue \<Rightarrow> bool \<times> queue" where
  "maybe_enqueue_second E db c q =
     (if \<not> should_second_classify E db c then (False, q)
      else if at_cap (e_fetch E) q then (False, q)
      else enqueue_review (e_fetch E) (e_now E) (local_classified E db c) c q)"

section \<open>Local settings and maintenance\<close>

definition local_alias :: "catalog \<Rightarrow> string" where
  "local_alias db = str_or (alias_setting db) []"

definition set_local_alias :: "env \<Rightarrow> json \<Rightarrow> publisher option \<Rightarrow> catalog \<Rightarrow> string \<times> catalog" where
  "set_local_alias E alias peer db =
     (let name = take 32 (collapse (py_str (if truthy alias then alias else JStr [])));
          db1 = db\<lparr>alias_setting := Some name\<rparr>
      in (name,
          if str_or peer [] = [] then db1
          else if name \<noteq> []
          then db1\<lparr>aliases := insert_or_replace a_publisher
                     \<lparr>a_publisher = str_or peer [], a_alias = name, a_hash = ''local'', a_received = e_now E\<rparr>
                     (aliases db1)\<rparr>
          else db1\<lparr>aliases := sql_delete (\<lambda>a. a_publisher a = str_or peer []) (aliases db1)\<rparr>))"

definition purge_unprocessable_skips :: "catalog \<Rightarrow> int \<times> catalog" where
  "purge_unprocessable_skips db =
     (let cs = map s_cid (filter (\<lambda>s. s_reason s = Some ''unprocessable'') (skips db)) in
      if cs = [] then (0, db)
      else (int (length cs),
            db\<lparr>skips := sql_delete (\<lambda>s. s_cid s \<in> set cs) (skips db),
               messages := sql_delete (\<lambda>m. m_kind m = ''skip'' \<and> m_cid m \<in> set cs) (messages db)\<rparr>))"

definition purge_cid :: "cid \<Rightarrow> catalog \<Rightarrow> catalog" where
  "purge_cid c db =
     (let gone = filter (\<lambda>d. d_cid d = c) (docs db);
          db1 = db\<lparr>docs_fts := sql_delete (\<lambda>f. f_rowid f \<in> d_rowid ` set gone) (docs_fts db),
                   classifies := sql_delete (\<lambda>r. c_cid r = c) (classifies db),
                   docs := sql_delete (\<lambda>d. d_cid d = c) (docs db),
                   skips := sql_delete (\<lambda>s. s_cid s = c) (skips db),
                   reports := sql_delete (\<lambda>r. rp_cid r = c) (reports db),
                   claims := sql_delete (\<lambda>r. cl_cid r = c) (claims db),
                   messages := sql_delete (\<lambda>m. m_cid m = c \<and> m_kind m \<noteq> ''alias'') (messages db)\<rparr>
      in if gone \<noteq> [] then add_stat (- 1) db1 else db1)"

definition purge_invalid_cids :: "catalog \<Rightarrow> int \<times> catalog" where
  "purge_invalid_cids db =
     (let dead = remdups (filter (\<lambda>c. c \<noteq> [] \<and> \<not> valid c)
                   (map c_cid (classifies db) @ map s_cid (skips db) @ map cl_cid (claims db)
                    @ map m_cid (messages db)))
      in (int (length dead), fold purge_cid dead db))"

definition expire_claims :: "env \<Rightarrow> catalog \<Rightarrow> catalog" where
  "expire_claims E db =
     (let db1 = db\<lparr>claims := sql_delete (\<lambda>r. cl_until r \<le> e_now E) (claims db)\<rparr> in
      if skip_ttl E > 0
      then db1\<lparr>skips := sql_delete (\<lambda>s. \<not> is_persist_skip (s_reason s)
                           \<and> s_received s < e_now E - of_int (skip_ttl E)) (skips db1)\<rparr>
      else db1)"

section \<open>Snapshots\<close>

fun has_sub :: "string \<Rightarrow> string \<Rightarrow> bool" where
  "has_sub p [] = (p = [])"
| "has_sub p (c # s) = (py_startswith (c # s) p \<or> has_sub p s)"

definition signed_body :: "message \<Rightarrow> bool" where
  "signed_body m = has_sub (char_of (34 :: nat) # ''sig'' @ [char_of (34 :: nat), CHR '':'']) (m_body m)"

definition snapshot_doc :: "catalog \<Rightarrow> message \<Rightarrow> bool" where
  "snapshot_doc db m \<longleftrightarrow> signed_body m
     \<and> (m_kind m = ''classify''
        \<or> (m_kind m = ''alias'' \<and> list_ex (\<lambda>a. a_hash a = m_hash m) (aliases db))
        \<or> m_kind m = ''report'')"

definition snapshot_skip :: "catalog \<Rightarrow> message \<Rightarrow> bool" where
  "snapshot_skip db m \<longleftrightarrow> signed_body m \<and> m_kind m = ''skip''
     \<and> list_ex (\<lambda>s. s_cid s = m_cid m \<and> s_reason s \<in> {Some ''out_of_scope'', Some ''not_academic''}) (skips db)"

definition newest_bodies :: "(message \<Rightarrow> bool) \<Rightarrow> nat \<Rightarrow> catalog \<Rightarrow> string list" where
  "newest_bodies P n db =
     rev (filter (\<lambda>b. b \<noteq> []) (map m_body (order_limit (\<lambda>m. - m_received m) n (filter P (messages db)))))"

definition snapshot_lines :: "catalog \<Rightarrow> int \<Rightarrow> string list" where
  "snapshot_lines db limit =
     (let n = nat limit;
          ds = newest_bodies (snapshot_doc db) n db;
          leftover = n - length ds
      in ds @ (if leftover > 0 then newest_bodies (snapshot_skip db) leftover db else []))"

definition export_snapshot :: "catalog \<Rightarrow> int \<Rightarrow> string" where
  "export_snapshot db limit =
     (let ls = snapshot_lines db limit in
      if ls = [] then [] else py_join [char_of (10 :: nat)] ls @ [char_of (10 :: nat)])"

end
