(* ===== verification/Work_Laws.thy ===== *)
theory Work_Laws
  imports Work
begin

text \<open>
  Laws of the work queue: the well-formedness invariant and that every operation keeps it,
  what \<open>take_batch\<close> hands to a worker, the lanes' guarantees, and what \<open>prune\<close> drops and keeps.
\<close>

section \<open>Well-formed queues\<close>

definition row_ok :: "wrow \<Rightarrow> bool" where
  "row_ok r \<longleftrightarrow> valid (r_cid r) \<and> r_codec r = codec_of (r_cid r) \<and> 0 \<le> r_attempts r \<and> 0 \<le> r_peer_count r"

definition wf_queue :: "queue \<Rightarrow> bool" where
  "wf_queue q \<longleftrightarrow> pk r_cid (cids q) \<and> distinct (cid_peers q) \<and> pk e_cid (evicted q)
     \<and> pk fst (seen_cids q) \<and> pk fst (spool_offsets q) \<and> pk u_cid (unprocessable q)
     \<and> list_all row_ok (cids q)"

named_theorems wfq \<comment> \<open>operations keep the queue well-formed\<close>

interpretation work_rows: keyed_table r_cid "sql_get r_cid" "insert_or_replace r_cid"
  "\<lambda>k. sql_delete (\<lambda>r. r_cid r = k)" "pk r_cid"
  by (rule keyed_table_sql)

interpretation evicted_rows: keyed_table e_cid "sql_get e_cid" "insert_or_replace e_cid"
  "\<lambda>k. sql_delete (\<lambda>r. e_cid r = k)" "pk e_cid"
  by (rule keyed_table_sql)

interpretation unprocessable_rows: keyed_table u_cid "sql_get u_cid" "insert_or_replace u_cid"
  "\<lambda>k. sql_delete (\<lambda>r. u_cid r = k)" "pk u_cid"
  by (rule keyed_table_sql)

lemma wf_queue_pk: "wf_queue q \<Longrightarrow> pk r_cid (cids q)"
  by (simp add: wf_queue_def)

lemma wf_queue_row: "wf_queue q \<Longrightarrow> r \<in> set (cids q) \<Longrightarrow> row_ok r"
  by (simp add: wf_queue_def list_all_iff)

lemma wf_empty_queue [wfq]: "wf_queue empty_queue"
  by (simp add: wf_queue_def empty_queue_def)

lemma wf_update [wfq]:
  assumes "wf_queue q" "\<And>r. r_cid (f r) = r_cid r" "\<And>r. row_ok r \<Longrightarrow> row_ok (f r)"
  shows "wf_queue (q\<lparr>cids := sql_update P f (cids q)\<rparr>)"
  using assms by (auto simp: wf_queue_def list_all_iff pk_update)

lemma wf_delete [wfq]: "wf_queue q \<Longrightarrow> wf_queue (q\<lparr>cids := sql_delete P (cids q)\<rparr>)"
  by (auto simp: wf_queue_def list_all_iff)

lemma wf_append [wfq]:
  assumes "wf_queue q" "\<not> has_key r_cid (r_cid r) (cids q)" "row_ok r"
  shows "wf_queue (q\<lparr>cids := cids q @ [r]\<rparr>)"
  using assms by (auto simp: wf_queue_def pk_append)

lemma wf_forget_cid [wfq]: "wf_queue q \<Longrightarrow> wf_queue (forget_cid c q)"
  by (auto simp: wf_queue_def forget_cid_def list_all_iff sql_delete_def pk_def distinct_map_filter)

lemma wf_forget_rows [wfq]: "wf_queue q \<Longrightarrow> wf_queue (forget_rows rows q)"
  by (induction rows arbitrary: q) (simp_all add: forget_rows_def wf_forget_cid)

lemma row_ok_new_row:
  "valid c \<Longrightarrow> 0 \<le> n \<Longrightarrow> row_ok (new_row c (codec_of c) first lst n w src f)"
  by (simp add: row_ok_def new_row_def)

lemma new_row_cid [simp]: "r_cid (new_row c cd first lst n w src f) = c"
  by (simp add: new_row_def)

lemma wf_enqueue_review [wfq]: "wf_queue q \<Longrightarrow> wf_queue (snd (enqueue_review F now lc c q))"
  by (auto simp: enqueue_review_def Let_def row_ok_def new_row_def
      intro!: wf_update wf_append)

lemma wf_remember_binary [wfq]: "wf_queue q \<Longrightarrow> wf_queue (remember_binary now c mime q)"
  unfolding remember_binary_def
  by (rule wf_forget_cid) (auto simp: wf_queue_def)

lemma wf_drop_directory [wfq]: "wf_queue q \<Longrightarrow> wf_queue (drop_directory now c q)"
  by (auto simp: drop_directory_def Let_def wf_queue_def list_all_iff sql_delete_def pk_def
      distinct_map_filter insert_or_replace_def)

section \<open>Trimming\<close>

text \<open>
  A step that only deletes rows, and only rows with the property \<open>P\<close>. Everything \<open>prune\<close>
  does before it requeues expired skips is such a step.
\<close>

definition trims :: "(wrow \<Rightarrow> bool) \<Rightarrow> queue \<Rightarrow> queue \<Rightarrow> bool" where
  "trims P q q' \<longleftrightarrow> (\<exists>D. (\<forall>r\<in>set (cids q). D r \<longrightarrow> P r) \<and> cids q' = sql_delete D (cids q))"

lemma trims_refl: "trims P q q"
  unfolding trims_def by (intro exI [of _ "\<lambda>r. False"]) (simp add: sql_delete_def)

lemma trims_trans: "trims P q q' \<Longrightarrow> trims P q' q'' \<Longrightarrow> trims P q q''"
proof (unfold trims_def, elim exE conjE)
  fix D E
  assume "\<forall>r\<in>set (cids q). D r \<longrightarrow> P r" "cids q' = sql_delete D (cids q)"
    "\<forall>r\<in>set (cids q'). E r \<longrightarrow> P r" "cids q'' = sql_delete E (cids q')"
  then show "\<exists>D. (\<forall>r\<in>set (cids q). D r \<longrightarrow> P r) \<and> cids q'' = sql_delete D (cids q)"
    by (intro exI [of _ "\<lambda>r. D r \<or> E r"]) (auto simp: sql_delete_def)
qed

lemma trims_mono: "trims P q q' \<Longrightarrow> (\<And>r. P r \<Longrightarrow> Q r) \<Longrightarrow> trims Q q q'"
  unfolding trims_def by blast

lemma trims_keep: "trims P q q' \<Longrightarrow> r \<in> set (cids q) \<Longrightarrow> \<not> P r \<Longrightarrow> r \<in> set (cids q')"
  by (auto simp: trims_def)

lemma trims_subset: "trims P q q' \<Longrightarrow> r \<in> set (cids q') \<Longrightarrow> r \<in> set (cids q)"
  by (auto simp: trims_def)

lemma trims_count: "trims P q q' \<Longrightarrow> sql_count Q (cids q') \<le> sql_count Q (cids q)"
  by (auto simp: trims_def sql_count_delete intro: sql_count_mono)

lemma cids_forget_rows:
  "cids (forget_rows rows q) = sql_delete (\<lambda>r. r_cid r \<in> r_cid ` set rows) (cids q)"
proof (induction rows arbitrary: q)
  case (Cons x xs)
  then show ?case
    by (auto simp: forget_rows_def forget_cid_def sql_delete_def conj_commute
        intro!: filter_cong)
qed (simp add: forget_rows_def sql_delete_def)

text \<open>With unique keys, deleting the selected keys deletes the selected rows.\<close>

lemma delete_selected:
  assumes "pk r_cid t" "set rows \<subseteq> set t"
  shows "sql_delete (\<lambda>r. r_cid r \<in> r_cid ` set rows) t = sql_delete (\<lambda>r. r \<in> set rows) t"
  unfolding sql_delete_def
proof (rule filter_cong)
  fix r assume "r \<in> set t"
  then show "(r_cid r \<notin> r_cid ` set rows) = (r \<notin> set rows)"
    using assms pk_unique [of r_cid t r] by blast
qed simp

lemma forget_selected:
  assumes "wf_queue q" "set rows \<subseteq> set (cids q)"
  shows "cids (forget_rows rows q) = sql_delete (\<lambda>r. r \<in> set rows) (cids q)"
  using assms by (simp add: cids_forget_rows delete_selected wf_queue_pk)

lemma trims_forget_rows:
  "wf_queue q \<Longrightarrow> set rows \<subseteq> {r \<in> set (cids q). P r} \<Longrightarrow> trims P q (forget_rows rows q)"
  unfolding trims_def
  by (intro exI [of _ "\<lambda>r. r \<in> set rows"] conjI) (auto intro!: forget_selected)

lemma length_delete_selected:
  assumes "distinct rows" "set rows \<subseteq> set t" "distinct t"
  shows "int (length (sql_delete (\<lambda>r. r \<in> set rows) t)) = int (length t) - int (length rows)"
proof -
  have "length (filter (\<lambda>r. r \<in> set rows) t) = length rows"
  proof -
    have "{r \<in> set t. r \<in> set rows} = set rows" using assms(2) by auto
    then show ?thesis
      using assms distinct_card [of rows] distinct_card [of "filter (\<lambda>r. r \<in> set rows) t"] by simp
  qed
  then show ?thesis using sum_length_filter_compl [of "\<lambda>r. r \<in> set rows" t]
    by (simp add: sql_delete_def)
qed

lemma wf_distinct: "wf_queue q \<Longrightarrow> distinct (cids q)"
  unfolding wf_queue_def pk_def using distinct_map by blast

lemma set_oldest: "set (oldest P n q) \<subseteq> {r \<in> set (cids q). P r}"
  unfolding oldest_def using set_order_limit [of r_last_seen "nat n"] by fastforce

lemma distinct_order_limit: "distinct t \<Longrightarrow> distinct (order_limit key n t)"
  by (simp add: order_limit_def)

lemma forget_rows_length:
  assumes "wf_queue q" "distinct rows" "set rows \<subseteq> set (cids q)"
  shows "int (length rows) = int (length (cids q)) - int (length (cids (forget_rows rows q)))"
  using assms by (simp add: forget_selected length_delete_selected wf_distinct)

text \<open>What every trimming step of \<open>prune\<close> guarantees: it keeps the invariant, drops only
  rows of its kind and returns how many it dropped.\<close>

definition trim_ok :: "(wrow \<Rightarrow> bool) \<Rightarrow> queue \<Rightarrow> int \<times> queue \<Rightarrow> bool" where
  "trim_ok P q res \<longleftrightarrow> wf_queue (snd res) \<and> trims P q (snd res)
     \<and> fst res = int (length (cids q)) - int (length (cids (snd res)))"

lemma trim_ok_nop: "wf_queue q \<Longrightarrow> trim_ok P q (0, q)"
  by (simp add: trim_ok_def trims_refl)

lemma trim_ok_forget:
  assumes "wf_queue q" "distinct rows" "set rows \<subseteq> {r \<in> set (cids q). P r}"
  shows "trim_ok P q (int (length rows), forget_rows rows q)"
  using assms forget_rows_length [of q rows]
  by (auto simp: trim_ok_def wf_forget_rows trims_forget_rows)

lemma trim_ok_drop_named_non_pdf: "wf_queue q \<Longrightarrow>
    trim_ok (\<lambda>r. r_source r = Named \<and> r_status r = Discovered \<and> \<not> named_pdf_file r) q (drop_named_non_pdf q)"
  unfolding drop_named_non_pdf_def Let_def
  by (rule trim_ok_forget) (auto simp: wf_distinct)

lemma fold_delete_cids:
  "fold (\<lambda>row q. q\<lparr>cids := sql_delete (\<lambda>r. r_cid r = r_cid row) (cids q)\<rparr>) rows q
   = q\<lparr>cids := sql_delete (\<lambda>r. r_cid r \<in> r_cid ` set rows) (cids q)\<rparr>"
proof (induction rows arbitrary: q)
  case (Cons x xs)
  then show ?case by (auto simp: sql_delete_def conj_commute intro!: filter_cong)
qed (simp add: sql_delete_def)

definition lonely_raw :: "intcfg \<Rightarrow> wrow \<Rightarrow> bool" where
  "lonely_raw F r \<longleftrightarrow> prefer_min_peer_count F > 1 \<and> r_status r = Discovered \<and> \<not> keep_src r
     \<and> r_codec r \<noteq> ''dag-pb'' \<and> \<not> named_pdf_file r \<and> r_peer_count r < prefer_min_peer_count F"

text \<open>\<open>drop_lonely_raw\<close> removes exactly these rows and leaves the peers it has seen.\<close>

lemma drop_lonely_raw_eq:
  assumes "wf_queue q"
  shows "drop_lonely_raw F q = (sql_count (lonely_raw F) (cids q), q\<lparr>cids := sql_delete (lonely_raw F) (cids q)\<rparr>)"
proof (cases "prefer_min_peer_count F \<le> 1")
  case True
  then show ?thesis by (simp add: drop_lonely_raw_def lonely_raw_def sql_delete_def sql_count_def)
next
  case False
  let ?rows = "filter (lonely_raw F) (cids q)"
  have "drop_lonely_raw F q
      = (int (length ?rows), q\<lparr>cids := sql_delete (\<lambda>r. r_cid r \<in> r_cid ` set ?rows) (cids q)\<rparr>)"
    using False
    by (simp add: drop_lonely_raw_def fold_delete_cids Let_def lonely_raw_def [abs_def] not_le
        del: set_filter)
  moreover have "sql_delete (\<lambda>r. r_cid r \<in> r_cid ` set ?rows) (cids q) = sql_delete (lonely_raw F) (cids q)"
    by (subst delete_selected) (use assms in \<open>auto simp: wf_queue_pk sql_delete_def intro: filter_cong\<close>)
  ultimately show ?thesis by (simp add: sql_count_def)
qed

lemma trim_ok_drop_lonely_raw: "wf_queue q \<Longrightarrow> trim_ok (lonely_raw F) q (drop_lonely_raw F q)"
proof -
  assume "wf_queue q"
  moreover have "length (filter (lonely_raw F) (cids q)) + length (filter (\<lambda>r. \<not> lonely_raw F r) (cids q))
      = length (cids q)"
    by (rule sum_length_filter_compl)
  moreover have "trims (lonely_raw F) q (q\<lparr>cids := sql_delete (lonely_raw F) (cids q)\<rparr>)"
    unfolding trims_def by auto
  moreover have "wf_queue (q\<lparr>cids := sql_delete (lonely_raw F) (cids q)\<rparr>)"
    using \<open>wf_queue q\<close> by (rule wf_delete)
  ultimately show ?thesis
    by (simp add: trim_ok_def drop_lonely_raw_eq sql_count_def sql_delete_def)
qed

lemma trim_ok_prune_stale: "wf_queue q \<Longrightarrow>
    trim_ok (\<lambda>r. live r \<and> \<not> keep_src r \<and> r_last_seen r < now - of_int (max_age_seconds F)) q (prune_stale F now q)"
  unfolding prune_stale_def Let_def
  by (rule trim_ok_forget) (auto simp: wf_distinct)

lemma trim_ok_forget_oldest: "wf_queue q \<Longrightarrow> trim_ok P q (forget_oldest P n q)"
  unfolding forget_oldest_def Let_def
  by (auto intro!: trim_ok_nop trim_ok_forget simp: set_oldest oldest_def distinct_order_limit wf_distinct)
     (use set_oldest [of P n q] in \<open>auto simp: oldest_def\<close>)

lemma trim_ok_trans:
  "trim_ok P q (d1, q1) \<Longrightarrow> trim_ok P q1 (d2, q2) \<Longrightarrow> trim_ok P q (d1 + d2, q2)"
  by (auto simp: trim_ok_def intro: trims_trans)

lemma trim_ok_mono: "trim_ok P q res \<Longrightarrow> (\<And>r. P r \<Longrightarrow> Q r) \<Longrightarrow> trim_ok Q q res"
  by (auto simp: trim_ok_def intro: trims_mono)

lemma trim_ok_then:
  assumes "wf_queue q" "\<And>q. wf_queue q \<Longrightarrow> trim_ok P q (f q)" "\<And>q. wf_queue q \<Longrightarrow> trim_ok P q (g q)"
  shows "trim_ok P q (case f q of (d1, q1) \<Rightarrow> case g q1 of (d2, q2) \<Rightarrow> (d1 + d2, q2))"
proof (cases "f q")
  case (Pair d1 q1)
  then have "trim_ok P q (d1, q1)" using assms(1,2) by metis
  moreover from this have "trim_ok P q1 (g q1)" using assms(3) by (simp add: trim_ok_def)
  ultimately show ?thesis using Pair by (cases "g q1") (auto intro: trim_ok_trans)
qed

lemma trim_ok_prune_lanes: "wf_queue q \<Longrightarrow>
    trim_ok (\<lambda>r. r_status r = Discovered \<and> (html_lane r \<or> probe_sql r)) q (prune_lanes F q)"
  unfolding prune_lanes_def Let_def
  by (rule trim_ok_then) (auto intro: trim_ok_forget_oldest trim_ok_mono)

lemma trim_ok_prune_cap: "wf_queue q \<Longrightarrow> trim_ok (\<lambda>r. live r \<and> \<not> keep_src r) q (prune_cap F q)"
  unfolding prune_cap_def Let_def
  by (auto intro!: trim_ok_nop trim_ok_forget simp: distinct_order_limit wf_distinct
      dest!: set_order_limit [THEN subsetD])

lemma trim_ok_prune_dirs:
  "wf_queue q \<Longrightarrow> trim_ok (\<lambda>r. r_status r = Discovered \<and> probe_sql r) q (prune_dirs F q)"
  by (simp add: prune_dirs_def trim_ok_forget_oldest trim_ok_nop)


section \<open>What \<open>prune\<close> does\<close>

lemma requeue_simps [simp]:
  "r_cid (requeue e r) = r_cid r" "r_status (requeue e r) = Discovered"
  "r_last_seen (requeue e r) = r_last_seen r" "r_source (requeue e r) = r_source r"
  by (simp_all add: requeue_def)

lemma row_ok_requeue: "row_ok r \<Longrightarrow> row_ok (requeue e r)"
  by (simp add: row_ok_def requeue_def)

lemma wf_expire_local_skips [wfq]: "wf_queue q \<Longrightarrow> wf_queue (snd (expire_local_skips F now q))"
proof -
  assume wf: "wf_queue q"
  define t where "t = sql_update (pdf_retry_row (now - of_int (skip_ttl_seconds F))) (requeue ''pdf_retry'') (cids q)"
  have "wf_queue (q\<lparr>cids := t\<rparr>)"
    unfolding t_def using wf by (rule wf_update) (simp_all add: row_ok_requeue)
  from wf_update [OF this, of "requeue ''skip_expired''" "skip_expired_row (now - of_int (skip_ttl_seconds F))"]
  show ?thesis using wf by (simp add: expire_local_skips_def Let_def t_def row_ok_requeue)
qed

text \<open>The seven deleting steps of \<open>prune\<close> before the expiry, as one trimming step.\<close>

definition prune_trim :: "intcfg \<Rightarrow> time \<Rightarrow> queue \<Rightarrow> int \<times> queue" where
  "prune_trim F now q =
     (let (d1, q1) = drop_named_non_pdf q;
          (d2, q2) = drop_lonely_raw F q1;
          (d3, q3) = prune_stale F now q2;
          (d4, q4) = prune_lanes F q3;
          (d5, q5) = prune_cap F q4;
          (d6, q6) = prune_dirs F q5
      in (d1 + d2 + d3 + d4 + d5 + d6, q6))"

lemma prune_via_trim:
  "prune F now q = (case prune_trim F now q of (d, q6) \<Rightarrow>
     case expire_local_skips F now q6 of (n, q7) \<Rightarrow>
       case drop_lonely_raw F q7 of (d7, q8) \<Rightarrow> (d + d7 + n, q8))"
  by (simp add: prune_def prune_trim_def Let_def case_prod_beta)

definition prunable :: "wrow \<Rightarrow> bool" where
  "prunable r \<longleftrightarrow> live r \<and> (\<not> keep_src r \<or> (r_status r = Discovered \<and> (html_lane r \<or> \<not> named_pdf_file r \<and> r_source r = Named)))"

lemmas prune_steps =
  trim_ok_drop_named_non_pdf trim_ok_drop_lonely_raw trim_ok_prune_stale trim_ok_prune_lanes
  trim_ok_prune_cap trim_ok_prune_dirs

lemma trim_ok_prune_trim:
  assumes "wf_queue q"
  shows "trim_ok prunable q (prune_trim F now q)"
proof -
  obtain d1 q1 d2 q2 d3 q3 d4 q4 d5 q5 d6 q6 where
    e1: "drop_named_non_pdf q = (d1, q1)" and e2: "drop_lonely_raw F q1 = (d2, q2)"
    and e3: "prune_stale F now q2 = (d3, q3)" and e4: "prune_lanes F q3 = (d4, q4)"
    and e5: "prune_cap F q4 = (d5, q5)" and e6: "prune_dirs F q5 = (d6, q6)"
    by (metis surj_pair)
  have s: "live r" if "r_status r = Discovered" for r using that by (simp add: live_def)
  have t1: "trim_ok prunable q (d1, q1)"
    using trim_ok_drop_named_non_pdf [OF assms] unfolding e1
    by (rule trim_ok_mono) (auto simp: prunable_def s)
  have t2: "trim_ok prunable q1 (d2, q2)"
    using trim_ok_drop_lonely_raw [of q1 F] t1 unfolding e2
    by (auto simp: prunable_def s lonely_raw_def trim_ok_def intro: trims_mono)
  have t3: "trim_ok prunable q2 (d3, q3)"
    using trim_ok_prune_stale [of q2 now F] t2 unfolding e3
    by (auto simp: prunable_def trim_ok_def intro: trims_mono)
  have t4: "trim_ok prunable q3 (d4, q4)"
    using trim_ok_prune_lanes [of q3 F] t3 unfolding e4
    by (auto simp: prunable_def s probe_sql_def trim_ok_def intro: trims_mono)
  have t5: "trim_ok prunable q4 (d5, q5)"
    using trim_ok_prune_cap [of q4 F] t4 unfolding e5
    by (auto simp: prunable_def trim_ok_def intro: trims_mono)
  have t6: "trim_ok prunable q5 (d6, q6)"
    using trim_ok_prune_dirs [of q5 F] t5 unfolding e6
    by (auto simp: prunable_def s probe_sql_def trim_ok_def intro: trims_mono)
  show ?thesis
    using trim_ok_trans [OF trim_ok_trans [OF trim_ok_trans [OF trim_ok_trans
          [OF trim_ok_trans [OF t1 t2] t3] t4] t5] t6]
    by (simp add: prune_trim_def e1 e2 e3 e4 e5 e6)
qed


lemma trim_ok_wf: "trim_ok P q res \<Longrightarrow> wf_queue (snd res)"
  by (simp add: trim_ok_def)

lemma trim_ok_trims: "trim_ok P q res \<Longrightarrow> trims P q (snd res)"
  by (simp add: trim_ok_def)

lemmas wf_prune_steps = prune_steps [THEN trim_ok_wf]

text \<open>Stale rows are gone after \<open>prune_stale\<close>, and what follows it only deletes.\<close>

lemma prune_stale_fresh:
  assumes "wf_queue q" "r \<in> set (cids (snd (prune_stale F now q)))" "live r" "\<not> keep_src r"
  shows "now - of_int (max_age_seconds F) \<le> r_last_seen r"
  using assms by (force simp: prune_stale_def Let_def cids_forget_rows)

lemma count_delete_selected:
  assumes "distinct t" "distinct rows" "set rows \<subseteq> {r \<in> set t. P r}"
  shows "sql_count P (sql_delete (\<lambda>r. r \<in> set rows) t) = sql_count P t - int (length rows)"
proof -
  have "filter P (sql_delete (\<lambda>r. r \<in> set rows) t) = sql_delete (\<lambda>r. r \<in> set rows) (filter P t)"
    by (simp add: sql_delete_def conj_commute)
  then show ?thesis
    using length_delete_selected [of rows "filter P t"] assms by (simp add: sql_count_def)
qed

text \<open>After the cap step the live rows fit the cap, unless the kept ones alone exceed it.\<close>

lemma live_count_prune_cap:
  assumes "wf_queue q"
  shows "live_count (snd (prune_cap F q))
         \<le> max (max_queue F) (sql_count (\<lambda>r. live r \<and> keep_src r) (cids q))"
proof (cases "live_count q - max_queue F > 0")
  case False
  then show ?thesis by (simp add: prune_cap_def)
next
  case True
  let ?e = "live_count q - max_queue F"
  let ?drop = "filter (\<lambda>r. live r \<and> \<not> keep_src r) (cids q)"
  let ?old = "order_limit cap_order (nat ?e) ?drop"
  have sub: "set ?old \<subseteq> set ?drop" by (rule set_order_limit)
  have dist: "distinct ?old" using assms by (simp add: distinct_order_limit wf_distinct)
  have "cids (snd (prune_cap F q)) = sql_delete (\<lambda>r. r \<in> set ?old) (cids q)"
    using True sub by (simp only: prune_cap_def Let_def if_True snd_conv)
      (rule forget_selected [OF assms], auto)
  then have cnt: "live_count (snd (prune_cap F q)) = live_count q - int (length ?old)"
    using count_delete_selected [of "cids q" ?old live] sub dist assms
    by (auto simp: live_count_def wf_distinct)
  have len: "length ?old = min (nat ?e) (length ?drop)" by (simp add: order_limit_def)
  have "live_count q = sql_count (\<lambda>r. live r \<and> keep_src r) (cids q) + int (length ?drop)"
    using sql_count_split [of live "cids q" keep_src] by (simp add: live_count_def sql_count_def)
  with cnt len True show ?thesis by (auto simp: min_def split: if_splits)
qed

lemma prune_trim_fresh:
  assumes "wf_queue q" "r \<in> set (cids (snd (prune_trim F now q)))" "live r" "\<not> keep_src r"
  shows "now - of_int (max_age_seconds F) \<le> r_last_seen r"
proof -
  let ?q2 = "snd (drop_lonely_raw F (snd (drop_named_non_pdf q)))"
  let ?q3 = "snd (prune_stale F now ?q2)"
  let ?q4 = "snd (prune_lanes F ?q3)" let ?q5 = "snd (prune_cap F ?q4)"
  have wf2: "wf_queue ?q2" by (intro wf_prune_steps assms(1))
  have wf3: "wf_queue ?q3" "wf_queue ?q4" "wf_queue ?q5"
    by (intro wf_prune_steps wf2)+
  have "snd (prune_trim F now q) = snd (prune_dirs F ?q5)"
    by (simp add: prune_trim_def Let_def case_prod_beta)
  then have "r \<in> set (cids ?q3)"
    using assms(2) wf3 prune_steps(4-6) trim_ok_trims trims_subset by metis
  then show ?thesis using prune_stale_fresh [OF wf2] assms(3,4) by blast
qed

lemma live_count_prune_trim:
  assumes "wf_queue q"
  shows "live_count (snd (prune_trim F now q))
         \<le> max (max_queue F) (sql_count (\<lambda>r. live r \<and> keep_src r) (cids q))"
proof -
  let ?q3 = "snd (prune_stale F now (snd (drop_lonely_raw F (snd (drop_named_non_pdf q)))))"
  let ?q4 = "snd (prune_lanes F ?q3)" let ?q5 = "snd (prune_cap F ?q4)"
  let ?keep = "\<lambda>q. sql_count (\<lambda>r. live r \<and> keep_src r) (cids q)"
  have wf: "wf_queue (snd (drop_named_non_pdf q))"
    "wf_queue (snd (drop_lonely_raw F (snd (drop_named_non_pdf q))))" "wf_queue ?q3"
    "wf_queue ?q4" "wf_queue ?q5"
    by (intro wf_prune_steps assms)+
  have "snd (prune_trim F now q) = snd (prune_dirs F ?q5)"
    by (simp add: prune_trim_def Let_def case_prod_beta)
  then have "live_count (snd (prune_trim F now q)) \<le> live_count ?q5"
    using trims_count [OF trim_ok_trims [OF prune_steps(6) [OF wf(5)]]] by (simp add: live_count_def)
  also have "\<dots> \<le> max (max_queue F) (?keep ?q4)" using wf(4) by (rule live_count_prune_cap)
  also have "?keep ?q4 \<le> ?keep q"
    by (intro order_trans [OF trims_count [OF trim_ok_trims [OF prune_steps(4) [OF wf(3)]]]]
        order_trans [OF trims_count [OF trim_ok_trims [OF prune_steps(3) [OF wf(2)]]]]
        order_trans [OF trims_count [OF trim_ok_trims [OF prune_steps(2) [OF wf(1)]]]]
        trims_count [OF trim_ok_trims [OF prune_steps(1) [OF assms]]])
  finally show ?thesis by auto
qed

text \<open>Requeueing expired skips: a live row is left alone, every other one stays or is requeued.\<close>

lemma expire_live: "r \<in> set (cids q) \<Longrightarrow> live r \<Longrightarrow> r \<in> set (cids (snd (expire_local_skips F now q)))"
  by (force simp: expire_local_skips_def Let_def live_def pdf_retry_row_def skip_expired_row_def image_iff)

lemma expire_back:
  assumes "r \<in> set (cids (snd (expire_local_skips F now q)))"
  shows "r \<in> set (cids q) \<or> (\<exists>r0\<in>set (cids q). \<exists>e. r_status r0 = Skipped \<and> r = requeue e r0)"
  using assms
  by (auto simp: expire_local_skips_def Let_def pdf_retry_row_def skip_expired_row_def
      split: if_splits)

lemma count_update_live:
  "(\<And>r. P r \<Longrightarrow> r_status r = Skipped) \<Longrightarrow>
   sql_count live (sql_update P (requeue e) t) = sql_count live t + sql_count P t"
  by (induction t) (auto simp: sql_count_def sql_update_def live_def)

lemma expire_count:
  "live_count (snd (expire_local_skips F now q)) = live_count q + fst (expire_local_skips F now q)"
proof -
  have "pdf_retry_row c r \<Longrightarrow> r_status r = Skipped" "skip_expired_row c r \<Longrightarrow> r_status r = Skipped" for c r
    by (simp_all add: pdf_retry_row_def skip_expired_row_def)
  then show ?thesis
    by (simp add: expire_local_skips_def Let_def live_count_def count_update_live)
qed

lemma expire_bound:
  "fst (expire_local_skips F now q) \<le> sql_count (\<lambda>r. r_status r = Skipped) (cids q)"
proof -
  have skipped: "pdf_retry_row c r \<Longrightarrow> r_status r = Skipped" "skip_expired_row c r \<Longrightarrow> r_status r = Skipped"
    "\<not> skip_expired_row c (requeue e r)" for c r e
    by (simp_all add: pdf_retry_row_def skip_expired_row_def)
  have "sql_count (pdf_retry_row c) t
      + sql_count (skip_expired_row c) (sql_update (pdf_retry_row c) (requeue e) t)
      \<le> sql_count (\<lambda>r. r_status r = Skipped) t" for c e t
    by (induction t)
      (auto simp: sql_count_def sql_update_def skipped)
  then show ?thesis by (simp add: expire_local_skips_def Let_def)
qed

lemma wf_prune [wfq]: "wf_queue q \<Longrightarrow> wf_queue (snd (prune F now q))"
  using trim_ok_wf [OF trim_ok_prune_trim, of q F now] wf_expire_local_skips trim_ok_wf [OF prune_steps(2)]
  by (simp add: prune_via_trim case_prod_beta)

lemma prune_rows_back:
  assumes "wf_queue q" "r \<in> set (cids (snd (prune F now q)))"
  shows "r \<in> set (cids (snd (prune_trim F now q)))
    \<or> (\<exists>r0\<in>set (cids q). \<exists>e. r_status r0 = Skipped \<and> r = requeue e r0)"
proof -
  let ?t = "snd (prune_trim F now q)"
  have wf: "wf_queue ?t" using trim_ok_wf [OF trim_ok_prune_trim] assms(1) by blast
  then have "r \<in> set (cids (snd (expire_local_skips F now ?t)))"
    using assms(2) trims_subset [OF trim_ok_trims [OF prune_steps(2)]] wf_expire_local_skips
    by (simp add: prune_via_trim case_prod_beta)
  then have "r \<in> set (cids ?t) \<or> (\<exists>r0\<in>set (cids ?t). \<exists>e. r_status r0 = Skipped \<and> r = requeue e r0)"
    by (rule expire_back)
  then show ?thesis
    using trims_subset [OF trim_ok_trims [OF trim_ok_prune_trim [OF assms(1)]]] by blast
qed


text \<open>
  C18: A row of a review, of a directory's PDF child or of a report that is in the PDF lane
  survives \<open>prune\<close> while it is live, and so does every such row a worker holds: neither age
  nor the caps drop it.
\<close>

theorem prune_keeps_reviews:
  assumes "wf_queue q" "r \<in> set (cids q)" "live r" "keep_src r"
    and "r_status r = Processing \<or> named_pdf_file r \<or> r_source r = Report \<and> r_codec r = ''dag-pb''"
  shows "r \<in> set (cids (snd (prune F now q)))"
proof -
  let ?t = "snd (prune_trim F now q)" let ?e = "snd (expire_local_skips F now ?t)"
  have "\<not> prunable r" using assms(3-5)
    by (auto simp: prunable_def html_lane_def pdf_lane_def)
  then have "r \<in> set (cids ?t)"
    using trims_keep [OF trim_ok_trims [OF trim_ok_prune_trim [OF assms(1)]] assms(2)] by blast
  then have "r \<in> set (cids ?e)" using assms(3) by (rule expire_live)
  moreover have "wf_queue ?e"
    using wf_expire_local_skips trim_ok_wf [OF trim_ok_prune_trim [OF assms(1)]] by blast
  moreover have "\<not> lonely_raw F r" using assms(4) by (simp add: lonely_raw_def)
  ultimately show ?thesis
    using trims_keep [OF trim_ok_trims [OF prune_steps(2)]]
    by (simp add: prune_via_trim case_prod_beta)
qed

text \<open>
  After \<open>prune\<close>, a live row that is neither a review nor a named child was seen within
  \<open>max_age_seconds\<close>, or it is a skip that this very prune has put back into the queue.
\<close>

theorem prune_drops_stale:
  assumes "wf_queue q" "r \<in> set (cids (snd (prune F now q)))" "live r" "\<not> keep_src r"
  shows "now - of_int (max_age_seconds F) \<le> r_last_seen r
    \<or> (\<exists>r0\<in>set (cids q). \<exists>e. r_status r0 = Skipped \<and> r = requeue e r0)"
  using prune_rows_back [OF assms(1,2)] prune_trim_fresh [OF assms(1)] assms(3,4) by blast

text \<open>
  After \<open>prune\<close> the live rows number at most \<open>max_queue\<close> (or the reviews and named
  children, when these alone exceed it) plus the skips that the prune has requeued.
\<close>

theorem prune_live_bound:
  assumes "wf_queue q"
  shows "live_count (snd (prune F now q))
    \<le> max (max_queue F) (sql_count (\<lambda>r. live r \<and> keep_src r) (cids q))
      + sql_count (\<lambda>r. r_status r = Skipped) (cids q)"
proof -
  let ?t = "snd (prune_trim F now q)" let ?e = "snd (expire_local_skips F now ?t)"
  have tr: "trims prunable q ?t" "wf_queue ?t"
    using trim_ok_prune_trim [OF assms, of F now] by (simp_all add: trim_ok_def)
  have "live_count (snd (prune F now q)) \<le> live_count ?e"
    using trims_count [OF trim_ok_trims [OF prune_steps(2) [OF wf_expire_local_skips [OF tr(2)]]], of live]
    by (simp add: prune_via_trim case_prod_beta live_count_def)
  also have "\<dots> \<le> live_count ?t + sql_count (\<lambda>r. r_status r = Skipped) (cids ?t)"
    using expire_bound [of F now ?t] by (simp add: expire_count)
  also have "\<dots> \<le> live_count ?t + sql_count (\<lambda>r. r_status r = Skipped) (cids q)"
    using trims_count [OF tr(1)] by simp
  finally show ?thesis using live_count_prune_trim [OF assms, of F now] by linarith
qed

section \<open>Taking work\<close>

lemma pick_one_Some:
  assumes "pick_one W mp a q = Some r"
  shows "r \<in> set (cids q)" "eligible W mp a r"
    "\<And>r'. r' \<in> set (cids q) \<Longrightarrow> eligible W mp a r' \<Longrightarrow> select_key r \<le> select_key r'"
proof -
  let ?xs = "sort_key select_key (filter (eligible W mp a) (cids q))"
  obtain xs where xs: "?xs = r # xs"
    using assms by (cases ?xs) (auto simp: pick_one_def select_discovered_def order_limit_def)
  have "set ?xs = {r \<in> set (cids q). eligible W mp a r}" by simp
  then have *: "r \<in> set (cids q)" "eligible W mp a r" unfolding xs by auto
  show "r \<in> set (cids q)" "eligible W mp a r" using * by auto
  fix r' assume "r' \<in> set (cids q)" "eligible W mp a r'"
  then have "r' \<in> set (r # xs)" using \<open>set ?xs = _\<close> unfolding xs by auto
  moreover have "sorted (map select_key (r # xs))" using sorted_sort_key [of select_key] xs by metis
  ultimately show "select_key r \<le> select_key r'" by auto
qed

lemma pick_one_None: "pick_one W mp a q = None \<longleftrightarrow> (\<forall>r\<in>set (cids q). \<not> eligible W mp a r)"
proof -
  let ?xs = "sort_key select_key (filter (eligible W mp a) (cids q))"
  have "pick_one W mp a q = None \<longleftrightarrow> ?xs = []"
    by (cases ?xs) (simp_all add: pick_one_def select_discovered_def order_limit_def)
  also have "\<dots> \<longleftrightarrow> set ?xs = {}" by (simp only: set_empty)
  finally show ?thesis by auto
qed

abbreviation any_row :: "wrow \<Rightarrow> bool" where "any_row \<equiv> \<lambda>r. True"

abbreviation min_peers_of :: "intcfg \<Rightarrow> int" where
  "min_peers_of F \<equiv> cfg_get F ''min_peer_count'' 1"

text \<open>What one iteration of \<open>take_batch\<close> may pick.\<close>

definition takes :: "intcfg \<Rightarrow> targs \<Rightarrow> queue \<Rightarrow> wrow \<Rightarrow> bool" where
  "takes F a q r \<longleftrightarrow> r \<in> set (cids q) \<and> eligible any_row (min_peers_of F) a r
     \<and> (probe_sql r \<longrightarrow> dir_probe_count q < max_dir_probes F)"

lemma eligible_weaken: "eligible W mp a r \<Longrightarrow> mp' \<le> mp \<Longrightarrow> eligible any_row mp' a r \<and> W r"
  by (auto simp: eligible_def)

lemma takes_report: "pick_one is_report (min_peers_of F) a q = Some r \<Longrightarrow> takes F a q r"
  using pick_one_Some [of is_report "min_peers_of F" a q r]
  by (auto simp: takes_def probe_sql_def keep_src_def is_report_def dest: eligible_weaken)

lemma takes_pdf: "next_pdf F (min_peers_of F) a q = Some r \<Longrightarrow> takes F a q r"
  using pick_one_Some [of named_sql "min_peers_of F" a q r]
    pick_one_Some [of probe_sql "min_peers_of F" a q r]
  by (auto simp: next_pdf_def takes_def probe_sql_def named_sql_def
      split: option.splits if_splits dest: eligible_weaken)

lemma takes_html: "next_html (max (min_peers_of F) p) a q = Some r \<Longrightarrow> takes F a q r"
  using pick_one_Some [of html_lane "max (min_peers_of F) p" a q r]
  by (auto simp: next_html_def takes_def probe_sql_def html_lane_def pdf_lane_def
      dest: eligible_weaken [where mp' = "min_peers_of F"])

lemma choose_lane_Some:
  "choose_lane h pb hb p w = Some (r, l) \<Longrightarrow> (l = PdfLane \<and> p = Some r) \<or> (l = HtmlLane \<and> w = Some r)"
  by (auto simp: choose_lane_def split: option.splits if_splits)

text \<open>Induction over the iterations: each picks a row and sets it to processing.\<close>

lemma take_loop_induct:
  assumes "take_loop F a k pe he rows q = (rows', q')"
    and base: "\<And>q. Q q [] q"
    and step: "\<And>q r new q'. takes F a q r \<Longrightarrow> Q (set_processing (r_cid r) q) new q' \<Longrightarrow> Q q (r # new) q'"
  shows "\<exists>new. rows' = rows @ new \<and> length new \<le> k \<and> Q q new q'"
  using assms(1)
proof (induction k arbitrary: pe he rows q)
  case 0
  then show ?case using base by auto
next
  case (Suc k)
  let ?mp = "min_peers_of F"
  let ?c = "choose_lane (lane_workers F) (lane_busy pdf_lane q + pe) (lane_busy html_lane q + he)
              (next_pdf F ?mp a q) (next_html (max ?mp (prefer_min_peer_count F)) a q)"
  have more: ?case if "takes F a q r"
    "take_loop F a k pe' he' (rows @ [r]) (set_processing (r_cid r) q) = (rows', q')" for r pe' he'
  proof -
    from Suc.IH [OF that(2)] obtain new where "rows' = (rows @ [r]) @ new" "length new \<le> k"
      "Q (set_processing (r_cid r) q) new q'" by blast
    then show ?thesis using step [OF that(1)] by (intro exI [of _ "r # new"]) auto
  qed
  show ?case
  proof (cases "pick_one is_report ?mp a q")
    case (Some r)
    then show ?thesis using Suc.prems more [OF takes_report] by (simp add: Let_def)
  next
    case None
    show ?thesis
    proof (cases ?c)
      case None': None
      then show ?thesis using None Suc.prems base by (auto simp: Let_def)
    next
      case (Some rl)
      obtain r l where rl: "rl = (r, l)" by (cases rl)
      have "takes F a q r"
        using choose_lane_Some Some takes_pdf takes_html unfolding rl by metis
      then show ?thesis using None Some rl Suc.prems more
        by (cases l) (auto simp: Let_def)
    qed
  qed
qed


lemma wf_set_processing [wfq]: "wf_queue q \<Longrightarrow> wf_queue (set_processing c q)"
  unfolding set_processing_def by (rule wf_update) (auto simp: row_ok_def)

lemma set_processing_rows:
  assumes "wf_queue q" "r \<in> set (cids q)" "r' \<in> set (cids (set_processing (r_cid r) q))" "r_status r' = Discovered"
  shows "r' \<in> set (cids q) \<and> r_cid r' \<noteq> r_cid r"
  using assms by (auto simp: set_processing_def split: if_splits)

definition processing_rows :: "wrow list \<Rightarrow> queue \<Rightarrow> queue" where
  "processing_rows rows q =
     q\<lparr>cids := sql_update (\<lambda>r. r \<in> set rows) (\<lambda>r. r\<lparr>r_status := Processing\<rparr>) (cids q)\<rparr>"

lemma processing_rows_Cons:
  assumes wf: "wf_queue q" and r: "r \<in> set (cids q)" "r_status r = Discovered"
    and new: "set new \<subseteq> set (cids (set_processing (r_cid r) q))" "\<forall>x\<in>set new. r_status x = Discovered"
  shows "processing_rows new (set_processing (r_cid r) q) = processing_rows (r # new) q"
proof -
  let ?f = "\<lambda>r. r\<lparr>r_status := Processing\<rparr>"
  have "sql_update (\<lambda>x. x \<in> set new) ?f (sql_update (\<lambda>x. r_cid x = r_cid r) ?f (cids q))
      = sql_update (\<lambda>x. x \<in> set (r # new)) ?f (cids q)"
    unfolding sql_update_def map_map
  proof (rule map_cong [OF refl])
    fix x assume x: "x \<in> set (cids q)"
    have "x = r" if "r_cid x = r_cid r" using pk_unique [OF wf_queue_pk [OF wf] x r(1) that] .
    moreover have "?f r \<notin> set new" using new(2) by auto
    moreover have "r \<notin> set new"
      using new set_processing_rows [OF wf r(1)] r(2) by blast
    ultimately show "((\<lambda>x. if x \<in> set new then ?f x else x) \<circ> (\<lambda>x. if r_cid x = r_cid r then ?f x else x)) x
        = (if x \<in> set (r # new) then ?f x else x)" by auto
  qed
  then show ?thesis by (simp add: processing_rows_def set_processing_def)
qed

text \<open>What a batch is: distinct rows that were waiting and eligible, now set to processing.\<close>

definition batch_ok :: "intcfg \<Rightarrow> targs \<Rightarrow> queue \<Rightarrow> wrow list \<Rightarrow> queue \<Rightarrow> bool" where
  "batch_ok F a q rows q' \<longleftrightarrow> distinct (map r_cid rows) \<and> set rows \<subseteq> set (cids q)
     \<and> (\<forall>r\<in>set rows. eligible any_row (min_peers_of F) a r) \<and> q' = processing_rows rows q"

lemma batch_ok_nop: "batch_ok F a q [] q"
  by (simp add: batch_ok_def processing_rows_def sql_update_def)

lemma batch_ok_step:
  assumes "wf_queue q" "takes F a q r" "batch_ok F a (set_processing (r_cid r) q) new q'"
  shows "batch_ok F a q (r # new) q'"
proof -
  have r: "r \<in> set (cids q)" "r_status r = Discovered" "eligible any_row (min_peers_of F) a r"
    using assms(2) by (auto simp: takes_def eligible_def)
  have new: "set new \<subseteq> set (cids (set_processing (r_cid r) q))" "\<forall>x\<in>set new. r_status x = Discovered"
    using assms(3) by (auto simp: batch_ok_def eligible_def)
  have "\<forall>x\<in>set new. x \<in> set (cids q) \<and> r_cid x \<noteq> r_cid r"
    using new set_processing_rows [OF assms(1) r(1)] by blast
  then show ?thesis
    using assms(3) r processing_rows_Cons [OF assms(1) r(1,2) new]
    by (auto simp: batch_ok_def)
qed

lemma take_batch_ok:
  assumes "wf_queue q" "take_batch F now limit q = (rows, q')"
  shows "length rows \<le> nat limit \<and> batch_ok F (take_args F now) q rows q'"
proof -
  have "\<exists>new. rows = [] @ new \<and> length new \<le> nat limit
      \<and> (wf_queue q \<longrightarrow> batch_ok F (take_args F now) q new q')"
    using assms(2) unfolding take_batch_def
    by (rule take_loop_induct)
      (auto simp: batch_ok_nop intro: batch_ok_step wf_set_processing)
  then show ?thesis using assms(1) by simp
qed

text \<open>
  C16: \<open>take_batch\<close> hands out at most \<open>limit\<close> different CIDs, each of them waiting, old enough,
  wanted by enough peers, recent (or a review or named child), with attempts left and of a
  codec that can carry a document; and the queue it leaves is the old one with exactly these
  rows set to processing.
\<close>

theorem take_batch_correct:
  assumes "wf_queue q" "take_batch F now limit q = (rows, q')"
  shows "length rows \<le> nat limit \<and> distinct (map r_cid rows) \<and> set rows \<subseteq> set (cids q)
    \<and> (\<forall>r\<in>set rows. r_status r = Discovered \<and> r_peer_count r \<ge> cfg_get F ''min_peer_count'' 1
         \<and> r_first_seen r \<le> now - of_int (cfg_get F ''min_age_seconds'' 10)
         \<and> (r_last_seen r \<ge> now - of_int (max_age_seconds F) \<or> keep_src r)
         \<and> r_attempts r \<le> max (cfg_get F ''max_retries'' 1) (cfg_get F ''max_timeout_retries'' 3)
         \<and> r_codec r \<notin> {''libp2p-key'', ''json'', ''dag-json''})
    \<and> q' = q\<lparr>cids := sql_update (\<lambda>r. r \<in> set rows) (\<lambda>r. r\<lparr>r_status := Processing\<rparr>) (cids q)\<rparr>"
  using take_batch_ok [OF assms]
  by (auto simp: batch_ok_def eligible_def take_args_def processing_rows_def)

lemma wf_take_batch [wfq]: "wf_queue q \<Longrightarrow> wf_queue (snd (take_batch F now limit q))"
proof -
  assume wf: "wf_queue q"
  obtain rows q' where t: "take_batch F now limit q = (rows, q')" by fastforce
  then have "q' = processing_rows rows q" using take_batch_ok [OF wf t] by (simp add: batch_ok_def)
  then show ?thesis
    unfolding t processing_rows_def using wf by (auto simp: row_ok_def intro!: wf_update)
qed

text \<open>
  Two workers that take work one after the other never get the same CID, as long as no
  row is put back to discovered in between.
\<close>

theorem take_batch_exclusive:
  assumes "wf_queue q" "take_batch F now limit q = (rows, q')"
    and "take_batch F now' limit' q' = (rows', q'')"
  shows "set (map r_cid rows) \<inter> set (map r_cid rows') = {}"
proof -
  have wf: "wf_queue q'" using wf_take_batch [OF assms(1), of F now limit] assms(2) by simp
  have rows: "set rows \<subseteq> set (cids q)" "q' = processing_rows rows q"
    using take_batch_ok [OF assms(1,2)] by (auto simp: batch_ok_def)
  have "False" if r: "r \<in> set rows" "r' \<in> set rows'" "r_cid r = r_cid r'" for r r'
  proof -
    have "r' \<in> set (cids q')" "r_status r' = Discovered"
      using take_batch_ok [OF wf assms(3)] r(2) by (auto simp: batch_ok_def eligible_def)
    moreover have "r\<lparr>r_status := Processing\<rparr> \<in> set (cids q')"
      using rows r(1) by (auto simp: processing_rows_def intro!: image_eqI [of _ _ r])
    ultimately show False
      using pk_unique [OF wf_queue_pk [OF wf], of "r\<lparr>r_status := Processing\<rparr>" r'] r(3) by force
  qed
  then show ?thesis by auto
qed

subsection \<open>Budgets\<close>

lemma sql_count_update_one:
  assumes "pk key t" "r \<in> set t"
  shows "sql_count P (sql_update (\<lambda>x. key x = key r) f t)
         = sql_count P t - of_bool (P r) + of_bool (P (f r))"
  using assms
proof (induction t)
  case (Cons x t)
  show ?case
  proof (cases "x = r")
    case True
    with Cons.prems have "sql_update (\<lambda>x. key x = key r) f t = t"
      by (auto simp: sql_update_def pk_def image_iff intro!: map_idI)
    with True show ?thesis by (simp add: sql_count_def sql_update_def)
  next
    case False
    with Cons.prems have "key x \<noteq> key r" by (auto simp: pk_def)
    with Cons False show ?thesis by (auto simp: sql_count_def sql_update_def pk_def)
  qed
qed simp

lemma dir_probe_count_take:
  assumes "wf_queue q" "r \<in> set (cids q)" "r_status r = Discovered"
  shows "dir_probe_count (set_processing (r_cid r) q) = dir_probe_count q + of_bool (probe_sql r)"
  using sql_count_update_one [OF wf_queue_pk [OF assms(1)] assms(2)] assms(3)
  by (auto simp: dir_probe_count_def set_processing_def probe_sql_def keep_src_def named_pdf_file_def)

text \<open>
  Unidentified dag-pb roots never hold more than \<open>max_dir_probes\<close> workers: taking work
  does not raise their number above that budget.
\<close>

theorem take_batch_probe_budget:
  assumes "wf_queue q"
  shows "dir_probe_count (snd (take_batch F now limit q)) \<le> max (dir_probe_count q) (max_dir_probes F)"
proof -
  obtain rows q' where t: "take_batch F now limit q = (rows, q')" by fastforce
  have "\<exists>new. rows = [] @ new \<and> length new \<le> nat limit
      \<and> (wf_queue q \<longrightarrow> dir_probe_count q' \<le> max (dir_probe_count q) (max_dir_probes F))"
    using t unfolding take_batch_def
  proof (rule take_loop_induct)
    fix q r q'
    assume tk: "takes F (take_args F now) q r" and IH: "wf_queue (set_processing (r_cid r) q) \<longrightarrow>
        dir_probe_count q' \<le> max (dir_probe_count (set_processing (r_cid r) q)) (max_dir_probes F)"
    show "wf_queue q \<longrightarrow> dir_probe_count q' \<le> max (dir_probe_count q) (max_dir_probes F)"
      using IH tk wf_set_processing dir_probe_count_take [of q r]
      by (auto simp: takes_def eligible_def)
  qed simp
  then show ?thesis using assms t by simp
qed


subsection \<open>Lanes\<close>

lemma choose_lane_None:
  "choose_lane h pb hb p w = None \<longleftrightarrow> (p = None \<and> w = None) \<or> (p \<noteq> None \<and> w \<noteq> None \<and> h \<le> pb \<and> h \<le> hb)"
  by (auto simp: choose_lane_def split: option.splits)

lemma take_one: "take_batch F now 1 q =
   (case pick_one is_report (min_peers_of F) (take_args F now) q of
      Some r \<Rightarrow> ([r], set_processing (r_cid r) q)
    | None \<Rightarrow>
        (case choose_lane (lane_workers F) (lane_busy pdf_lane q) (lane_busy html_lane q)
                (next_pdf F (min_peers_of F) (take_args F now) q)
                (next_html (max (min_peers_of F) (prefer_min_peer_count F)) (take_args F now) q) of
           None \<Rightarrow> ([], q)
         | Some (r, l) \<Rightarrow> ([r], set_processing (r_cid r) q)))"
  by (auto simp: take_batch_def Let_def split: option.splits lane.splits)

lemma next_pdf_None: "next_pdf F mp a q = None \<longleftrightarrow>
    (\<forall>r\<in>set (cids q). \<not> eligible named_sql mp a r)
    \<and> (dir_probe_count q < max_dir_probes F \<longrightarrow> (\<forall>r\<in>set (cids q). \<not> eligible probe_sql mp a r))"
  by (auto simp: next_pdf_def pick_one_None split: option.splits)
     (metis option.distinct(1) pick_one_None)+

text \<open>
  C17: A free worker gets work. While one of the two lanes has a worker to spare, asking for
  one CID returns one whenever some row may be fetched: a review, a named PDF, an unidentified
  dag-pb root within the probe budget, or an HTML candidate that enough peers want.
\<close>

theorem take_batch_progress:
  assumes "lane_busy pdf_lane q < lane_workers F \<or> lane_busy html_lane q < lane_workers F"
    and "r \<in> set (cids q)"
    and "eligible (\<lambda>r. named_sql r \<or> probe_sql r \<and> dir_probe_count q < max_dir_probes F)
           (cfg_get F ''min_peer_count'' 1) (take_args F now) r
         \<or> eligible html_lane (max (cfg_get F ''min_peer_count'' 1) (prefer_min_peer_count F))
             (take_args F now) r"
  shows "\<exists>r'. fst (take_batch F now 1 q) = [r']"
proof (cases "pick_one is_report (min_peers_of F) (take_args F now) q")
  case None
  let ?p = "next_pdf F (min_peers_of F) (take_args F now) q"
  let ?w = "next_html (max (min_peers_of F) (prefer_min_peer_count F)) (take_args F now) q"
  have "?p \<noteq> None \<or> ?w \<noteq> None"
    using assms(2,3) by (auto simp: next_pdf_None next_html_def pick_one_None eligible_def)
  then have "choose_lane (lane_workers F) (lane_busy pdf_lane q) (lane_busy html_lane q) ?p ?w \<noteq> None"
    using assms(1) by (auto simp: choose_lane_None)
  then show ?thesis using None by (auto simp: take_one)
qed (auto simp: take_one)

text \<open>
  Reviews come first, and otherwise neither lane takes over the other's workers: when
  both lanes have a candidate, the row handed out is of a lane that holds fewer than half of
  the workers.
\<close>

theorem take_one_lanes:
  assumes "take_batch F now 1 q = ([r], q')"
  shows "r_source r \<noteq> Report \<longrightarrow>
      (\<forall>r'\<in>set (cids q). \<not> eligible is_report (cfg_get F ''min_peer_count'' 1) (take_args F now) r')
      \<and> (next_pdf F (cfg_get F ''min_peer_count'' 1) (take_args F now) q \<noteq> None
         \<and> next_html (max (cfg_get F ''min_peer_count'' 1) (prefer_min_peer_count F)) (take_args F now) q \<noteq> None
         \<longrightarrow> lane_busy (if pdf_lane r then pdf_lane else html_lane) q < lane_workers F)"
proof (intro impI)
  assume nr: "r_source r \<noteq> Report"
  let ?mp = "cfg_get F ''min_peer_count'' 1" let ?a = "take_args F now"
  let ?p = "next_pdf F ?mp ?a q" let ?w = "next_html (max ?mp (prefer_min_peer_count F)) ?a q"
  have none: "pick_one is_report ?mp ?a q = None"
    using assms nr pick_one_Some(2) [of is_report ?mp ?a q r]
    by (auto simp: take_one eligible_def is_report_def split: option.splits)
  then obtain l where c: "choose_lane (lane_workers F) (lane_busy pdf_lane q) (lane_busy html_lane q) ?p ?w = Some (r, l)"
    using assms by (auto simp: take_one split: option.splits)
  have "pdf_lane r" if "?p = Some r"
    using that nr pick_one_Some(2) [of named_sql ?mp ?a q r] pick_one_Some(2) [of probe_sql ?mp ?a q r]
    by (auto simp: next_pdf_def eligible_def named_sql_def probe_sql_def pdf_lane_def keep_src_def
        split: option.splits if_splits)
  moreover have "html_lane r" if "?w = Some r"
    using that pick_one_Some(2) [of html_lane _ ?a q r] by (auto simp: next_html_def eligible_def)
  ultimately show "(\<forall>r'\<in>set (cids q). \<not> eligible is_report ?mp ?a r')
      \<and> (?p \<noteq> None \<and> ?w \<noteq> None \<longrightarrow> lane_busy (if pdf_lane r then pdf_lane else html_lane) q < lane_workers F)"
    using none c by (auto simp: pick_one_None choose_lane_def html_lane_def split: option.splits if_splits)
qed

section \<open>Children of a directory\<close>

text \<open>The two lower-case foldings differ only outside ASCII.\<close>

lemma ascii_fold:
  assumes "(of_char x :: nat) < 128"
  shows "lower_char c = x \<longleftrightarrow> hd (sql_lower [c]) = x"
proof (cases "192 \<le> (of_char c :: nat)")
  case True
  have "192 \<le> (of_char (lower_char c) :: nat)"
    using True by (auto simp: lower_char_def Let_def)
  with True assms show ?thesis by (auto simp: sql_lower_def Let_def)
next
  case False
  then show ?thesis by (simp add: lower_char_def sql_lower_def Let_def)
qed

lemma endswith_map: "py_endswith (map f s) p \<longleftrightarrow>
    length p \<le> length s \<and> map f (drop (length s - length p) s) = p"
  by (simp add: py_endswith_def drop_map)

lemma pdf_suffix_fold: "py_endswith (py_lower s) ''.pdf'' \<longleftrightarrow> py_endswith (sql_lower s) ''.pdf''"
proof -
  have "map lower_char t = ''.pdf'' \<longleftrightarrow> map (\<lambda>c. hd (sql_lower [c])) t = ''.pdf''" for t
    by (simp add: map_eq_Cons_conv ascii_fold)
  moreover have "sql_lower s = map (\<lambda>c. hd (sql_lower [c])) s" by (simp add: sql_lower_def)
  ultimately show ?thesis by (simp only: py_lower_def endswith_map)
qed

lemma doc_child_pdf: "(base, c) \<in> set (doc_child_links n ls) \<Longrightarrow> like_suffix (Some base) ''.pdf''"
proof -
  assume "(base, c) \<in> set (doc_child_links n ls)"
  then have "\<exists>l\<in>set ls. doc_child l = Some (base, c)"
    by (auto simp: doc_child_links_def doc_child_loop_eq map_filter_def dest!: in_set_takeD) blast?
  then show ?thesis
    by (auto simp: doc_child_def has_ext_def DOC_CHILD_EXT_def like_suffix_def pdf_suffix_fold
        split: prod.splits option.splits if_splits)
qed


definition named_live :: "queue \<Rightarrow> int" where
  "named_live q = sql_count (\<lambda>r. r_source r = Named \<and> live r) (cids q)"

lemma trim_ok_evict_dir_probes:
  "wf_queue q \<Longrightarrow> trim_ok (\<lambda>r. r_status r = Discovered \<and> probe_sql r) q (evict_dir_probes n q)"
  unfolding evict_dir_probes_def Let_def
  by (rule trim_ok_forget) (auto simp: oldest_def distinct_order_limit wf_distinct
      dest!: set_order_limit [THEN subsetD])

lemma forget_unprocessable [simp]: "unprocessable (forget_rows rows q) = unprocessable q"
  unfolding forget_rows_def by (induction rows arbitrary: q) (simp_all add: forget_cid_def)

lemma evict_unprocessable [simp]: "unprocessable (snd (evict_dir_probes n q)) = unprocessable q"
  by (simp add: evict_dir_probes_def Let_def)

text \<open>Making room for one child: no named row goes, the ledger of binaries stays.\<close>

lemma make_room:
  assumes "wf_queue q" "(if pdf_can_admit F q then (1, q) else evict_dir_probes 1 q) = (room, q')"
  shows "wf_queue q'" "unprocessable q' = unprocessable q" "named_live q' = named_live q"
    "\<And>r. r \<in> set (cids q') \<Longrightarrow> r \<in> set (cids q)"
proof -
  have q': "q' = q \<or> q' = snd (evict_dir_probes 1 q)" using assms(2) by (auto split: if_splits)
  have ok: "trim_ok (\<lambda>r. r_status r = Discovered \<and> probe_sql r) q (evict_dir_probes 1 q)"
    using assms(1) by (rule trim_ok_evict_dir_probes)
  show "wf_queue q'" using q' ok assms(1) by (auto simp: trim_ok_def)
  show "unprocessable q' = unprocessable q" using q' by auto
  show "r \<in> set (cids q)" if "r \<in> set (cids q')" for r
    using q' that trims_subset [OF trim_ok_trims [OF ok]] by auto
  obtain D where D: "\<forall>r\<in>set (cids q). D r \<longrightarrow> probe_sql r" "cids (snd (evict_dir_probes 1 q)) = sql_delete D (cids q)"
    using trim_ok_trims [OF ok] by (auto simp: trims_def)
  have "named_live (snd (evict_dir_probes 1 q)) = named_live q"
    unfolding named_live_def D(2) sql_count_delete
    unfolding sql_count_def using D(1)
    by (intro arg_cong [where f = int] arg_cong [where f = length] filter_cong)
      (auto simp: probe_sql_def keep_src_def)
  with q' show "named_live q' = named_live q" by auto
qed

text \<open>A row that the loop has added for a child.\<close>

definition child_row :: "queue \<Rightarrow> (cid \<Rightarrow> bool) \<Rightarrow> cid option \<Rightarrow> wrow \<Rightarrow> bool" where
  "child_row q catalogued skip_cid r \<longleftrightarrow> r_source r = Named \<and> r_status r = Discovered \<and> named_pdf_file r
     \<and> \<not> catalogued (r_cid r) \<and> \<not> is_unprocessable (r_cid r) q \<and> Some (r_cid r) \<noteq> skip_cid"

lemma named_live_update:
  "(\<And>r. r_source (f r) = r_source r \<and> r_status (f r) = r_status r) \<Longrightarrow>
   named_live (q\<lparr>cids := sql_update P f (cids q)\<rparr>) = named_live q"
proof -
  assume f: "\<And>r. r_source (f r) = r_source r \<and> r_status (f r) = r_status r"
  have "length (filter (\<lambda>r. r_source r = Named \<and> live r) (sql_update P f t))
      = length (filter (\<lambda>r. r_source r = Named \<and> live r) t)" for t
    by (induction t) (simp_all add: sql_update_def live_def f)
  then show ?thesis by (simp add: named_live_def sql_count_def)
qed

lemma children_loop:
  assumes "wf_queue q" "named_n = named_live q" "\<And>f c. (f, c) \<in> set picked \<Longrightarrow> like_suffix (Some f) ''.pdf''"
    and "\<And>r. r \<in> set (cids q) \<Longrightarrow> \<not> has_key r_cid (r_cid r) (cids q0) \<Longrightarrow> child_row q0 cat skip r"
    and "unprocessable q = unprocessable q0"
    and "enqueue_children_loop F now cat skip picked named_n n q = (n', q')"
  shows "wf_queue q' \<and> n \<le> n' \<and> n' \<le> n + int (length picked)
    \<and> named_live q' \<le> max (named_live q) (cfg_get F ''max_named'' 80)
    \<and> (\<forall>r\<in>set (cids q'). \<not> has_key r_cid (r_cid r) (cids q0) \<longrightarrow> child_row q0 cat skip r)"
  using assms
proof (induction F now cat skip picked named_n n q rule: enqueue_children_loop.induct)
  case (1 F now cat skip named_n n q)
  then show ?case by auto
next
  case (2 F now cat skip filename c picked named_n n q)
  note rec = 2(1-4) and wf = 2(5) and nn = 2(6) and ext = 2(7) and kept = 2(8) and un = 2(9) and res = 2(10)
  let ?cap = "cfg_get F ''max_named'' 80"
  let ?room = "if pdf_can_admit F q then (1, q) else evict_dir_probes 1 q"
  obtain room q1 where room: "?room = (room, q1)" by (cases ?room)
  consider (full) "named_n \<ge> ?cap" | (bad) "\<not> named_n \<ge> ?cap" "Some c = skip \<or> \<not> valid c"
    | (known) "\<not> named_n \<ge> ?cap" "\<not> (Some c = skip \<or> \<not> valid c)" "is_unprocessable c q \<or> cat c"
    | (queued) "\<not> named_n \<ge> ?cap" "\<not> (Some c = skip \<or> \<not> valid c)" "\<not> (is_unprocessable c q \<or> cat c)"
        "has_key r_cid c (cids q)"
    | (new) "\<not> named_n \<ge> ?cap" "\<not> (Some c = skip \<or> \<not> valid c)" "\<not> (is_unprocessable c q \<or> cat c)"
        "\<not> has_key r_cid c (cids q)"
    by blast
  then show ?case
  proof cases
    case full
    then show ?thesis using res wf kept by auto
  next
    case bad
    then show ?thesis using rec(1) [OF bad wf nn ext kept un] res by fastforce
  next
    case known
    then show ?thesis using rec(2) [OF known wf nn ext kept un] res by fastforce
  next
    case queued
    let ?f = "\<lambda>r. r\<lparr>r_filename := (case r_filename r of None \<Rightarrow> Some filename | Some f \<Rightarrow> Some f)\<rparr>"
    let ?q = "q\<lparr>cids := sql_update (\<lambda>r. r_cid r = c) ?f (cids q)\<rparr>"
    have "wf_queue ?q" using wf by (rule wf_update) (auto simp: row_ok_def)
    moreover have "named_live ?q = named_live q" by (rule named_live_update) simp
    moreover have "child_row q0 cat skip r"
      if rq: "r \<in> set (cids ?q)" "\<not> has_key r_cid (r_cid r) (cids q0)" for r
    proof -
      have "child_row q0 cat skip (?f x)" if "child_row q0 cat skip x" for x
        using that ext [of filename c] by (auto simp: child_row_def named_pdf_file_def split: option.splits)
      moreover obtain x where x: "x \<in> set (cids q)" "r = x \<or> r = ?f x"
        using rq(1) by (auto simp del: set_sql_update elim!: in_updateE)
      moreover have "r_cid r = r_cid x" using x(2) by auto
      ultimately show ?thesis using kept rq(2) by auto
    qed
    moreover have "enqueue_children_loop F now cat skip picked named_n n ?q = (n', q')"
      using res queued by simp
    ultimately have "wf_queue q' \<and> n \<le> n' \<and> n' \<le> n + int (length picked)
        \<and> named_live q' \<le> max (named_live ?q) ?cap
        \<and> (\<forall>r\<in>set (cids q'). \<not> has_key r_cid (r_cid r) (cids q0) \<longrightarrow> child_row q0 cat skip r)"
      using nn ext un by (intro rec(3) [OF queued]) auto
    then show ?thesis using \<open>named_live ?q = named_live q\<close> by auto
  next
    case new
    show ?thesis
    proof (cases "room = 0")
      case True
      then show ?thesis using new res room make_room [OF wf room] kept
        by (auto simp: Let_def)
    next
      case False
      let ?r = "new_row c (codec_of c) (now - of_int (cfg_get F ''min_age_seconds'' 10) - 1) now 1 1 Named (Some filename)"
      let ?q = "q1\<lparr>cids := cids q1 @ [?r]\<rparr>"
      note q1 = make_room [OF wf room]
      have "\<not> has_key r_cid c (cids q1)" using new(4) q1(4) by (auto simp: has_key_def)
      then have wf': "wf_queue ?q" using q1(1) new(2) by (intro wf_append) (simp_all add: row_ok_new_row)
      have nl: "named_live ?q = named_live q + 1"
        using q1(3) by (simp add: named_live_def sql_count_def new_row_def live_def)
      have "child_row q0 cat skip ?r"
        using new(2,3) ext [of filename c] un
        by (auto simp: child_row_def new_row_def named_pdf_file_def is_unprocessable_def)
      then have "child_row q0 cat skip r"
        if "r \<in> set (cids ?q)" "\<not> has_key r_cid (r_cid r) (cids q0)" for r
        using that kept q1(4) by auto
      moreover have "enqueue_children_loop F now cat skip picked (named_n + 1) (n + 1) ?q = (n', q')"
        using res new room False by (simp add: Let_def)
      ultimately have "wf_queue q' \<and> n + 1 \<le> n' \<and> n' \<le> n + 1 + int (length picked)
          \<and> named_live q' \<le> max (named_live ?q) ?cap
          \<and> (\<forall>r\<in>set (cids q'). \<not> has_key r_cid (r_cid r) (cids q0) \<longrightarrow> child_row q0 cat skip r)"
        using nl nn ext un q1(2) wf'
        by (intro rec(4) [OF new room [symmetric] refl False refl]) auto
      then show ?thesis using nl nn new(1) by auto
    qed
  qed
qed


text \<open>
  The PDF children of a dropped directory. At most \<open>max_dir_docs\<close> are queued, the live
  named rows stay within \<open>max_named\<close>, the queue stays well-formed, and each row that is new is
  a waiting, named PDF that is neither in the catalog, nor known as a binary, nor the
  directory itself.
\<close>

theorem enqueue_doc_children_correct:
  assumes "wf_queue q" "enqueue_doc_children F now catalogued ls skip_cid q = (n, q')"
  shows "wf_queue q' \<and> 0 \<le> n \<and> n \<le> max 0 (cfg_get F ''max_dir_docs'' 16)
    \<and> named_live q' \<le> max (named_live q) (cfg_get F ''max_named'' 80)
    \<and> (\<forall>r\<in>set (cids q'). \<not> has_key r_cid (r_cid r) (cids q) \<longrightarrow> child_row q catalogued skip_cid r)"
proof (cases "doc_child_links (cfg_get F ''max_dir_docs'' 16) ls = []")
  case True
  then show ?thesis using assms by (auto simp: enqueue_doc_children_def Let_def has_key_def)
next
  case False
  let ?picked = "doc_child_links (cfg_get F ''max_dir_docs'' 16) ls"
  let ?q1 = "snd (drop_named_non_pdf q)"
  have ok: "trims (\<lambda>r. r_source r = Named \<and> r_status r = Discovered \<and> \<not> named_pdf_file r) q ?q1" "wf_queue ?q1"
    using prune_steps(1) [OF assms(1)] by (auto simp: trim_ok_def)
  have "enqueue_children_loop F now catalogued skip_cid ?picked (named_live ?q1) 0 ?q1 = (n, q')"
    using assms(2) False by (simp add: enqueue_doc_children_def Let_def named_live_def)
  moreover have "\<not> has_key r_cid (r_cid r) (cids q) \<Longrightarrow> r \<in> set (cids ?q1) \<Longrightarrow> child_row q catalogued skip_cid r" for r
    using trims_subset [OF ok(1)] by (auto simp: has_key_def)
  moreover have "unprocessable ?q1 = unprocessable q" by (simp add: drop_named_non_pdf_def Let_def)
  ultimately have "wf_queue q' \<and> 0 \<le> n \<and> n \<le> 0 + int (length ?picked)
    \<and> named_live q' \<le> max (named_live ?q1) (cfg_get F ''max_named'' 80)
    \<and> (\<forall>r\<in>set (cids q'). \<not> has_key r_cid (r_cid r) (cids q) \<longrightarrow> child_row q catalogued skip_cid r)"
    by (intro children_loop [OF ok(2) refl]) (auto intro: doc_child_pdf)
  moreover have "named_live ?q1 \<le> named_live q"
    using trims_count [OF ok(1)] by (simp add: named_live_def)
  moreover have "length ?picked \<le> nat (cfg_get F ''max_dir_docs'' 16)"
    by (simp add: doc_child_links_def doc_child_loop_eq)
  ultimately show ?thesis by auto
qed

section \<open>The remaining operations keep the invariant\<close>

lemma wf_enqueue_doc_children [wfq]:
  assumes "wf_queue q" shows "wf_queue (snd (enqueue_doc_children F now catalogued ls skip_cid q))"
proof -
  let ?res = "enqueue_doc_children F now catalogued ls skip_cid q"
  let ?picked = "doc_child_links (cfg_get F ''max_dir_docs'' 16) ls"
  let ?q1 = "snd (drop_named_non_pdf q)"
  have wf: "wf_queue ?q1" using prune_steps(1) [OF assms] by (rule trim_ok_wf)
  obtain n q' where loop: "enqueue_children_loop F now catalogued skip_cid ?picked (named_live ?q1) 0 ?q1 = (n, q')"
    by fastforce
  then have "wf_queue q'"
    using children_loop [OF wf refl, of ?picked ?q1 catalogued skip_cid F now 0 n q'] doc_child_pdf
    by (auto simp: has_key_def)
  then show ?thesis
    using assms loop by (simp add: enqueue_doc_children_def Let_def named_live_def)
qed

lemma set_col_one: "r_cid (set_col f r) = r_cid r" "r_codec (set_col f r) = r_codec r"
  "r_peer_count (set_col f r) = r_peer_count r"
  by (cases f; simp)+

lemma set_col_simps: "r_cid (fold set_col flds r) = r_cid r" "r_codec (fold set_col flds r) = r_codec r"
  "r_peer_count (fold set_col flds r) = r_peer_count r"
  by (induction flds arbitrary: r) (simp_all add: set_col_one)

definition attempts_ok :: "colset list \<Rightarrow> bool" where
  "attempts_ok flds \<longleftrightarrow> list_all (\<lambda>f. case f of SetAttempts n \<Rightarrow> 0 \<le> n | _ \<Rightarrow> True) flds"

lemma set_col_attempts: "0 \<le> r_attempts r \<Longrightarrow> attempts_ok flds \<Longrightarrow> 0 \<le> r_attempts (fold set_col flds r)"
proof (induction flds arbitrary: r)
  case (Cons f flds)
  then have "0 \<le> r_attempts (set_col f r)" by (cases f) (auto simp: attempts_ok_def)
  with Cons show ?case by (simp add: attempts_ok_def)
qed simp

lemma wf_mark [wfq]: "wf_queue q \<Longrightarrow> attempts_ok flds \<Longrightarrow> wf_queue (mark c st flds q)"
  unfolding mark_def by (rule wf_update) (auto simp: row_ok_def set_col_simps set_col_attempts)

lemma wf_bump_attempts [wfq]: "wf_queue q \<Longrightarrow> 0 \<le> n \<Longrightarrow> wf_queue (bump_attempts c n q)"
  unfolding bump_attempts_def by (rule wf_update) (auto simp: row_ok_def)

lemma wf_note_fetch [wfq]: "wf_queue q \<Longrightarrow> wf_queue (note_fetch now c ret q)"
  unfolding note_fetch_def by (rule wf_update) (auto simp: row_ok_def)

lemma wf_release_processing [wfq]: "wf_queue q \<Longrightarrow> wf_queue (snd (release_processing q))"
  unfolding release_processing_def snd_conv by (rule wf_update) (auto simp: row_ok_def)


section \<open>Concrete queues\<close>

text \<open>
  Three rows: a review of a raw block, a sniffed raw block two peers want, and a sniffed
  dag-pb root, under a configuration with room for two live rows.
\<close>

definition ex_cfg :: intcfg where
  "ex_cfg = [''max_queue'' \<mapsto> 2, ''prefer_min_peer_count'' \<mapsto> 1]"

definition ex_review :: wrow where
  "ex_review = new_row ''f01551203aabbcc'' ''raw'' 10 20 1 1 Report None"

definition ex_raw :: wrow where
  "ex_raw = new_row ''f01551203aabbcd'' ''raw'' 30 40 2 2 Sniff None"

definition ex_dir :: wrow where
  "ex_dir = new_row ''f01701203aabbcc'' ''dag-pb'' 30 50 1 1 Sniff None"

definition ex_queue :: queue where
  "ex_queue = empty_queue\<lparr>cids := [ex_review, ex_raw, ex_dir]\<rparr>"

definition ex_named :: wrow where
  "ex_named = new_row ''f01701203aabbcc'' ''dag-pb'' 1 2 1 1 Named (Some ''a.pdf'')"

definition ex_named_queue :: queue where
  "ex_named_queue = empty_queue\<lparr>cids := [ex_named, ex_raw]\<rparr>"

lemma ex_wf: "wf_queue ex_queue" "wf_queue ex_named_queue"
  by code_simp+

lemma ex_named_facts: "ex_named \<in> set (cids ex_named_queue) \<and> live ex_named \<and> keep_src ex_named \<and> named_pdf_file ex_named"
  by code_simp

theorem prune_keeps_reviews_witness: "ex_named \<in> set (cids (snd (prune ex_cfg 5000 ex_named_queue)))"
  by (rule prune_keeps_reviews) (use ex_wf ex_named_facts in auto)

theorem prune_drops_stale_witness:
  "930 - of_int (max_age_seconds ex_cfg) \<le> r_last_seen ex_raw
   \<or> (\<exists>r0\<in>set (cids ex_queue). \<exists>e. r_status r0 = Skipped \<and> ex_raw = requeue e r0)"
  by (rule prune_drops_stale [OF ex_wf(1)]) code_simp+

theorem prune_live_bound_witness:
  "live_count (snd (prune ex_cfg 100 ex_queue))
    \<le> max (max_queue ex_cfg) (sql_count (\<lambda>r. live r \<and> keep_src r) (cids ex_queue))
      + sql_count (\<lambda>r. r_status r = Skipped) (cids ex_queue)"
  by (rule prune_live_bound [OF ex_wf(1)])

lemma ex_take: "take_batch ex_cfg 100 2 ex_queue = ([ex_review, ex_dir], snd (take_batch ex_cfg 100 2 ex_queue))"
  by code_simp

theorem take_batch_correct_witness: "distinct (map r_cid [ex_review, ex_dir])"
  using take_batch_correct [OF ex_wf(1) ex_take] by blast

lemma ex_take_next: "take_batch ex_cfg 100 2 (snd (take_batch ex_cfg 100 2 ex_queue))
    = ([ex_raw], snd (take_batch ex_cfg 100 2 (snd (take_batch ex_cfg 100 2 ex_queue))))"
  by code_simp

theorem take_batch_exclusive_witness: "set (map r_cid [ex_review, ex_dir]) \<inter> set (map r_cid [ex_raw]) = {}"
  by (rule take_batch_exclusive [OF ex_wf(1) ex_take ex_take_next])

theorem take_batch_probe_budget_witness:
  "dir_probe_count (snd (take_batch ex_cfg 100 2 ex_queue)) \<le> max (dir_probe_count ex_queue) (max_dir_probes ex_cfg)"
  by (rule take_batch_probe_budget [OF ex_wf(1)])

theorem take_batch_progress_witness: "\<exists>r'. fst (take_batch ex_cfg 100 1 ex_queue) = [r']"
  by (rule take_batch_progress [where r = ex_raw]) code_simp+

definition ex_busy_queue :: queue where
  "ex_busy_queue = set_processing (r_cid ex_review) ex_queue"

lemma ex_take_one: "take_batch ex_cfg 100 1 ex_busy_queue = ([ex_dir], snd (take_batch ex_cfg 100 1 ex_busy_queue))"
  by code_simp

lemma ex_both_lanes: "r_source ex_dir \<noteq> Report
    \<and> next_pdf ex_cfg (cfg_get ex_cfg ''min_peer_count'' 1) (take_args ex_cfg 100) ex_busy_queue \<noteq> None
    \<and> next_html (max (cfg_get ex_cfg ''min_peer_count'' 1) (prefer_min_peer_count ex_cfg))
        (take_args ex_cfg 100) ex_busy_queue \<noteq> None"
  by code_simp

theorem take_one_lanes_witness:
  "lane_busy (if pdf_lane ex_dir then pdf_lane else html_lane) ex_busy_queue < lane_workers ex_cfg"
  using take_one_lanes [OF ex_take_one] ex_both_lanes by blast

lemma ex_children: "enqueue_doc_children ex_cfg 100 (\<lambda>c. False) [(Some ''b.pdf'', ''f01551203aabb00'')] None ex_named_queue
    = (0, ex_named_queue)"
  by code_simp

theorem enqueue_doc_children_witness:
  "named_live ex_named_queue \<le> max (named_live ex_named_queue) (cfg_get ex_cfg ''max_named'' 80)"
  using enqueue_doc_children_correct [OF ex_wf(2) ex_children] by blast

text \<open>
  A review is not always kept: the step of \<open>prune\<close> that trims the HTML lane selects the
  oldest waiting rows of that lane without excluding reviews, so a review of a raw block, whose
  \<open>last_seen\<close> no later WANT refreshes, is the first to go when PDF roots claim their half.
\<close>

theorem prune_can_drop_review:
  "\<exists>F now q r. wf_queue q \<and> r \<in> set (cids q) \<and> live r \<and> r_source r = Report
     \<and> \<not> has_key r_cid (r_cid r) (cids (snd (prune F now q)))"
proof -
  have "ex_review \<in> set (cids ex_queue) \<and> live ex_review \<and> r_source ex_review = Report
      \<and> \<not> has_key r_cid (r_cid ex_review) (cids (snd (prune ex_cfg 100 ex_queue)))"
    by code_simp
  then show ?thesis using ex_wf(1) by blast
qed

end
