(* ===== verification/Store_Laws.thy ===== *)
theory Store_Laws
  imports Store Work_Laws
begin

text \<open>
  Laws of the catalog: the invariant that ties its tables together and that every operation
  keeps it, what a lookup returns, and what ingesting, blacklisting and expiring do.
\<close>

section \<open>The invariant\<close>

text \<open>Primary keys.\<close>

definition keys_ok :: "catalog \<Rightarrow> bool" where
  "keys_ok db \<longleftrightarrow> pk m_hash (messages db) \<and> pk c_hash (classifies db) \<and> pk s_cid (skips db)
     \<and> pk cl_publisher (claims db) \<and> pk rp_key (reports db) \<and> pk a_publisher (aliases db)
     \<and> pk b_publisher (blacklisted db) \<and> pk p_key (proposals db)"

text \<open>The search row comes from this classification.\<close>

definition doc_src :: "drow \<Rightarrow> crow \<Rightarrow> bool" where
  "doc_src d c \<longleftrightarrow> d_cid d = c_cid c \<and> d_publisher d = c_publisher c \<and> d_mime d = c_mime c
     \<and> d_size d = c_size c \<and> d_filename d = c_filename c \<and> d_topic d = c_topic c
     \<and> d_keywords d = c_keywords c \<and> d_license d = c_license c \<and> d_text_sha256 d = c_text_sha256 c
     \<and> d_received d = c_received c"

text \<open>
  The search table: keys, cached count, full-text index as its mirror; one row for exactly the
  CIDs that have a classification, except possibly for those in \<open>S\<close>.
\<close>

definition docs_ok :: "cid set \<Rightarrow> catalog \<Rightarrow> bool" where
  "docs_ok S db \<longleftrightarrow> pk d_cid (docs db) \<and> pk d_rowid (docs db)
     \<and> docs_count db = Some (int (length (docs db)))
     \<and> pk f_rowid (docs_fts db) \<and> set (docs_fts db) = fts_of ` set (docs db)
     \<and> (\<forall>d\<in>set (docs db). d_cid d \<notin> S \<longrightarrow> (\<exists>c\<in>set (classifies db). doc_src d c))
     \<and> (\<forall>c\<in>set (classifies db). c_cid c \<notin> S \<longrightarrow> has_key d_cid (c_cid c) (docs db))"

text \<open>Every classification is backed by its message, and its CID is valid.\<close>

definition rows_ok :: "catalog \<Rightarrow> bool" where
  "rows_ok db \<longleftrightarrow>
     (\<forall>c\<in>set (classifies db). \<exists>m\<in>set (messages db).
        m_hash m = c_hash c \<and> m_cid m = c_cid c \<and> m_publisher m = c_publisher c \<and> m_kind m = ''classify'')
     \<and> (\<forall>c\<in>set (classifies db). valid (c_cid c)) \<and> (\<forall>s\<in>set (skips db). valid (s_cid s))
     \<and> (\<forall>r\<in>set (claims db). valid (cl_cid r)) \<and> (\<forall>r\<in>set (reports db). valid (rp_cid r))"

text \<open>A blacklisted publisher owns nothing in the catalog.\<close>

definition owners :: "catalog \<Rightarrow> publisher set" where
  "owners db = m_publisher ` set (messages db) \<union> c_publisher ` set (classifies db)
     \<union> s_publisher ` set (skips db) \<union> cl_publisher ` set (claims db) \<union> rp_publisher ` set (reports db)"

definition black_ok :: "catalog \<Rightarrow> bool" where
  "black_ok db \<longleftrightarrow> owners db \<inter> b_publisher ` set (blacklisted db) = {} \<and> [] \<notin> b_publisher ` set (blacklisted db)"

definition wf_catalog :: "catalog \<Rightarrow> bool" where
  "wf_catalog db \<longleftrightarrow> keys_ok db \<and> docs_ok {} db \<and> rows_ok db \<and> black_ok db"

named_theorems wfc \<comment> \<open>operations keep the catalog well-formed\<close>

lemma wf_empty_catalog [wfc]: "wf_catalog empty_catalog"
  by (simp add: wf_catalog_def keys_ok_def docs_ok_def rows_ok_def black_ok_def owners_def empty_catalog_def)

interpretation doc_rows: keyed_table d_cid "sql_get d_cid" "insert_or_replace d_cid"
  "\<lambda>k. sql_delete (\<lambda>r. d_cid r = k)" "pk d_cid"
  by (rule keyed_table_sql)

interpretation skip_rows: keyed_table s_cid "sql_get s_cid" "insert_or_replace s_cid"
  "\<lambda>k. sql_delete (\<lambda>r. s_cid r = k)" "pk s_cid"
  by (rule keyed_table_sql)

interpretation claim_rows: keyed_table cl_publisher "sql_get cl_publisher" "insert_or_replace cl_publisher"
  "\<lambda>k. sql_delete (\<lambda>r. cl_publisher r = k)" "pk cl_publisher"
  by (rule keyed_table_sql)

interpretation report_rows: keyed_table rp_key "sql_get rp_key" "insert_or_replace rp_key"
  "\<lambda>k. sql_delete (\<lambda>r. rp_key r = k)" "pk rp_key"
  by (rule keyed_table_sql)

interpretation alias_rows: keyed_table a_publisher "sql_get a_publisher" "insert_or_replace a_publisher"
  "\<lambda>k. sql_delete (\<lambda>r. a_publisher r = k)" "pk a_publisher"
  by (rule keyed_table_sql)

section \<open>The search table\<close>

lemma next_rowid_fresh: "d \<in> set t \<Longrightarrow> d_rowid d < next_rowid t"
  using Max_ge [of "d_rowid ` set t" "d_rowid d"] by (auto simp: next_rowid_def)

lemma doc_of_simps [simp]: "d_cid (doc_of f i c n) = c_cid c" "d_rowid (doc_of f i c n) = n"
  by (simp_all add: doc_of_def)

lemma fts_of_simps [simp]: "f_rowid (fts_of d) = d_rowid d" "f_cid (fts_of d) = d_cid d"
  by (simp_all add: fts_of_def)

lemma docs_upsert:
  "docs (upsert_doc f i c db) =
     (if has_key d_cid (c_cid c) (docs db) then docs db
      else docs db @ [doc_of f i c (next_rowid (docs db))])"
  by (auto simp: upsert_doc_def add_stat_def index_doc_def split: option.splits)

text \<open>Every other table is untouched by the search table's operations.\<close>

lemma upsert_frame [simp]:
  "messages (upsert_doc f i c db) = messages db" "classifies (upsert_doc f i c db) = classifies db"
  "skips (upsert_doc f i c db) = skips db" "claims (upsert_doc f i c db) = claims db"
  "reports (upsert_doc f i c db) = reports db" "aliases (upsert_doc f i c db) = aliases db"
  "blacklisted (upsert_doc f i c db) = blacklisted db" "proposals (upsert_doc f i c db) = proposals db"
  "alias_setting (upsert_doc f i c db) = alias_setting db"
  by (auto simp: upsert_doc_def add_stat_def index_doc_def split: option.splits)

lemma docs_ok_upsert:
  assumes "docs_ok (insert (c_cid c) S) db" "c \<in> set (classifies db)"
    and "has_key d_cid (c_cid c) (docs db) \<Longrightarrow> docs_ok S db"
  shows "docs_ok S (upsert_doc f i c db)"
proof (cases "has_key d_cid (c_cid c) (docs db)")
  case True
  then show ?thesis using assms(3) by (simp add: upsert_doc_def)
next
  case False
  let ?d = "doc_of f i c (next_rowid (docs db))"
  have get: "sql_get d_cid (c_cid c) (docs db @ [?d]) = Some ?d"
    using False sql_get_ignore [of d_cid "c_cid c" ?d "docs db"] by (simp add: insert_or_ignore_def)
  have old: "pk d_cid (docs db)" "pk d_rowid (docs db)" "docs_count db = Some (int (length (docs db)))"
    "pk f_rowid (docs_fts db)" "set (docs_fts db) = fts_of ` set (docs db)"
    using assms(1) by (auto simp: docs_ok_def)
  have fresh: "\<not> has_key d_rowid (next_rowid (docs db)) (docs db)"
    using next_rowid_fresh [of _ "docs db"] by (auto simp: has_key_def dest!: next_rowid_fresh)
  have nofts: "sql_delete (\<lambda>r. f_rowid r = next_rowid (docs db)) (docs_fts db) = docs_fts db"
    unfolding sql_delete_def by (rule filter_False_id) (use old(5) fresh in \<open>auto simp: has_key_def\<close>)
  have up: "upsert_doc f i c db = db\<lparr>docs := docs db @ [?d], docs_fts := docs_fts db @ [fts_of ?d],
      docs_count := Some (int (length (docs db)) + 1)\<rparr>"
    using False get old(3) by (simp add: upsert_doc_def add_stat_def index_doc_def nofts)
  have "pk f_rowid (docs_fts db @ [fts_of ?d])"
    using old(4,5) fresh by (intro pk_append) (auto simp: has_key_def)
  moreover have "doc_src ?d c" by (simp add: doc_src_def doc_of_def)
  ultimately show ?thesis
    using assms(1,2) False fresh unfolding up docs_ok_def
    by (auto intro!: pk_append simp: has_key_def)
qed

lemma fold_drop_fts:
  "fold (\<lambda>d db. add_stat (- 1) (db\<lparr>docs_fts := sql_delete (\<lambda>f. f_rowid f = d_rowid d) (docs_fts db)\<rparr>)) ds db
   = (if ds = [] then db else db\<lparr>docs_fts := sql_delete (\<lambda>f. f_rowid f \<in> d_rowid ` set ds) (docs_fts db),
        docs_count := Some ((case docs_count db of None \<Rightarrow> 0 | Some n \<Rightarrow> n) - int (length ds))\<rparr>)"
proof (induction ds arbitrary: db)
  case (Cons d ds)
  then show ?case
    by (auto simp: add_stat_def sql_delete_def conj_commute intro!: catalog.equality filter_cong split: option.splits)
qed simp

lemma length_filter_key: "pk key t \<Longrightarrow> length (filter (\<lambda>r. key r = k) t) = (if has_key key k t then 1 else 0)"
proof (induction t)
  case (Cons r t)
  then show ?case by (auto simp: pk_def has_key_map)
qed (simp add: has_key_def)

text \<open>Dropping the search row of a CID.\<close>

lemma docs_drop_doc: "docs (drop_doc c db) = sql_delete (\<lambda>d. d_cid d = c) (docs db)"
  by (simp add: drop_doc_def Let_def fold_drop_fts)

lemma drop_frame [simp]:
  "messages (drop_doc c db) = messages db" "classifies (drop_doc c db) = classifies db"
  "skips (drop_doc c db) = skips db" "claims (drop_doc c db) = claims db"
  "reports (drop_doc c db) = reports db" "aliases (drop_doc c db) = aliases db"
  "blacklisted (drop_doc c db) = blacklisted db" "proposals (drop_doc c db) = proposals db"
  "alias_setting (drop_doc c db) = alias_setting db"
  by (simp_all add: drop_doc_def Let_def fold_drop_fts)

lemma fts_mirror_delete:
  assumes "pk d_rowid t" "set fts = fts_of ` set t" "gone = filter (\<lambda>d. d_cid d = c) t"
  shows "set (sql_delete (\<lambda>f. f_rowid f \<in> d_rowid ` set gone) fts) = fts_of ` set (sql_delete (\<lambda>d. d_cid d = c) t)"
proof -
  define G where "G = d_rowid ` set gone"
  have "d_rowid d \<in> G \<longleftrightarrow> d_cid d = c" if "d \<in> set t" for d
    using pk_unique [OF assms(1) that] that assms(3) by (auto simp: G_def)
  then have "{f \<in> fts_of ` set t. f_rowid f \<notin> G} = fts_of ` {d \<in> set t. d_cid d \<noteq> c}" by auto
  then show ?thesis unfolding set_sql_delete assms(2) G_def .
qed

lemma docs_ok_drop:
  assumes "docs_ok S db"
  shows "docs_ok (insert c S) (drop_doc c db)"
proof -
  let ?gone = "filter (\<lambda>d. d_cid d = c) (docs db)"
  have old: "pk d_cid (docs db)" "pk d_rowid (docs db)" "docs_count db = Some (int (length (docs db)))"
    "pk f_rowid (docs_fts db)" "set (docs_fts db) = fts_of ` set (docs db)"
    using assms by (auto simp: docs_ok_def)
  have len: "length (docs db) = length ?gone + length (sql_delete (\<lambda>d. d_cid d = c) (docs db))"
    using sum_length_filter_compl [of "\<lambda>d. d_cid d = c" "docs db"] by (simp add: sql_delete_def)
  have "docs_count (drop_doc c db) = Some (int (length (docs (drop_doc c db))))"
    using old(3) len by (auto simp: drop_doc_def Let_def fold_drop_fts)
  moreover have "docs_fts (drop_doc c db) = sql_delete (\<lambda>f. f_rowid f \<in> d_rowid ` set ?gone) (docs_fts db)"
  proof (cases "?gone = []")
    case True
    then have "d_rowid ` set ?gone = {}" by (simp only: list.set image_empty)
    with True show ?thesis
      by (simp only: drop_doc_def Let_def fold_drop_fts if_True) (simp add: sql_delete_def)
  next
    case False
    then show ?thesis by (simp only: drop_doc_def Let_def fold_drop_fts if_False) simp
  qed
  ultimately show ?thesis
    using assms fts_mirror_delete [OF old(2,5) refl, of c] old(4)
    by (auto simp: docs_ok_def docs_drop_doc has_key_def) metis
qed


lemma set_rows_of [simp]: "set (rows_of db c) = {r \<in> set (classifies db). c_cid r = c}"
  by (simp add: rows_of_def)

lemma rebuild_frame [simp]:
  "messages (rebuild_doc P c db) = messages db" "classifies (rebuild_doc P c db) = classifies db"
  "skips (rebuild_doc P c db) = skips db" "claims (rebuild_doc P c db) = claims db"
  "reports (rebuild_doc P c db) = reports db" "aliases (rebuild_doc P c db) = aliases db"
  "blacklisted (rebuild_doc P c db) = blacklisted db" "proposals (rebuild_doc P c db) = proposals db"
  "alias_setting (rebuild_doc P c db) = alias_setting db"
  by (simp_all add: rebuild_doc_def Let_def split: list.splits)

lemma docs_ok_mono: "docs_ok S db \<Longrightarrow> S \<subseteq> T \<Longrightarrow> docs_ok T db"
  by (auto simp: docs_ok_def)

lemma docs_ok_rebuild:
  assumes "docs_ok S db"
  shows "docs_ok (S - {c}) (rebuild_doc P c db)"
proof -
  let ?db = "drop_doc c db"
  have gone: "\<not> has_key d_cid c (docs ?db)" by (auto simp: docs_drop_doc has_key_def)
  have ok: "docs_ok (insert c (S - {c})) ?db"
    using docs_ok_drop [OF assms, of c] by (rule docs_ok_mono) auto
  show ?thesis
  proof (cases "rows_of ?db c")
    case Nil
    then have "set (rows_of ?db c) = {}" by simp
    then have "\<forall>r\<in>set (classifies ?db). c_cid r \<noteq> c" unfolding set_rows_of by auto
    moreover have "\<forall>d\<in>set (docs ?db). d_cid d \<noteq> c" using gone by (auto simp: has_key_def)
    ultimately have "docs_ok (S - {c}) ?db" using ok by (auto simp: docs_ok_def)
    then show ?thesis using Nil by (simp add: rebuild_doc_def)
  next
    case (Cons r rs)
    then have "r \<in> set (rows_of ?db c)" by simp
    then have "r \<in> set (classifies ?db)" "c_cid r = c" unfolding set_rows_of by auto
    then show ?thesis using docs_ok_upsert [of r "S - {c}" ?db] ok gone Cons
      by (simp add: rebuild_doc_def)
  qed
qed

lemma fold_rebuild_frame:
  "messages (fold (rebuild_doc P) cs db) = messages db" "classifies (fold (rebuild_doc P) cs db) = classifies db"
  "skips (fold (rebuild_doc P) cs db) = skips db" "claims (fold (rebuild_doc P) cs db) = claims db"
  "reports (fold (rebuild_doc P) cs db) = reports db" "aliases (fold (rebuild_doc P) cs db) = aliases db"
  "blacklisted (fold (rebuild_doc P) cs db) = blacklisted db" "proposals (fold (rebuild_doc P) cs db) = proposals db"
  by (induction cs arbitrary: db) simp_all

lemma docs_ok_rebuild_all: "docs_ok (S \<union> set cs) db \<Longrightarrow> docs_ok S (fold (rebuild_doc P) cs db)"
proof (induction cs arbitrary: db)
  case (Cons c cs)
  have "docs_ok (S \<union> set (c # cs) - {c}) (rebuild_doc P c db)" using Cons.prems by (rule docs_ok_rebuild)
  then have "docs_ok (S \<union> set cs) (rebuild_doc P c db)" by (rule docs_ok_mono) auto
  then show ?case using Cons.IH by simp
qed simp

section \<open>Every operation keeps the invariant\<close>

lemma is_blacklisted_iff: "black_ok db \<Longrightarrow> is_blacklisted p db \<longleftrightarrow> p \<in> b_publisher ` set (blacklisted db)"
  by (auto simp: is_blacklisted_def has_key_map black_ok_def) (metis image_eqI)

lemma wf_blacklist [wfc]:
  assumes "wf_catalog db"
  shows "wf_catalog (snd (blacklist E publisher db))"
proof -
  define p where "p = py_strip (str_or publisher [])"
  define cs where "cs = remdups (filter (\<lambda>c. c \<noteq> [])
     (map c_cid (filter (\<lambda>r. c_publisher r = p) (classifies db)) @ map rp_cid (filter (\<lambda>r. rp_publisher r = p) (reports db))))"
  define name where "name = (case sql_get a_publisher p (aliases db) of None \<Rightarrow> [] | Some a \<Rightarrow> a_alias a)"
  define db1 where "db1 = db\<lparr>blacklisted := insert_or_replace b_publisher
                        \<lparr>b_publisher = p, b_alias = name, b_received = e_now E\<rparr> (blacklisted db),
                      classifies := sql_delete (\<lambda>r. c_publisher r = p) (classifies db),
                      reports := sql_delete (\<lambda>r. rp_publisher r = p) (reports db),
                      skips := sql_delete (\<lambda>r. s_publisher r = p) (skips db),
                      claims := sql_delete (\<lambda>r. cl_publisher r = p) (claims db),
                      aliases := sql_delete (\<lambda>r. a_publisher r = p) (aliases db),
                      messages := sql_delete (\<lambda>r. m_publisher r = p) (messages db)\<rparr>"
  show ?thesis
  proof (cases "p = [] \<or> e_peer E = Some p")
    case True
    then show ?thesis using assms by (auto simp: blacklist_def Let_def p_def)
  next
    case False
    have res: "snd (blacklist E publisher db) = fold (rebuild_doc (e_club E)) cs db1"
      using False by (simp add: blacklist_def Let_def p_def [symmetric] cs_def db1_def name_def)
    have old: "keys_ok db" "docs_ok {} db" "rows_ok db" "black_ok db" using assms by (auto simp: wf_catalog_def)
    have "keys_ok db1" using old(1) by (auto simp: keys_ok_def db1_def)
    moreover have "rows_ok db1" using old(3) by (fastforce simp: rows_ok_def db1_def)
    moreover have "black_ok db1" using old(4) False by (auto simp: black_ok_def owners_def db1_def)
    moreover have "docs_ok ({} \<union> set cs) db1"
    proof -
      have ne: "c_cid c \<noteq> []" if "c \<in> set (classifies db)" for c
        using old(3) that by (auto simp: rows_ok_def valid_def decode_cid_def)
      have "\<exists>c\<in>set (classifies db1). doc_src d c" if "d \<in> set (docs db)" "d_cid d \<notin> set cs" for d
      proof -
        obtain c where c: "c \<in> set (classifies db)" "doc_src d c"
          using old(2) \<open>d \<in> set (docs db)\<close> by (auto simp: docs_ok_def)
        then have "c_publisher c \<noteq> p"
          using \<open>d_cid d \<notin> set cs\<close> ne [OF c(1)] by (auto simp: cs_def doc_src_def)
        then show ?thesis using c by (auto simp: db1_def)
      qed
      then show ?thesis using old(2) by (auto simp: docs_ok_def db1_def)
    qed
    then have "docs_ok {} (fold (rebuild_doc (e_club E)) cs db1)" by (rule docs_ok_rebuild_all)
    ultimately show ?thesis
      unfolding res wf_catalog_def keys_ok_def rows_ok_def black_ok_def owners_def
      by (simp add: fold_rebuild_frame)
  qed
qed


definition not_black :: "publisher \<Rightarrow> catalog \<Rightarrow> bool" where
  "not_black p db \<longleftrightarrow> p \<notin> b_publisher ` set (blacklisted db)"

lemma wf_new_message:
  assumes "wf_catalog db" "\<not> has_key m_hash (m_hash m) (messages db)" "not_black (m_publisher m) db"
  shows "wf_catalog (db\<lparr>messages := messages db @ [m]\<rparr>)"
proof -
  have "rows_ok (db\<lparr>messages := messages db @ [m]\<rparr>)"
    using assms(1) by (fastforce simp: wf_catalog_def rows_ok_def)
  then show ?thesis
    using assms by (auto simp: wf_catalog_def keys_ok_def docs_ok_def black_ok_def owners_def not_black_def
        intro!: pk_append)
qed

lemma wf_insert_classify:
  assumes wf: "wf_catalog db" and p: "not_black (c_publisher row) db" and v: "valid (c_cid row)"
    and m: "m \<in> set (messages db)" "m_hash m = c_hash row" "m_cid m = c_cid row"
      "m_publisher m = c_publisher row" "m_kind m = ''classify''"
    and new: "\<not> has_key c_hash (c_hash row) (classifies db)"
  shows "wf_catalog (insert_classify row db)"
proof -
  define db1 where "db1 = db\<lparr>classifies := classifies db @ [row],
      claims := sql_delete (\<lambda>r. cl_cid r = c_cid row) (claims db)\<rparr>"
  have ins: "insert_classify row db = upsert_doc (c_field row) (c_indexed_at row) row db1"
    using new by (simp add: insert_classify_def insert_or_ignore_def db1_def)
  have old: "keys_ok db" "docs_ok {} db" "rows_ok db" "black_ok db" using wf by (auto simp: wf_catalog_def)
  have "keys_ok db1" using old(1) new by (auto simp: keys_ok_def db1_def intro!: pk_append)
  moreover have "rows_ok db1" using old(3) m v by (fastforce simp: rows_ok_def db1_def)
  moreover have "black_ok db1" using old(4) p by (auto simp: black_ok_def owners_def db1_def not_black_def)
  moreover have "docs_ok {} (upsert_doc (c_field row) (c_indexed_at row) row db1)"
    by (rule docs_ok_upsert) (use old(2) in \<open>auto simp: docs_ok_def db1_def\<close>)
  ultimately show ?thesis
    unfolding ins wf_catalog_def keys_ok_def rows_ok_def black_ok_def owners_def by simp
qed

lemma classify_row_simps:
  assumes "classify_row E obj h c p now = Inr row"
  shows "c_hash row = h" "c_cid row = c" "c_publisher row = p" "c_received row = now"
    "c_field row = normalize_field (e_club E) (jget obj ''field'')"
  using assms by (auto simp: classify_row_def res_bind_def split: sum.splits)

lemma wf_dispatch:
  assumes wf: "wf_catalog db" and p: "not_black p db" and v: "kind \<noteq> ''alias'' \<Longrightarrow> valid c"
    and m: "m \<in> set (messages db)" "m_hash m = h" "m_cid m = c" "m_publisher m = p" "m_kind m = kind"
    and new: "\<not> has_key c_hash h (classifies db)"
  shows "wf_catalog (snd (dispatch E obj kind h c p now db))"
proof -
  have old: "keys_ok db" "docs_ok {} db" "rows_ok db" "black_ok db" using wf by (auto simp: wf_catalog_def)
  consider "kind = ''classify''" | "kind = ''alias''" | "kind = ''skip''" | "kind = ''claim''"
    | "kind \<notin> {''classify'', ''alias'', ''skip'', ''claim''}" by auto
  then show ?thesis
  proof cases
    case 1
    show ?thesis
    proof (cases "classify_row E obj h c p now")
      case (Inr row)
      then have "wf_catalog (insert_classify row db)"
        using 1 classify_row_simps [OF Inr] m v p new by (intro wf_insert_classify [OF wf, of _ m]) auto
      then show ?thesis using 1 Inr by (simp add: dispatch_def)
    qed (use 1 wf in \<open>simp add: dispatch_def\<close>)
  next
    case 2
    then show ?thesis using old
      by (auto simp: dispatch_def upsert_alias_def Let_def wf_catalog_def keys_ok_def docs_ok_def rows_ok_def
          black_ok_def owners_def)
  next
    case 3
    then have "valid c" using v by simp
    with 3 old p show ?thesis
      by (auto simp: dispatch_def ingest_skip_def wf_catalog_def keys_ok_def docs_ok_def rows_ok_def
          black_ok_def owners_def not_black_def split: sum.splits)
  next
    case 4
    then have "valid c" using v by simp
    with 4 old p show ?thesis
      by (auto simp: dispatch_def ingest_claim_def wf_catalog_def keys_ok_def docs_ok_def rows_ok_def
          black_ok_def owners_def not_black_def split: sum.splits)
  next
    case 5
    then have "valid c" using v by simp
    with 5 old p show ?thesis
      by (auto simp: dispatch_def ingest_report_def wf_catalog_def keys_ok_def docs_ok_def rows_ok_def
          black_ok_def owners_def not_black_def)
  qed
qed

lemma admit_Some:
  assumes "admit E obj db = Inr (Some (kind, c, p))"
  shows "\<not> is_blacklisted p db" "kind \<noteq> ''alias'' \<Longrightarrow> valid c" "kind \<in> set KINDS"
    "jget obj ''kind'' = JStr kind" "kind = ''report'' \<Longrightarrow> \<exists>r\<in>set REPORT_REASONS. jget obj ''reason'' = JStr r"
proof -
  obtain k where k: "jget obj ''kind'' = JStr k" "k \<in> set KINDS"
    using assms by (auto simp: admit_def in_strings_def res_bind_def split: json.splits sum.splits if_splits)
  have "kind = k" using assms k
    by (auto simp: admit_def in_strings_def res_bind_def Let_def py_str_def split: sum.splits if_splits)
  with k show "kind \<in> set KINDS" "jget obj ''kind'' = JStr kind" by auto
  show "\<not> is_blacklisted p db"
    using assms by (auto simp: admit_def res_bind_def Let_def split: sum.splits if_splits)
  show "kind \<noteq> ''alias'' \<Longrightarrow> valid c"
    using assms \<open>kind = k\<close> k
    by (auto simp: admit_def res_bind_def Let_def in_strings_def py_str_def text_col_def str_or_def
        split: sum.splits if_splits json.splits option.splits)
  show "kind = ''report'' \<Longrightarrow> \<exists>r\<in>set REPORT_REASONS. jget obj ''reason'' = JStr r"
    using assms \<open>kind = k\<close> k
    by (auto simp: admit_def res_bind_def Let_def in_strings_def py_str_def
        split: sum.splits if_splits json.splits)
qed


text \<open>The row that \<open>ingest_message\<close> adds to \<open>messages\<close>.\<close>

definition message_of :: "env \<Rightarrow> (string \<times> json) list \<Rightarrow> string \<Rightarrow> cid \<Rightarrow> publisher \<Rightarrow> time \<Rightarrow> message" where
  "message_of E obj kind c p now = \<lparr>m_hash = payload_hash (e_sha256 E) (JObj obj), m_kind = kind, m_cid = c,
     m_publisher = p, m_body = wire_dumps (JObj obj), m_received = now\<rparr>"

lemma message_of_simps [simp]:
  "m_hash (message_of E obj kind c p now) = payload_hash (e_sha256 E) (JObj obj)"
  "m_kind (message_of E obj kind c p now) = kind" "m_cid (message_of E obj kind c p now) = c"
  "m_publisher (message_of E obj kind c p now) = p"
  by (simp_all add: message_of_def)

text \<open>The three ways \<open>ingest_message\<close> goes: it raises or refuses unchanged, or it stores.\<close>

lemma ingest_message_cases:
  obtains (unchanged) r where "ingest_message E rt obj (db, q) = (r, db, q)" "r \<noteq> Inr True"
      "\<And>kind c p. admit E obj db = Inr (Some (kind, c, p)) \<Longrightarrow>
         r = Inr False \<and> has_key m_hash (payload_hash (e_sha256 E) (JObj obj)) (messages db)"
      "admit E obj db = Inr None \<Longrightarrow> r = Inr False" "\<And>e. admit E obj db = Inl e \<Longrightarrow> r = Inl e"
  | (stored) kind c p now u db' q' where
      "admit E obj db = Inr (Some (kind, c, p))"
      "\<not> has_key m_hash (payload_hash (e_sha256 E) (JObj obj)) (messages db)"
      "dispatch E obj kind (payload_hash (e_sha256 E) (JObj obj)) c p now
         (db\<lparr>messages := messages db @ [message_of E obj kind c p now]\<rparr>) = (u, db')"
      "ingest_message E rt obj (db, q) = ((case u of Inl e \<Rightarrow> Inl e | Inr x \<Rightarrow> Inr True), db', q')"
      "q' = q \<or> q' = snd (enqueue_review (e_fetch E) (e_now E) (local_classified E db' c) c q)"
proof (cases "admit E obj db")
  case (Inr ok)
  show ?thesis
  proof (cases ok)
    case (Some kcp)
    obtain kind c p where k: "kcp = (kind, c, p)" by (metis prod_cases3)
    let ?h = "payload_hash (e_sha256 E) (JObj obj)" let ?now = "case rt of Some t \<Rightarrow> t | None \<Rightarrow> e_now E"
    let ?d = "dispatch E obj kind ?h c p ?now (db\<lparr>messages := messages db @ [message_of E obj kind c p ?now]\<rparr>)"
    obtain u db' where d: "?d = (u, db')" by (cases ?d)
    show ?thesis
    proof (cases "has_key m_hash ?h (messages db)")
      case True
      then show ?thesis using Inr Some k by (intro unchanged [of "Inr False"]) (auto simp: ingest_message_def Let_def)
    next
      case False
      then show ?thesis using Inr Some k d
        by (cases u) (intro stored [of kind c p ?now u db'], auto simp: ingest_message_def Let_def message_of_def)+
    qed
  qed (use Inr in \<open>intro unchanged [of "Inr False"], auto simp: ingest_message_def\<close>)
next
  case (Inl e)
  then show ?thesis by (intro unchanged [of "Inl e"]) (auto simp: ingest_message_def)
qed

lemma wf_ingest_message [wfc]:
  assumes "wf_catalog db" "ingest_message E rt obj (db, q) = (r, db', q')"
  shows "wf_catalog db' \<and> (wf_queue q \<longrightarrow> wf_queue q')"
proof (cases rule: ingest_message_cases [where E = E and rt = rt and obj = obj and db = db and q = q])
  case (stored kind c p now u db'' q'')
  let ?m = "message_of E obj kind c p now"
  have black: "not_black p db"
    using admit_Some(1) [OF stored(1)] assms(1) by (simp add: not_black_def is_blacklisted_iff wf_catalog_def)
  have wf: "wf_catalog (db\<lparr>messages := messages db @ [?m]\<rparr>)"
    using assms(1) stored(2) black by (intro wf_new_message) simp_all
  have "\<not> has_key c_hash (payload_hash (e_sha256 E) (JObj obj)) (classifies db)"
    using assms(1) stored(2) by (fastforce simp: wf_catalog_def rows_ok_def has_key_def)
  then have "wf_catalog db''"
    using wf_dispatch [OF wf, of p kind c ?m "payload_hash (e_sha256 E) (JObj obj)" E obj now]
      black admit_Some(2) [OF stored(1)] stored(3) by (simp add: not_black_def)
  moreover have "wf_queue q \<longrightarrow> wf_queue q''" using stored(5) wf_enqueue_review by auto
  ultimately show ?thesis using assms(2) stored(4) by simp
qed (use assms in simp)

lemma wf_simple_ops [wfc]:
  assumes "wf_catalog db"
  shows "wf_catalog (snd (propose_report now c reason db))" "wf_catalog (drop_proposal c reason db)"
    "wf_catalog (snd (unblacklist publisher db))" "wf_catalog (snd (set_local_alias E al peer db))"
    "wf_catalog (expire_claims E db)" "wf_catalog (snd (cached_count db))"
proof -
  show "wf_catalog (snd (propose_report now c reason db))"
    using assms by (auto simp: propose_report_def Let_def wf_catalog_def keys_ok_def docs_ok_def rows_ok_def
        black_ok_def owners_def p_key_def intro!: pk_append pk_update)
  show "wf_catalog (drop_proposal c reason db)"
    using assms by (auto simp: drop_proposal_def wf_catalog_def keys_ok_def docs_ok_def rows_ok_def
        black_ok_def owners_def)
  show "wf_catalog (snd (unblacklist publisher db))"
    using assms by (auto simp: unblacklist_def Let_def wf_catalog_def keys_ok_def docs_ok_def rows_ok_def
        black_ok_def owners_def)
  show "wf_catalog (snd (set_local_alias E al peer db))"
    using assms by (auto simp: set_local_alias_def Let_def wf_catalog_def keys_ok_def docs_ok_def rows_ok_def
        black_ok_def owners_def)
  show "wf_catalog (expire_claims E db)"
    using assms by (auto simp: expire_claims_def Let_def wf_catalog_def keys_ok_def docs_ok_def rows_ok_def
        black_ok_def owners_def)
  show "wf_catalog (snd (cached_count db))"
    using assms by (simp add: cached_count_def wf_catalog_def docs_ok_def)
qed

lemma wf_purge_unprocessable [wfc]: "wf_catalog db \<Longrightarrow> wf_catalog (snd (purge_unprocessable_skips db))"
proof -
  assume wf: "wf_catalog db"
  define cs where "cs = map s_cid (filter (\<lambda>s. s_reason s = Some ''unprocessable'') (skips db))"
  let ?db = "db\<lparr>skips := sql_delete (\<lambda>s. s_cid s \<in> set cs) (skips db),
               messages := sql_delete (\<lambda>m. m_kind m = ''skip'' \<and> m_cid m \<in> set cs) (messages db)\<rparr>"
  have "rows_ok ?db" using wf by (fastforce simp: wf_catalog_def rows_ok_def)
  then have "wf_catalog ?db" using wf
    by (auto simp: wf_catalog_def keys_ok_def docs_ok_def black_ok_def owners_def)
  then show ?thesis using wf by (simp add: purge_unprocessable_skips_def Let_def flip: cs_def)
qed


lemma purge_cid_eq:
  "purge_cid c db = (let db0 = drop_doc c db in
     db0\<lparr>classifies := sql_delete (\<lambda>r. c_cid r = c) (classifies db),
         skips := sql_delete (\<lambda>s. s_cid s = c) (skips db),
         reports := sql_delete (\<lambda>r. rp_cid r = c) (reports db),
         claims := sql_delete (\<lambda>r. cl_cid r = c) (claims db),
         messages := sql_delete (\<lambda>m. m_cid m = c \<and> m_kind m \<noteq> ''alias'') (messages db)\<rparr>)"
  if "pk d_cid (docs db)"
proof -
  let ?gone = "filter (\<lambda>d. d_cid d = c) (docs db)"
  have len: "length ?gone = (if ?gone = [] then 0 else 1)"
    using length_filter_key [OF that, of c] by (cases ?gone) (auto split: if_splits)
  show ?thesis
  proof (cases "?gone = []")
    case True
    then have "d_rowid ` set ?gone = {}" by (simp only: list.set image_empty)
    with True show ?thesis
      by (simp only: purge_cid_def drop_doc_def fold_drop_fts Let_def if_True) (simp add: sql_delete_def)
  next
    case False
    then have "length ?gone = 1" using len by simp
    with False show ?thesis
      by (simp only: purge_cid_def drop_doc_def fold_drop_fts Let_def if_False)
        (simp add: add_stat_def split: option.splits)
  qed
qed

lemma wf_purge_cid [wfc]:
  assumes "wf_catalog db"
  shows "wf_catalog (purge_cid c db)"
proof -
  have old: "keys_ok db" "docs_ok {} db" "rows_ok db" "black_ok db" using assms by (auto simp: wf_catalog_def)
  then have eq: "purge_cid c db = (let db0 = drop_doc c db in
     db0\<lparr>classifies := sql_delete (\<lambda>r. c_cid r = c) (classifies db),
         skips := sql_delete (\<lambda>s. s_cid s = c) (skips db),
         reports := sql_delete (\<lambda>r. rp_cid r = c) (reports db),
         claims := sql_delete (\<lambda>r. cl_cid r = c) (claims db),
         messages := sql_delete (\<lambda>m. m_cid m = c \<and> m_kind m \<noteq> ''alias'') (messages db)\<rparr>)"
    by (intro purge_cid_eq) (simp add: docs_ok_def)
  have d: "docs_ok {c} (drop_doc c db)" using docs_ok_drop [OF old(2)] by simp
  have gone: "\<forall>d\<in>set (docs (drop_doc c db)). d_cid d \<noteq> c" by (simp add: docs_drop_doc)
  have "docs_ok {} (purge_cid c db)"
  proof -
    have src: "\<exists>r\<in>{r \<in> set (classifies db). c_cid r \<noteq> c}. doc_src x r" if x: "x \<in> set (docs (drop_doc c db))" for x
    proof -
      obtain r where "r \<in> set (classifies db)" "doc_src x r"
        using d x gone by (auto simp: docs_ok_def)
      moreover from this have "c_cid r \<noteq> c" using gone x by (auto simp: doc_src_def)
      ultimately show ?thesis by blast
    qed
    have key: "has_key d_cid (c_cid r) (docs (drop_doc c db))" if "r \<in> set (classifies db)" "c_cid r \<noteq> c" for r
      using d that by (simp add: docs_ok_def)
    have tables: "docs (purge_cid c db) = docs (drop_doc c db)" "docs_fts (purge_cid c db) = docs_fts (drop_doc c db)"
      "docs_count (purge_cid c db) = docs_count (drop_doc c db)"
      "classifies (purge_cid c db) = sql_delete (\<lambda>r. c_cid r = c) (classifies db)"
      unfolding eq by (simp_all add: Let_def)
    show ?thesis
      unfolding docs_ok_def tables set_sql_delete using d src key by (simp add: docs_ok_def)
  qed
  moreover have "rows_ok (purge_cid c db)"
    using old(3) unfolding eq by (fastforce simp: rows_ok_def Let_def)
  moreover have "keys_ok (purge_cid c db)" "black_ok (purge_cid c db)"
    using old(1,4) unfolding eq by (auto simp: keys_ok_def black_ok_def owners_def Let_def)
  ultimately show ?thesis by (simp add: wf_catalog_def)
qed

lemma wf_purge_invalid_cids [wfc]: "wf_catalog db \<Longrightarrow> wf_catalog (snd (purge_invalid_cids db))"
proof -
  have "wf_catalog db \<Longrightarrow> wf_catalog (fold purge_cid cs db)" for cs
    by (induction cs arbitrary: db) (simp_all add: wf_purge_cid)
  then show "wf_catalog db \<Longrightarrow> ?thesis" by (simp add: purge_invalid_cids_def Let_def)
qed

end
