(* ===== verification/Clubd.thy ===== *)
theory Clubd
  imports Store_Laws
begin

text \<open>
  \<open>observer/clubd_client.py\<close> and \<open>observer/alias.py\<close>: handing unsigned payloads to clubd, and the
  local alias. clubd itself is a Go process; what it answers to a posted body is the argument
  \<open>reply\<close>. An operation returns the bodies it posts beside its result, so a claim about what
  leaves the node is a claim about those bodies.
\<close>

section \<open>Publishing\<close>

type_synonym payload = "(string \<times> json) list"

text \<open>
  \<open>Down\<close> is any \<open>RequestException\<close>, an error status included; \<open>NoJson\<close> is a success whose
  body is not JSON.
\<close>

datatype club_reply = Down | NoJson | Reply json

definition publish_body :: "string \<Rightarrow> payload \<Rightarrow> payload" where
  "publish_body cid_of_club obj =
     (let body = (if ''v'' \<in> fst ` set obj then obj else obj @ [(''v'', JInt 1)]);
          body = AList.update ''club'' (JStr cid_of_club) body
      in filter (\<lambda>kv. fst kv \<noteq> ''sig'') body)"

definition publish :: "string \<Rightarrow> (payload \<Rightarrow> club_reply) \<Rightarrow> payload \<Rightarrow> json \<times> payload list" where
  "publish cid_of_club reply obj =
     (let body = publish_body cid_of_club obj in
      if jget body ''kind'' \<noteq> JStr ''alias''
         \<and> (case jget body ''cid'' of JStr c \<Rightarrow> \<not> valid c | _ \<Rightarrow> True) then (JBool False, [])
      else
        ((case reply body of
            Down \<Rightarrow> JBool False
          | NoJson \<Rightarrow> JBool True
          | Reply (JObj answer) \<Rightarrow> JObj answer
          | Reply _ \<Rightarrow> JBool True), [body]))"

definition claim_payload :: "cid \<Rightarrow> int \<Rightarrow> payload" where
  "claim_payload c until = [(''kind'', JStr ''claim''), (''cid'', JStr c), (''until'', JInt until)]"

definition publish_claim :: "string \<Rightarrow> (payload \<Rightarrow> club_reply) \<Rightarrow> time \<Rightarrow> int \<Rightarrow> cid \<Rightarrow> json \<times> payload list" where
  "publish_claim k reply now ttl c = publish k reply (claim_payload c (py_int now + ttl))"

definition skip_payload :: "cid \<Rightarrow> string option \<Rightarrow> string \<Rightarrow> payload" where
  "skip_payload c mime reason =
     [(''kind'', JStr ''skip''), (''cid'', JStr c), (''mime_type'', opt_json mime), (''reason'', JStr reason)]"

definition publish_skip :: "string \<Rightarrow> (payload \<Rightarrow> club_reply) \<Rightarrow> cid \<Rightarrow> string option \<Rightarrow> string \<Rightarrow> json \<times> payload list" where
  "publish_skip k reply c mime reason = publish k reply (skip_payload c mime reason)"

text \<open>\<open>payload.update(fields)\<close>.\<close>

definition classify_payload :: "cid \<Rightarrow> payload \<Rightarrow> payload" where
  "classify_payload c flds =
     fold (\<lambda>kv body. AList.update (fst kv) (snd kv) body) flds [(''kind'', JStr ''classify''), (''cid'', JStr c)]"

definition publish_classify :: "string \<Rightarrow> (payload \<Rightarrow> club_reply) \<Rightarrow> cid \<Rightarrow> payload \<Rightarrow> json \<times> payload list" where
  "publish_classify k reply c flds = publish k reply (classify_payload c flds)"

definition publish_alias :: "string \<Rightarrow> (payload \<Rightarrow> club_reply) \<Rightarrow> string \<Rightarrow> json \<times> payload list" where
  "publish_alias k reply alias = publish k reply [(''kind'', JStr ''alias''), (''alias'', JStr alias)]"

definition publish_report :: "env \<Rightarrow> (payload \<Rightarrow> club_reply) \<Rightarrow> cid \<Rightarrow> string \<Rightarrow> catalog \<times> queue \<Rightarrow>
    bool res \<times> payload list \<times> catalog \<times> queue" where
  "publish_report E reply c reason st =
     (if reason \<notin> set REPORT_REASONS then (Inr False, [], st)
      else
        case publish (club_id (e_club E)) reply
               [(''kind'', JStr ''report''), (''cid'', JStr c), (''reason'', JStr reason)] of
          (answer, posts) \<Rightarrow>
            if \<not> truthy answer then (Inr False, posts, st)
            else
              (case answer of
                 JObj obj \<Rightarrow>
                   if truthy (jget obj ''sig'') then
                     (case ingest_message E None obj st of
                        (Inl e, st') \<Rightarrow> (Inl e, posts, st')
                      | (Inr b, st') \<Rightarrow> (Inr True, posts, st'))
                   else (Inr True, posts, st)
               | _ \<Rightarrow> (Inr True, posts, st)))"

section \<open>The local alias\<close>

definition MAX_LEN :: nat where "MAX_LEN = 32"

definition normalize_alias :: "json \<Rightarrow> string res" where
  "normalize_alias v =
     (let name = collapse (py_str (if truthy v then v else JStr [])) in
      if name = [] then Inr []
      else if length name > MAX_LEN then Inl ValueError
      else if list_ex (\<lambda>c. (of_char c :: nat) < 32) name then Inl ValueError
      else Inr name)"

definition set_and_publish :: "env \<Rightarrow> (payload \<Rightarrow> club_reply) \<Rightarrow> json \<Rightarrow> catalog \<Rightarrow>
    (string \<times> json \<times> string) res \<times> payload list \<times> catalog" where
  "set_and_publish E reply v db =
     (case normalize_alias v of
        Inl e \<Rightarrow> (Inl e, [], db)
      | Inr name \<Rightarrow>
          (case publish_alias (club_id (e_club E)) reply name of
             (published, posts) \<Rightarrow>
               (Inr (name, published, str_or (e_peer E) []), posts,
                snd (set_local_alias E (JStr name) (e_peer E) db))))"

definition announce :: "env \<Rightarrow> (payload \<Rightarrow> club_reply) \<Rightarrow> catalog \<Rightarrow> json \<times> payload list" where
  "announce E reply db =
     (let name = local_alias db in
      if name = [] then (JBool False, []) else publish_alias (club_id (e_club E)) reply name)"

section \<open>Laws\<close>

lemma publish_posts: "body \<in> set (snd (publish k reply obj)) \<Longrightarrow> body = publish_body k obj"
  by (auto simp: publish_def Let_def split: if_splits)

lemma publish_truthy:
  "truthy (fst (publish k reply obj)) \<Longrightarrow> snd (publish k reply obj) = [publish_body k obj] \<and> reply (publish_body k obj) \<noteq> Down"
  by (auto simp: publish_def Let_def split: if_splits club_reply.splits)

text \<open>Every body that leaves the node names the club it belongs to and carries no signature.\<close>

lemma jget_filter: "k \<noteq> ''sig'' \<Longrightarrow> jget (filter (\<lambda>kv. fst kv \<noteq> ''sig'') obj) k = jget obj k"
proof (induction obj)
  case (Cons kv obj)
  then show ?case by (cases kv) (auto simp: jget_def)
qed (simp add: jget_def)

lemma jget_update: "jget (AList.update k v obj) k' = (if k' = k then v else jget obj k')"
  by (simp add: jget_def update_conv')

lemma jget_append: "k \<notin> fst ` set obj \<Longrightarrow> jget (obj @ [(k', v)]) k = (if k = k' then v else JNull)"
  by (induction obj) (auto simp: jget_def)

lemma jget_publish_body:
  "jget (publish_body k obj) ''club'' = JStr k"
  "key \<notin> {''v'', ''club'', ''sig''} \<Longrightarrow> jget (publish_body k obj) key = jget obj key"
proof -
  show "jget (publish_body k obj) ''club'' = JStr k"
    by (simp add: publish_body_def Let_def jget_filter jget_update)
  show "jget (publish_body k obj) key = jget obj key" if "key \<notin> {''v'', ''club'', ''sig''}"
  proof -
    have "jget (obj @ [(''v'', JInt 1)]) key = jget obj key" using that
      by (cases "map_of obj key") (auto simp: jget_def map_add_def)
    then show ?thesis using that by (simp add: publish_body_def Let_def jget_filter jget_update)
  qed
qed

lemma publish_report_state:
  "snd (snd (publish_report E reply c reason st)) = st
     \<or> (\<exists>obj. snd (snd (publish_report E reply c reason st)) = snd (ingest_message E None obj st))"
  by (auto simp: publish_report_def split: prod.splits json.splits sum.splits) (metis snd_conv)+

lemma wf_publish_report [wfc]:
  assumes "wf_catalog db" "wf_queue q" "publish_report E reply c reason (db, q) = (r, posts, db', q')"
  shows "wf_catalog db' \<and> wf_queue q'"
proof -
  have "wf_catalog db'' \<and> wf_queue q''" if "(db'', q'') = snd (ingest_message E None obj (db, q))" for obj db'' q''
    using wf_ingest_message [OF assms(1), of E None obj q] assms(2) that by (metis prod.collapse)
  then show ?thesis using publish_report_state [of E reply c reason "(db, q)"] assms by auto
qed

lemma wf_set_and_publish [wfc]: "wf_catalog db \<Longrightarrow> wf_catalog (snd (snd (set_and_publish E reply v db)))"
  by (auto simp: set_and_publish_def wf_simple_ops(4) split: sum.splits prod.splits)

end
