(* ===== verification/Extract.thy ===== *)
theory Extract
  imports Protocol
begin

text \<open>
  \<open>observer/extract.py\<close>: recognising the type of a sample, deciding what may be classified, and the
  frame of \<open>extract_document\<close>. Not modelled: the text extractors (\<open>trafilatura\<close>, \<open>pypdf\<close> and the tag
  stripping that replaces them) and the license expressions; \<open>extract_document\<close> takes them as a
  record of functions. \<open>json_ok\<close> says whether \<open>json.loads\<close> accepts a sample; fractions are compared
  exactly.
\<close>

section \<open>Bytes\<close>

definition ascii :: "string \<Rightarrow> bytes" where
  "ascii s = map (\<lambda>c. of_nat (of_char c)) s"

definition byte_lower :: "byte \<Rightarrow> byte" where
  "byte_lower b = (if 65 \<le> b \<and> b \<le> 90 then b + 32 else b)"

definition byte_ws :: "byte \<Rightarrow> bool" where
  "byte_ws b \<longleftrightarrow> b \<in> {9, 10, 11, 12, 13, 32}"

definition byte_word :: "byte \<Rightarrow> bool" where
  "byte_word b \<longleftrightarrow> (48 \<le> b \<and> b \<le> 57) \<or> (65 \<le> b \<and> b \<le> 90) \<or> (97 \<le> b \<and> b \<le> 122) \<or> b = 95"

text \<open>Well-formed UTF-8, the strict decoder's domain.\<close>

definition tail_byte :: "byte \<Rightarrow> bool" where
  "tail_byte b \<longleftrightarrow> 128 \<le> b \<and> b \<le> 191"

fun utf8_ok :: "bytes \<Rightarrow> bool" where
  "utf8_ok [] = True"
| "utf8_ok (a # bs) =
     (if a \<le> 127 then utf8_ok bs
      else if 194 \<le> a \<and> a \<le> 223 then
        (case bs of b # cs \<Rightarrow> tail_byte b \<and> utf8_ok cs | _ \<Rightarrow> False)
      else if 224 \<le> a \<and> a \<le> 239 then
        (case bs of
           b # c # cs \<Rightarrow>
             tail_byte b \<and> tail_byte c \<and> (a = 224 \<longrightarrow> 160 \<le> b) \<and> (a = 237 \<longrightarrow> b \<le> 159) \<and> utf8_ok cs
         | _ \<Rightarrow> False)
      else if 240 \<le> a \<and> a \<le> 244 then
        (case bs of
           b # c # d # cs \<Rightarrow>
             tail_byte b \<and> tail_byte c \<and> tail_byte d \<and> (a = 240 \<longrightarrow> 144 \<le> b) \<and> (a = 244 \<longrightarrow> b \<le> 143) \<and> utf8_ok cs
         | _ \<Rightarrow> False)
      else False)"

section \<open>Sniffing\<close>

definition MAGIC :: "(bytes \<times> string) list" where
  "MAGIC =
    [(ascii ''%PDF'', ''application/pdf''),
     (0x89 # ascii ''PNG'', ''image/png''),
     ([0xff, 0xd8, 0xff], ''image/jpeg''),
     (ascii ''GIF8'', ''image/gif''),
     (ascii ''RIFF'', ''application/riff''),
     (ascii ''PK'' @ [3, 4], ''application/zip''),
     ([0x1f, 0x8b], ''application/gzip''),
     (ascii ''7z'' @ [0xbc, 0xaf], ''application/x-7z-compressed''),
     (ascii ''Rar!'', ''application/vnd.rar''),
     ([0, 0, 0, 0x18] @ ascii ''ftyp'', ''video/mp4''),
     ([0, 0, 0, 0x1c] @ ascii ''ftyp'', ''video/mp4''),
     ([0, 0, 0] @ ascii '' ftyp'', ''video/mp4''),
     (ascii ''OggS'', ''audio/ogg''),
     (ascii ''ID3'', ''audio/mpeg''),
     (ascii ''fLaC'', ''audio/flac''),
     ([0x1a] @ ascii ''E'' @ [0xdf, 0xa3], ''video/webm''),
     (ascii ''CAR'' @ [1], ''application/vnd.ipld.car'')]"

definition PROCESSABLE_EXACT :: "string list" where
  "PROCESSABLE_EXACT = [''text/html'', ''application/pdf'']"

definition SOURCE_MIMES :: "string list" where
  "SOURCE_MIMES = [''text/css'', ''text/javascript'', ''application/javascript'',
     ''application/x-javascript'', ''application/ecmascript'']"

definition SOURCE_EXT :: "(string \<times> string) list" where
  "SOURCE_EXT =
    [(''.css'', ''text/css''), (''.js'', ''application/javascript''), (''.mjs'', ''application/javascript''),
     (''.cjs'', ''application/javascript''), (''.ts'', ''application/javascript''),
     (''.jsx'', ''application/javascript''), (''.tsx'', ''application/javascript''),
     (''.less'', ''text/css''), (''.scss'', ''text/css''), (''.map'', ''application/json''),
     (''.wasm'', ''application/wasm'')]"

definition WEBPACK_MARKERS :: "bytes list" where
  "WEBPACK_MARKERS = [ascii ''webpackJsonp'', ascii ''webpackChunk'', ascii ''__webpack'', ascii ''__WEBPACK'']"

definition filename_ext_mime :: "string option \<Rightarrow> string option" where
  "filename_ext_mime filename =
     (let name = py_lower (last (split_by (\<lambda>c. c = CHR ''/'')
                   (replace_char (char_of (92::nat)) (CHR ''/'') (str_or filename []))))
      in map_option snd (find (\<lambda>e. py_endswith name (fst e)) SOURCE_EXT))"

text \<open>
  The style-sheet expression, tried at every position and ignoring case: \<open>@keyframes\<close> or
  \<open>@font-face\<close> ending a word; \<open>@media\<close>, white space, at least one more character, and a brace;
  \<open>@import\<close>, white space, and \<open>url(\<close> or a quote.
\<close>

definition word_end :: "bytes \<Rightarrow> bool" where
  "word_end bs \<longleftrightarrow> (case bs of [] \<Rightarrow> True | b # _ \<Rightarrow> \<not> byte_word b)"

definition css_here :: "bytes \<Rightarrow> bool" where
  "css_here bs \<longleftrightarrow>
     (let l = map byte_lower bs in
      (py_startswith l (ascii ''@keyframes'') \<and> word_end (drop 10 bs))
      \<or> (py_startswith l (ascii ''@font-face'') \<and> word_end (drop 10 bs))
      \<or> (py_startswith l (ascii ''@media'')
         \<and> (let pre = takeWhile (\<lambda>b. b \<noteq> 123) (drop 6 bs)
            in 2 \<le> length pre \<and> byte_ws (hd pre) \<and> length pre < length (drop 6 bs)))
      \<or> (py_startswith l (ascii ''@import'')
         \<and> (let rest = dropWhile byte_ws (drop 7 bs)
            in length rest < length (drop 7 bs)
               \<and> (py_startswith (map byte_lower rest) (ascii ''url('')
                  \<or> (rest \<noteq> [] \<and> hd rest \<in> {34, 39})))))"

fun css_search :: "bytes \<Rightarrow> bool" where
  "css_search [] = False"
| "css_search (b # bs) = (css_here (b # bs) \<or> css_search bs)"

definition sniff_source :: "bytes \<Rightarrow> string option" where
  "sniff_source data =
     (let sample = take 4096 data in
      if list_ex (\<lambda>m. contains m sample) WEBPACK_MARKERS then Some ''application/javascript''
      else if css_search sample then Some ''text/css''
      else if 8 \<le> count_list sample 123 \<and> 15 \<le> count_list sample 59
              \<and> 25 * count_list sample 32 \<le> 3 * max (length sample) 1
      then Some ''application/javascript''
      else None)"

definition html_head :: "bytes \<Rightarrow> bool" where
  "html_head data \<longleftrightarrow>
     (let head = py_lstrip byte_ws (take 2048 data) in
      list_ex (\<lambda>p. py_startswith head (ascii p)) [''<!DOCTYPE'', ''<!doctype'', ''<html'', ''<HTML'', ''<?xml'']
      \<and> contains (ascii ''<html'') (map byte_lower (take 2048 data)))"

definition json_head :: "bytes \<Rightarrow> bool" where
  "json_head data \<longleftrightarrow>
     (let head = py_lstrip byte_ws (take 2048 data) in py_startswith head [123] \<or> py_startswith head [91])"

definition plain_text :: "bytes \<Rightarrow> bool" where
  "plain_text data \<longleftrightarrow>
     (let sample = take 4096 data
      in utf8_ok sample \<and> sample \<noteq> [] \<and> 100 * length (filter (\<lambda>b. b < 9) sample) < length sample)"

text \<open>The tests in the order of the source; None goes on to the next.\<close>

definition riff_mime :: "bytes \<Rightarrow> string option" where
  "riff_mime data =
     (if py_startswith data (ascii ''RIFF'') \<and> 12 \<le> length data then
        (let sub = take 4 (drop 8 data) in
         if sub = ascii ''WEBP'' then Some ''image/webp''
         else if sub = ascii ''AVI '' then Some ''video/x-msvideo''
         else if sub = ascii ''WAVE'' then Some ''audio/wav''
         else None)
      else None)"

definition sniff_content :: "(bytes \<Rightarrow> bool) \<Rightarrow> bytes \<Rightarrow> string option" where
  "sniff_content json_ok data =
     (case riff_mime data of
        Some m \<Rightarrow> Some m
      | None \<Rightarrow>
          (case find (\<lambda>e. py_startswith data (fst e)) MAGIC of
             Some e \<Rightarrow> Some (snd e)
           | None \<Rightarrow>
               if html_head data then Some ''text/html''
               else if json_head data \<and> utf8_ok data \<and> json_ok data then Some ''application/json''
               else sniff_source data))"

definition sniff_mime :: "(bytes \<Rightarrow> bool) \<Rightarrow> bytes \<Rightarrow> string option \<Rightarrow> string option \<Rightarrow> string" where
  "sniff_mime json_ok data header_mime filename =
     (let header = (if header_mime = Some ''application/xhtml+xml'' then Some ''text/html'' else header_mime) in
      case filename_ext_mime filename of
        Some m \<Rightarrow> m
      | None \<Rightarrow>
          (case sniff_content json_ok data of
             Some m \<Rightarrow> m
           | None \<Rightarrow>
               if str_or header [] \<notin> {''application/octet-stream'', []} then str_or header []
               else if plain_text data then ''text/plain''
               else str_or header ''application/octet-stream''))"

section \<open>What may be classified\<close>

definition MIN_PDF_CHARS :: nat where "MIN_PDF_CHARS = 80"

definition binary_mime :: "string option \<Rightarrow> bool" where
  "binary_mime mime \<longleftrightarrow>
     list_ex (\<lambda>p. py_startswith (str_or mime []) p) [''image/'', ''video/'', ''audio/'']"

definition source_mime :: "string option \<Rightarrow> bool" where
  "source_mime mime \<longleftrightarrow> (\<exists>m\<in>set SOURCE_MIMES. mime = Some m)"

definition sticky_skip_mime :: "string option \<Rightarrow> bool" where
  "sticky_skip_mime mime \<longleftrightarrow> binary_mime mime \<or> source_mime mime"

definition processable :: "string option \<Rightarrow> bool" where
  "processable mime \<longleftrightarrow>
     (if str_or mime [] = [] then False
      else if sticky_skip_mime mime then False
      else str_or mime [] \<in> set PROCESSABLE_EXACT)"

definition needs_whole_file :: "string option \<Rightarrow> bool" where
  "needs_whole_file mime \<longleftrightarrow> mime = Some ''application/pdf''"

definition usable_text :: "string \<Rightarrow> string option \<Rightarrow> bool" where
  "usable_text t mime \<longleftrightarrow>
     (if t = [] then False
      else if str_or mime [] = ''application/pdf'' \<and> length t < MIN_PDF_CHARS then False
      else True)"

record extractors =
  x_html_text :: "bytes \<Rightarrow> string"
  x_html_license :: "bytes \<Rightarrow> string option"
  x_pdf :: "bytes \<Rightarrow> string \<times> string option"
  x_license :: "string \<Rightarrow> string option"
  x_json_ok :: "bytes \<Rightarrow> bool"
  x_max_chars :: nat

definition extract_document :: "extractors \<Rightarrow> bytes \<Rightarrow> string option \<Rightarrow> string option \<Rightarrow>
    string \<times> string \<times> string option" where
  "extract_document X data mime filename =
     (let m = sniff_mime (x_json_ok X) data mime filename;
          m = (if m = ''application/xhtml+xml'' then ''text/html'' else m)
      in
      if \<not> processable (Some m) \<or> data = [] then ([], m, None)
      else
        let (txt, lic) = (if m = ''text/html'' then (x_html_text X data, x_html_license X data) else x_pdf X data);
            body = collapse txt
        in (take (x_max_chars X) body, m, if str_or lic [] = [] then x_license X body else lic))"

definition fingerprint :: "(bytes \<Rightarrow> bytes) \<Rightarrow> string \<Rightarrow> string" where
  "fingerprint sha256 t = hex_bytes (sha256 (utf8_encode t))"


section \<open>Laws\<close>

lemma processable_iff: "processable mime \<longleftrightarrow> mime = Some ''text/html'' \<or> mime = Some ''application/pdf''"
  by (auto simp: processable_def PROCESSABLE_EXACT_def sticky_skip_mime_def binary_mime_def source_mime_def SOURCE_MIMES_def
      py_startswith_def str_or_def split: option.splits if_splits)

lemma find_map_snd: "find P xs = Some e \<Longrightarrow> snd e \<in> snd ` set xs"
  using find_Some_iff_set by fastforce

lemma ext_mime_values: "filename_ext_mime filename = Some m \<Longrightarrow> m \<in> snd ` set SOURCE_EXT"
  unfolding filename_ext_mime_def Let_def using find_map_snd by fastforce

lemma startswith_take: "length p \<le> n \<Longrightarrow> py_startswith (take n s) p = py_startswith s p"
  by (simp add: py_startswith_def min_def)

lemma startswith_both: "py_startswith s p \<Longrightarrow> py_startswith s p' \<Longrightarrow> length p = length p' \<Longrightarrow> p = p'"
  by (simp add: py_startswith_def)

lemma magic_pdf:
  "(\<exists>e. find (\<lambda>e. py_startswith data (fst e)) MAGIC = Some e \<and> snd e = ''application/pdf'')
     \<longleftrightarrow> py_startswith data (ascii ''%PDF'')"
proof -
  have split: "MAGIC = (ascii ''%PDF'', ''application/pdf'') # tl MAGIC" by (simp add: MAGIC_def)
  have other: "''application/pdf'' \<notin> snd ` set (tl MAGIC)" by (simp add: MAGIC_def)
  show ?thesis
  proof (cases "py_startswith data (ascii ''%PDF'')")
    case True
    then show ?thesis by (subst split) simp
  next
    case False
    then have "find (\<lambda>e. py_startswith data (fst e)) MAGIC = find (\<lambda>e. py_startswith data (fst e)) (tl MAGIC)"
      by (subst split) simp
    moreover have "snd e \<noteq> ''application/pdf''" if "find (\<lambda>e. py_startswith data (fst e)) (tl MAGIC) = Some e" for e
      using find_map_snd [OF that] other by metis
    ultimately show ?thesis using False by auto
  qed
qed

lemma riff_not_pdf: "py_startswith data (ascii ''%PDF'') \<Longrightarrow> riff_mime data = None"
proof -
  assume "py_startswith data (ascii ''%PDF'')"
  moreover have "ascii ''RIFF'' \<noteq> ascii ''%PDF''" "length (ascii ''RIFF'') = length (ascii ''%PDF'')" by code_simp+
  ultimately have "\<not> py_startswith data (ascii ''RIFF'')" using startswith_both by metis
  then show ?thesis by (simp add: riff_mime_def)
qed

lemma content_pdf: "sniff_content json_ok data = Some ''application/pdf'' \<longleftrightarrow> py_startswith data (ascii ''%PDF'')"
proof
  assume "py_startswith data (ascii ''%PDF'')"
  then show "sniff_content json_ok data = Some ''application/pdf''"
    using magic_pdf [of data] riff_not_pdf [of data] by (auto simp: sniff_content_def)
next
  assume a: "sniff_content json_ok data = Some ''application/pdf''"
  have "riff_mime data \<noteq> Some ''application/pdf''" "sniff_source data \<noteq> Some ''application/pdf''"
    by (auto simp: riff_mime_def sniff_source_def Let_def)
  then show "py_startswith data (ascii ''%PDF'')"
    using a magic_pdf [of data] by (auto simp: sniff_content_def split: option.splits if_splits)
qed

lemma sniff_mime_pdf:
  "sniff_mime json_ok data None filename = ''application/pdf'' \<longleftrightarrow>
     filename_ext_mime filename = None \<and> py_startswith data (ascii ''%PDF'')"
proof (cases "filename_ext_mime filename")
  case (Some m)
  then have "m \<noteq> ''application/pdf''" using ext_mime_values by (fastforce simp: SOURCE_EXT_def)
  then show ?thesis using Some by (simp add: sniff_mime_def)
next
  case None
  then show ?thesis
    using content_pdf [of json_ok data] by (auto simp: sniff_mime_def str_or_def split: option.splits)
qed

text \<open>
  The sample's first bytes decide whether it is a PDF. The check that \<open>process_one\<close> makes on the
  first 4096 bytes agrees with the type \<open>extract_document\<close> reports for the whole sample, however long.
\<close>

lemma sniff_prefix_agrees:
  "needs_whole_file (Some (sniff_mime (x_json_ok X) (take 4096 data) None filename)) \<longleftrightarrow>
     fst (snd (extract_document X data None filename)) = ''application/pdf''"
proof -
  let ?m = "sniff_mime (x_json_ok X) data None filename"
  have len: "length (ascii ''%PDF'') \<le> 4096" by code_simp
  have "fst (snd (extract_document X data None filename)) = (if ?m = ''application/xhtml+xml'' then ''text/html'' else ?m)"
    by (auto simp: extract_document_def Let_def split: prod.splits)
  moreover have "?m = ''application/pdf'' \<longleftrightarrow> sniff_mime (x_json_ok X) (take 4096 data) None filename = ''application/pdf''"
    unfolding sniff_mime_pdf startswith_take [OF len] ..
  ultimately show ?thesis by (cases "?m = ''application/xhtml+xml''") (simp_all add: needs_whole_file_def)
qed

end
