(* ===== verification/Fetch.thy ===== *)
theory Fetch
  imports Extract Unixfs
begin

text \<open>
  \<open>observer/fetch.py\<close>: verified blocks from Kubo or the gateways, assembling a UnixFS file up to a
  budget, and peeking into sharded directories. The network is the record \<open>net\<close>: what Kubo and each
  gateway answer to a request for a CID made with a gateway offset. The rate limiter only delays and
  is not modelled; the thread pool returns its results in the order of the links, so a wave is a
  \<open>map\<close>. \<open>_spread\<close> is exact where the source divides floats.
\<close>

section \<open>Settings and surroundings\<close>

datatype reply = TimedOut | RequestFailed string | Response nat bytes

record net =
  n_kubo :: "int \<Rightarrow> cid \<Rightarrow> reply option" \<comment> \<open>None when no API is configured\<close>
  n_gateways :: "string list"
  n_gateway :: "int \<Rightarrow> string \<Rightarrow> cid \<Rightarrow> reply"
  n_sha256 :: "bytes \<Rightarrow> bytes"
  n_utf8 :: "bytes \<Rightarrow> string"
  n_json_ok :: "bytes \<Rightarrow> bool"
  n_fetch :: intcfg

definition MAX_BYTES :: "intcfg \<Rightarrow> int" where
  "MAX_BYTES F = (if cfg_get F ''max_bytes'' 0 \<noteq> 0 then cfg_get F ''max_bytes'' 0
                  else cfg_get F ''max_bytes_per_cid'' 2097152)"

definition MAX_PDF_BYTES :: "intcfg \<Rightarrow> int" where
  "MAX_PDF_BYTES F = cfg_get F ''max_pdf_bytes'' (8 * 1048576)"

definition MAX_CHILD_BLOCKS :: "intcfg \<Rightarrow> int" where
  "MAX_CHILD_BLOCKS F = cfg_get F ''max_child_blocks'' 6"

definition UNIXFS_CHUNK :: int where "UNIXFS_CHUNK = 262144"

definition MAX_PDF_CHILD_BLOCKS :: "intcfg \<Rightarrow> int" where
  "MAX_PDF_CHILD_BLOCKS F = max (MAX_CHILD_BLOCKS F) (- ((- MAX_PDF_BYTES F) div UNIXFS_CHUNK) + 8)"

definition CHILD_CONCURRENCY :: "intcfg \<Rightarrow> int" where
  "CHILD_CONCURRENCY F = max 1 (cfg_get F ''child_concurrency'' 8)"

definition MAX_BLOCK :: "intcfg \<Rightarrow> int" where
  "MAX_BLOCK F = min (max (MAX_BYTES F) (2 * 1048576)) (4 * 1048576)"

definition DEAD_ERRORS :: "string list" where
  "DEAD_ERRORS = [''http 404'', ''http 410'', ''http 451'']"

definition SLOW_ERRORS :: "string list" where
  "SLOW_ERRORS = [''timeout'', ''http 408'', ''http 425'', ''http 429'', ''http 500'', ''http 502'', ''http 503'', ''http 504'']"

definition SNIFF_MIN :: nat where "SNIFF_MIN = 4"

definition SNIFF_WINDOW :: nat where "SNIFF_WINDOW = 4096"

section \<open>Blocks\<close>

definition gateway_order :: "string list \<Rightarrow> int \<Rightarrow> string list" where
  "gateway_order gws offset =
     (if length gws \<le> 1 then gws
      else let k = nat (offset mod int (length gws)) in drop k gws @ take k gws)"

text \<open>What the code makes of one answer: a verified block, or the error it notes.\<close>

definition judge_reply :: "net \<Rightarrow> cid \<Rightarrow> reply \<Rightarrow> string + bytes" where
  "judge_reply N c r =
     (case r of
        TimedOut \<Rightarrow> Inl ''timeout''
      | RequestFailed cls \<Rightarrow> Inl (''request: '' @ cls)
      | Response st data \<Rightarrow>
          if st \<noteq> 200 then Inl (''http '' @ dec_nat st)
          else if int (length data) > MAX_BLOCK (n_fetch N) then Inl ''block too large''
          else if \<not> verify_block (n_sha256 N) c (Some data) then Inl ''cid mismatch''
          else Inr data)"

definition kubo_block :: "net \<Rightarrow> int \<Rightarrow> cid \<Rightarrow> string option + bytes" where
  "kubo_block N offset c =
     (case n_kubo N offset c of
        None \<Rightarrow> Inl None
      | Some r \<Rightarrow> (case judge_reply N c r of Inl e \<Rightarrow> Inl (Some e) | Inr data \<Rightarrow> Inr data))"

fun gateway_loop :: "net \<Rightarrow> int \<Rightarrow> cid \<Rightarrow> string list \<Rightarrow> string option \<Rightarrow> string option + bytes" where
  "gateway_loop N offset c [] lst = Inl lst"
| "gateway_loop N offset c (gw # gws) lst =
     (case judge_reply N c (n_gateway N offset gw c) of
        Inl e \<Rightarrow> gateway_loop N offset c gws (Some e)
      | Inr data \<Rightarrow> Inr data)"

definition get_block_ex :: "net \<Rightarrow> int \<Rightarrow> cid \<Rightarrow> string + bytes" where
  "get_block_ex N offset c =
     (case kubo_block N offset c of
        Inr data \<Rightarrow> Inr data
      | Inl err \<Rightarrow>
          (case gateway_loop N offset c (gateway_order (n_gateways N) offset) err of
             Inr data \<Rightarrow> Inr data
           | Inl lst \<Rightarrow> Inl (str_or lst ''unavailable'')))"

definition get_block :: "net \<Rightarrow> int \<Rightarrow> cid \<Rightarrow> bytes option" where
  "get_block N offset c = (case get_block_ex N offset c of Inl e \<Rightarrow> None | Inr data \<Rightarrow> Some data)"

section \<open>Assembling a file\<close>

type_synonym link = "string option \<times> cid"

text \<open>\<open>_Resolved\<close> data or a link, kept in link order.\<close>

datatype item = Lnk link | Resolved bytes

definition as_unixfs :: "net \<Rightarrow> bytes \<Rightarrow> node option" where
  "as_unixfs N block = (case parse_dag_pb (n_utf8 N) block of Inl e \<Rightarrow> None | Inr nd \<Rightarrow> Some nd)"

definition child_bytes :: "net \<Rightarrow> bytes \<Rightarrow> bytes \<times> link list" where
  "child_bytes N block =
     (case as_unixfs N block of
        None \<Rightarrow> (block, [])
      | Some nd \<Rightarrow>
          if is_directory nd then ([], [])
          else if unixfs_type nd \<in> {Some ''file'', Some ''raw''} \<and> (inline_data nd \<noteq> [] \<or> links nd \<noteq> [])
          then (inline_data nd, links nd)
          else (block, []))"

definition fetch_children :: "net \<Rightarrow> int \<Rightarrow> cid list \<Rightarrow> bytes option list" where
  "fetch_children N offset cs =
     (let blocks = map (get_block N offset) cs;
          missing = length (filter (\<lambda>b. b = None) blocks)
      in if missing \<noteq> 0 \<and> \<not> (missing = length cs \<and> length cs > 1)
         then map (\<lambda>(c, b). case b of None \<Rightarrow> get_block N (offset + 1) c | Some d \<Rightarrow> Some d) (zip cs blocks)
         else blocks)"

definition sniff :: "net \<Rightarrow> bytes \<Rightarrow> string list \<Rightarrow> string" where
  "sniff N buf names = sniff_mime (n_json_ok N) (take SNIFF_WINDOW buf) None (pick_filename names)"

definition budget_for :: "intcfg \<Rightarrow> string \<Rightarrow> nat option \<Rightarrow> int \<times> int" where
  "budget_for F mime fsize =
     (if mime \<noteq> ''application/pdf'' then (MAX_BYTES F, MAX_CHILD_BLOCKS F)
      else if (case fsize of None \<Rightarrow> False | Some n \<Rightarrow> int n > MAX_PDF_BYTES F) then (0, 0)
      else (MAX_PDF_BYTES F, MAX_PDF_CHILD_BLOCKS F))"

definition link_names :: "link list \<Rightarrow> string list" where
  "link_names ls = filter (\<lambda>n. n \<noteq> []) (map (\<lambda>l. str_or (fst l) []) ls)"

text \<open>
  One block at a time until the type is known. Nothing bounds the number of blocks, so the loop is a
  partial function: None is a walk that never ends. Its result is the bytes at hand when a block is
  missing, or the bytes, the links left, the blocks used and the type; and the names seen.
\<close>

record sniffed =
  sf_out :: bytes
  sf_pending :: "link list"
  sf_used :: int
  sf_mime :: "string option"
  sf_names :: "string list"
  sf_missing :: bool

partial_function (option) sniff_loop :: "net \<Rightarrow> int \<Rightarrow> sniffed \<Rightarrow> sniffed option" where
  "sniff_loop N offset s =
     (if sf_mime s \<noteq> None \<or> sf_pending s = [] then Some s
      else
        let (name, c) = hd (sf_pending s);
            names = sf_names s @ link_names [(name, c)];
            used = sf_used s + 1
        in case get_block N offset c of
             None \<Rightarrow> Some (s\<lparr>sf_names := names, sf_used := used, sf_missing := True\<rparr>)
           | Some block \<Rightarrow>
               let (data, ls) = child_bytes N block; out = sf_out s @ data in
               sniff_loop N offset
                 (s\<lparr>sf_out := out, sf_pending := ls @ tl (sf_pending s), sf_used := used, sf_names := names,
                    sf_mime := (if length out \<ge> SNIFF_MIN then Some (sniff N out names) else None)\<rparr>))"

text \<open>The blocks of a wave replace its links: grandchild links, or the bytes of a leaf.\<close>

definition replace_block :: "net \<Rightarrow> bytes \<Rightarrow> item list" where
  "replace_block N block =
     (case child_bytes N block of
        (data, ls) \<Rightarrow> if ls \<noteq> [] then map Lnk ls else if data \<noteq> [] then [Resolved data] else [])"

fun wave_of :: "nat \<Rightarrow> item list \<Rightarrow> link list" where
  "wave_of 0 items = []"
| "wave_of (Suc n) (Lnk l # items) = l # wave_of n items"
| "wave_of (Suc n) items = []"

text \<open>Bytes at the front of the queue are moved to the output.\<close>

fun flush :: "bytes \<Rightarrow> item list \<Rightarrow> bytes \<times> item list" where
  "flush out (Resolved d # items) = flush (out @ d) items"
| "flush out items = (out, items)"

function wave_loop :: "net \<Rightarrow> int \<Rightarrow> int \<Rightarrow> int \<Rightarrow> int \<Rightarrow> bytes \<Rightarrow> item list \<Rightarrow> string list \<Rightarrow>
    bytes \<times> item list \<times> string list \<times> bool" where
  "wave_loop N offset budget max_blocks used out pending names =
     (if pending \<noteq> [] \<and> int (length out) < budget \<and> used < max_blocks then
        (let wave = wave_of (nat (min (CHILD_CONCURRENCY (n_fetch N)) (max_blocks - used))) pending;
             names' = names @ link_names wave
         in if wave = [] then (out, pending, names, False)
            else
              (let blocks = fetch_children N offset (map snd wave) in
               if None \<in> set blocks then (take (nat budget) out, pending, names', True)
               else
                 (case flush out (concat (map (\<lambda>b. replace_block N (the b)) blocks) @ drop (length wave) pending) of
                    (out', pending') \<Rightarrow>
                      wave_loop N offset budget max_blocks (used + int (length wave)) out' pending' names')))
      else (out, pending, names, False))"
  by pat_completeness auto
termination
  by (relation "measure (\<lambda>(N, offset, budget, max_blocks, used, out, pending, names). nat (max_blocks - used))")
    (auto simp: nat_less_eq_zless zless_nat_eq_int_zless length_greater_0_conv [symmetric] simp del: length_greater_0_conv)

declare wave_loop.simps [simp del]

definition finish_file :: "net \<Rightarrow> int \<Rightarrow> node \<Rightarrow> sniffed \<Rightarrow> (bytes \<times> bool) \<times> string list" where
  "finish_file N offset root_node s =
     (if sf_missing s then ((sf_out s, True), sf_names s)
      else if sf_mime s = None \<or> \<not> processable (sf_mime s) then
        ((take (nat (MAX_BYTES (n_fetch N))) (sf_out s), sf_pending s \<noteq> []), sf_names s)
      else
        case budget_for (n_fetch N) (the (sf_mime s)) (filesize root_node) of (budget, max_blocks) \<Rightarrow>
          if int (length (sf_out s)) > budget then ((sf_out s, True), sf_names s)
          else
            case wave_loop N offset budget max_blocks (sf_used s) (sf_out s) (map Lnk (sf_pending s)) (sf_names s) of
              (out, pending, names, missing) \<Rightarrow>
                if missing then ((out, True), names)
                else
                  let data = take (nat budget) out in
                  ((data, pending \<noteq> [] \<or> int (length out) > budget
                      \<or> (case filesize root_node of None \<Rightarrow> False | Some n \<Rightarrow> n \<noteq> 0 \<and> length data < n)), names))"

definition assemble_file :: "net \<Rightarrow> int \<Rightarrow> node \<Rightarrow> string list \<Rightarrow> ((bytes \<times> bool) \<times> string list) option" where
  "assemble_file N offset root_node names =
     (let out = inline_data root_node;
          s = \<lparr>sf_out = out, sf_pending = links root_node, sf_used = 0,
               sf_mime = (if length out \<ge> SNIFF_MIN then Some (sniff N out names) else None),
               sf_names = names, sf_missing = False\<rparr>
      in if sf_mime s \<noteq> None \<and> \<not> processable (sf_mime s) then Some ((take (nat (MAX_BYTES (n_fetch N))) out, False), names)
         else map_option (finish_file N offset root_node) (sniff_loop N offset s))"


section \<open>Fetching a CID\<close>

record fetch_result =
  fr_ok :: bool
  fr_data :: bytes
  fr_codec :: string
  fr_truncated :: bool
  fr_directory :: bool
  fr_unixfs_type :: "string option"
  fr_links :: "link list"
  fr_error :: "string option"
  fr_dead :: bool
  fr_slow :: bool
  fr_mime :: "string option"
  fr_size :: "nat option"
  fr_filename :: "string option"

definition new_result :: "string \<Rightarrow> fetch_result" where
  "new_result codec = \<lparr>fr_ok = False, fr_data = [], fr_codec = codec, fr_truncated = False, fr_directory = False,
     fr_unixfs_type = None, fr_links = [], fr_error = None, fr_dead = False, fr_slow = False, fr_mime = None,
     fr_size = None, fr_filename = None\<rparr>"

definition whole_block :: "string \<Rightarrow> bytes \<Rightarrow> fetch_result" where
  "whole_block codec block = (new_result codec)\<lparr>fr_data := block, fr_size := Some (length block), fr_ok := True\<rparr>"

definition fetch_cid :: "net \<Rightarrow> cid \<Rightarrow> string option \<Rightarrow> int \<Rightarrow> fetch_result option" where
  "fetch_cid N c codec_arg attempt =
     (let codec = str_or codec_arg (codec_of c) in
      case get_block_ex N attempt c of
        Inl err \<Rightarrow> Some ((new_result codec)\<lparr>fr_error := Some err, fr_dead := err \<in> set DEAD_ERRORS, fr_slow := err \<in> set SLOW_ERRORS\<rparr>)
      | Inr block \<Rightarrow>
          if codec = ''raw'' then Some (whole_block codec block)
          else if codec \<notin> {''unknown'', ''dag-pb''} then Some (whole_block codec block)
          else
            (case as_unixfs N block of
               None \<Rightarrow> Some (whole_block codec block)
             | Some nd \<Rightarrow>
                 if is_directory nd then
                   Some ((new_result codec)\<lparr>fr_directory := True, fr_unixfs_type := unixfs_type nd,
                       fr_mime := Some ''inode/directory'', fr_links := links nd, fr_size := Some 0, fr_ok := True\<rparr>)
                 else
                   map_option (\<lambda>((data, truncated), names).
                     (new_result codec)\<lparr>fr_data := data, fr_truncated := truncated, fr_filename := pick_filename names,
                        fr_size := Some (length data), fr_ok := True\<rparr>)
                     (assemble_file N attempt nd (link_names (links nd)))))"

section \<open>Peeking into a sharded directory\<close>

definition spread :: "'a list \<Rightarrow> int \<Rightarrow> 'a list" where
  "spread items n =
     (if n \<le> 0 \<or> items = [] then []
      else if int (length items) \<le> n then items
      else rev (remdups (rev (map (\<lambda>i. items ! ((i * length items) div nat n)) [0..<nat n]))))"

record peek =
  pk_found :: "(string \<times> cid) list"
  pk_blocks :: int
  pk_next :: "cid list"

text \<open>The CIDs of links that are neither found PDFs nor queued yet, added to a level in link order.\<close>

definition add_level :: "(string \<times> cid) list \<Rightarrow> link list \<Rightarrow> cid list \<Rightarrow> cid list" where
  "add_level found ls level =
     fold (\<lambda>l lv. if snd l \<noteq> [] \<and> snd l \<notin> snd ` set found \<and> snd l \<notin> set lv then lv @ [snd l] else lv) ls level"

definition peek_block :: "net \<Rightarrow> int \<Rightarrow> int \<Rightarrow> int \<Rightarrow> cid \<Rightarrow> peek \<Rightarrow> peek" where
  "peek_block N offset max_blocks max_pdfs c p =
     (if pk_blocks p \<ge> max_blocks \<or> int (length (pk_found p)) \<ge> max_pdfs then p
      else
        let p = p\<lparr>pk_blocks := pk_blocks p + 1\<rparr> in
        case get_block N offset c of
          None \<Rightarrow> p
        | Some block \<Rightarrow>
            if block = [] then p
            else
              (case as_unixfs N block of
                 None \<Rightarrow> p
               | Some nd \<Rightarrow>
                   let found = pk_found p @ doc_child_links (max_pdfs - int (length (pk_found p))) (links nd) in
                   p\<lparr>pk_found := found,
                     pk_next := (if unixfs_type nd = Some ''hamt-shard'' \<or> is_directory nd
                                 then add_level found (links nd) (pk_next p) else pk_next p)\<rparr>))"

function peek_loop :: "net \<Rightarrow> int \<Rightarrow> int \<Rightarrow> int \<Rightarrow> cid list \<Rightarrow> peek \<Rightarrow> peek" where
  "peek_loop N offset max_blocks max_pdfs level p =
     (if level \<noteq> [] \<and> pk_blocks p < max_blocks \<and> int (length (pk_found p)) < max_pdfs then
        (let per_level = max 8 ((max_blocks + 2) div 3);
             wave = spread level (min (min (max_blocks - pk_blocks p) per_level) (int (length level)));
             p' = fold (peek_block N offset max_blocks max_pdfs) wave (p\<lparr>pk_next := []\<rparr>)
         in peek_loop N offset max_blocks max_pdfs (pk_next p') p')
      else p)"
  by pat_completeness auto

lemma peek_block_grows: "pk_blocks p \<le> pk_blocks (peek_block N offset mb mp c p)"
  by (auto simp: peek_block_def Let_def split: option.splits)

lemma peek_fold_grows: "pk_blocks p \<le> pk_blocks (fold (peek_block N offset mb mp) wave p)"
  by (induction wave arbitrary: p) (auto intro: order_trans [OF peek_block_grows])

lemma spread_not_Nil: "items \<noteq> [] \<Longrightarrow> 0 < n \<Longrightarrow> spread items n \<noteq> []"
  by (auto simp: spread_def)

text \<open>A level that is walked uses at least one block, so the walk ends.\<close>

lemma peek_wave_uses:
  assumes "level \<noteq> []" "pk_blocks p < mb" "int (length (pk_found p)) < mp"
    and "wave = spread level (min (min (mb - pk_blocks p) (max 8 x)) (int (length level)))"
  shows "pk_blocks p < pk_blocks (fold (peek_block N offset mb mp) wave (p\<lparr>pk_next := []\<rparr>))"
proof -
  have "0 < min (min (mb - pk_blocks p) (max 8 x)) (int (length level))" using assms(1,2) by simp
  from spread_not_Nil [OF assms(1) this] obtain c cs where wave: "wave = c # cs"
    unfolding assms(4) [symmetric] by (metis neq_Nil_conv)
  have "pk_blocks p < pk_blocks (peek_block N offset mb mp c (p\<lparr>pk_next := []\<rparr>))"
    using assms(2,3) by (auto simp: peek_block_def Let_def split: option.splits)
  then show ?thesis unfolding wave using peek_fold_grows by (fastforce intro: less_le_trans)
qed

termination peek_loop
  by (relation "measure (\<lambda>(N, offset, mb, mp, level, p). nat (mb - pk_blocks p))")
    (auto simp: peek_wave_uses diff_less_mono2)

declare peek_loop.simps [simp del]

definition peek_hamt_pdfs :: "net \<Rightarrow> int \<Rightarrow> link list \<Rightarrow> (string \<times> cid) list" where
  "peek_hamt_pdfs N offset ls =
     (let max_blocks = cfg_get (n_fetch N) ''max_hamt_blocks'' 24;
          max_pdfs = cfg_get (n_fetch N) ''max_dir_docs'' 16;
          found = doc_child_links max_pdfs ls
      in if int (length found) \<ge> max_pdfs \<or> max_blocks \<le> 0 then found
         else pk_found (peek_loop N offset max_blocks max_pdfs (add_level found ls [])
                \<lparr>pk_found = found, pk_blocks = 0, pk_next = []\<rparr>))"

end
