(* ===== verification/Fetch_Laws.thy ===== *)
theory Fetch_Laws
  imports Fetch
begin

text \<open>
  Laws of the fetcher: every block handed on matches its CID, a sample that is not marked as
  truncated is the whole file, fetching ends on every finite file, and how far the walks go.
\<close>

section \<open>Blocks\<close>

lemma judge_reply_Inr: "judge_reply N c r = Inr data \<Longrightarrow>
    verify_block (n_sha256 N) c (Some data) \<and> int (length data) \<le> MAX_BLOCK (n_fetch N)"
  by (auto simp: judge_reply_def split: reply.splits if_splits)

lemma gateway_loop_Inr: "gateway_loop N offset c gws e = Inr data \<Longrightarrow>
    verify_block (n_sha256 N) c (Some data) \<and> int (length data) \<le> MAX_BLOCK (n_fetch N)"
  by (induction gws arbitrary: e) (auto split: sum.splits dest: judge_reply_Inr)

lemma get_block_ex_Inr: "get_block_ex N offset c = Inr data \<Longrightarrow>
    verify_block (n_sha256 N) c (Some data) \<and> int (length data) \<le> MAX_BLOCK (n_fetch N)"
  by (auto simp: get_block_ex_def kubo_block_def split: sum.splits option.splits dest: gateway_loop_Inr judge_reply_Inr)

lemma get_block_verified: "get_block N offset c = Some data \<Longrightarrow> verify_block (n_sha256 N) c (Some data)"
  using get_block_ex_Inr [of N offset c data] by (auto simp: get_block_def split: sum.splits)

text \<open>A rotation asks every gateway once.\<close>

lemma set_gateway_order: "set (gateway_order gws offset) = set gws"
proof -
  have "set (drop k gws @ take k gws) = set gws" for k
    by (metis append_take_drop_id set_append sup_commute)
  then show ?thesis by (simp add: gateway_order_def Let_def)
qed

section \<open>The bytes of a file\<close>

text \<open>The bytes that a list of links and data stands for: every block is one that matches its CID.\<close>

inductive yields :: "net \<Rightarrow> item list \<Rightarrow> bytes \<Rightarrow> bool" for N where
  nil: "yields N [] []"
| res: "yields N p b \<Longrightarrow> yields N (Resolved d # p) (d @ b)"
| lnk: "verify_block (n_sha256 N) c (Some block) \<Longrightarrow> child_bytes N block = (d, ls) \<Longrightarrow> yields N (map Lnk ls @ p) b
    \<Longrightarrow> yields N (Lnk (nm, c) # p) (d @ b)"

inductive_cases yields_resE: "yields N (Resolved d # p) b"

lemma yields_split: "yields N X b \<Longrightarrow> X = P @ Q \<Longrightarrow> \<exists>b1 b2. b = b1 @ b2 \<and> yields N P b1 \<and> yields N Q b2"
proof (induction arbitrary: P rule: yields.induct)
  case nil
  then show ?case by (auto intro: yields.nil)
next
  case (res p b d)
  show ?case
  proof (cases P)
    case Nil
    then show ?thesis
      using res.prems yields.res [OF res.hyps, of d] yields.nil by (intro exI [of _ "[]"] exI [of _ "d @ b"]) auto
  next
    case (Cons x P')
    then obtain b1 b2 where "b = b1 @ b2" "yields N P' b1" "yields N Q b2" using res.IH [of P'] res.prems by auto
    then show ?thesis using Cons res.prems yields.res [of N P' b1 d] by (intro exI [of _ "d @ b1"] exI [of _ b2]) auto
  qed
next
  case (lnk c block d ls p b nm)
  show ?case
  proof (cases P)
    case Nil
    then show ?thesis
      using lnk.prems yields.lnk [OF lnk.hyps(1-3), of nm] yields.nil by (intro exI [of _ "[]"] exI [of _ "d @ b"]) auto
  next
    case (Cons x P')
    then have p: "p = P' @ Q" using lnk.prems by simp
    then obtain b1 b2 where "b = b1 @ b2" "yields N (map Lnk ls @ P') b1" "yields N Q b2"
      using lnk.IH [of "map Lnk ls @ P'"] by auto
    then show ?thesis
      using Cons lnk.prems yields.lnk [OF lnk.hyps(1,2), of P' b1 nm] by (intro exI [of _ "d @ b1"] exI [of _ b2]) auto
  qed
qed

lemma yields_append: "yields N P a \<Longrightarrow> yields N Q b \<Longrightarrow> yields N (P @ Q) (a @ b)"
  by (induction rule: yields.induct) (auto intro: yields.intros)

lemma yields_context:
  assumes "\<And>b. yields N Y b \<Longrightarrow> yields N Z b" "yields N (P @ Y) b"
  shows "yields N (P @ Z) b"
  using yields_split [OF assms(2) refl] assms(1) yields_append by blast

subsection \<open>Sniffing\<close>

definition sniff_next :: "net \<Rightarrow> link \<Rightarrow> bytes \<Rightarrow> link list \<Rightarrow> sniffed \<Rightarrow> sniffed" where
  "sniff_next N l d ls s =
     (let out = sf_out s @ d; names = sf_names s @ link_names [l] in
      s\<lparr>sf_out := out, sf_pending := ls, sf_used := sf_used s + 1, sf_names := names,
        sf_mime := (if length out \<ge> SNIFF_MIN then Some (sniff N out names) else None)\<rparr>)"

lemma sniff_loop_unfold:
  "sf_mime s \<noteq> None \<or> sf_pending s = [] \<Longrightarrow> sniff_loop N offset s = Some s"
  "sf_mime s = None \<Longrightarrow> sf_pending s = (nm, c) # rest \<Longrightarrow> get_block N offset c = None \<Longrightarrow>
     sniff_loop N offset s = Some (s\<lparr>sf_names := sf_names s @ link_names [(nm, c)], sf_used := sf_used s + 1, sf_missing := True\<rparr>)"
  "sf_mime s = None \<Longrightarrow> sf_pending s = (nm, c) # rest \<Longrightarrow> get_block N offset c = Some block \<Longrightarrow>
     child_bytes N block = (d, ls) \<Longrightarrow> sniff_loop N offset s = sniff_loop N offset (sniff_next N (nm, c) d (ls @ rest) s)"
  by (subst sniff_loop.simps, simp add: Let_def sniff_next_def)+

lemma sniff_loop_induct [consumes 1, case_names stop missing step]:
  assumes "sniff_loop N offset s = Some s'"
    and stop: "\<And>s. sf_mime s \<noteq> None \<or> sf_pending s = [] \<Longrightarrow> P s s"
    and missing: "\<And>s nm c rest. sf_mime s = None \<Longrightarrow> sf_pending s = (nm, c) # rest \<Longrightarrow> get_block N offset c = None \<Longrightarrow>
      P s (s\<lparr>sf_names := sf_names s @ link_names [(nm, c)], sf_used := sf_used s + 1, sf_missing := True\<rparr>)"
    and step: "\<And>s s' nm c rest block d ls. sf_mime s = None \<Longrightarrow> sf_pending s = (nm, c) # rest \<Longrightarrow>
      get_block N offset c = Some block \<Longrightarrow> child_bytes N block = (d, ls) \<Longrightarrow>
      P (sniff_next N (nm, c) d (ls @ rest) s) s' \<Longrightarrow> P s s'"
  shows "P s s'"
proof -
  have "N = N \<longrightarrow> offset = offset \<longrightarrow> P s s'"
  proof (rule sniff_loop.raw_induct [OF _ assms(1), where P = "\<lambda>M off s s'. M = N \<longrightarrow> off = offset \<longrightarrow> P s s'"], intro impI)
    fix f M off t t'
    assume IH: "\<And>M off s s'. f M off s = Some s' \<Longrightarrow> M = N \<longrightarrow> off = offset \<longrightarrow> P s s'"
      and body: "(if sf_mime t \<noteq> None \<or> sf_pending t = [] then Some t
        else let (name, c) = hd (sf_pending t); names = sf_names t @ link_names [(name, c)]; used = sf_used t + 1
             in case get_block M off c of
                  None \<Rightarrow> Some (t\<lparr>sf_names := names, sf_used := used, sf_missing := True\<rparr>)
                | Some block \<Rightarrow>
                    let (data, ls) = child_bytes M block; out = sf_out t @ data in
                    f M off (t\<lparr>sf_out := out, sf_pending := ls @ tl (sf_pending t), sf_used := used, sf_names := names,
                      sf_mime := (if length out \<ge> SNIFF_MIN then Some (sniff M out names) else None)\<rparr>)) = Some t'"
      and eq: "M = N" "off = offset"
    show "P t t'"
    proof (cases "sf_mime t \<noteq> None \<or> sf_pending t = []")
      case True
      then show ?thesis using body stop by auto
    next
      case False
      then obtain nm c rest where pend: "sf_pending t = (nm, c) # rest" by (cases "sf_pending t") auto
      show ?thesis
      proof (cases "get_block N offset c")
        case None
        then show ?thesis using body False eq missing [of t nm c rest] by (simp add: pend)
      next
        case (Some block)
        obtain d ls where cb: "child_bytes N block = (d, ls)" by fastforce
        have "f M off (sniff_next N (nm, c) d (ls @ rest) t) = Some t'"
          using body False unfolding eq by (simp add: pend Some cb sniff_next_def Let_def split: if_splits)
        then show ?thesis using IH eq step [of t nm c rest block d ls t'] False pend Some cb by auto
      qed
    qed
  qed
  then show ?thesis by simp
qed

lemma sniff_next_simps [simp]:
  "sf_out (sniff_next N l d ls s) = sf_out s @ d" "sf_pending (sniff_next N l d ls s) = ls"
  "sf_missing (sniff_next N l d ls s) = sf_missing s"
  by (simp_all add: sniff_next_def Let_def)

lemma sniff_loop_yields:
  assumes "sniff_loop N offset s = Some s'"
  shows "\<not> sf_missing s' \<Longrightarrow> yields N (map Lnk (sf_pending s')) b \<Longrightarrow>
    \<exists>b0. sf_out s' = sf_out s @ b0 \<and> yields N (map Lnk (sf_pending s)) (b0 @ b)"
  using assms
proof (induction rule: sniff_loop_induct)
  case (step s s' nm c rest block d ls)
  then obtain b0 where b0: "sf_out s' = (sf_out s @ d) @ b0" "yields N (map Lnk (ls @ rest)) (b0 @ b)" by auto
  then have "yields N (Lnk (nm, c) # map Lnk rest) (d @ b0 @ b)"
    using yields.lnk [OF get_block_verified [OF step.hyps(3)] step.hyps(4)] by simp
  then show ?case using b0(1) step.hyps(2) by (intro exI [of _ "d @ b0"]) simp
qed auto

definition sniff_inv :: "net \<Rightarrow> sniffed \<Rightarrow> bool" where
  "sniff_inv N s \<longleftrightarrow> (case sf_mime s of
     None \<Rightarrow> length (sf_out s) < SNIFF_MIN | Some m \<Rightarrow> m = sniff N (sf_out s) (sf_names s))"

lemma sniff_loop_mime:
  assumes "sniff_loop N offset s = Some s'"
  shows "sniff_inv N s \<Longrightarrow> \<not> sf_missing s' \<Longrightarrow> sniff_inv N s' \<and> (sf_mime s' = None \<longrightarrow> sf_pending s' = [])"
  using assms
proof (induction rule: sniff_loop_induct)
  case (step s s' nm c rest block d ls)
  have "sniff_inv N (sniff_next N (nm, c) d (ls @ rest) s)" by (simp add: sniff_inv_def sniff_next_def Let_def)
  then show ?case using step.IH step.prems by simp
qed auto

subsection \<open>Waves\<close>

text \<open>
  The waves drop the inline data of an intermediate node that has links. The files that they
  assemble whole are those without such nodes, as the usual chunkers write them.
\<close>

definition leafy :: "net \<Rightarrow> bool" where
  "leafy N \<longleftrightarrow> (\<forall>offset c block d ls. get_block N offset c = Some block \<longrightarrow> child_bytes N block = (d, ls) \<longrightarrow> d = [] \<or> ls = [])"

lemma wave_of_prefix: "pending = map Lnk (wave_of n pending) @ drop (length (wave_of n pending)) pending"
  by (induction n pending rule: wave_of.induct) auto

lemma flush_yields:
  assumes "flush out items = (out', items')" "yields N items' b"
  shows "\<exists>b0. out' = out @ b0 \<and> yields N items (b0 @ b)"
  using assms
proof (induction out items rule: flush.induct)
  case (1 out d items)
  then obtain b0 where "out' = (out @ d) @ b0" "yields N items (b0 @ b)" by auto
  then show ?case using yields.res [of N items "b0 @ b" d] by (intro exI [of _ "d @ b0"]) simp
qed (auto intro: exI [of _ "[]"])

lemma replace_yields:
  assumes "leafy N" "get_block N offset c = Some block" "yields N (replace_block N block @ X) b"
  shows "yields N (Lnk (nm, c) # X) b"
proof -
  obtain d ls where cb: "child_bytes N block = (d, ls)" by fastforce
  note lnk = yields.lnk [OF get_block_verified [OF assms(2)] cb, of X _ nm]
  consider "ls \<noteq> []" "d = []" | "ls = []" "d \<noteq> []" | "ls = []" "d = []"
    using assms(1,2) cb unfolding leafy_def by blast
  then show ?thesis
  proof cases
    case 1
    then show ?thesis using lnk [of b] assms(3) by (simp add: replace_block_def cb)
  next
    case 2
    then obtain b' where "b = d @ b'" "yields N X b'" using assms(3) by (auto simp: replace_block_def cb elim: yields_resE)
    then show ?thesis using lnk [of b'] 2 by simp
  next
    case 3
    then show ?thesis using lnk [of b] assms(3) by (simp add: replace_block_def cb)
  qed
qed

lemma replace_all_yields:
  assumes "leafy N" "list_all2 (\<lambda>l b. \<exists>offset block. b = Some block \<and> get_block N offset (snd l) = Some block) wave blocks"
  shows "yields N (concat (map (\<lambda>b. replace_block N (the b)) blocks) @ X) b \<Longrightarrow> yields N (map Lnk wave @ X) b"
  using assms(2)
proof (induction wave blocks arbitrary: b rule: list_all2_induct)
  case (Cons l wave bl blocks)
  obtain nm c where l: "l = (nm, c)" by (cases l)
  from Cons.hyps(1) obtain offset block where bl: "bl = Some block" "get_block N offset c = Some block" by (auto simp: l)
  have "yields N (Lnk (nm, c) # concat (map (\<lambda>b. replace_block N (the b)) blocks) @ X) b"
    using replace_yields [OF assms(1) bl(2)] Cons.prems by (simp add: bl(1))
  then show ?case
    using yields_context [of N _ "map Lnk wave @ X" "[Lnk (nm, c)]"] Cons.IH by (auto simp: l)
qed simp

lemma map_zip_map: "map (\<lambda>(c, b). f c b) (zip cs (map g cs)) = map (\<lambda>c. f c (g c)) cs"
  by (induction cs) auto

lemma fetch_children_got:
  assumes "None \<notin> set (fetch_children N offset (map snd wave))"
  shows "list_all2 (\<lambda>l b. \<exists>offset block. b = Some block \<and> get_block N offset (snd l) = Some block) wave
    (fetch_children N offset (map snd wave))"
proof -
  let ?f = "\<lambda>c. case get_block N offset c of None \<Rightarrow> get_block N (offset + 1) c | Some d \<Rightarrow> Some d"
  have "fetch_children N offset (map snd wave) = map (get_block N offset) (map snd wave)
      \<or> fetch_children N offset (map snd wave) = map ?f (map snd wave)"
    unfolding fetch_children_def Let_def map_zip_map by auto
  then obtain g where eq: "fetch_children N offset (map snd wave) = map (\<lambda>l. g (snd l)) wave"
      and g: "\<And>c. g c \<noteq> None \<Longrightarrow> \<exists>off. get_block N off c = g c"
  proof
    assume "fetch_children N offset (map snd wave) = map (get_block N offset) (map snd wave)"
    then show thesis using that [of "get_block N offset"] by (auto simp: comp_def)
  next
    assume "fetch_children N offset (map snd wave) = map ?f (map snd wave)"
    moreover have "\<exists>off. get_block N off c = ?f c" for c
      by (cases "get_block N offset c") (auto intro: exI [of _ offset] exI [of _ "offset + 1"])
    ultimately show thesis using that [of ?f] unfolding map_map comp_def by blast
  qed
  show ?thesis
    unfolding eq list_all2_map2 list_all2_same
  proof
    fix l assume "l \<in> set wave"
    then have "g (snd l) \<noteq> None" using assms unfolding eq by force
    then show "\<exists>offset block. g (snd l) = Some block \<and> get_block N offset (snd l) = Some block" using g by fastforce
  qed
qed

lemma wave_loop_yields:
  "leafy N \<Longrightarrow> wave_loop N offset budget max_blocks used out pending names = (out', pending', names', False) \<Longrightarrow>
    yields N pending' b \<Longrightarrow> \<exists>b0. out' = out @ b0 \<and> yields N pending (b0 @ b)"
proof (induction N offset budget max_blocks used out pending names rule: wave_loop.induct)
  case (1 N offset budget max_blocks used out pending names)
  let ?wave = "wave_of (nat (min (CHILD_CONCURRENCY (n_fetch N)) (max_blocks - used))) pending"
  let ?blocks = "fetch_children N offset (map snd ?wave)"
  let ?items = "concat (map (\<lambda>b. replace_block N (the b)) ?blocks) @ drop (length ?wave) pending"
  show ?case
  proof (cases "pending \<noteq> [] \<and> int (length out) < budget \<and> used < max_blocks \<and> ?wave \<noteq> []")
    case False
    then have "out' = out" "pending' = pending"
      using "1.prems"(2) by (subst (asm) wave_loop.simps; auto simp: Let_def split: if_splits)+
    then show ?thesis using "1.prems"(3) by (intro exI [of _ "[]"]) simp
  next
    case True
    have none: "None \<notin> set ?blocks"
      using "1.prems"(2) True by (subst (asm) wave_loop.simps) (auto simp: Let_def split: if_splits)
    obtain out1 items1 where fl: "flush out ?items = (out1, items1)" by fastforce
    have rec: "wave_loop N offset budget max_blocks (used + int (length ?wave)) out1 items1 (names @ link_names ?wave)
        = (out', pending', names', False)"
      using "1.prems"(2) True none fl by (subst (asm) wave_loop.simps) (simp add: Let_def)
    have "\<exists>b1. out' = out1 @ b1 \<and> yields N items1 (b1 @ b)"
      by (rule "1.IH" [OF _ refl refl _ refl none fl [symmetric] "1.prems"(1) rec "1.prems"(3)]) (use True in auto)
    then obtain b1 where b1: "out' = out1 @ b1" "yields N items1 (b1 @ b)" by auto
    from flush_yields [OF fl b1(2)] obtain b0 where b0: "out1 = out @ b0" "yields N ?items (b0 @ b1 @ b)" by auto
    have "yields N (map Lnk ?wave @ drop (length ?wave) pending) (b0 @ b1 @ b)"
      using replace_all_yields [OF "1.prems"(1) fetch_children_got [OF none] b0(2)] .
    then show ?thesis using b1(1) b0(1) wave_of_prefix [of pending] by (intro exI [of _ "b0 @ b1"]) simp
  qed
qed


subsection \<open>Whole files\<close>

definition file_content :: "net \<Rightarrow> node \<Rightarrow> bytes \<Rightarrow> bool" where
  "file_content N nd data \<longleftrightarrow> (\<exists>b. data = inline_data nd @ b \<and> yields N (map Lnk (links nd)) b)"

lemma sniff_take: "int SNIFF_WINDOW \<le> n \<Longrightarrow> sniff N (take (nat n) out) names = sniff N out names"
  by (simp add: sniff_def min_def le_nat_iff)

lemma finish_file_whole:
  assumes "leafy N" "int SNIFF_WINDOW \<le> MAX_BYTES (n_fetch N)"
    and mime: "sniff_inv N s" "sf_mime s = None \<longrightarrow> sf_pending s = []"
    and fin: "finish_file N offset nd s = ((data, False), names)" "processable (Some (sniff N data names))"
    and "\<not> sf_missing s"
  shows "\<exists>b. data = sf_out s @ b \<and> yields N (map Lnk (sf_pending s)) b"
proof (cases "sf_mime s = None \<or> \<not> processable (sf_mime s)")
  case True
  then have d: "data = take (nat (MAX_BYTES (n_fetch N))) (sf_out s)" "names = sf_names s" "sf_pending s = []"
    using fin(1) \<open>\<not> sf_missing s\<close> by (auto simp: finish_file_def)
  then have "sf_mime s = None"
    using True fin(2) mime(1) sniff_take [OF assms(2)] by (cases "sf_mime s") (auto simp: sniff_inv_def)
  then have "length (sf_out s) \<le> nat (MAX_BYTES (n_fetch N))"
    using mime(1) assms(2) by (simp add: sniff_inv_def SNIFF_MIN_def SNIFF_WINDOW_def)
  then show ?thesis using d yields.nil by (intro exI [of _ "[]"]) simp
next
  case False
  obtain budget max_blocks where bd: "budget_for (n_fetch N) (the (sf_mime s)) (filesize nd) = (budget, max_blocks)" by fastforce
  obtain out pending nms missing where
    wl: "wave_loop N offset budget max_blocks (sf_used s) (sf_out s) (map Lnk (sf_pending s)) (sf_names s) = (out, pending, nms, missing)"
    using prod_cases4 by blast
  have le: "\<not> int (length (sf_out s)) > budget"
    using fin(1) False \<open>\<not> sf_missing s\<close> by (auto simp: finish_file_def bd split: if_splits)
  have *: "\<not> missing" "data = take (nat budget) out" "pending = []" "int (length out) \<le> budget"
    using fin(1) False \<open>\<not> sf_missing s\<close> le by (auto simp: finish_file_def bd wl Let_def split: if_splits)
  with wave_loop_yields [OF assms(1), of offset budget max_blocks "sf_used s" "sf_out s" "map Lnk (sf_pending s)" "sf_names s" out "[]" nms "[]"] wl yields.nil
  obtain b where "out = sf_out s @ b" "yields N (map Lnk (sf_pending s)) b" by auto
  then show ?thesis using *(2,4) by auto
qed

lemma assemble_file_whole:
  assumes "leafy N" "int SNIFF_WINDOW \<le> MAX_BYTES (n_fetch N)"
    and "assemble_file N offset nd names = Some ((data, False), names')" "processable (Some (sniff N data names'))"
  shows "file_content N nd data"
proof -
  let ?s = "\<lparr>sf_out = inline_data nd, sf_pending = links nd, sf_used = 0,
      sf_mime = (if length (inline_data nd) \<ge> SNIFF_MIN then Some (sniff N (inline_data nd) names) else None),
      sf_names = names, sf_missing = False\<rparr>"
  have inv: "sniff_inv N ?s" by (simp add: sniff_inv_def)
  show ?thesis
  proof (cases "sf_mime ?s \<noteq> None \<and> \<not> processable (sf_mime ?s)")
    case True
    then have "data = take (nat (MAX_BYTES (n_fetch N))) (inline_data nd)" "names' = names"
      using assms(3) by (auto simp: assemble_file_def Let_def split: if_splits)
    then show ?thesis using True assms(4) sniff_take [OF assms(2)] by (auto split: if_splits)
  next
    case False
    then have "map_option (finish_file N offset nd) (sniff_loop N offset ?s) = Some ((data, False), names')"
      using assms(3) unfolding assemble_file_def Let_def by (simp only: if_False)
    then obtain s' where s': "sniff_loop N offset ?s = Some s'" "finish_file N offset nd s' = ((data, False), names')" by auto
    then have nm: "\<not> sf_missing s'" by (auto simp: finish_file_def)
    note m = sniff_loop_mime [OF s'(1) inv nm]
    from finish_file_whole [OF assms(1,2) m [THEN conjunct1] m [THEN conjunct2] s'(2) assms(4) nm]
    obtain b where b: "data = sf_out s' @ b" "yields N (map Lnk (sf_pending s')) b" by auto
    from sniff_loop_yields [OF s'(1) nm b(2)] show ?thesis using b(1) by (auto simp: file_content_def)
  qed
qed

lemma fetch_cid_whole:
  assumes "leafy N" "int SNIFF_WINDOW \<le> MAX_BYTES (n_fetch N)"
    and "fetch_cid N c codec attempt = Some r" "fr_ok r" "\<not> fr_directory r" "\<not> fr_truncated r"
    and "processable (Some (sniff_mime (n_json_ok N) (take 4096 (fr_data r)) None (fr_filename r)))"
  shows "verify_block (n_sha256 N) c (Some (fr_data r))
    \<or> (\<exists>block nd. verify_block (n_sha256 N) c (Some block) \<and> as_unixfs N block = Some nd \<and> file_content N nd (fr_data r))"
proof -
  obtain block where block: "get_block_ex N attempt c = Inr block"
    using assms(3,4) by (cases "get_block_ex N attempt c") (auto simp: fetch_cid_def new_result_def)
  then have ver: "verify_block (n_sha256 N) c (Some block)" using get_block_ex_Inr by blast
  consider "r = whole_block (str_or codec (codec_of c)) block"
    | nd data names where "as_unixfs N block = Some nd" "assemble_file N attempt nd (link_names (links nd)) = Some ((data, False), names)"
        "fr_data r = data" "fr_filename r = pick_filename names"
    using assms(3,5,6) block
    by (auto simp: fetch_cid_def Let_def new_result_def split: if_splits option.splits)
  then show ?thesis
  proof cases
    case 1
    then show ?thesis using ver by (simp add: whole_block_def)
  next
    case 2
    have "processable (Some (sniff N data names))" using assms(7) 2(3,4) by (simp add: sniff_def SNIFF_WINDOW_def)
    then show ?thesis using assemble_file_whole [OF assms(1,2) 2(2)] ver 2 by blast
  qed
qed

text \<open>
  A sample that is not marked as truncated is the whole file. If fetching a CID gives a sample that
  may be classified and the sample is not marked as truncated, then it is the block itself, or the
  concatenation of the file's leaves in link order, every block of which matches its CID.
\<close>

theorem fetch_whole_file:
  assumes "leafy N" "int SNIFF_WINDOW \<le> MAX_BYTES (n_fetch N)"
    and "fetch_cid N c codec attempt = Some r" "fr_ok r" "\<not> fr_directory r" "\<not> fr_truncated r"
    and "processable (Some (sniff_mime (n_json_ok N) (take 4096 (fr_data r)) None (fr_filename r)))"
  shows "verify_block (n_sha256 N) c (Some (fr_data r))
    \<or> (\<exists>block nd. verify_block (n_sha256 N) c (Some block) \<and> as_unixfs N block = Some nd \<and> file_content N nd (fr_data r))"
  using assms by (rule fetch_cid_whole)

section \<open>Fetching ends\<close>

definition served_links :: "net \<Rightarrow> int \<Rightarrow> (cid \<times> cid) set" where
  "served_links N offset = {(c', c). \<exists>block nm. get_block N offset c = Some block \<and> (nm, c') \<in> set (snd (child_bytes N block))}"

definition returns_on :: "net \<Rightarrow> int \<Rightarrow> link list \<Rightarrow> bool" where
  "returns_on N offset ls \<longleftrightarrow> (\<forall>s. sf_pending s = ls \<longrightarrow> sniff_loop N offset s \<noteq> None)"

lemma returns_on_Cons:
  assumes "wf (served_links N offset)"
  shows "\<forall>nm rest. returns_on N offset rest \<longrightarrow> returns_on N offset ((nm, c) # rest)"
  using assms
proof (induction c rule: wf_induct_rule)
  case (less c)
  have push: "returns_on N offset rest \<Longrightarrow> (\<forall>l\<in>set ls. (snd l, c) \<in> served_links N offset) \<Longrightarrow> returns_on N offset (ls @ rest)" for ls rest
    by (induction ls) (use less in auto)
  show ?case
  proof (intro allI impI, unfold returns_on_def, intro allI impI)
    fix nm rest and s :: sniffed
    assume rest: "\<forall>s. sf_pending s = rest \<longrightarrow> sniff_loop N offset s \<noteq> None" and s: "sf_pending s = (nm, c) # rest"
    show "sniff_loop N offset s \<noteq> None"
    proof (cases "sf_mime s")
      case None
      show ?thesis
      proof (cases "get_block N offset c")
        case (Some block)
        obtain d ls where cb: "child_bytes N block = (d, ls)" by fastforce
        have "\<forall>l\<in>set ls. (snd l, c) \<in> served_links N offset" using Some cb by (force simp: served_links_def)
        then have "returns_on N offset (ls @ rest)" using push rest by (simp add: returns_on_def)
        then show ?thesis unfolding sniff_loop_unfold(3) [OF None s Some cb] returns_on_def by simp
      qed (simp add: sniff_loop_unfold(2) [OF None s])
    qed (simp add: sniff_loop_unfold(1))
  qed
qed

lemma returns_on_all: "wf (served_links N offset) \<Longrightarrow> returns_on N offset ls"
proof (induction ls)
  case Nil
  then show ?case by (simp add: returns_on_def sniff_loop_unfold(1))
next
  case (Cons l ls)
  then show ?case using returns_on_Cons [of N offset "snd l"] by (cases l) auto
qed

text \<open>
  C31: Fetching a CID ends whenever the links of the served blocks are well-founded, which a collision
  free hash guarantees: no file makes the assembly run forever.
\<close>

theorem fetch_cid_returns:
  assumes "wf (served_links N attempt)"
  shows "\<exists>r. fetch_cid N c codec attempt = Some r"
proof -
  have "sniff_loop N attempt s \<noteq> None" for s :: sniffed
    using returns_on_all [OF assms, of "sf_pending s"] by (simp add: returns_on_def)
  then have ends: "assemble_file N attempt nd names \<noteq> None" for nd names
    unfolding assemble_file_def Let_def by (simp del: not_None_eq)
  have "fetch_cid N c codec attempt \<noteq> None"
    using ends by (auto simp: fetch_cid_def Let_def simp del: not_None_eq split: sum.splits option.splits)
  then show ?thesis by simp
qed

section \<open>The cost of sniffing\<close>

lemma sniff_next_empty:
  fixes s :: sniffed
  assumes "sf_mime s = None" "length (sf_out s) < SNIFF_MIN"
  shows "sniff_next N (None, c) [] ls s = s\<lparr>sf_pending := ls, sf_used := sf_used s + 1\<rparr>"
  using assms by (cases s) (simp add: sniff_next_def link_names_def str_or_def)

lemma sniff_doubles:
  fixes s :: sniffed
  assumes "\<And>i. i < n \<Longrightarrow> \<exists>block. get_block N offset (c (Suc i)) = Some block \<and> child_bytes N block = ([], [(None, c i), (None, c i)])"
    and "get_block N offset (c 0) = Some leaf" "child_bytes N leaf = ([], [])"
    and "sf_mime s = None" "length (sf_out s) < SNIFF_MIN" "sf_pending s = (None, c n) # rest"
  shows "sniff_loop N offset s = sniff_loop N offset (s\<lparr>sf_pending := rest, sf_used := sf_used s + (2 ^ Suc n - 1)\<rparr>)"
  using assms
proof (induction n arbitrary: s rest)
  case 0
  then show ?case
    using sniff_loop_unfold(3) [of s None "c 0" rest N offset leaf "[]" "[]"]
    by (simp add: sniff_next_empty)
next
  case (Suc n)
  obtain block where block: "get_block N offset (c (Suc n)) = Some block" "child_bytes N block = ([], [(None, c n), (None, c n)])"
    using Suc.prems(1) by blast
  have cs: "\<And>i. i < n \<Longrightarrow> \<exists>block. get_block N offset (c (Suc i)) = Some block \<and> child_bytes N block = ([], [(None, c i), (None, c i)])"
    using Suc.prems(1) by simp
  let ?s1 = "s\<lparr>sf_pending := (None, c n) # (None, c n) # rest, sf_used := sf_used s + 1\<rparr>"
  let ?s2 = "?s1\<lparr>sf_pending := (None, c n) # rest, sf_used := sf_used ?s1 + (2 ^ Suc n - 1)\<rparr>"
  have "sniff_loop N offset s = sniff_loop N offset ?s1"
    using sniff_loop_unfold(3) [OF Suc.prems(4,6) block] Suc.prems(4,5) by (simp add: sniff_next_empty)
  also have "\<dots> = sniff_loop N offset ?s2"
    using Suc.IH [OF cs Suc.prems(2,3), of ?s1 "(None, c n) # rest"] Suc.prems(4,5) by simp
  also have "\<dots> = sniff_loop N offset (?s2\<lparr>sf_pending := rest, sf_used := sf_used ?s2 + (2 ^ Suc n - 1)\<rparr>)"
    using Suc.IH [OF cs Suc.prems(2,3), of ?s2 rest] Suc.prems(4,5) by simp
  finally show ?case by (simp add: algebra_simps)
qed

text \<open>
  The walk that looks for the type of a file has no block budget. A chain of \<open>n\<close> UnixFS nodes
  without data, each linking twice to the next, above an empty leaf, makes it request
  \<open>2 ^ (n + 1) - 1\<close> blocks although only \<open>n + 1\<close> different blocks exist.
\<close>

theorem sniff_walk_exponential:
  assumes "\<And>i. i < n \<Longrightarrow> \<exists>block. get_block N offset (c (Suc i)) = Some block \<and> child_bytes N block = ([], [(None, c i), (None, c i)])"
    and "get_block N offset (c 0) = Some leaf" "child_bytes N leaf = ([], [])"
  shows "\<exists>s'. sniff_loop N offset \<lparr>sf_out = [], sf_pending = [(None, c n)], sf_used = 0, sf_mime = None, sf_names = [],
      sf_missing = False\<rparr> = Some s' \<and> sf_used s' = 2 ^ Suc n - 1"
proof -
  let ?s = "\<lparr>sf_out = [], sf_pending = [(None, c n)], sf_used = 0, sf_mime = None, sf_names = [], sf_missing = False\<rparr>"
  have "sniff_loop N offset ?s = sniff_loop N offset (?s\<lparr>sf_pending := [], sf_used := sf_used ?s + (2 ^ Suc n - 1)\<rparr>)"
    by (rule sniff_doubles [OF assms]) (simp_all add: SNIFF_MIN_def)
  then show ?thesis by (simp add: sniff_loop_unfold(1))
qed

section \<open>Example networks\<close>

text \<open>
  One gateway serves a list of blocks by their digest. The digest is a sum, which is enough for a
  network without collisions.
\<close>

definition byte_sum :: "bytes \<Rightarrow> bytes" where
  "byte_sum b = [sum_list b]"

definition ex_net :: "bytes list \<Rightarrow> net" where
  "ex_net blocks = \<lparr>n_kubo = (\<lambda>_ _. None), n_gateways = [''gw''],
     n_gateway = (\<lambda>_ _ c. case decode_cid c of
        None \<Rightarrow> Response 404 []
      | Some ci \<Rightarrow> (case find (\<lambda>b. byte_sum b = ci_digest ci) blocks of None \<Rightarrow> Response 404 [] | Some b \<Rightarrow> Response 200 b)),
     n_sha256 = byte_sum, n_utf8 = map (\<lambda>x. char_of (unat x)), n_json_ok = (\<lambda>_. False), n_fetch = Map.empty\<rparr>"

lemma ex_net_block:
  "get_block (ex_net blocks) offset c = Some b \<longleftrightarrow>
     (\<exists>ci. decode_cid c = Some ci \<and> find (\<lambda>b. byte_sum b = ci_digest ci) blocks = Some b
        \<and> length b \<le> 2097152 \<and> verify_block byte_sum c (Some b))"
  by (auto simp: get_block_def get_block_ex_def kubo_block_def ex_net_def gateway_order_def judge_reply_def
      MAX_BLOCK_def MAX_BYTES_def cfg_get_def split: option.splits)

definition leaf_text :: "byte \<Rightarrow> cid" where "leaf_text d = cid_from_hash [1, 0x70, 0x12, 1, d]"

lemma decode_leaf_text: "decode_cid (leaf_text d) =
    Some \<lparr>ci_version = 1, ci_codec = ''dag-pb'', ci_codec_code = 0x70, ci_mh_code = 0x12, ci_digest = [d]\<rparr>"
  by (simp add: leaf_text_def decode_cid_v1 decode_v1_def read_varint_def CODECS_def)

definition ex_leaf :: bytes where "ex_leaf = [0x25, 0x50, 0x44, 0x46]"

lemma ex_leaf_length: "length ex_leaf = 4"
  by (simp add: ex_leaf_def)

definition ex_file :: bytes where
  "ex_file = [0x12, 7, 0x0a, 5, 1, 0x70, 0x12, 1, 0xff, 0x0a, 4, 8, 2, 0x18, 4]"

lemma option_eq_Some: "(\<And>b. x = Some b \<longleftrightarrow> y = Some b) \<Longrightarrow> x = y"
  by (cases x; cases y) auto

lemma get_leaf_text:
  "get_block (ex_net blocks) offset (leaf_text d) =
     (case find (\<lambda>b. byte_sum b = [d]) blocks of None \<Rightarrow> None | Some b \<Rightarrow> if length b \<le> 2097152 then Some b else None)"
  (is "_ = ?r")
proof -
  have "byte_sum b = [d]" if "find (\<lambda>b. byte_sum b = [d]) blocks = Some b" for b
    using that by (auto simp: find_Some_iff)
  then show ?thesis
    by (intro option_eq_Some)
      (auto simp: ex_net_block decode_leaf_text verify_block_def SHA2_256_def split: option.splits)
qed

lemma ex_leaf_children: "child_bytes (ex_net blocks) ex_leaf = (ex_leaf, [])"
proof -
  have "read_fields ex_leaf = Inr [(4, 5, VBytes [0x50, 0x44, 0x46])]" by code_simp
  then show ?thesis by (simp add: child_bytes_def as_unixfs_def parse_dag_pb_def new_node_def set_kind_def)
qed

lemma ex_file_node: "as_unixfs (ex_net blocks) ex_file =
    Some \<lparr>unixfs_type = Some ''file'', inline_data = [], links = [(None, leaf_text 255)], is_directory = False, is_file = True, filesize = Some 4\<rparr>"
proof -
  have "read_fields ex_file = Inr [(2, 2, VBytes [0x0a, 5, 1, 0x70, 0x12, 1, 0xff]), (1, 2, VBytes [8, 2, 0x18, 4])]"
    "read_fields [0x0a, 5, 1, 0x70, 0x12, 1, 0xff] = Inr [(1, 2, VBytes [1, 0x70, 0x12, 1, 0xff])]"
    "read_fields [8, 2, 0x18, 4] = Inr [(1, 0, VInt 2), (3, 0, VInt 4)]"
    by code_simp+
  then show ?thesis
    by (simp add: as_unixfs_def parse_dag_pb_def new_node_def set_kind_def UNIXFS_TYPES_def leaf_text_def cid_from_hash_not_Nil)
qed

lemma ex_file_children: "child_bytes (ex_net blocks) ex_file = ([], [(None, leaf_text 255)])"
  by (simp add: child_bytes_def ex_file_node)

abbreviation file_net :: net where "file_net \<equiv> ex_net [ex_leaf, ex_file]"

lemma file_net_serves: "get_block file_net offset c = Some b \<Longrightarrow> b = ex_leaf \<or> b = ex_file"
  by (auto simp: ex_net_block split: if_splits)

lemma file_net_leaf: "get_block file_net offset (leaf_text 255) = Some ex_leaf"
  by (simp add: get_leaf_text) (simp add: byte_sum_def ex_leaf_def)

lemma file_net_file: "get_block_ex file_net offset (leaf_text 223) = Inr ex_file"
proof -
  have "get_block file_net offset (leaf_text 223) = Some ex_file"
    by (simp add: get_leaf_text) (simp add: byte_sum_def ex_leaf_def ex_file_def)
  then show ?thesis by (auto simp: get_block_def split: sum.splits)
qed

lemma file_net_leafy: "leafy file_net"
  by (auto simp: leafy_def ex_leaf_children ex_file_children dest!: file_net_serves)

lemma file_net_links_wf: "wf (served_links file_net offset)"
proof (rule wf_subset)
  have leaf: "get_block file_net offset (leaf_text 255) \<noteq> Some ex_file"
    by (simp add: file_net_leaf) (simp add: ex_leaf_def ex_file_def)
  show "wf (measure (\<lambda>c. if c = leaf_text 255 then 0 else Suc 0))" by simp
  show "served_links file_net offset \<subseteq> measure (\<lambda>c. if c = leaf_text 255 then 0 else Suc 0)"
  proof (rule subrelI)
    fix c' c assume "(c', c) \<in> served_links file_net offset"
    then obtain block nm where b: "get_block file_net offset c = Some block" "(nm, c') \<in> set (snd (child_bytes file_net block))"
      by (auto simp: served_links_def)
    then have "block = ex_file" using file_net_serves [OF b(1)] by (auto simp: ex_leaf_children)
    then have "c' = leaf_text 255" "c \<noteq> leaf_text 255" using b leaf by (auto simp: ex_file_children)
    then show "(c', c) \<in> measure (\<lambda>c. if c = leaf_text 255 then 0 else Suc 0)" by simp
  qed
qed

definition pdf_result :: fetch_result where
  "pdf_result = (new_result ''dag-pb'')\<lparr>fr_data := ex_leaf, fr_size := Some 4, fr_ok := True\<rparr>"

lemma file_net_sniff: "sniff file_net ex_leaf [] = ''application/pdf''"
  by code_simp

lemma file_net_assemble:
  "assemble_file file_net 0 nd [] = Some ((ex_leaf, False), [])"
  if nd: "inline_data nd = []" "links nd = [(None, leaf_text 255)]" "filesize nd = Some 4"
proof -
  let ?s = "\<lparr>sf_out = [], sf_pending = [(None, leaf_text 255)], sf_used = 0, sf_mime = None, sf_names = [], sf_missing = False\<rparr>"
  let ?t = "\<lparr>sf_out = ex_leaf, sf_pending = [], sf_used = 1, sf_mime = Some ''application/pdf'', sf_names = [], sf_missing = False\<rparr>"
  have "sniff_next file_net (None, leaf_text 255) ex_leaf [] ?s = ?t"
    using file_net_sniff by (simp add: sniff_next_def link_names_def str_or_def SNIFF_MIN_def ex_leaf_def)
  then have "sniff_loop file_net 0 ?s = Some ?t"
    using sniff_loop_unfold(3) [of ?s None "leaf_text 255" "[]" file_net 0 ex_leaf ex_leaf "[]"]
    by (simp add: file_net_leaf ex_leaf_children sniff_loop_unfold(1))
  moreover have "finish_file file_net 0 nd ?t = ((ex_leaf, False), [])"
  proof -
    have "processable (Some ''application/pdf'')" by code_simp
    moreover have "n_fetch file_net = Map.empty" by (simp add: ex_net_def)
    ultimately show ?thesis
      by (simp add: finish_file_def budget_for_def nd wave_loop.simps MAX_PDF_BYTES_def cfg_get_def ex_leaf_def)
  qed
  ultimately show ?thesis by (simp add: assemble_file_def nd SNIFF_MIN_def)
qed

lemma file_net_fetch: "fetch_cid file_net (leaf_text 223) (Some ''dag-pb'') 0 = Some pdf_result"
  by (simp add: fetch_cid_def file_net_file ex_file_node str_or_def link_names_def file_net_assemble pdf_result_def
      pick_filename_def new_result_def ex_leaf_length)

theorem fetch_whole_file_witness:
  "verify_block byte_sum (leaf_text 223) (Some ex_leaf)
    \<or> (\<exists>block nd. verify_block byte_sum (leaf_text 223) (Some block) \<and> as_unixfs file_net block = Some nd \<and> file_content file_net nd ex_leaf)"
proof -
  have r: "fr_data pdf_result = ex_leaf" "fr_filename pdf_result = None" "n_sha256 file_net = byte_sum"
    by (simp_all add: pdf_result_def new_result_def ex_net_def)
  have "processable (Some (sniff_mime (n_json_ok file_net) (take 4096 (fr_data pdf_result)) None (fr_filename pdf_result)))"
    unfolding r by code_simp
  from fetch_whole_file [OF file_net_leafy _ file_net_fetch _ _ _ this] show ?thesis
    unfolding r by (simp add: SNIFF_WINDOW_def MAX_BYTES_def cfg_get_def ex_net_def pdf_result_def new_result_def)
qed

theorem fetch_cid_returns_witness: "\<exists>r. fetch_cid file_net (leaf_text 223) None 0 = Some r"
  by (rule fetch_cid_returns [OF file_net_links_wf])

subsection \<open>A doubling chain\<close>

definition fork :: "byte \<Rightarrow> bytes" where
  "fork d = [0x12, 7, 0x0a, 5, 1, 0x70, 0x12, 1, d, 0x12, 7, 0x0a, 5, 1, 0x70, 0x12, 1, d, 0x0a, 2, 8, 2]"

lemma fork_children: "child_bytes (ex_net blocks) (fork d) = ([], [(None, leaf_text d), (None, leaf_text d)])"
proof -
  have "read_fields (fork d) = Inr [(2, 2, VBytes [0x0a, 5, 1, 0x70, 0x12, 1, d]), (2, 2, VBytes [0x0a, 5, 1, 0x70, 0x12, 1, d]),
      (1, 2, VBytes [8, 2])]"
    "read_fields [0x0a, 5, 1, 0x70, 0x12, 1, d] = Inr [(1, 2, VBytes [1, 0x70, 0x12, 1, d])]"
    "read_fields [8, 2] = Inr [(1, 0, VInt 2)]"
    unfolding fork_def by code_simp+
  then show ?thesis
    by (simp add: child_bytes_def as_unixfs_def parse_dag_pb_def new_node_def set_kind_def UNIXFS_TYPES_def leaf_text_def cid_from_hash_not_Nil)
qed

lemma empty_children: "child_bytes (ex_net blocks) [] = ([], [])"
  by (simp add: child_bytes_def as_unixfs_def parse_dag_pb_def read_fields.simps new_node_def set_kind_def)

abbreviation fork_net :: net where "fork_net \<equiv> ex_net [[], fork 0, fork 110]"

definition fork_cid :: "nat \<Rightarrow> cid" where
  "fork_cid i = leaf_text (if i = 0 then 0 else if i = 1 then 110 else 74)"

lemma fork_net_blocks:
  "get_block fork_net offset (leaf_text 0) = Some []"
  "get_block fork_net offset (leaf_text 110) = Some (fork 0)"
  "get_block fork_net offset (leaf_text 74) = Some (fork 110)"
  by (simp_all add: get_leaf_text byte_sum_def fork_def)

theorem sniff_walk_exponential_witness:
  "\<exists>s'. sniff_loop fork_net 0 \<lparr>sf_out = [], sf_pending = [(None, fork_cid 2)], sf_used = 0, sf_mime = None, sf_names = [],
      sf_missing = False\<rparr> = Some s' \<and> sf_used s' = 7"
proof -
  have "\<exists>block. get_block fork_net 0 (fork_cid (Suc i)) = Some block
      \<and> child_bytes fork_net block = ([], [(None, fork_cid i), (None, fork_cid i)])" if "i < 2" for i
    using that by (auto simp: less_2_cases_iff fork_cid_def fork_net_blocks fork_children)
  from sniff_walk_exponential [of 2 fork_net 0 fork_cid, OF this] show ?thesis
    by (simp add: fork_cid_def fork_net_blocks empty_children)
qed

end
