(* ===== verification/Log.thy ===== *)
theory Log
  imports Prelude
begin

text \<open>
  Append-only line logs read in instalments: the spool files of the sniffer and the inbox files
  of clubd. A reader remembers a byte offset, takes the complete lines after it and stops at an
  incomplete one. The two readers split differently (\<open>readline\<close> at line feeds,
  \<open>bytes.splitlines\<close> also at carriage returns); what they rely on is the locale \<open>line_log\<close>.
\<close>

section \<open>Splitting\<close>

abbreviation LF :: byte where "LF \<equiv> 10"
abbreviation CR :: byte where "CR \<equiv> 13"

text \<open>The lines that repeated calls of \<open>readline\<close> return.\<close>

fun read_all_lines :: "bytes \<Rightarrow> bytes list" where
  "read_all_lines [] = []"
| "read_all_lines (b # bs) =
     (if b = LF then [b] # read_all_lines bs
      else (case read_all_lines bs of [] \<Rightarrow> [[b]] | l # ls \<Rightarrow> (b # l) # ls))"

text \<open>\<open>bytes.splitlines(keepends=True)\<close>.\<close>

fun splitlines_keep :: "bytes \<Rightarrow> bytes list" where
  "splitlines_keep [] = []"
| "splitlines_keep (b # bs) =
     (if b = LF then [b] # splitlines_keep bs
      else if b = CR then
        (case bs of
           c # cs \<Rightarrow> if c = LF then [b, c] # splitlines_keep cs else [b] # splitlines_keep bs
         | [] \<Rightarrow> [[b]])
      else (case splitlines_keep bs of [] \<Rightarrow> [[b]] | l # ls \<Rightarrow> (b # l) # ls))"

definition complete_line :: "bytes \<Rightarrow> bool" where
  "complete_line l \<longleftrightarrow> py_endswith l [LF]"

lemma complete_line_iff: "complete_line l \<longleftrightarrow> l \<noteq> [] \<and> last l = LF"
  by (cases l rule: rev_cases) (auto simp: complete_line_def py_endswith_def)

section \<open>Reading in instalments\<close>

text \<open>
  Handling lines one after the other: \<open>step l off s\<close> handles the line \<open>l\<close> that ends at offset
  \<open>off\<close>. An exception stops the reader with the state it has reached.
\<close>

fun run_lines :: "(bytes \<Rightarrow> nat \<Rightarrow> 's \<Rightarrow> unit res \<times> 's) \<Rightarrow> bytes list \<Rightarrow> nat \<Rightarrow> 's \<Rightarrow> nat res \<times> 's" where
  "run_lines step [] off s = (Inr off, s)"
| "run_lines step (l # ls) off s =
     (case step l (off + length l) s of
        (Inl e, s') \<Rightarrow> (Inl e, s')
      | (Inr u, s') \<Rightarrow> run_lines step ls (off + length l) s')"

lemma run_lines_append:
  "run_lines step (xs @ ys) off s =
     (case run_lines step xs off s of (Inl e, s') \<Rightarrow> (Inl e, s') | (Inr off', s') \<Rightarrow> run_lines step ys off' s')"
  by (induction xs arbitrary: off s) (auto split: prod.splits sum.splits)

lemma run_lines_offset: "run_lines step xs off s = (Inr off', s') \<Longrightarrow> off' = off + length (concat xs)"
  by (induction xs arbitrary: off s) (fastforce split: prod.splits sum.splits)+

lemma run_lines_inv:
  assumes "\<And>l off s. l \<in> set ls \<Longrightarrow> I s \<Longrightarrow> I (snd (step l off s))" "I s"
  shows "I (snd (run_lines step ls off s))"
  using assms
proof (induction ls arbitrary: off s)
  case (Cons l ls)
  have "I (snd (step l (off + length l) s))" using Cons.prems by simp
  moreover have "I s' \<Longrightarrow> I (snd (run_lines step ls off' s'))" for s' off'
    using Cons.IH Cons.prems(1) by simp
  ultimately show ?case
    by (cases "step l (off + length l) s") (auto split: sum.splits)
qed simp

definition drain_file :: "(bytes \<Rightarrow> bytes list) \<Rightarrow> (bytes \<Rightarrow> nat \<Rightarrow> 's \<Rightarrow> unit res \<times> 's) \<Rightarrow>
    bytes \<Rightarrow> nat \<Rightarrow> 's \<Rightarrow> nat res \<times> 's" where
  "drain_file split step content off s =
     run_lines step (takeWhile complete_line (split (drop off content))) off s"

locale line_log =
  fixes split :: "bytes \<Rightarrow> bytes list"
  assumes concat_split: "concat (split A) = A"
    and split_ne: "[] \<notin> set (split A)"
    and split_append: "C = [] \<or> last C = LF \<Longrightarrow> split (C @ D) = split C @ split D"
begin

definition consumed :: "bytes \<Rightarrow> bytes" where
  "consumed A = concat (takeWhile complete_line (split A))"

lemma consumed_end: "consumed A = [] \<or> last (consumed A) = LF"
proof (cases "takeWhile complete_line (split A)" rule: rev_cases)
  case (snoc ls l)
  then have "complete_line l" using set_takeWhileD [of l complete_line "split A"] by auto
  then have "l \<noteq> []" "last l = LF" by (simp_all add: complete_line_iff)
  then show ?thesis using snoc by (simp add: consumed_def)
qed (simp add: consumed_def)

lemma prefix_same_concat:
  "xs @ us = ys @ vs \<Longrightarrow> concat xs = concat ys \<Longrightarrow> [] \<notin> set (xs @ us) \<Longrightarrow> xs = ys"
proof (induction xs arbitrary: ys)
  case Nil
  then show ?case by (cases ys) auto
next
  case (Cons x xs)
  then show ?case by (cases ys) auto
qed

lemma split_consumed: "split (consumed A) = takeWhile complete_line (split A)"
proof -
  let ?T = "takeWhile complete_line (split A)" let ?D = "concat (dropWhile complete_line (split A))"
  have A: "A = consumed A @ ?D"
    unfolding consumed_def by (metis concat_append concat_split takeWhile_dropWhile_id)
  have "split A = split (consumed A) @ split ?D" using split_append [OF consumed_end] A by metis
  then have "split (consumed A) @ split ?D = ?T @ dropWhile complete_line (split A)" by simp
  then show ?thesis
    by (rule prefix_same_concat) (use split_ne in \<open>auto simp: concat_split consumed_def\<close>)
qed

lemma consumed_prefix: "consumed A @ drop (length (consumed A)) A = A"
  unfolding consumed_def
  by (metis append_eq_conv_conj concat_append concat_split takeWhile_dropWhile_id)

lemma split_resume:
  "split (A @ B) = takeWhile complete_line (split A) @ split (drop (length (consumed A)) (A @ B))"
proof -
  let ?R = "drop (length (consumed A)) (A @ B)"
  have "A @ B = consumed A @ ?R"
    using consumed_prefix [of A]
    by (metis append.assoc append_eq_conv_conj)
  then show ?thesis using split_append [OF consumed_end] split_consumed by metis
qed

lemma complete_append:
  "takeWhile complete_line (split (A @ B)) =
   takeWhile complete_line (split A) @ takeWhile complete_line (split (drop (length (consumed A)) (A @ B)))"
  by (metis (no_types, lifting) split_resume takeWhile_append2 set_takeWhileD)

lemma run_complete_offset:
  "run_lines step (takeWhile complete_line (split A)) off s = (Inr off', s') \<Longrightarrow> off' = off + length (consumed A)"
  by (drule run_lines_offset) (simp add: consumed_def)

text \<open>Reading what there is and reading on later is reading everything at once.\<close>

lemma drain_resume:
  "drain_file split step (A @ B) 0 s =
     (case drain_file split step A 0 s of
        (Inl e, s') \<Rightarrow> (Inl e, s')
      | (Inr off, s') \<Rightarrow> drain_file split step (A @ B) off s')"
proof (cases "drain_file split step A 0 s")
  case (Pair r s')
  have whole: "drain_file split step (A @ B) 0 s =
      run_lines step (takeWhile complete_line (split A)
        @ takeWhile complete_line (split (drop (length (consumed A)) (A @ B)))) 0 s"
    by (simp only: drain_file_def drop_0 complete_append)
  have first: "run_lines step (takeWhile complete_line (split A)) 0 s = (r, s')"
    using Pair by (simp add: drain_file_def)
  show ?thesis
  proof (cases r)
    case (Inr off)
    have "off = length (consumed A)"
      using run_lines_offset [of step _ 0 s off s'] first Inr by (simp add: consumed_def)
    then show ?thesis
      unfolding whole run_lines_append first using Pair Inr by (simp add: drain_file_def)
  next
    case (Inl e)
    then show ?thesis unfolding whole run_lines_append first using Pair by simp
  qed
qed

end

section \<open>Both readers are line logs\<close>

lemma read_all_lines_Nil: "read_all_lines C = [] \<longleftrightarrow> C = []"
  by (cases C) (auto split: list.splits)

lemma read_all_lines_append:
  "C = [] \<or> last C = LF \<Longrightarrow> read_all_lines (C @ D) = read_all_lines C @ read_all_lines D"
proof (induction C)
  case (Cons b C)
  show ?case
  proof (cases "C = []")
    case False
    then obtain l ls where "read_all_lines C = l # ls" using read_all_lines_Nil by (cases "read_all_lines C") auto
    then show ?thesis using Cons False by simp
  qed (use Cons in simp)
qed simp

interpretation inbox_log: line_log read_all_lines
proof
  show "concat (read_all_lines A) = A" for A by (induction A) (auto split: list.splits)
  show "[] \<notin> set (read_all_lines A)" for A by (induction A) (auto split: list.splits)
qed (rule read_all_lines_append)

lemma splitlines_Nil: "splitlines_keep C = [] \<longleftrightarrow> C = []"
  by (cases C) (auto split: list.splits)

lemma splitlines_keep_append:
  "C = [] \<or> last C = LF \<Longrightarrow> splitlines_keep (C @ D) = splitlines_keep C @ splitlines_keep D"
proof (induction C rule: splitlines_keep.induct)
  case (2 b bs)
  note IH = 2(1-4) and prem = 2(5)
  consider "b = LF" | "b = CR" "bs = []" | c cs where "b = CR" "bs = c # cs" "c = LF"
    | c cs where "b = CR" "bs = c # cs" "c \<noteq> LF" | "b \<noteq> LF" "b \<noteq> CR" by (cases bs) auto
  then show ?case
  proof cases
    case 1
    then show ?thesis using IH(1) prem by (cases "bs = []") auto
  next
    case 2
    then show ?thesis using prem by simp
  next
    case 3
    then show ?thesis using IH(2) [of c cs] prem by (cases "cs = []") auto
  next
    case 4
    then have "splitlines_keep (bs @ D) = splitlines_keep bs @ splitlines_keep D" using IH(3) [of c cs] prem by auto
    then show ?thesis using 4 by simp
  next
    case 5
    then have ne: "bs \<noteq> []" and eq: "splitlines_keep (bs @ D) = splitlines_keep bs @ splitlines_keep D"
      using IH(4) prem by (auto split: if_splits)
    obtain l ls where "splitlines_keep bs = l # ls" using ne splitlines_Nil by (cases "splitlines_keep bs") auto
    then show ?thesis using 5 eq by simp
  qed
qed simp

lemma splitlines_concat: "concat (splitlines_keep A) = A \<and> [] \<notin> set (splitlines_keep A)"
proof (induction A rule: splitlines_keep.induct)
  case (2 b bs)
  consider "b = LF" | "b = CR" "bs = []" | c cs where "b = CR" "bs = c # cs" "c = LF"
    | c cs where "b = CR" "bs = c # cs" "c \<noteq> LF" | "b \<noteq> LF" "b \<noteq> CR" by (cases bs) auto
  then show ?case
  proof cases
    case 5
    then have "concat (splitlines_keep bs) = bs" "[] \<notin> set (splitlines_keep bs)" using 2(4) by auto
    then show ?thesis using 5 by (cases "splitlines_keep bs") auto
  next
    case (4 c cs)
    then have "concat (splitlines_keep bs) = bs" "[] \<notin> set (splitlines_keep bs)" using 2(3) [of c cs] by auto
    then show ?thesis using 4 by simp
  qed (use 2(1,2) in simp_all)
qed simp

interpretation spool_log: line_log splitlines_keep
  using splitlines_concat by unfold_locales (auto intro: splitlines_keep_append)

end
