(* ===== verification/Spool.thy ===== *)
theory Spool
  imports Store_Laws Log
begin

text \<open>
  \<open>observer/spool.py\<close>: importing the sniffer's spool files into the work queue. A spool file is
  its path and its bytes; \<open>loads\<close> is \<open>json.loads\<close> (None where it raises ValueError) and
  \<open>utf8\<close> is \<open>bytes.decode("utf-8", errors="replace")\<close>. The work database is in autocommit
  mode, so what a line has written stays when a later line raises.
\<close>

section \<open>One record\<close>

definition SKIP_CODECS :: "string list" where
  "SKIP_CODECS = [''libp2p-key'', ''json'', ''dag-json'', ''dag-cbor'']"

definition COMMIT_EVERY :: int where "COMMIT_EVERY = 50"

text \<open>\<open>float(v)\<close>.\<close>

definition to_float :: "env \<Rightarrow> json \<Rightarrow> time res" where
  "to_float E v =
     (case v of
        JNull \<Rightarrow> Inl TypeError
      | JBool b \<Rightarrow> Inr (if b then 1 else 0)
      | JInt n \<Rightarrow> if \<bar>n\<bar> < 2 ^ 1024 - 2 ^ 970 then Inr (of_int n) else Inl OverflowError
      | JStr s \<Rightarrow> (case e_float_str E s of None \<Rightarrow> Inl ValueError | Some x \<Rightarrow> Inr x)
      | JList xs \<Rightarrow> Inl TypeError
      | JObj kvs \<Rightarrow> Inl TypeError)"

text \<open>\<open>cid_peers\<close> has no rowid, so its key columns refuse NULL and the insert is ignored.\<close>

definition note_peer :: "cid \<Rightarrow> string option \<Rightarrow> queue \<Rightarrow> queue" where
  "note_peer c peer q =
     (case peer of
        None \<Rightarrow> q
      | Some p \<Rightarrow> q\<lparr>cid_peers := insert_or_ignore (\<lambda>x. x) (c, p) (cid_peers q)\<rparr>)"

definition peer_total :: "cid \<Rightarrow> queue \<Rightarrow> int" where
  "peer_total c q = sql_count (\<lambda>p. fst p = c) (cid_peers q)"

definition lane_full :: "intcfg \<Rightarrow> string \<Rightarrow> queue \<Rightarrow> bool" where
  "lane_full F codec q \<longleftrightarrow>
     (if codec = ''dag-pb'' then \<not> pdf_can_admit F q \<or> dir_queue_count q \<ge> max_dir_queue F
      else \<not> html_can_admit F q)"

definition record_want :: "env \<Rightarrow> cid \<Rightarrow> json \<Rightarrow> time \<Rightarrow> queue \<Rightarrow> (int \<times> int) res \<times> queue" where
  "record_want E c peer ts q =
     (case text_col peer of
        Inl e \<Rightarrow> (Inl e, q)
      | Inr p \<Rightarrow>
          let q2 = note_peer c p q; peer_n = peer_total c q2; codec = codec_of c in
          if has_key r_cid c (cids q2) then
            (Inr (1, 0),
             q2\<lparr>cids := sql_update (\<lambda>r. r_cid r = c)
                 (\<lambda>r. r\<lparr>r_last_seen := max (r_last_seen r) (e_now E), r_want_count := r_want_count r + 1,
                        r_peer_count := peer_n\<rparr>) (cids q2)\<rparr>)
          else if codec \<noteq> ''dag-pb'' \<and> peer_n < prefer_min_peer_count (e_fetch E) then (Inr (0, 1), q2)
          else if lane_full (e_fetch E) codec q2 then (Inr (0, 1), q2)
          else (Inr (1, 0), q2\<lparr>cids := cids q2 @ [new_row c codec ts (e_now E) peer_n peer_n Sniff None]\<rparr>))"

definition record_cid :: "env \<Rightarrow> cid \<Rightarrow> json \<Rightarrow> time \<Rightarrow> queue \<Rightarrow> (int \<times> int) res \<times> queue" where
  "record_cid E c peer ts q =
     (if codec_of c \<in> set SKIP_CODECS then (Inr (0, 1), q)
      else if is_unprocessable c q then (Inr (0, 1), q)
      else
        let q1 = q\<lparr>seen_cids := insert_or_ignore fst (c, ts) (seen_cids q)\<rparr> in
        case sql_get e_cid c (evicted q1) of
          None \<Rightarrow> record_want E c peer ts q1
        | Some ev \<Rightarrow>
            if peer_total c q1 + 1 \<le> e_peer_count ev then
              (case text_col peer of
                 Inl e \<Rightarrow> (Inl e, q1)
               | Inr p \<Rightarrow> (Inr (0, 1), note_peer c p q1))
            else record_want E c peer ts (q1\<lparr>evicted := sql_delete (\<lambda>r. e_cid r = c) (evicted q1)\<rparr>))"

definition record_line :: "env \<Rightarrow> (string \<Rightarrow> json option) \<Rightarrow> string \<Rightarrow> queue \<Rightarrow> (int \<times> int) res \<times> queue" where
  "record_line E loads txt q =
     (let line = py_strip txt in
      if line = [] then (Inr (0, 0), q)
      else
        case loads line of
          None \<Rightarrow> (Inr (0, 0), q)
        | Some (JObj rec) \<Rightarrow>
            (case (map_of rec ''cid'', map_of rec ''peer'', map_of rec ''ts'') of
               (Some c, Some peer, Some ts) \<Rightarrow>
                 (case to_float E ts of
                    Inl ValueError \<Rightarrow> (Inr (0, 0), q)
                  | Inl e \<Rightarrow> (Inl e, q)
                  | Inr t \<Rightarrow>
                      (case c of
                         JStr s \<Rightarrow> if valid s then record_cid E s peer t q else (Inr (0, 1), q)
                       | _ \<Rightarrow> (Inr (0, 1), q)))
             | _ \<Rightarrow> (Inr (0, 0), q))
        | Some v \<Rightarrow> (Inl TypeError, q))"

section \<open>One file\<close>

definition spool_offset :: "string \<Rightarrow> nat \<Rightarrow> queue \<Rightarrow> nat" where
  "spool_offset path sz q =
     (case sql_get fst path (spool_offsets q) of
        None \<Rightarrow> 0
      | Some row \<Rightarrow> if snd row \<le> int sz then nat (snd row) else 0)"

definition put_offset :: "string \<Rightarrow> nat \<Rightarrow> (string \<times> int) list \<Rightarrow> (string \<times> int) list" where
  "put_offset path off t =
     (if has_key fst path t then sql_update (\<lambda>r. fst r = path) (\<lambda>r. (fst r, int off)) t
      else t @ [(path, int off)])"

definition save_offset :: "string \<Rightarrow> nat \<Rightarrow> queue \<Rightarrow> queue" where
  "save_offset path off q = q\<lparr>spool_offsets := put_offset path off (spool_offsets q)\<rparr>"

text \<open>
  The \<open>cid\<close> that \<open>ingest_file\<close> reads ahead of \<open>_record\<close>: a blank line counts as \<open>{}\<close>, bad JSON
  gives None, and \<open>.get\<close> on another JSON value raises AttributeError.
\<close>

definition peek_cid :: "(string \<Rightarrow> json option) \<Rightarrow> string \<Rightarrow> json res" where
  "peek_cid loads txt =
     (let line = py_strip txt in
      if line = [] then Inr JNull
      else case loads line of
        None \<Rightarrow> Inr JNull
      | Some (JObj rec) \<Rightarrow> Inr (jget rec ''cid'')
      | Some v \<Rightarrow> Inl AttributeError)"

text \<open>\<open>cid and store.already_catalogued(cid)\<close>: a value sqlite3 refuses to bind is not catalogued.\<close>

definition catalogued_value :: "env \<Rightarrow> catalog \<Rightarrow> json \<Rightarrow> bool res" where
  "catalogued_value E db v =
     (if \<not> truthy v then Inr False
      else case text_col v of
        Inl OverflowError \<Rightarrow> Inl OverflowError
      | Inl e \<Rightarrow> Inr False
      | Inr c \<Rightarrow> Inr (already_catalogued E db (str_or c [])))"

text \<open>The loop's state: inserted, skipped, pending, and the queue.\<close>

type_synonym spool_state = "int \<times> int \<times> int \<times> queue"

definition count_line :: "string \<Rightarrow> nat \<Rightarrow> int \<times> int \<Rightarrow> spool_state \<Rightarrow> spool_state" where
  "count_line path off ns s =
     (case s of (ins, sk, pending, q) \<Rightarrow>
        if pending + 1 \<ge> COMMIT_EVERY then (ins + fst ns, sk + snd ns, 0, save_offset path off q)
        else (ins + fst ns, sk + snd ns, pending + 1, q))"

definition spool_line :: "env \<Rightarrow> (string \<Rightarrow> json option) \<Rightarrow> (bytes \<Rightarrow> string) \<Rightarrow> catalog \<Rightarrow> string \<Rightarrow>
    bytes \<Rightarrow> nat \<Rightarrow> spool_state \<Rightarrow> unit res \<times> spool_state" where
  "spool_line E loads utf8 db path line off s =
     (case s of (ins, sk, pending, q) \<Rightarrow>
       (case res_bind (peek_cid loads (utf8 line)) (catalogued_value E db) of
          Inl e \<Rightarrow> (Inl e, s)
        | Inr True \<Rightarrow> (Inr (), count_line path off (0, 1) s)
        | Inr False \<Rightarrow>
            (case record_line E loads (utf8 line) q of
               (Inl e, q') \<Rightarrow> (Inl e, ins, sk, pending, q')
             | (Inr ns, q') \<Rightarrow> (Inr (), count_line path off ns (ins, sk, pending, q')))))"

definition ingest_file :: "env \<Rightarrow> (string \<Rightarrow> json option) \<Rightarrow> (bytes \<Rightarrow> string) \<Rightarrow> catalog \<Rightarrow> string \<Rightarrow>
    bytes \<Rightarrow> bool \<Rightarrow> queue \<Rightarrow> (int \<times> int) res \<times> queue" where
  "ingest_file E loads utf8 db path content final q =
     (let off = spool_offset path (length content) q;
          ls = splitlines_keep (drop off content)
      in case run_lines (spool_line E loads utf8 db path)
                (if final then ls else takeWhile complete_line ls) off (0, 0, 0, q) of
           (Inl e, _, _, _, q') \<Rightarrow> (Inl e, q')
         | (Inr off', ins, sk, _, q') \<Rightarrow> (Inr (ins, sk), save_offset path off' q'))"

section \<open>One cycle\<close>

text \<open>
  The spool directory as the sorted list of its files. All but the newest are complete: they are
  imported to the end, removed, and their offset forgotten; a file whose import raises stays.
\<close>

type_synonym spool_dir = "(string \<times> bytes) list"

fun ingest_closed :: "env \<Rightarrow> (string \<Rightarrow> json option) \<Rightarrow> (bytes \<Rightarrow> string) \<Rightarrow> catalog \<Rightarrow> spool_dir \<Rightarrow>
    int \<Rightarrow> queue \<Rightarrow> int \<times> spool_dir \<times> queue" where
  "ingest_closed E loads utf8 db [] n q = (n, [], q)"
| "ingest_closed E loads utf8 db ((path, content) # fs) n q =
     (case ingest_file E loads utf8 db path content True q of
        (Inl e, q') \<Rightarrow>
          (case ingest_closed E loads utf8 db fs n q' of (m, kept, q'') \<Rightarrow> (m, (path, content) # kept, q''))
      | (Inr (ins, sk), q') \<Rightarrow>
          ingest_closed E loads utf8 db fs (n + ins)
            (q'\<lparr>spool_offsets := sql_delete (\<lambda>r. fst r = path) (spool_offsets q')\<rparr>))"

definition spool_run_once :: "env \<Rightarrow> (string \<Rightarrow> json option) \<Rightarrow> (bytes \<Rightarrow> string) \<Rightarrow> catalog \<Rightarrow> spool_dir \<Rightarrow>
    queue \<Rightarrow> int \<times> spool_dir \<times> queue" where
  "spool_run_once E loads utf8 db files q =
     (if files = [] then (0, [], q)
      else
        case ingest_closed E loads utf8 db (butlast files) 0 q of (n, kept, q1) \<Rightarrow>
          (case ingest_file E loads utf8 db (fst (last files)) (snd (last files)) False q1 of
             (Inl e, q2) \<Rightarrow> (n, kept @ [last files], q2)
           | (Inr (ins, sk), q2) \<Rightarrow> (n + ins, kept @ [last files], q2)))"


section \<open>What one line does to the queue\<close>

definition want_again :: "time \<Rightarrow> int \<Rightarrow> wrow \<Rightarrow> wrow" where
  "want_again now n r =
     r\<lparr>r_last_seen := max (r_last_seen r) now, r_want_count := r_want_count r + 1, r_peer_count := n\<rparr>"

text \<open>
  The three effects on the table \<open>cids\<close>: none, a repeated want, or a new row that passed the raw
  hold and found room in its lane.
\<close>

inductive want_step :: "env \<Rightarrow> (cid \<Rightarrow> int) \<Rightarrow> wrow list \<Rightarrow> wrow list \<Rightarrow> bool" for E peers t where
  same: "want_step E peers t t"
| again: "want_step E peers t (sql_update (\<lambda>r. r_cid r = c) (want_again (e_now E) (peers c)) t)"
| new: "valid c \<Longrightarrow> codec_of c \<notin> set SKIP_CODECS \<Longrightarrow> \<not> has_key r_cid c t
    \<Longrightarrow> codec_of c = ''dag-pb'' \<or> prefer_min_peer_count (e_fetch E) \<le> peers c \<Longrightarrow> cids q = t
    \<Longrightarrow> \<not> lane_full (e_fetch E) (codec_of c) q
    \<Longrightarrow> want_step E peers t (t @ [new_row c (codec_of c) ts (e_now E) (peers c) (peers c) Sniff None])"

text \<open>What a line leaves alone, and that it keeps the small tables' keys.\<close>

definition side_ok :: "queue \<Rightarrow> queue \<Rightarrow> bool" where
  "side_ok q q' \<longleftrightarrow> spool_offsets q' = spool_offsets q \<and> unprocessable q' = unprocessable q
     \<and> (distinct (cid_peers q) \<longrightarrow> distinct (cid_peers q')) \<and> (pk e_cid (evicted q) \<longrightarrow> pk e_cid (evicted q'))
     \<and> (pk fst (seen_cids q) \<longrightarrow> pk fst (seen_cids q'))
     \<and> (\<forall>c. peer_total c q \<le> peer_total c q')"

lemma side_ok_refl: "side_ok q q"
  by (simp add: side_ok_def)

lemma side_ok_trans: "side_ok q q' \<Longrightarrow> side_ok q' q'' \<Longrightarrow> side_ok q q''"
  unfolding side_ok_def by (metis order_trans)

lemma peer_total_cids [simp]: "peer_total c (q\<lparr>cids := t\<rparr>) = peer_total c q"
  by (simp add: peer_total_def)

lemma cids_note_peer [simp]: "cids (note_peer c p q) = cids q"
  by (simp add: note_peer_def split: option.splits)

lemma distinct_pk: "distinct t = pk (\<lambda>x. x) t"
  by (simp add: pk_def)

lemma side_ok_note_peer: "side_ok q (note_peer c p q)"
  by (auto simp: side_ok_def note_peer_def distinct_pk peer_total_def insert_or_ignore_def sql_count_def
      split: option.splits intro!: pk_append)

lemma side_ok_cids: "side_ok q (q'\<lparr>cids := t\<rparr>) = side_ok q q'"
  by (simp add: side_ok_def)

lemma peer_total_nonneg: "0 \<le> peer_total c q"
  by (simp add: peer_total_def)

lemma record_want_step:
  assumes "record_want E c peer ts q = (res, q')" "valid c" "codec_of c \<notin> set SKIP_CODECS"
  shows "want_step E (\<lambda>c. peer_total c q') (cids q) (cids q') \<and> side_ok q q'"
proof (cases "text_col peer")
  case (Inl e)
  then show ?thesis using assms(1) by (auto simp: record_want_def side_ok_refl intro: want_step.same)
next
  case (Inr p)
  let ?q2 = "note_peer c p q"
  show ?thesis
    using assms Inr side_ok_note_peer [of q c p] want_step.again [of E "\<lambda>c. peer_total c ?q2" "cids q" c]
      want_step.new [of c "cids q" E "\<lambda>c. peer_total c ?q2" ?q2 ts] want_step.same
    by (auto simp: record_want_def Let_def side_ok_cids want_again_def [abs_def] split: if_splits)
qed

lemma record_cid_step:
  assumes "record_cid E c peer ts q = (res, q')" "valid c"
  shows "want_step E (\<lambda>c. peer_total c q') (cids q) (cids q') \<and> side_ok q q'"
proof -
  let ?q1 = "q\<lparr>seen_cids := insert_or_ignore fst (c, ts) (seen_cids q)\<rparr>"
  let ?q2 = "?q1\<lparr>evicted := sql_delete (\<lambda>r. e_cid r = c) (evicted ?q1)\<rparr>"
  have s1: "side_ok q ?q1" and s2: "side_ok q ?q2" by (auto simp: side_ok_def peer_total_def)
  consider "q' = q" | "q' = ?q1" | p where "q' = note_peer c p ?q1"
    | "codec_of c \<notin> set SKIP_CODECS" "record_want E c peer ts ?q1 = (res, q')"
    | "codec_of c \<notin> set SKIP_CODECS" "record_want E c peer ts ?q2 = (res, q')"
    using assms(1) by (auto simp: record_cid_def Let_def split: if_splits option.splits sum.splits)
  then show ?thesis
  proof cases
    case 3
    then show ?thesis using side_ok_trans [OF s1 side_ok_note_peer] by (simp add: want_step.same)
  next
    case 4
    then show ?thesis using record_want_step [OF 4(2) assms(2) 4(1)] side_ok_trans [OF s1] by simp
  next
    case 5
    then show ?thesis using record_want_step [OF 5(2) assms(2) 5(1)] side_ok_trans [OF s2] by simp
  qed (use s1 in \<open>simp_all add: want_step.same side_ok_refl\<close>)
qed

lemma record_line_step:
  assumes "record_line E loads txt q = (res, q')"
  shows "want_step E (\<lambda>c. peer_total c q') (cids q) (cids q') \<and> side_ok q q'"
proof -
  consider "q' = q" | s peer t where "valid s" "record_cid E s peer t q = (res, q')"
    using assms
    by (auto simp: record_line_def Let_def split: if_splits option.splits json.splits sum.splits pyerr.splits)
  then show ?thesis
    by cases (auto simp: want_step.same side_ok_refl dest: record_cid_step)
qed


section \<open>Invariants of an import\<close>

lemma wf_side:
  assumes "wf_queue q" "side_ok q q'" "cids q' = cids q"
  shows "wf_queue q'"
  using assms by (auto simp: wf_queue_def side_ok_def)

lemma peers_nonneg: "want_step E (\<lambda>c. peer_total c q') t t' \<Longrightarrow> list_all row_ok t \<Longrightarrow> list_all row_ok t'"
  by (erule want_step.cases)
    (auto simp: list_all_iff row_ok_def want_again_def peer_total_nonneg new_row_def elim!: in_updateE)

lemma wf_record_line [wfq]:
  assumes "wf_queue q"
  shows "wf_queue (snd (record_line E loads txt q))"
proof -
  obtain res q' where eq: "record_line E loads txt q = (res, q')" by fastforce
  note step = record_line_step [OF eq]
  have "pk r_cid (cids q')"
    using step wf_queue_pk [OF assms]
    by (auto elim!: want_step.cases intro!: pk_update pk_append simp: want_again_def)
  moreover have "list_all row_ok (cids q')"
    using peers_nonneg [OF step [THEN conjunct1]] assms by (simp add: wf_queue_def)
  ultimately show ?thesis using eq assms step by (simp add: wf_queue_def side_ok_def)
qed

lemma wf_save_offset [wfq]: "wf_queue q \<Longrightarrow> wf_queue (save_offset path off q)"
  by (auto simp: wf_queue_def save_offset_def put_offset_def intro!: pk_update pk_append)

lemma cids_save_offset [simp]: "cids (save_offset path off q) = cids q" "peer_total c (save_offset path off q) = peer_total c q"
  by (simp_all add: save_offset_def peer_total_def)

text \<open>
  An invariant of the queue that saving an offset and recording a line keep is kept by the import
  of a file and by a whole cycle.
\<close>

definition queue_of :: "spool_state \<Rightarrow> queue" where
  "queue_of s = snd (snd (snd s))"

lemma queue_of_count_line: "queue_of (count_line path off ns s) = queue_of s
    \<or> queue_of (count_line path off ns s) = save_offset path off (queue_of s)"
  by (auto simp: count_line_def queue_of_def split: prod.splits)

locale import_inv =
  fixes E :: env and loads :: "string \<Rightarrow> json option" and I :: "queue \<Rightarrow> bool"
  assumes save: "I q \<Longrightarrow> I (save_offset path off q)"
    and rec: "I q \<Longrightarrow> I (snd (record_line E loads x q))"
    and gone: "I q \<Longrightarrow> I (q\<lparr>spool_offsets := sql_delete (\<lambda>r. fst r = path) (spool_offsets q)\<rparr>)"
begin

lemma line:
  assumes "I (queue_of s)"
  shows "I (queue_of (snd (spool_line E loads utf8 db path line off s)))"
proof -
  obtain ins sk pending q where s: "s = (ins, sk, pending, q)" by (cases s) auto
  obtain res q' where r: "record_line E loads (utf8 line) q = (res, q')" by fastforce
  have "I q" "I q'" using assms rec [of q "utf8 line"] r by (simp_all add: s queue_of_def)
  moreover have "I (queue_of s') \<Longrightarrow> I (queue_of (count_line path off ns s'))" for ns s'
    using queue_of_count_line [of path off ns s'] save by auto
  ultimately show ?thesis
    by (auto simp: spool_line_def s r queue_of_def split: sum.splits bool.splits)
qed

lemma one_file: "I q \<Longrightarrow> I (snd (ingest_file E loads utf8 db path content final q))"
proof -
  assume q: "I q"
  have "I (queue_of (snd (run_lines (spool_line E loads utf8 db path) ls off (0, 0, 0, q))))" for ls off
    by (rule run_lines_inv [of _ "\<lambda>s. I (queue_of s)"])
      (use q in \<open>auto simp: queue_of_def intro: line [unfolded queue_of_def]\<close>)
  from this [of "if final then splitlines_keep (drop (spool_offset path (length content) q) content)
      else takeWhile complete_line (splitlines_keep (drop (spool_offset path (length content) q) content))"
      "spool_offset path (length content) q"]
  show ?thesis by (auto simp: ingest_file_def Let_def queue_of_def save split: prod.splits sum.splits)
qed

lemma closed_files: "I q \<Longrightarrow> I (snd (snd (ingest_closed E loads utf8 db fs n q)))"
proof (induction fs arbitrary: n q)
  case (Cons f fs)
  obtain path content where f: "f = (path, content)" by fastforce
  obtain res q' where eq: "ingest_file E loads utf8 db path content True q = (res, q')" by fastforce
  have "I q'" using one_file [OF Cons.prems, of utf8 db path content True] eq by simp
  then show ?case
    using Cons.IH gone eq by (auto simp: f split: sum.splits prod.splits) (metis snd_conv)
qed simp

lemma cycle:
  assumes "I q"
  shows "I (snd (snd (spool_run_once E loads utf8 db files q)))"
proof (cases "files = []")
  case False
  obtain n kept q1 where eq: "ingest_closed E loads utf8 db (butlast files) 0 q = (n, kept, q1)"
    using prod_cases3 by blast
  then have "I q1" using closed_files [OF assms] by (metis snd_conv)
  then show ?thesis
    using False eq one_file [of q1 utf8 db "fst (last files)" "snd (last files)" False]
    by (auto simp: spool_run_once_def split: sum.splits prod.splits)
qed (simp add: spool_run_once_def assms)

end

interpretation wf_import: import_inv E loads wf_queue for E loads
proof unfold_locales
  show "wf_queue (q\<lparr>spool_offsets := sql_delete (\<lambda>r. fst r = path) (spool_offsets q)\<rparr>)" if "wf_queue q" for q path
    using that by (auto simp: wf_queue_def)
qed (auto intro: wfq)

lemmas [wfq] = wf_import.one_file wf_import.closed_files wf_import.cycle

section \<open>What an import admits\<close>

lemma sql_count_append: "sql_count P (t @ [r]) = sql_count P t + (if P r then 1 else 0)"
  by (simp add: sql_count_def)

lemma sql_count_want_again:
  assumes "\<And>r. P (want_again now n r) = P r"
  shows "sql_count P (sql_update Q (want_again now n) t) = sql_count P t"
  by (induction t) (auto simp: sql_count_def sql_update_def assms)

lemmas lane_defs = live_def pdf_lane_def html_lane_def probe_sql_def keep_src_def named_pdf_file_def

lemma lanes_want_again:
  "live (want_again now n r) = live r" "pdf_lane (want_again now n r) = pdf_lane r"
  "html_lane (want_again now n r) = html_lane r" "probe_sql (want_again now n r) = probe_sql r"
  by (simp_all add: want_again_def lane_defs)

lemma lanes_new_row:
  "live (new_row c cd ts now n m Sniff None)"
  "pdf_lane (new_row c cd ts now n m Sniff None) = (cd = ''dag-pb'')"
  "html_lane (new_row c cd ts now n m Sniff None) = (cd \<noteq> ''dag-pb'')"
  "probe_sql (new_row c cd ts now n m Sniff None) = (cd = ''dag-pb'')"
  by (auto simp: new_row_def lane_defs like_suffix_def sql_lower_def py_endswith_def)

lemma pdf_room: "pdf_can_admit F q \<Longrightarrow> pdf_live_count q + 1 \<le> max_queue F"
  using sql_count_nonneg [of "\<lambda>r. live r \<and> html_lane r" "cids q"]
  unfolding pdf_can_admit_def html_live_count_def lane_cap_def by linarith

lemma html_room: "html_can_admit F q \<Longrightarrow> html_live_count q + 1 \<le> max_queue F"
  using sql_count_nonneg [of "\<lambda>r. live r \<and> pdf_lane r" "cids q"]
  unfolding html_can_admit_def pdf_live_count_def lane_cap_def by linarith

definition lanes_within :: "intcfg \<Rightarrow> queue \<Rightarrow> queue \<Rightarrow> bool" where
  "lanes_within F q0 q \<longleftrightarrow> pdf_live_count q \<le> max (pdf_live_count q0) (max_queue F)
     \<and> html_live_count q \<le> max (html_live_count q0) (max_queue F)
     \<and> dir_queue_count q \<le> max (dir_queue_count q0) (max_dir_queue F)"

lemmas count_defs = pdf_live_count_def html_live_count_def dir_queue_count_def

lemma lanes_within_step:
  assumes "want_step E peers (cids q) (cids q')" "lanes_within (e_fetch E) q0 q"
  shows "lanes_within (e_fetch E) q0 q'"
  using assms(1)
proof (cases rule: want_step.cases)
  case same
  then show ?thesis using assms(2) by (simp add: lanes_within_def count_defs)
next
  case (again c)
  then show ?thesis
    using assms(2) by (simp add: lanes_within_def count_defs sql_count_want_again lanes_want_again)
next
  case (new c qa ts)
  have same: "pdf_live_count qa = pdf_live_count q" "html_live_count qa = html_live_count q"
    "dir_queue_count qa = dir_queue_count q" using new by (simp_all add: count_defs)
  show ?thesis
    using new assms(2) same pdf_room [of "e_fetch E" qa] html_room [of "e_fetch E" qa]
    by (auto simp: lanes_within_def count_defs sql_count_append lanes_new_row lane_full_def split: if_splits)
qed

interpretation lanes_import: import_inv E loads "lanes_within (e_fetch E) q0" for E loads q0
proof unfold_locales
  show "lanes_within (e_fetch E) q0 (snd (record_line E loads x q))" if "lanes_within (e_fetch E) q0 q" for x q
    by (metis record_line_step prod.collapse lanes_within_step that)
qed (auto simp: lanes_within_def count_defs)

text \<open>
  Backpressure. However much is in the spool, a cycle never lifts a lane above \<open>max_queue\<close>
  live rows nor the unidentified directories above \<open>max_dir_queue\<close> (unless they were above before).
\<close>

theorem spool_lane_bounds:
  "pdf_live_count (snd (snd (spool_run_once E loads utf8 db files q))) \<le> max (pdf_live_count q) (max_queue (e_fetch E))
   \<and> html_live_count (snd (snd (spool_run_once E loads utf8 db files q))) \<le> max (html_live_count q) (max_queue (e_fetch E))
   \<and> dir_queue_count (snd (snd (spool_run_once E loads utf8 db files q))) \<le> max (dir_queue_count q) (max_dir_queue (e_fetch E))"
  using lanes_import.cycle [of E q q loads utf8 db files] by (simp add: lanes_within_def)

definition held_row :: "env \<Rightarrow> int \<Rightarrow> wrow \<Rightarrow> bool" where
  "held_row E n r \<longleftrightarrow> r_source r = Sniff \<and> r_status r = Discovered \<and> codec_of (r_cid r) \<notin> set SKIP_CODECS
     \<and> r_peer_count r \<le> n
     \<and> (codec_of (r_cid r) = ''dag-pb'' \<or> prefer_min_peer_count (e_fetch E) \<le> r_peer_count r)"

definition held_ok :: "env \<Rightarrow> queue \<Rightarrow> queue \<Rightarrow> bool" where
  "held_ok E q0 q \<longleftrightarrow> (\<forall>r\<in>set (cids q). \<not> has_key r_cid (r_cid r) (cids q0) \<longrightarrow>
     held_row E (peer_total (r_cid r) q) r)"

lemma held_row_mono: "held_row E n r \<Longrightarrow> n \<le> m \<Longrightarrow> held_row E m r"
  by (simp add: held_row_def)

lemma held_row_again: "held_row E n r \<Longrightarrow> n \<le> m \<Longrightarrow> held_row E m (want_again now m r)"
  by (auto simp: held_row_def want_again_def)

lemma held_step:
  assumes "want_step E (\<lambda>c. peer_total c q') (cids q) (cids q')" "side_ok q q'" "held_ok E q0 q"
  shows "held_ok E q0 q'"
  unfolding held_ok_def
proof (intro ballI impI)
  fix r assume r: "r \<in> set (cids q')" "\<not> has_key r_cid (r_cid r) (cids q0)"
  have mono: "peer_total c q \<le> peer_total c q'" for c using assms(2) by (simp add: side_ok_def)
  have old: "x \<in> set (cids q) \<Longrightarrow> r_cid x = r_cid r \<Longrightarrow> held_row E (peer_total (r_cid r) q) x" for x
    using assms(3) r(2) unfolding held_ok_def by metis
  from assms(1) show "held_row E (peer_total (r_cid r) q') r"
  proof (cases rule: want_step.cases)
    case same
    then show ?thesis using held_row_mono [OF old [of r] mono] r(1) by simp
  next
    case (again c)
    from r(1) [unfolded again] show ?thesis
    proof (rule in_updateE)
      fix x assume x: "x \<in> set (cids q)" "r_cid x = c" "r = want_again (e_now E) (peer_total c q') x"
      then have cid: "r_cid r = c" by (simp add: want_again_def)
      show ?thesis using held_row_again [OF old [of x] mono] x unfolding cid by blast
    next
      assume "r \<in> set (cids q)"
      then show ?thesis using held_row_mono [OF old [of r] mono] by simp
    qed
  next
    case (new c qa ts)
    then consider "r \<in> set (cids q)"
      | "r = new_row c (codec_of c) ts (e_now E) (peer_total c q') (peer_total c q') Sniff None"
      using r(1) by auto
    then show ?thesis
    proof cases
      case 1
      then show ?thesis using held_row_mono [OF old [of r] mono] by simp
    qed (use new in \<open>auto simp: held_row_def new_row_def\<close>)
  qed
qed

interpretation held_import: import_inv E loads "held_ok E q0" for E loads q0
proof unfold_locales
  show "held_ok E q0 (snd (record_line E loads x q))" if "held_ok E q0 q" for x q
    by (metis record_line_step prod.collapse held_step that)
qed (auto simp: held_ok_def has_key_def peer_total_def save_offset_def)



section \<open>Reading in instalments\<close>

definition with_offsets :: "(string \<times> int) list \<Rightarrow> queue \<Rightarrow> queue" where
  "with_offsets X q = q\<lparr>spool_offsets := X\<rparr>"

lemma with_offsets_simps [simp]:
  "cids (with_offsets X q) = cids q" "cid_peers (with_offsets X q) = cid_peers q"
  "evicted (with_offsets X q) = evicted q" "seen_cids (with_offsets X q) = seen_cids q"
  "unprocessable (with_offsets X q) = unprocessable q" "spool_offsets (with_offsets X q) = X"
  "with_offsets X (with_offsets Y q) = with_offsets X q" "with_offsets (spool_offsets q) q = q"
  by (simp_all add: with_offsets_def)

lemma record_want_offsets:
  "record_want E c peer ts (with_offsets X q) = apsnd (with_offsets X) (record_want E c peer ts q)"
proof -
  have note_eq: "note_peer c p (with_offsets X q) = with_offsets X (note_peer c p q)" for p
    by (simp add: note_peer_def with_offsets_def split: option.splits)
  have counts: "peer_total c (with_offsets X q') = peer_total c q'"
    "lane_full F cd (with_offsets X q') = lane_full F cd q'" for q' F cd
    by (simp_all add: peer_total_def lane_full_def pdf_can_admit_def html_can_admit_def count_defs)
  have upd: "with_offsets X q'\<lparr>cids := t\<rparr> = with_offsets X (q'\<lparr>cids := t\<rparr>)" for q' t
    by (simp add: with_offsets_def)
  show ?thesis
    by (simp add: record_want_def Let_def note_eq counts upd split: sum.splits)
qed

lemma record_cid_offsets:
  "record_cid E c peer ts (with_offsets X q) = apsnd (with_offsets X) (record_cid E c peer ts q)"
proof -
  let ?s = "\<lambda>q. q\<lparr>seen_cids := insert_or_ignore fst (c, ts) (seen_cids q)\<rparr>"
  let ?e = "\<lambda>q. q\<lparr>evicted := sql_delete (\<lambda>r. e_cid r = c) (evicted q)\<rparr>"
  have comm: "?s (with_offsets X q) = with_offsets X (?s q)" "?e (with_offsets X q') = with_offsets X (?e q')"
    "note_peer c p (with_offsets X q') = with_offsets X (note_peer c p q')"
    "peer_total c (with_offsets X q') = peer_total c q'"
    "is_unprocessable c (with_offsets X q') = is_unprocessable c q'" for p q'
    by (simp_all add: note_peer_def with_offsets_def peer_total_def is_unprocessable_def split: option.splits)
  show ?thesis
    unfolding record_cid_def Let_def comm
    by (auto simp: comm record_want_offsets split: option.splits sum.splits)
qed

lemma record_line_offsets:
  "record_line E loads s (with_offsets X q) = apsnd (with_offsets X) (record_line E loads s q)"
  by (simp add: record_line_def Let_def record_cid_offsets
      split: option.splits json.splits sum.splits pyerr.splits)

text \<open>Two offset tables that agree once an offset for \<open>path\<close> is saved.\<close>

definition agree :: "string \<Rightarrow> (string \<times> int) list \<Rightarrow> (string \<times> int) list \<Rightarrow> bool" where
  "agree path X Y \<longleftrightarrow> (\<forall>off. put_offset path off X = put_offset path off Y)"

lemma put_has_key: "has_key fst path (put_offset path off t)"
  by (induction t) (auto simp: put_offset_def has_key_def sql_update_def split: if_splits)

lemma update_no_key: "\<not> has_key fst path t \<Longrightarrow> sql_update (\<lambda>r. fst r = path) f t = t"
  by (induction t) (auto simp: has_key_def sql_update_def)

lemma put_twice: "put_offset path off (put_offset path off' t) = put_offset path off t"
proof (cases "has_key fst path t")
  case True
  then have "put_offset path off' t = sql_update (\<lambda>r. fst r = path) (\<lambda>r. (fst r, int off')) t"
    by (simp add: put_offset_def)
  moreover have "sql_update (\<lambda>r. fst r = path) (\<lambda>r. (fst r, int off)) (sql_update (\<lambda>r. fst r = path) (\<lambda>r. (fst r, int off')) t)
      = sql_update (\<lambda>r. fst r = path) (\<lambda>r. (fst r, int off)) t"
    by (simp add: sql_update_def)
  ultimately show ?thesis
    using True put_has_key [of path off' t] by (simp add: put_offset_def)
next
  case False
  have "put_offset path off' t = t @ [(path, int off')]" using False by (simp add: put_offset_def)
  moreover have "sql_update (\<lambda>r. fst r = path) (\<lambda>r. (fst r, int off)) (t @ [(path, int off')]) = t @ [(path, int off)]"
    using update_no_key [OF False, of "\<lambda>r. (fst r, int off)"] by (simp add: sql_update_def)
  ultimately show ?thesis
    using False put_has_key [of path off' t] by (simp add: put_offset_def)
qed

lemma sql_get_put_offset: "sql_get fst path (put_offset path off t) = Some (path, int off)"
proof (cases "has_key fst path t")
  case True
  then have "sql_get fst path (sql_update (\<lambda>r. fst r = path) (\<lambda>r. (fst r, int off)) t) = Some (path, int off)"
    by (induction t) (auto simp: sql_get_def has_key_def sql_update_def)
  then show ?thesis using True by (simp add: put_offset_def)
next
  case False
  then show ?thesis
    using sql_get_None [of fst path t] by (simp add: put_offset_def sql_get_def find_append)
qed

lemma agree_refl: "agree path X X"
  by (simp add: agree_def)

lemma agree_put: "agree path X Y \<Longrightarrow> agree path (put_offset path off X) Y"
  "agree path X Y \<Longrightarrow> agree path X (put_offset path off Y)"
  by (simp_all add: agree_def put_twice)

lemma save_with: "save_offset path off (with_offsets X q) = with_offsets (put_offset path off X) q"
  by (simp add: save_offset_def with_offsets_def)

lemma agree_save: "agree path X Y \<Longrightarrow> save_offset path off (with_offsets X q) = save_offset path off (with_offsets Y q)"
  by (simp add: save_with agree_def)

text \<open>Counting a line moves between agreeing offset tables.\<close>

lemma count_line_with:
  "\<exists>p' Z. count_line path off ns (i, k, p, with_offsets X q) = (i + fst ns, k + snd ns, p', with_offsets Z q)
     \<and> (\<forall>Y. agree path X Y \<longrightarrow> agree path Z Y) \<and> (\<forall>Y. agree path Y X \<longrightarrow> agree path Y Z)"
  by (auto simp: count_line_def save_with agree_put)

lemma spool_line_agree:
  assumes "agree path X Y"
  shows "\<exists>r di dk p' m' Q X' Y'.
    spool_line E loads utf8 db path l off (i, k, p, with_offsets X q) = (r, i + di, k + dk, p', with_offsets X' Q)
    \<and> spool_line E loads utf8 db path l off (j, n, m, with_offsets Y q) = (r, j + di, n + dk, m', with_offsets Y' Q)
    \<and> agree path X' Y'"
proof -
  obtain res Q where r: "record_line E loads (utf8 l) q = (res, Q)" by fastforce
  consider e where "res_bind (peek_cid loads (utf8 l)) (catalogued_value E db) = Inl e"
    | "res_bind (peek_cid loads (utf8 l)) (catalogued_value E db) = Inr True"
    | e where "res_bind (peek_cid loads (utf8 l)) (catalogued_value E db) = Inr False" "res = Inl e"
    | ns where "res_bind (peek_cid loads (utf8 l)) (catalogued_value E db) = Inr False" "res = Inr ns"
    by (cases "res_bind (peek_cid loads (utf8 l)) (catalogued_value E db)"; cases res) auto
  then show ?thesis
  proof cases
    case (1 e)
    then show ?thesis
      using assms by (intro exI [of _ "Inl e"] exI [of _ 0] exI [of _ p] exI [of _ m] exI [of _ q] exI [of _ X] exI [of _ Y])
        (simp add: spool_line_def)
  next
    case 2
    obtain p' Z m' W where "count_line path off (0, 1) (i, k, p, with_offsets X q) = (i, k + 1, p', with_offsets Z q)"
        "count_line path off (0, 1) (j, n, m, with_offsets Y q) = (j, n + 1, m', with_offsets W q)" "agree path Z W"
      using count_line_with [of path off "(0, 1)" i k p X q] count_line_with [of path off "(0, 1)" j n m Y q] assms by auto
    then show ?thesis
      using 2 by (intro exI [of _ "Inr ()"] exI [of _ 0] exI [of _ 1] exI [of _ p'] exI [of _ m'] exI [of _ q] exI [of _ Z] exI [of _ W])
        (simp add: spool_line_def)
  next
    case (3 e)
    then show ?thesis
      using assms r by (intro exI [of _ "Inl e"] exI [of _ 0] exI [of _ p] exI [of _ m] exI [of _ Q] exI [of _ X] exI [of _ Y])
        (simp add: spool_line_def record_line_offsets)
  next
    case (4 ns)
    obtain p' Z m' W where "count_line path off ns (i, k, p, with_offsets X Q) = (i + fst ns, k + snd ns, p', with_offsets Z Q)"
        "count_line path off ns (j, n, m, with_offsets Y Q) = (j + fst ns, n + snd ns, m', with_offsets W Q)" "agree path Z W"
      using count_line_with [of path off ns i k p X Q] count_line_with [of path off ns j n m Y Q] assms by auto
    then show ?thesis
      using 4 r by (intro exI [of _ "Inr ()"] exI [of _ "fst ns"] exI [of _ "snd ns"] exI [of _ p'] exI [of _ m'] exI [of _ Q] exI [of _ Z] exI [of _ W])
        (simp add: spool_line_def record_line_offsets)
  qed
qed

lemma run_agree:
  assumes "agree path X Y"
    and "run_lines (spool_line E loads utf8 db path) ls off (j, n, m, with_offsets Y q) = (Inr off', j', n', m', Q')"
  shows "\<exists>p' Q X' Y'. Q' = with_offsets Y' Q \<and> agree path X' Y'
    \<and> run_lines (spool_line E loads utf8 db path) ls off (i, k, p, with_offsets X q)
      = (Inr off', i + (j' - j), k + (n' - n), p', with_offsets X' Q)"
  using assms
proof (induction ls arbitrary: off i k p X j n m Y q)
  case Nil
  then show ?case by (intro exI [of _ p] exI [of _ q] exI [of _ X] exI [of _ Y]) simp
next
  case (Cons l ls)
  obtain r di dk p1 m1 Q X' Y' where s:
    "spool_line E loads utf8 db path l (off + length l) (i, k, p, with_offsets X q) = (r, i + di, k + dk, p1, with_offsets X' Q)"
    "spool_line E loads utf8 db path l (off + length l) (j, n, m, with_offsets Y q) = (r, j + di, n + dk, m1, with_offsets Y' Q)"
    "agree path X' Y'"
    using spool_line_agree [OF Cons.prems(1), of E loads utf8 db l "off + length l" i k p q j n m] by blast
  have r: "r = Inr ()" using Cons.prems(2) s(2) by (cases r) auto
  then have "run_lines (spool_line E loads utf8 db path) ls (off + length l) (j + di, n + dk, m1, with_offsets Y' Q) = (Inr off', j', n', m', Q')"
    using Cons.prems(2) s(2) by simp
  from Cons.IH [OF s(3) this, of "i + di" "k + dk" p1] show ?case using s(1) r by (simp add: algebra_simps)
qed


lemma ingest_file_Inr:
  assumes "ingest_file E loads utf8 db path content final q = (Inr (i, k), q')"
    and "spool_offset path (length content) q = off"
    and "ls = splitlines_keep (drop off content)"
  obtains off' p Q where "run_lines (spool_line E loads utf8 db path) (if final then ls else takeWhile complete_line ls)
      off (0, 0, 0, q) = (Inr off', i, k, p, Q)" "q' = save_offset path off' Q"
proof -
  obtain res a b c Q where run: "run_lines (spool_line E loads utf8 db path) (if final then ls else takeWhile complete_line ls)
      off (0, 0, 0, q) = (res, a, b, c, Q)" using prod_cases5 by blast
  have "(case res of Inl e \<Rightarrow> (Inl e, Q) | Inr off' \<Rightarrow> (Inr (a, b), save_offset path off' Q)) = (Inr (i, k), q')"
    using assms(1) unfolding ingest_file_def Let_def assms(2) assms(3) [symmetric] run by (simp split: sum.splits)
  then obtain off' where "res = Inr off'" "a = i" "b = k" "q' = save_offset path off' Q" by (cases res) simp_all
  then show thesis using that run by blast
qed

text \<open>
  C27: Importing in instalments. Reading the lines that are there, and the rest of the file after it
  has grown, leaves the same queue and the same counts as reading the whole file once: no record
  is read twice or lost at the point where the first reading stopped, however the writer's appends
  split a line.
\<close>

theorem spool_resume:
  assumes fresh: "\<not> has_key fst path (spool_offsets q)"
    and first: "ingest_file E loads utf8 db path A False q = (Inr (i, k), q1)"
    and second: "ingest_file E loads utf8 db path (A @ B) final q1 = (Inr (j, n), q2)"
  shows "ingest_file E loads utf8 db path (A @ B) final q = (Inr (i + j, k + n), q2)"
proof -
  let ?run = "run_lines (spool_line E loads utf8 db path)"
  let ?ls1 = "takeWhile complete_line (splitlines_keep A)"
  let ?off = "length (spool_log.consumed A)"
  let ?rest = "splitlines_keep (drop ?off (A @ B))"
  let ?ls2 = "if final then ?rest else takeWhile complete_line ?rest"
  have start: "spool_offset path m q = 0" for m
    using fresh by (auto simp: spool_offset_def sql_get_None [symmetric] split: option.splits)
  obtain p Q where r1: "?run ?ls1 0 (0, 0, 0, q) = (Inr ?off, i, k, p, Q)" and q1: "q1 = save_offset path ?off Q"
    using ingest_file_Inr [OF first start refl]
      spool_log.run_complete_offset [of "spool_line E loads utf8 db path" A 0 "(0, 0, 0, q)"]
    by (metis add_0 drop_0)
  have le: "?off \<le> length A" using spool_log.consumed_prefix [of A] by (metis le_add1 length_append)
  have offset1: "spool_offset path (length (A @ B)) q1 = ?off"
    using le sql_get_put_offset [of path ?off "spool_offsets Q"] by (simp add: spool_offset_def q1 save_offset_def)
  obtain off' p2 Q2 where r2: "?run ?ls2 ?off (0, 0, 0, q1) = (Inr off', j, n, p2, Q2)" and q2: "q2 = save_offset path off' Q2"
    using ingest_file_Inr [OF second offset1 refl] by blast
  have ag0: "agree path (spool_offsets Q) (put_offset path ?off (spool_offsets Q))" by (simp add: agree_put agree_refl)
  have q1w: "q1 = with_offsets (put_offset path ?off (spool_offsets Q)) Q" by (simp add: q1 save_offset_def with_offsets_def)
  obtain p3 Q3 X' Y' where Q2: "Q2 = with_offsets Y' Q3" and ag: "agree path X' Y'"
    and r3: "?run ?ls2 ?off (i, k, p, with_offsets (spool_offsets Q) Q) = (Inr off', i + (j - 0), k + (n - 0), p3, with_offsets X' Q3)"
    using run_agree [OF ag0 r2 [unfolded q1w], of i k p] by blast
  have lines: "(if final then splitlines_keep (A @ B) else takeWhile complete_line (splitlines_keep (A @ B))) = ?ls1 @ ?ls2"
    using spool_log.split_resume [of A B] spool_log.complete_append [of A B] by (cases final) (simp_all only: if_True if_False)
  show ?thesis
    unfolding ingest_file_def Let_def start drop_0 lines run_lines_append r1
    using r3 agree_save [OF ag] by (simp add: q2 Q2)
qed


section \<open>A file that cannot be imported\<close>

text \<open>
  A line of a spool file that is JSON but not an object stops the import of the file for good.
  The lookahead \<open>rec.get\<close> raises an exception that \<open>ingest_file\<close> does not catch; nothing is written and
  the saved offset stays in front of the line, so the next cycle meets the same line again.
\<close>

theorem spool_line_not_object:
  assumes "splitlines_keep (drop (spool_offset path (length content) q) content) = line # ls"
    and "complete_line line" "py_strip (utf8 line) \<noteq> []"
    and "loads (py_strip (utf8 line)) = Some v" "\<And>rec. v \<noteq> JObj rec"
  shows "ingest_file E loads utf8 db path content final q = (Inl AttributeError, q)"
proof -
  have "peek_cid loads (utf8 line) = Inl AttributeError"
    using assms(3-5) by (cases v) (auto simp: peek_cid_def)
  then have "spool_line E loads utf8 db path line off (0, 0, 0, q) = (Inl AttributeError, 0, 0, 0, q)" for off
    by (simp add: spool_line_def res_bind_def)
  then show ?thesis using assms(1,2) by (simp add: ingest_file_def Let_def)
qed

section \<open>Concrete imports\<close>

text \<open>
  Two wants of one raw leaf by two peers, as the sniffer writes them; the parser knows the lines
  of the example.
\<close>

definition ex_want :: "string \<Rightarrow> json" where
  "ex_want peer = JObj [(''cid'', JStr ''f01551203aabbcc''), (''peer'', JStr peer), (''ts'', JInt 5)]"

definition ex_loads :: "string \<Rightarrow> json option" where
  "ex_loads s = (if s = ''1'' then Some (ex_want ''p1'') else if s = ''2'' then Some (ex_want ''p2'')
     else if s = ''3'' then Some (JInt 3) else None)"

definition ex_utf8 :: "bytes \<Rightarrow> string" where
  "ex_utf8 bs = map (\<lambda>b. char_of (unat b)) bs"

definition ex_spool_env :: env where
  "ex_spool_env = \<lparr>e_club = ex_club, e_fetch = Map.empty, e_sha256 = (\<lambda>b. b), e_float_str = (\<lambda>s. None),
     e_int_affinity = DText, e_peer = None, e_now = 100\<rparr>"

abbreviation ex_import :: "bytes \<Rightarrow> bool \<Rightarrow> queue \<Rightarrow> (int \<times> int) res \<times> queue" where
  "ex_import \<equiv> ingest_file ex_spool_env ex_loads ex_utf8 empty_catalog ''cids-1.jsonl''"

lemma ex_import_once: "map r_cid (cids (snd (ex_import [49, 10, 50, 10] False empty_queue))) = [''f01551203aabbcc'']"
  by code_simp

lemma map_single: "map f xs = [y] \<Longrightarrow> \<exists>x\<in>set xs. f x = y"
  by (cases xs) auto


lemma ex_import_twice:
  "fst (ex_import [49, 10, 50] False empty_queue) = Inr (0, 1)"
  "fst (ex_import ([49, 10, 50] @ [10]) False (snd (ex_import [49, 10, 50] False empty_queue))) = Inr (1, 0)"
  by code_simp+

theorem spool_resume_witness: "fst (ex_import ([49, 10, 50] @ [10]) False empty_queue) = Inr (0 + 1, 1 + 0)"
proof -
  have "\<not> has_key fst ''cids-1.jsonl'' (spool_offsets empty_queue)" by (simp add: has_key_def empty_queue_def)
  from spool_resume [OF this, of ex_spool_env ex_loads ex_utf8 empty_catalog "[49, 10, 50]" 0 1 _ "[10]" False 1 0]
  show ?thesis using ex_import_twice by (metis prod.collapse fst_conv)
qed

theorem spool_line_not_object_witness: "ex_import [51, 10, 49, 10] True empty_queue = (Inl AttributeError, empty_queue)"
proof (rule spool_line_not_object [of _ _ _ "[51, 10]" "[[49, 10]]" _ _ "JInt 3"])
  show "splitlines_keep (drop (spool_offset ''cids-1.jsonl'' (length [51, 10, 49, 10 :: byte]) empty_queue) [51, 10, 49, 10])
      = [51, 10] # [[49, 10]]" by code_simp
  show "complete_line [51, 10]" by code_simp
  show "py_strip (ex_utf8 [51, 10]) \<noteq> []" by code_simp
  show "ex_loads (py_strip (ex_utf8 [51, 10])) = Some (JInt 3)" by code_simp
qed simp

end
