(* ===== verification/Janitor.thy ===== *)
theory Janitor
  imports Work_Laws
begin

text \<open>
  \<open>observer/janitor.py\<close>: keeping the work database within its disk budget. The size of the
  database file after \<open>PRAGMA incremental_vacuum\<close> is an argument, a function of the tables; the size
  and the free disk space before are readings. Times are one reading of the clock; SQLite's
  floating-point arithmetic is real arithmetic.
\<close>

section \<open>Model\<close>

definition BATCH :: nat where "BATCH = 500"

definition LOW_WATER :: real where "LOW_WATER = 9 / 10"

definition EVICTED_KEEP :: nat where "EVICTED_KEEP = 50000"

definition score :: "time \<Rightarrow> wrow \<Rightarrow> real" where
  "score now r = of_int (r_peer_count r) / (1 + max 0 ((now - r_last_seen r) / 604800))"

definition over_budget :: "intcfg \<Rightarrow> int \<Rightarrow> int \<Rightarrow> bool \<times> int" where
  "over_budget S sz free =
     (let max_bytes = cfg_get S ''max_db_size_mb'' 2048 * 1024 * 1024;
          min_free = cfg_get S ''min_free_disk_mb'' 10240 * 1024 * 1024
      in if sz > max_bytes then (True, max_bytes)
         else if free < min_free then (True, max 0 (sz - (min_free - free)))
         else (False, max_bytes))"

definition evict_key :: "time \<Rightarrow> wrow \<Rightarrow> real \<times> int" where
  "evict_key now r = (score now r, if r_status r = Indexed then 1 else 0)"

definition evict_row :: "time \<Rightarrow> wrow \<Rightarrow> queue \<Rightarrow> queue" where
  "evict_row now r q =
     q\<lparr>evicted := insert_or_replace e_cid \<lparr>e_cid = r_cid r, e_peer_count = r_peer_count r, e_evicted_at = now\<rparr> (evicted q),
       cid_peers := sql_delete (\<lambda>p. fst p = r_cid r) (cid_peers q),
       cids := sql_delete (\<lambda>x. r_cid x = r_cid r) (cids q)\<rparr>"

definition evict_batch :: "time \<Rightarrow> queue \<Rightarrow> nat \<times> queue" where
  "evict_batch now q =
     (let rows = order_limit (evict_key now) BATCH (cids q)
      in (length rows, fold (evict_row now) rows q))"

definition trim_evicted :: "queue \<Rightarrow> queue" where
  "trim_evicted q =
     (let old = drop EVICTED_KEEP (sort_key (\<lambda>r. - e_evicted_at r) (evicted q))
      in q\<lparr>evicted := sql_delete (\<lambda>r. e_cid r \<in> e_cid ` set old) (evicted q)\<rparr>)"

lemma cids_evict_rows:
  "cids (fold (evict_row now) rows q) = sql_delete (\<lambda>r. r_cid r \<in> r_cid ` set rows) (cids q)"
proof (induction rows arbitrary: q)
  case (Cons x xs)
  then show ?case
    by (auto simp: evict_row_def sql_delete_def intro!: filter_cong)
qed (simp add: sql_delete_def)

lemma evict_batch_shrinks:
  assumes "fst (evict_batch now q) \<noteq> 0"
  shows "length (cids (snd (evict_batch now q))) < length (cids q)"
proof -
  let ?rows = "order_limit (evict_key now) BATCH (cids q)"
  obtain r where "r \<in> set ?rows" using assms by (cases ?rows) (auto simp: evict_batch_def Let_def)
  then have "r \<in> set (cids q)" "r_cid r \<in> r_cid ` set ?rows" using set_order_limit [of "evict_key now" BATCH "cids q"] by auto
  then show ?thesis
    by (auto simp: evict_batch_def Let_def cids_evict_rows sql_delete_def intro!: length_filter_less)
qed

function evict_loop :: "(queue \<Rightarrow> int) \<Rightarrow> real \<Rightarrow> time \<Rightarrow> queue \<Rightarrow> nat \<times> queue" where
  "evict_loop size_of target now q =
     (if of_int (size_of q) > target then
        (if fst (evict_batch now q) = 0 then (0, q)
         else
           case evict_loop size_of target now (snd (evict_batch now q)) of
             (m, q') \<Rightarrow> (fst (evict_batch now q) + m, q'))
      else (0, q))"
  by pat_completeness auto
termination
  by (relation "measure (\<lambda>(size_of, target, now, q). length (cids q))") (auto intro: evict_batch_shrinks)

declare evict_loop.simps [simp del]

definition janitor_run_once :: "intcfg \<Rightarrow> intcfg \<Rightarrow> (queue \<Rightarrow> int) \<Rightarrow> int \<Rightarrow> int \<Rightarrow> time \<Rightarrow> queue \<Rightarrow> nat \<times> queue" where
  "janitor_run_once F S size_of sz free now q =
     (case prune F now q of (dropped, q1) \<Rightarrow>
        (case over_budget S sz free of (over, budget) \<Rightarrow>
           if \<not> over then (0, q1)
           else evict_loop size_of (of_int budget * LOW_WATER) now (trim_evicted q1)))"

section \<open>Laws\<close>

lemma wf_evict_row [wfq]: "wf_queue q \<Longrightarrow> wf_queue (evict_row now r q)"
  by (auto simp: evict_row_def wf_queue_def list_all_iff sql_delete_def pk_def distinct_map_filter insert_or_replace_def)

lemma wf_evict_batch [wfq]: "wf_queue q \<Longrightarrow> wf_queue (snd (evict_batch now q))"
proof -
  have "wf_queue q \<Longrightarrow> wf_queue (fold (evict_row now) rows q)" for rows
    by (induction rows arbitrary: q) (simp_all add: wf_evict_row)
  then show "wf_queue q \<Longrightarrow> ?thesis" by (simp add: evict_batch_def Let_def)
qed

lemma wf_trim_evicted [wfq]: "wf_queue q \<Longrightarrow> wf_queue (trim_evicted q)"
  by (auto simp: trim_evicted_def Let_def wf_queue_def)

text \<open>One batch takes the rows that are lowest in the order, as many as it counts.\<close>

definition evicts :: "time \<Rightarrow> queue \<Rightarrow> nat \<Rightarrow> queue \<Rightarrow> bool" where
  "evicts now q n q' \<longleftrightarrow> set (cids q') \<subseteq> set (cids q) \<and> length (cids q) = n + length (cids q')
     \<and> (\<forall>r\<in>set (cids q) - set (cids q'). (\<forall>r'\<in>set (cids q'). evict_key now r \<le> evict_key now r')
          \<and> sql_get e_cid (r_cid r) (evicted q') = Some \<lparr>e_cid = r_cid r, e_peer_count = r_peer_count r, e_evicted_at = now\<rparr>)
     \<and> (\<forall>c. \<not> has_key r_cid c (cids q) \<longrightarrow> sql_get e_cid c (evicted q') = sql_get e_cid c (evicted q))"

lemma evicted_rows_get:
  assumes "distinct (map r_cid rows)"
  shows "sql_get e_cid c (evicted (fold (evict_row now) rows q)) =
    (case find (\<lambda>r. r_cid r = c) rows of
       Some r \<Rightarrow> Some \<lparr>e_cid = c, e_peer_count = r_peer_count r, e_evicted_at = now\<rparr>
     | None \<Rightarrow> sql_get e_cid c (evicted q))"
  using assms
proof (induction rows arbitrary: q)
  case (Cons r rows)
  have "r_cid r = c \<Longrightarrow> find (\<lambda>r. r_cid r = c) rows = None"
    using Cons.prems by (auto simp: find_None_set) (metis image_eqI)
  then show ?case
    using Cons by (auto simp: evict_row_def sql_get_replace split: option.splits)
qed simp

lemma sort_take_le:
  assumes "r \<in> set (take n (sort_key f t))" "r' \<in> set (drop n (sort_key f t))"
  shows "f r \<le> f r'"
proof -
  have "sorted (map f (take n (sort_key f t)) @ map f (drop n (sort_key f t)))"
    by (metis append_take_drop_id map_append sorted_sort_key)
  then show ?thesis using assms by (auto simp: sorted_append)
qed

lemma evict_batch_evicts:
  assumes "wf_queue q"
  shows "evicts now q (fst (evict_batch now q)) (snd (evict_batch now q))"
proof -
  let ?s = "sort_key (evict_key now) (cids q)"
  let ?rows = "order_limit (evict_key now) BATCH (cids q)"
  have dist: "distinct (map r_cid ?s)" using wf_queue_pk [OF assms] by (metis distinct_map distinct_sort pk_def set_sort)
  have rows: "?rows = take BATCH ?s" by (simp add: order_limit_def)
  have drows: "distinct (map r_cid ?rows)" using dist by (simp add: rows take_map [symmetric])
  have sub: "set ?rows \<subseteq> set (cids q)" by (rule set_order_limit)
  have kept: "cids (snd (evict_batch now q)) = sql_delete (\<lambda>r. r \<in> set ?rows) (cids q)"
    using delete_selected [OF wf_queue_pk [OF assms] sub] by (simp add: evict_batch_def Let_def cids_evict_rows)
  have len: "length (cids q) = length ?rows + length (cids (snd (evict_batch now q)))"
    using length_delete_selected [OF distinct_order_limit sub, OF wf_distinct wf_distinct, OF assms assms]
    by (simp add: kept)
  have low: "evict_key now r \<le> evict_key now r'" if "r \<in> set ?rows" "r' \<in> set (cids q) - set ?rows" for r r'
  proof -
    have "r' \<in> set (drop BATCH ?s)" using that(2) by (metis DiffE Un_iff append_take_drop_id rows set_append set_sort)
    then show ?thesis using that(1) sort_take_le rows by metis
  qed
  have "sql_get e_cid (r_cid r) (evicted (snd (evict_batch now q))) = Some \<lparr>e_cid = r_cid r, e_peer_count = r_peer_count r, e_evicted_at = now\<rparr>"
    if "r \<in> set ?rows" for r
  proof -
    have "find (\<lambda>x. r_cid x = r_cid r) ?rows = Some r"
      using sql_get_pk [of r_cid ?rows r] drows that by (simp add: sql_get_def pk_def)
    then show ?thesis by (simp add: evict_batch_def Let_def evicted_rows_get [OF drows])
  qed
  moreover have "sql_get e_cid c (evicted (snd (evict_batch now q))) = sql_get e_cid c (evicted q)"
    if "\<not> has_key r_cid c (cids q)" for c
  proof -
    have "find (\<lambda>x. r_cid x = c) ?rows = None" using that sub by (auto simp: find_None_set has_key_def)
    then show ?thesis by (simp add: evict_batch_def Let_def evicted_rows_get [OF drows])
  qed
  ultimately show ?thesis
    using len low unfolding evicts_def kept by (auto simp: evict_batch_def Let_def)
qed


lemma evicts_trans:
  assumes "evicts now q n q'" "evicts now q' m q''" "pk r_cid (cids q)"
  shows "evicts now q (n + m) q''"
proof -
  have key: "\<not> has_key r_cid (r_cid r) (cids q')" if "r \<in> set (cids q)" "r \<notin> set (cids q')" for r
    using that assms(1,3) unfolding has_key_def evicts_def by (metis pk_unique subsetD)
  have "(\<forall>r'\<in>set (cids q''). evict_key now r \<le> evict_key now r')
      \<and> sql_get e_cid (r_cid r) (evicted q'') = Some \<lparr>e_cid = r_cid r, e_peer_count = r_peer_count r, e_evicted_at = now\<rparr>"
    if r: "r \<in> set (cids q)" "r \<notin> set (cids q'')" for r
  proof (cases "r \<in> set (cids q')")
    case True
    then show ?thesis using assms(2) r(2) unfolding evicts_def by blast
  next
    case False
    then have "\<forall>r'\<in>set (cids q'). evict_key now r \<le> evict_key now r'"
      "sql_get e_cid (r_cid r) (evicted q') = Some \<lparr>e_cid = r_cid r, e_peer_count = r_peer_count r, e_evicted_at = now\<rparr>"
      using assms(1) r(1) unfolding evicts_def by blast+
    moreover have "sql_get e_cid (r_cid r) (evicted q'') = sql_get e_cid (r_cid r) (evicted q')" "set (cids q'') \<subseteq> set (cids q')"
      using assms(2) key [OF r(1) False] unfolding evicts_def by blast+
    ultimately show ?thesis by auto
  qed
  moreover have "\<not> has_key r_cid c (cids q) \<Longrightarrow> \<not> has_key r_cid c (cids q')" for c
    using assms(1) unfolding evicts_def has_key_def by blast
  ultimately show ?thesis using assms(1,2) unfolding evicts_def by auto
qed

lemma evict_loop_spec:
  assumes "wf_queue q" "evict_loop size_of target now q = (n, q')"
  shows "wf_queue q' \<and> evicts now q n q' \<and> (of_int (size_of q') \<le> target \<or> cids q' = [])"
  using assms
proof (induction size_of target now q arbitrary: n q' rule: evict_loop.induct)
  case (1 size_of target now q)
  have self: "evicts now q 0 q" by (simp add: evicts_def)
  consider "of_int (size_of q) \<le> target" "n = 0" "q' = q"
    | "fst (evict_batch now q) = 0" "n = 0" "q' = q"
    | m where "of_int (size_of q) > target" "fst (evict_batch now q) \<noteq> 0"
        "evict_loop size_of target now (snd (evict_batch now q)) = (m, q')" "n = fst (evict_batch now q) + m"
    using "1.prems"(2) by (subst (asm) evict_loop.simps) (auto split: if_splits prod.splits)
  then show ?case
  proof cases
    case 1
    then show ?thesis using self \<open>wf_queue q\<close> by simp
  next
    case 2
    then have "min (length (cids q)) 500 = 0"
      unfolding evict_batch_def Let_def order_limit_def BATCH_def fst_conv length_take length_sort by simp
    then have "cids q = []" by (simp add: min_def split: if_splits)
    then show ?thesis using 2 self \<open>wf_queue q\<close> by simp
  next
    case (3 m)
    from "1.IH" [OF 3(1,2) wf_evict_batch [OF \<open>wf_queue q\<close>] 3(3)]
    show ?thesis
      using evicts_trans [OF evict_batch_evicts [OF \<open>wf_queue q\<close>] _ wf_queue_pk [OF \<open>wf_queue q\<close>]] 3(4) by blast
  qed
qed

lemma wf_janitor_run_once [wfq]:
  assumes "wf_queue q"
  shows "wf_queue (snd (janitor_run_once F S size_of sz free now q))"
proof -
  have "wf_queue (snd (evict_loop size_of target now q1))" if "wf_queue q1" for target q1
    using evict_loop_spec [OF that] by (metis prod.collapse)
  then show ?thesis
    using wf_prune [OF assms, of F now] by (auto simp: janitor_run_once_def wf_trim_evicted split: prod.splits)
qed

lemma evict_key_score: "evict_key now r \<le> evict_key now r' \<Longrightarrow> score now r \<le> score now r'"
  by (auto simp: evict_key_def)

text \<open>
  C30: A janitor cycle over budget ends, with the database at or below nine tenths of the budget or
  with no row left to evict. It evicts in the order of the score: an evicted row never scores above
  one that stays, and each has left its peer count in the ledger, so that the CID returns only
  when more peers than that ask for it.
\<close>

theorem janitor_evicts_lowest:
  assumes "wf_queue q" "over_budget S sz free = (True, budget)"
    and "janitor_run_once F S size_of sz free now q = (n, q')"
  shows "(of_int (size_of q') \<le> of_int budget * LOW_WATER \<or> cids q' = [])
    \<and> length (cids (snd (prune F now q))) = n + length (cids q')
    \<and> (\<forall>r\<in>set (cids (snd (prune F now q))) - set (cids q').
         (\<forall>r'\<in>set (cids q'). score now r \<le> score now r')
         \<and> sql_get e_cid (r_cid r) (evicted q')
           = Some \<lparr>e_cid = r_cid r, e_peer_count = r_peer_count r, e_evicted_at = now\<rparr>)"
proof -
  let ?q1 = "trim_evicted (snd (prune F now q))"
  have same: "cids ?q1 = cids (snd (prune F now q))" by (simp add: trim_evicted_def Let_def)
  have "wf_queue ?q1" using assms(1) by (intro wf_trim_evicted wf_prune)
  moreover have "evict_loop size_of (of_int budget * LOW_WATER) now ?q1 = (n, q')"
    using assms(2,3) by (simp add: janitor_run_once_def split: prod.splits)
  ultimately have "evicts now ?q1 n q'" "of_int (size_of q') \<le> of_int budget * LOW_WATER \<or> cids q' = []"
    using evict_loop_spec by blast+
  then show ?thesis
    unfolding evicts_def same by (simp add: evict_key_score)
qed

definition ex_row_size :: "queue \<Rightarrow> int" where
  "ex_row_size q = int (length (cids q)) * 4194304"

theorem janitor_evicts_witness:
  "cids (snd (janitor_run_once ex_cfg [''max_db_size_mb'' \<mapsto> 1] ex_row_size 20000000 100000000000 100 ex_queue)) = []"
proof -
  let ?S = "[''max_db_size_mb'' \<mapsto> 1 :: int]"
  let ?run = "janitor_run_once ex_cfg ?S ex_row_size 20000000 100000000000 100 ex_queue"
  have over: "over_budget ?S 20000000 100000000000 = (True, 1048576)" by code_simp
  have "of_int (ex_row_size (snd ?run)) \<le> of_int 1048576 * LOW_WATER \<or> cids (snd ?run) = []"
    using janitor_evicts_lowest [OF ex_wf(1) over, of ex_cfg ex_row_size 100 "fst ?run" "snd ?run"] by simp
  then show ?thesis by (cases "cids (snd ?run)") (auto simp: ex_row_size_def LOW_WATER_def)
qed

end
