(* ===== verification/Indexer.thy ===== *)
theory Indexer
  imports Clubd Fetch_Laws Spool Janitor
begin

text \<open>
  \<open>observer/indexer.py\<close>: what a worker does with one CID. The control flow of \<open>process_one\<close>
  reads the row it was given, the catalog, the network, the classifier and clubd, and only writes
  the queue. So it is modelled by the list of its writes, in order: every write is atomic (the queue
  has a process lock), and between two of them the other threads run. \<open>System\<close> interleaves them.
  A record holds what one run meets: a clock reading and a catalog for every place that reads them,
  the network, the extractors, the club's prior, the classifier's answer and clubd's.
\<close>

section \<open>What a run meets\<close>

datatype site =
    AtLookup | AtRerun | AtSkipped | AtForeign | AtRetrieved | AtNoted | AtChildren | AtDropDir
  | AtIncomplete | AtRemember | AtReuse | AtRerun2 | AtIndexed | AtClaim | AtClaimPost | AtClaimSent
  | AtDisagreed

text \<open>
  \<open>v_classify\<close> is \<open>classify.classify\<close>: None when the chat API failed, else the object it
  returns; \<open>Inl\<close> is an exception it lets through.
\<close>

record view =
  v_env :: env
  v_now :: "site \<Rightarrow> time"
  v_cat :: "site \<Rightarrow> catalog"
  v_net :: net
  v_extract :: extractors
  v_prior :: "string \<Rightarrow> string \<Rightarrow> string option \<Rightarrow> string"
  v_llm_up :: bool
  v_classify :: "string \<Rightarrow> string \<Rightarrow> string option \<Rightarrow> string \<Rightarrow> payload option res"
  v_reply :: "payload \<Rightarrow> club_reply"
  v_ttl :: int

definition env_at :: "view \<Rightarrow> site \<Rightarrow> env" where
  "env_at A s = (v_env A)\<lparr>e_now := v_now A s\<rparr>"

definition v_club :: "view \<Rightarrow> string" where
  "v_club A = club_id (e_club (v_env A))"

section \<open>Writes\<close>

text \<open>
  The queue operations of \<open>work\<close>, the posts to clubd, the claim slot and the counters. A claim is
  tried with its clock readings, the bodies it posts and clubd's answer.
\<close>

datatype effect =
    EForget cid
  | EMark cid status "colset list"
  | EBump cid int
  | ENote time cid "time option"
  | EChildren time "link list" cid
  | EDropDir time cid
  | ERemember time cid string
  | EPost payload
  | ETryClaim time "payload list" bool time
  | EClearClaim
  | ERelease
  | EStat string int

record observer =
  g_catalog :: catalog
  g_queue :: queue
  g_slot :: int \<comment> \<open>value of the semaphore \<open>_claim_slot\<close>\<close>
  g_claimed_until :: time
  g_posted :: "payload list"
  g_run_stats :: "string \<Rightarrow> int"
  g_window :: "string \<Rightarrow> int"

definition bump :: "string \<Rightarrow> int \<Rightarrow> observer \<Rightarrow> observer" where
  "bump key n g = g\<lparr>g_run_stats := (g_run_stats g)(key := g_run_stats g key + n),
                    g_window := (g_window g)(key := g_window g key + n)\<rparr>"

definition on_queue :: "(queue \<Rightarrow> queue) \<Rightarrow> observer \<Rightarrow> observer" where
  "on_queue f g = g\<lparr>g_queue := f (g_queue g)\<rparr>"

text \<open>\<open>_try_claim\<close>; the flag is the local variable \<open>claimed\<close> of the run.\<close>

definition try_claim :: "int \<Rightarrow> time \<Rightarrow> payload list \<Rightarrow> bool \<Rightarrow> time \<Rightarrow> observer \<Rightarrow> observer \<times> bool" where
  "try_claim ttl t posts accepted t' g =
     (if t < g_claimed_until g then (g, False)
      else if g_slot g \<le> 0 then (g, False)
      else
        let g1 = g\<lparr>g_slot := g_slot g - 1, g_posted := g_posted g @ posts\<rparr> in
        if \<not> accepted then (g1\<lparr>g_claimed_until := t' + 30, g_slot := g_slot g1 + 1\<rparr>, False)
        else (g1\<lparr>g_claimed_until := t' + of_int ttl\<rparr>, True))"

fun apply_effect :: "env \<Rightarrow> int \<Rightarrow> effect \<Rightarrow> observer \<times> bool \<Rightarrow> observer \<times> bool" where
  "apply_effect E ttl (EForget c) (g, cl) = (on_queue (forget_cid c) g, cl)"
| "apply_effect E ttl (EMark c st flds) (g, cl) = (on_queue (mark c st flds) g, cl)"
| "apply_effect E ttl (EBump c n) (g, cl) = (on_queue (bump_attempts c n) g, cl)"
| "apply_effect E ttl (ENote t c ret) (g, cl) = (on_queue (note_fetch t c ret) g, cl)"
| "apply_effect E ttl (EChildren t ls c) (g, cl) =
     (let (n, q) = enqueue_doc_children (e_fetch E) t (already_catalogued (E\<lparr>e_now := t\<rparr>) (g_catalog g)) ls (Some c) (g_queue g)
      in ((if n \<noteq> 0 then bump ''named'' n else id) (g\<lparr>g_queue := q\<rparr>), cl))"
| "apply_effect E ttl (EDropDir t c) (g, cl) = (on_queue (drop_directory t c) g, cl)"
| "apply_effect E ttl (ERemember t c mime) (g, cl) = (on_queue (remember_binary t c (Some mime)) g, cl)"
| "apply_effect E ttl (EPost body) (g, cl) = (g\<lparr>g_posted := g_posted g @ [body]\<rparr>, cl)"
| "apply_effect E ttl (ETryClaim t posts accepted t') (g, cl) = try_claim ttl t posts accepted t' g"
| "apply_effect E ttl EClearClaim (g, cl) = (g\<lparr>g_claimed_until := 0\<rparr>, cl)"
| "apply_effect E ttl ERelease (g, cl) = (if cl then g\<lparr>g_slot := g_slot g + 1\<rparr> else g, False)"
| "apply_effect E ttl (EStat key n) (g, cl) = (bump key n g, cl)"

section \<open>Before the fetch\<close>

definition foreign_live_claim :: "publisher option \<Rightarrow> time \<Rightarrow> hit \<Rightarrow> bool" where
  "foreign_live_claim me now h =
     (case h of
        HitClaim r \<Rightarrow> cl_until r > now \<and> \<not> (str_or me [] \<noteq> [] \<and> cl_publisher r = str_or me [])
      | _ \<Rightarrow> False)"

fun cls_size :: "cls \<Rightarrow> dbval" where
  "cls_size (FromDoc d) = d_size d"
| "cls_size (FromRow r) = c_size r"

fun cls_filename :: "cls \<Rightarrow> string option" where
  "cls_filename (FromDoc d) = d_filename d"
| "cls_filename (FromRow r) = c_filename r"

text \<open>A size that is text is kept as text by SQLite; nothing reads that column of the queue.\<close>

definition size_col :: "dbval \<Rightarrow> int option" where
  "size_col v = (case v of DInt n \<Rightarrow> Some n | _ \<Rightarrow> None)"

text \<open>The skip hook: Some result when the CID is not to be fetched.\<close>

definition precheck :: "view \<Rightarrow> wrow \<Rightarrow> (bool \<times> effect list) option" where
  "precheck A row =
     (let c = r_cid row in
      if \<not> valid c then Some (True, [EForget c])
      else
        case lookup_cid (env_at A AtLookup) (v_cat A AtLookup) c of
          None \<Rightarrow> None
        | Some h \<Rightarrow>
            let rerun = must_classify (env_at A AtRerun) (v_cat A AtRerun) c in
            (case h of
               HitSkip s \<Rightarrow>
                 if \<not> rerun \<and> \<not> pdf_deserves_retry (Some h)
                 then Some (True, [EMark c Skipped [SetMime (s_mime s), SetError (Some (str_or (s_reason s) ''club_skip'')),
                                     SetLastChecked (v_now A AtSkipped)]])
                 else None
             | HitClassify cl \<Rightarrow>
                 if \<not> rerun
                 then Some (True, [EMark c Indexed [SetMime (cls_mime cl), SetSize (size_col (cls_size cl)),
                                     SetFilename (cls_filename cl), SetError None]])
                 else None
             | HitClaim r \<Rightarrow>
                 if foreign_live_claim (e_peer (v_env A)) (v_now A AtForeign) h
                 then Some (False, [EMark c Discovered []]) else None))"

section \<open>After the fetch\<close>

definition retry_later :: "wrow \<Rightarrow> colset list \<Rightarrow> string \<Rightarrow> effect" where
  "retry_later row flds err =
     EMark (r_cid row) Discovered (flds @ [SetError (Some err), SetAttempts (r_attempts row)])"

definition give_up :: "intcfg \<Rightarrow> int \<Rightarrow> fetch_result \<Rightarrow> bool" where
  "give_up F attempts r =
     (if fr_dead r then True
      else if fr_slow r then attempts \<ge> cfg_get F ''max_timeout_retries'' 3 + 1
      else attempts \<ge> cfg_get F ''max_retries'' 1 + 1)"

definition fetch_failed :: "view \<Rightarrow> wrow \<Rightarrow> int \<Rightarrow> fetch_result \<Rightarrow> bool res \<times> effect list" where
  "fetch_failed A row attempts r =
     (Inr False,
      if give_up (e_fetch (v_env A)) attempts r then [EForget (r_cid row)]
      else [EMark (r_cid row) Discovered [SetError (fr_error r)]])"

definition handle_directory :: "view \<Rightarrow> wrow \<Rightarrow> int \<Rightarrow> fetch_result \<Rightarrow> bool res \<times> effect list" where
  "handle_directory A row attempts r =
     (let ls = (if fr_unixfs_type r = Some ''hamt-shard''
                then map (\<lambda>(n, c). (Some n, c)) (peek_hamt_pdfs (v_net A) (max (attempts - 1) 0) (fr_links r))
                else fr_links r)
      in (Inr True, [EChildren (v_now A AtChildren) ls (r_cid row), EDropDir (v_now A AtDropDir) (r_cid row),
                     EStat ''dir_drops'' 1]))"

text \<open>\<open>_publish_classify\<close>: the field is normalised, then clubd is asked.\<close>

definition publish_verdict :: "view \<Rightarrow> cid \<Rightarrow> payload \<Rightarrow> json \<times> payload list" where
  "publish_verdict A c flds =
     publish_classify (v_club A) (v_reply A) c
       (if truthy (jget flds ''field'')
        then AList.update ''field'' (JStr (normalize_field (e_club (v_env A)) (jget flds ''field''))) flds else flds)"

text \<open>The keyword arguments of both calls of \<open>_publish_classify\<close>.\<close>

definition verdict_fields :: "string \<Rightarrow> int \<Rightarrow> string option \<Rightarrow> json \<Rightarrow> json \<Rightarrow> json \<Rightarrow> string option \<Rightarrow>
    string \<Rightarrow> payload \<Rightarrow> time \<Rightarrow> payload" where
  "verdict_fields mime sz filename field topic keywords license fp classifier now =
     [(''mime_type'', JStr mime), (''size'', JInt sz), (''filename'', opt_json filename), (''field'', field),
      (''topic'', topic), (''keywords'', keywords), (''license'', opt_json license), (''text_sha256'', JStr fp),
      (''classifier'', JObj classifier), (''indexed_at'', JInt (py_int now))]"

text \<open>What is known of the sample: type, size and name, as columns of the row.\<close>

definition seen_cols :: "string \<Rightarrow> int \<Rightarrow> string option \<Rightarrow> colset list" where
  "seen_cols mime sz filename = [SetMime (Some mime), SetSize (Some sz), SetFilename filename]"

fun cls_label :: "cls \<Rightarrow> json \<times> json \<times> json" where
  "cls_label (FromDoc d) = (JStr (d_field d), opt_json (d_topic d), opt_json (d_keywords d))"
| "cls_label (FromRow r) = (JStr (c_field r), opt_json (c_topic r), opt_json (c_keywords r))"

definition reuse_verdict :: "view \<Rightarrow> wrow \<Rightarrow> string \<Rightarrow> int \<Rightarrow> string option \<Rightarrow> string option \<Rightarrow> string \<Rightarrow> cls \<Rightarrow>
    bool res \<times> effect list" where
  "reuse_verdict A row mime sz filename license fp cl =
     (case cls_label cl of
        (field, topic, keywords) \<Rightarrow>
          (case publish_verdict A (r_cid row) (verdict_fields mime sz filename field topic keywords license fp
                  [(''kind'', JStr ''reuse''), (''prompt_ver'', JStr (prompt_ver (e_club (v_env A))))] (v_now A AtIndexed)) of
             (ok, posts) \<Rightarrow>
               if truthy ok then
                 (Inr True, map EPost posts @ [EMark (r_cid row) Indexed (seen_cols mime sz filename @ [SetError None]), EStat ''reuse'' 1])
               else (Inr False, map EPost posts @ [retry_later row (seen_cols mime sz filename) ''publish_failed''])))"

text \<open>A skip is gossiped, then the row is marked; \<open>done\<close> are the effects of success.\<close>

definition scope_skip :: "view \<Rightarrow> wrow \<Rightarrow> string \<Rightarrow> int \<Rightarrow> string option \<Rightarrow> effect list \<Rightarrow> bool res \<times> effect list" where
  "scope_skip A row mime sz filename dones =
     (case publish_skip (v_club A) (v_reply A) (r_cid row) (Some mime) SCOPE_SKIP_REASON of
        (ok, posts) \<Rightarrow>
          if truthy ok then
            (Inr True, map EPost posts
               @ [EMark (r_cid row) Skipped (seen_cols mime sz filename @ [SetError (Some SCOPE_SKIP_REASON)])] @ dones)
          else (Inr False, map EPost posts @ [retry_later row (seen_cols mime sz filename) ''publish_failed'']))"

text \<open>\<open>meta[key]\<close>.\<close>

definition meta_item :: "payload \<Rightarrow> string \<Rightarrow> json res" where
  "meta_item m k = (case map_of m k of None \<Rightarrow> Inl KeyError | Some v \<Rightarrow> Inr v)"

definition license_of :: "extractors \<Rightarrow> json \<Rightarrow> string option" where
  "license_of X v = (if truthy v then x_license X (py_str v) else None)"

definition meta_in_scope :: "payload \<Rightarrow> bool" where
  "meta_in_scope m = truthy (if jget m ''in_scope'' = JNull then jget m ''academic_document'' else jget m ''in_scope'')"

definition llm_publish :: "view \<Rightarrow> wrow \<Rightarrow> string \<Rightarrow> int \<Rightarrow> string option \<Rightarrow> string option \<Rightarrow> string \<Rightarrow> payload \<Rightarrow>
    bool res \<times> effect list" where
  "llm_publish A row mime sz filename license fp m =
     (case res_bind (if str_or license [] = [] then res_bind (meta_item m ''license'') (\<lambda>v. Inr (license_of (v_extract A) v)) else Inr license)
             (\<lambda>lic. res_bind (meta_item m ''field'') (\<lambda>field. res_bind (meta_item m ''topic'') (\<lambda>topic.
                    res_bind (meta_item m ''keywords'') (\<lambda>keywords. Inr (lic, field, topic, keywords))))) of
        Inl e \<Rightarrow> (Inl e, [])
      | Inr (lic, field, topic, keywords) \<Rightarrow>
          (case publish_verdict A (r_cid row) (verdict_fields mime sz filename field topic keywords lic fp
                  [(''kind'', JStr ''llm''), (''model'', if truthy (jget m ''model'') then jget m ''model'' else JStr []),
                   (''prompt_ver'', JStr (prompt_ver (e_club (v_env A))))] (v_now A AtIndexed)) of
             (ok, posts) \<Rightarrow>
               if truthy ok then
                 (Inr True, map EPost posts
                    @ [EMark (r_cid row) Indexed (seen_cols mime sz filename @ [SetError None]), EStat ''llm_classifies'' 1, EClearClaim])
               else (Inr False, map EPost posts @ [retry_later row (seen_cols mime sz filename) ''publish_failed''])))"

text \<open>The body of the \<open>try\<close> block.\<close>

definition llm_verdict :: "view \<Rightarrow> wrow \<Rightarrow> string \<Rightarrow> string \<Rightarrow> int \<Rightarrow> string option \<Rightarrow> string option \<Rightarrow> string \<Rightarrow> string \<Rightarrow>
    bool res \<times> effect list" where
  "llm_verdict A row t mime sz filename license fp prior =
     (case v_classify A t mime filename (r_codec row) of
        Inl e \<Rightarrow> (Inl e, [])
      | Inr None \<Rightarrow> (Inr False, [retry_later row (seen_cols mime sz filename) ''classify_failed''])
      | Inr (Some m) \<Rightarrow>
          if m = [] then (Inr False, [retry_later row (seen_cols mime sz filename) ''classify_failed''])
          else if \<not> meta_in_scope m \<and> prior = LIKELY then
            (Inr True, [EMark (r_cid row) Skipped (seen_cols mime sz filename
                          @ [SetError (Some ''llm_disagreed''), SetLastChecked (v_now A AtDisagreed)]),
                        EStat ''llm_skips'' 1, EClearClaim])
          else if \<not> meta_in_scope m then
            scope_skip A row mime sz filename [EStat ''llm_skips'' 1, EClearClaim]
          else llm_publish A row mime sz filename license fp m)"

definition claim_effect :: "view \<Rightarrow> cid \<Rightarrow> effect" where
  "claim_effect A c =
     (case publish_claim (v_club A) (v_reply A) (v_now A AtClaimPost) (v_ttl A) c of
        (ok, posts) \<Rightarrow> ETryClaim (v_now A AtClaim) posts (truthy ok) (v_now A AtClaimSent))"

definition judge_text :: "view \<Rightarrow> wrow \<Rightarrow> string \<Rightarrow> string \<Rightarrow> int \<Rightarrow> string option \<Rightarrow> string option \<Rightarrow> string \<Rightarrow>
    bool res \<times> effect list" where
  "judge_text A row t mime sz filename license fp =
     (let prior = v_prior A t mime filename in
      if prior = UNLIKELY then scope_skip A row mime sz filename [EStat ''heuristic_skips'' 1]
      else if \<not> v_llm_up A then (Inr False, [retry_later row (seen_cols mime sz filename) ''llm_down''])
      else
        case llm_verdict A row t mime sz filename license fp prior of
          (res, effs) \<Rightarrow> (res, claim_effect A (r_cid row) # effs @ [ERelease]))"

definition classify_text :: "view \<Rightarrow> wrow \<Rightarrow> string \<Rightarrow> string \<Rightarrow> int \<Rightarrow> string option \<Rightarrow> string option \<Rightarrow>
    bool res \<times> effect list" where
  "classify_text A row t mime sz filename license =
     (let fp = fingerprint (e_sha256 (v_env A)) t in
      case classify_by_text_hash (v_cat A AtReuse) fp of
        Some cl \<Rightarrow>
          if \<not> must_classify (env_at A AtRerun2) (v_cat A AtRerun2) (r_cid row)
          then reuse_verdict A row mime sz filename license fp cl
          else judge_text A row t mime sz filename license fp
      | None \<Rightarrow> judge_text A row t mime sz filename license fp)"

definition handle_sample :: "view \<Rightarrow> wrow \<Rightarrow> fetch_result \<Rightarrow> bool res \<times> effect list" where
  "handle_sample A row r =
     (let c = r_cid row; filename = fr_filename r;
          sz = (case fr_size r of Some n \<Rightarrow> int n | None \<Rightarrow> int (length (fr_data r)))
      in
      if fr_truncated r
         \<and> needs_whole_file (Some (sniff_mime (x_json_ok (v_extract A)) (take 4096 (fr_data r)) (fr_mime r) filename)) then
        (Inr True, [EMark c Skipped (seen_cols ''application/pdf'' sz filename
                      @ [SetError (Some ''incomplete''), SetLastChecked (v_now A AtIncomplete)]), EStat ''incomplete'' 1])
      else
        case extract_document (v_extract A) (fr_data r) (fr_mime r) filename of
          (t, mime, license) \<Rightarrow>
            if \<not> processable (Some mime) \<or> \<not> usable_text t (Some mime) then
              (Inr True, [if sticky_skip_mime (Some mime) then ERemember (v_now A AtRemember) c mime
                          else EMark c Skipped (seen_cols mime sz filename @ [SetError (Some ''unprocessable'')]),
                          EStat ''mime_skips'' 1])
            else classify_text A row t mime sz filename license)"

definition handle_fetch :: "view \<Rightarrow> wrow \<Rightarrow> int \<Rightarrow> fetch_result \<Rightarrow> bool res \<times> effect list" where
  "handle_fetch A row attempts r =
     (case (if fr_ok r \<and> (fr_directory r \<or> fr_mime r = Some ''inode/directory'') then handle_directory A row attempts r
            else if \<not> fr_ok r then fetch_failed A row attempts r
            else handle_sample A row r) of
        (res, effs) \<Rightarrow>
          (res, [EBump (r_cid row) attempts,
                 ENote (v_now A AtNoted) (r_cid row) (if fr_ok r then Some (v_now A AtRetrieved) else None)]
                @ (if fr_ok r then [EStat ''fetched'' 1] else []) @ effs))"

text \<open>None only when the fetch never returns.\<close>

definition process_one :: "view \<Rightarrow> wrow \<Rightarrow> (bool res \<times> effect list) option" where
  "process_one A row =
     (case precheck A row of
        Some (b, effs) \<Rightarrow> Some (Inr b, effs)
      | None \<Rightarrow>
          let attempts = r_attempts row + 1 in
          map_option (handle_fetch A row attempts)
            (fetch_cid (v_net A) (r_cid row) (Some (r_codec row)) (attempts - 1)))"

text \<open>\<open>worker_loop\<close> on one row: an exception puts the row back.\<close>

definition work_on :: "view \<Rightarrow> wrow \<Rightarrow> effect list option" where
  "work_on A row =
     (case process_one A row of
        None \<Rightarrow> None
      | Some (Inr b, effs) \<Rightarrow> Some effs
      | Some (Inl e, effs) \<Rightarrow>
          Some (effs @ [retry_later row [] (if e = OperationalError then ''db_locked'' else ''worker_error'')]))"

section \<open>At start-up\<close>

text \<open>Rows that never landed in the club are put back.\<close>

definition unpublished :: "catalog \<Rightarrow> wrow \<Rightarrow> bool" where
  "unpublished db r \<longleftrightarrow>
     (r_status r = Indexed \<and> r_cid r \<notin> c_cid ` set (classifies db))
     \<or> (r_status r = Skipped \<and> (\<exists>e\<in>set PERSIST_SKIP_REASONS. r_error r = Some e) \<and> r_cid r \<notin> s_cid ` set (skips db))"

definition requeue_unpublished :: "catalog \<Rightarrow> queue \<Rightarrow> int \<times> queue" where
  "requeue_unpublished db q =
     (let t1 = sql_update (unpublished db) (requeue ''republish'') (cids q);
          failed = (\<lambda>r. r_error r = Some ''publish_failed'')
      in (sql_count (unpublished db) (cids q) + sql_count failed t1,
          q\<lparr>cids := sql_update failed (\<lambda>r. r\<lparr>r_attempts := 0, r_status := Discovered\<rparr>) t1\<rparr>))"

text \<open>The counters of the last interval are logged and reset.\<close>

definition log_summary :: "observer \<Rightarrow> (string \<Rightarrow> int) \<times> observer" where
  "log_summary g = (g_window g, g\<lparr>g_window := (\<lambda>_. 0)\<rparr>)"

end
