(* ===== verification/Store_Props.thy ===== *)
theory Store_Props
  imports Store_Laws
begin

text \<open>
  What the catalog promises its users: the skip hook's lookup, idempotent and first-seen-wins
  ingest, one live claim per publisher, the effect of a blacklist, when a second classification
  is due, expiry, and the snapshot for late joiners.
\<close>

section \<open>Lookup\<close>

lemma sql_get_delete_pk:
  "pk key t \<Longrightarrow> sql_get key k (sql_delete D t) =
     (case sql_get key k t of None \<Rightarrow> None | Some r \<Rightarrow> if D r then None else Some r)"
proof (induction t)
  case (Cons r t)
  have "sql_get key k t = None" if "key r = k"
    using Cons.prems that by (auto simp: pk_def sql_get_None has_key_map)
  moreover have "pk key t" using Cons.prems by (simp add: pk_def)
  ultimately show ?case using Cons.IH by (auto simp: sql_get_def sql_delete_def)
qed (simp add: sql_delete_def)

lemma preferred_classify_wf:
  assumes "wf_catalog db"
  shows "preferred_classify db c = None \<longleftrightarrow> (\<forall>r\<in>set (classifies db). c_cid r \<noteq> c)"
proof -
  have key: "has_key d_cid c (docs db) \<longleftrightarrow> (\<exists>r\<in>set (classifies db). c_cid r = c)"
    using assms by (auto simp: wf_catalog_def docs_ok_def has_key_def doc_src_def) metis+
  show ?thesis
  proof (cases "sql_get d_cid c (docs db)")
    case None
    then have "\<not> has_key d_cid c (docs db)" by (simp add: sql_get_None)
    then have no: "\<forall>r\<in>set (classifies db). c_cid r \<noteq> c" using key by blast
    then have "set (rows_of db c) = {}" unfolding set_rows_of by auto
    then have "rows_of db c = []" by (simp only: set_empty)
    with None no show ?thesis by (simp add: preferred_classify_def)
  next
    case (Some d)
    then have "has_key d_cid c (docs db)" by (auto simp: has_key_def dest: sql_get_Some)
    with Some key show ?thesis by (auto simp: preferred_classify_def)
  qed
qed

definition foreign_claim :: "env \<Rightarrow> cid \<Rightarrow> claimrow \<Rightarrow> bool" where
  "foreign_claim E c r \<longleftrightarrow> cl_cid r = c \<and> cl_until r > e_now E \<and> cl_publisher r \<noteq> str_or (e_peer E) []"

text \<open>
  The skip hook's lookup. A classification of the CID always wins, whatever skips and claims
  there are; otherwise a live claim of another publisher; and a skip counts only when there is
  neither and it is live (persistent, or not older than its time to live).
\<close>

theorem lookup_cid_spec:
  assumes "wf_catalog db"
  shows "case lookup_cid E db c of
      Some (HitClassify cl) \<Rightarrow> \<exists>r\<in>set (classifies db). c_cid r = c
    | Some (HitClaim r) \<Rightarrow> r \<in> set (claims db) \<and> foreign_claim E c r \<and> (\<forall>r\<in>set (classifies db). c_cid r \<noteq> c)
    | Some (HitSkip s) \<Rightarrow> s \<in> set (skips db) \<and> s_cid s = c \<and> skip_is_live E s
        \<and> (\<forall>r\<in>set (claims db). \<not> foreign_claim E c r) \<and> (\<forall>r\<in>set (classifies db). c_cid r \<noteq> c)
    | None \<Rightarrow> (\<forall>s\<in>set (skips db). s_cid s = c \<longrightarrow> \<not> skip_is_live E s)
        \<and> (\<forall>r\<in>set (claims db). \<not> foreign_claim E c r) \<and> (\<forall>r\<in>set (classifies db). c_cid r \<noteq> c)"
proof -
  have pks: "pk s_cid (skips db)" using assms by (simp add: wf_catalog_def keys_ok_def)
  note cl = preferred_classify_wf [OF assms, of c]
  show ?thesis
  proof (cases "preferred_classify db c")
    case (Some x)
    then show ?thesis using cl by (auto simp: lookup_cid_def)
  next
    case None
    then have nocl: "\<forall>r\<in>set (classifies db). c_cid r \<noteq> c" using cl by simp
    show ?thesis
    proof (cases "find (foreign_claim E c) (claims db)")
      case (Some r)
      then have "r \<in> set (claims db) \<and> foreign_claim E c r" by (rule find_Some_iff_set)
      then show ?thesis using None nocl Some by (simp add: lookup_cid_def foreign_claim_def [abs_def])
    next
      case nofc: None
      then have nofor: "\<forall>r\<in>set (claims db). \<not> foreign_claim E c r" by (simp only: find_None_set)
      show ?thesis
      proof (cases "sql_get s_cid c (skips db)")
        case noskip: None
        then have "\<forall>s\<in>set (skips db). s_cid s \<noteq> c" by (auto simp: sql_get_None has_key_def)
        then show ?thesis using None nofc noskip nocl nofor
          by (simp add: lookup_cid_def foreign_claim_def [abs_def])
      next
        case (Some s)
        then have s: "s \<in> set (skips db)" "s_cid s = c" by (auto dest: sql_get_Some)
        have only: "s' = s" if "s' \<in> set (skips db)" "s_cid s' = c" for s'
          using pk_unique [OF pks that(1) s(1)] that(2) s(2) by simp
        have "lookup_cid E db c = (if skip_is_live E s then Some (HitSkip s) else None)"
          using None nofc Some by (simp add: lookup_cid_def foreign_claim_def [abs_def])
        moreover have "\<not> skip_is_live E s \<Longrightarrow> \<forall>s\<in>set (skips db). s_cid s = c \<longrightarrow> \<not> skip_is_live E s"
          using only by blast
        ultimately show ?thesis using s nocl nofor by simp
      qed
    qed
  qed
qed

text \<open>
  Expiring old claims and skips never changes what the lookup answers at that time.
\<close>

theorem expire_claims_lookup:
  assumes "wf_catalog db"
  shows "lookup_cid E (expire_claims E db) c = lookup_cid E db c"
proof -
  let ?P = "\<lambda>r. cl_cid r = c \<and> cl_until r > e_now E \<and> cl_publisher r \<noteq> str_or (e_peer E) []"
  have claims: "find ?P (sql_delete (\<lambda>r. cl_until r \<le> e_now E) t) = find ?P t" for t :: "claimrow list"
    by (induction t) (auto simp: sql_delete_def)
  let ?D = "\<lambda>s. \<not> is_persist_skip (s_reason s) \<and> s_received s < e_now E - of_int (skip_ttl E)"
  have dead: "skip_ttl E > 0 \<Longrightarrow> ?D s \<Longrightarrow> \<not> skip_is_live E s" for s
    by (simp add: skip_is_live_def)
  have pks: "pk s_cid (skips db)" using assms by (simp add: wf_catalog_def keys_ok_def)
  have skips: "(case sql_get s_cid c (skips (expire_claims E db)) of Some s \<Rightarrow> if skip_is_live E s then Some (HitSkip s) else None | None \<Rightarrow> None)
      = (case sql_get s_cid c (skips db) of Some s \<Rightarrow> if skip_is_live E s then Some (HitSkip s) else None | None \<Rightarrow> None)"
    using dead by (auto simp: expire_claims_def Let_def sql_get_delete_pk [OF pks] split: option.splits)
  have rest: "preferred_classify (expire_claims E db) c = preferred_classify db c"
  proof -
    have "docs (expire_claims E db) = docs db" "classifies (expire_claims E db) = classifies db"
      by (simp_all add: expire_claims_def Let_def)
    then show ?thesis by (simp only: preferred_classify_def rows_of_def)
  qed
  have "claims (expire_claims E db) = sql_delete (\<lambda>r. cl_until r \<le> e_now E) (claims db)"
    by (simp add: expire_claims_def Let_def)
  then show ?thesis unfolding lookup_cid_def rest by (simp only: claims skips)
qed

section \<open>Ingest\<close>

lemma dispatch_frame:
  "messages (snd (dispatch E obj kind h c p now db)) = messages db"
  "blacklisted (snd (dispatch E obj kind h c p now db)) = blacklisted db"
  by (simp_all add: dispatch_def insert_classify_def upsert_alias_def ingest_skip_def ingest_claim_def
      ingest_report_def Let_def split: sum.splits prod.splits)

lemma admit_cong: "blacklisted db = blacklisted db' \<Longrightarrow> admit E obj db = admit E obj db'"
  unfolding admit_def is_blacklisted_def by (simp only:)

text \<open>A message that was admitted once is a duplicate from then on, even if storing it raised.\<close>

lemma ingest_again:
  assumes "ingest_message E rt obj (db, q) = (r, db', q')" "admit E obj db = Inr (Some x)"
  shows "ingest_message E rt' obj (db', q'') = (Inr False, db', q'')"
proof (cases rule: ingest_message_cases [where E = E and rt = rt and obj = obj and db = db and q = q])
  case (unchanged r')
  then show ?thesis using assms by (cases x) (auto simp: ingest_message_def Let_def)
next
  case (stored kind c p now u db'' q1)
  then have "db' = db''" using assms by auto
  have "messages db' = messages db @ [message_of E obj kind c p now]" "blacklisted db' = blacklisted db"
    using dispatch_frame [of E obj kind "payload_hash (e_sha256 E) (JObj obj)" c p now
        "db\<lparr>messages := messages db @ [message_of E obj kind c p now]\<rparr>"] stored(3) \<open>db' = db''\<close> by simp_all
  moreover from this(2) have "admit E obj db' = Inr (Some (kind, c, p))" using stored(1) admit_cong by metis
  ultimately show ?thesis by (simp add: ingest_message_def Let_def has_key_def)
qed

text \<open>
  Ingest is idempotent. Once a message has been offered without an exception, offering it
  again, at whatever time, reports that it is not new and changes nothing.
\<close>

theorem ingest_message_idempotent:
  assumes "ingest_message E rt obj (db, q) = (Inr r, db', q')"
  shows "ingest_message E rt' obj (db', q'') = (Inr False, db', q'')"
proof (cases "\<exists>x. admit E obj db = Inr (Some x)")
  case True
  then show ?thesis using ingest_again [OF assms] by blast
next
  case False
  then have "admit E obj db = Inr None" "db' = db"
    using assms by (auto simp: ingest_message_def split: sum.splits option.splits)
  then show ?thesis by (simp add: ingest_message_def)
qed

lemma get_docs_upsert:
  "sql_get d_cid k (docs db) = Some d \<Longrightarrow> sql_get d_cid k (docs (upsert_doc f i c db)) = Some d"
  by (auto simp: docs_upsert sql_get_def find_append)

lemma dispatch_docs:
  "sql_get d_cid k (docs db) = Some d \<Longrightarrow> sql_get d_cid k (docs (snd (dispatch E obj kind h c p now db))) = Some d"
  by (auto simp: dispatch_def insert_classify_def upsert_alias_def ingest_skip_def ingest_claim_def
      ingest_report_def Let_def get_docs_upsert split: sum.splits prod.splits)

text \<open>
  The first classification seen is the one search shows. No later message changes or
  removes the search row of a CID.
\<close>

theorem ingest_first_seen_wins:
  assumes "sql_get d_cid k (docs db) = Some d" "ingest_message E rt obj (db, q) = (r, db', q')"
  shows "sql_get d_cid k (docs db') = Some d"
proof (cases rule: ingest_message_cases [where E = E and rt = rt and obj = obj and db = db and q = q])
  case (stored kind c p now u db'' q'')
  have "sql_get d_cid k (docs (snd (dispatch E obj kind (payload_hash (e_sha256 E) (JObj obj)) c p now
      (db\<lparr>messages := messages db @ [message_of E obj kind c p now]\<rparr>)))) = Some d"
    by (rule dispatch_docs) (simp add: assms(1))
  then show ?thesis using stored(3,4) assms(2) by simp
qed (use assms in simp)

text \<open>
  One live claim per publisher. While a publisher's claim on one CID is live, a claim of
  that publisher on another CID is recorded as a message but changes no claim.
\<close>

theorem second_claim_ignored:
  assumes "wf_catalog db" "held \<in> set (claims db)" "cl_until held > e_now E" "cl_cid held \<noteq> c"
    and "admit E obj db = Inr (Some (''claim'', c, cl_publisher held))"
    and "ingest_message E rt obj (db, q) = (r, db', q')"
  shows "claims db' = claims db"
proof (cases rule: ingest_message_cases [where E = E and rt = rt and obj = obj and db = db and q = q])
  case (stored kind c' p now u db'' q'')
  have k: "kind = ''claim''" "c' = c" "p = cl_publisher held" using stored(1) assms(5) by auto
  have "list_ex (\<lambda>r. cl_publisher r = cl_publisher held \<and> cl_cid r \<noteq> c \<and> cl_until r > e_now E) (claims db)"
    using assms(2-4) by (auto simp: list_ex_iff)
  then have "claims (snd (ingest_claim E obj c (cl_publisher held)
      (db\<lparr>messages := messages db @ [message_of E obj kind c p now]\<rparr>))) = claims db"
    by (simp add: ingest_claim_def split: sum.splits)
  then have "claims db'' = claims db" using stored(3) unfolding k by (simp add: dispatch_def)
  then show ?thesis using stored(4) assms(6) by simp
qed (use assms in simp)


section \<open>Blacklist\<close>

lemma owners_rows: "wf_catalog db \<Longrightarrow> p \<in> b_publisher ` set (blacklisted db) \<Longrightarrow>
    p \<notin> owners db \<and> (\<forall>d\<in>set (docs db). d_publisher d \<noteq> p)"
proof -
  assume wf: "wf_catalog db" and p: "p \<in> b_publisher ` set (blacklisted db)"
  then have no: "p \<notin> owners db" by (auto simp: wf_catalog_def black_ok_def)
  moreover have "d_publisher d \<noteq> p" if d: "d \<in> set (docs db)" for d
  proof -
    obtain c where "c \<in> set (classifies db)" "doc_src d c" using wf d by (auto simp: wf_catalog_def docs_ok_def)
    then show ?thesis using no by (auto simp: owners_def doc_src_def)
  qed
  ultimately show ?thesis by blast
qed


section \<open>Second classifications\<close>

lemma keys_latest: "fst ` set (fold latest_step rows []) = c_publisher ` set rows"
proof (induction rows rule: rev_induct)
  case (snoc x xs)
  let ?d = "fold latest_step xs []"
  have up: "fst ` set (AList.update k v d) = insert k (fst ` set d)" for k :: publisher and v :: crow and d
  proof -
    have "set (map fst (AList.update k v d)) = insert k (set (map fst d))"
      by (simp only: AList.update_keys) auto
    then show ?thesis by simp
  qed
  have "c_publisher x \<in> fst ` set ?d" if "map_of ?d (c_publisher x) = Some r" for r
    using that by (metis domI dom_map_of_conv_image_fst)
  then have "fst ` set (latest_step x ?d) = insert (c_publisher x) (fst ` set ?d)"
    by (auto simp: latest_step_def up split: option.splits)
  then show ?case using snoc by simp
qed simp

lemma independent_publishers_card:
  "length (independent_publishers db c)
   = card (c_publisher ` {r \<in> set (classifies db). c_cid r = c \<and> classifier_kind r \<noteq> ''reuse''})"
proof -
  let ?rows = "filter (\<lambda>r. classifier_kind r \<noteq> ''reuse'') (rows_of db c)"
  have rows: "set ?rows = {r \<in> set (classifies db). c_cid r = c \<and> classifier_kind r \<noteq> ''reuse''}" by auto
  have "map c_publisher (latest_per_publisher ?rows) = map fst (fold latest_step ?rows [])"
    by (rule map_publisher_latest)
  then have "length (latest_per_publisher ?rows) = card (c_publisher ` set ?rows)"
  proof -
    have "card (set (map fst (fold latest_step ?rows []))) = length (map fst (fold latest_step ?rows []))"
      by (rule distinct_card) (rule latest_keys [THEN conjunct1])
    then show ?thesis by (simp only: latest_per_publisher_def length_map set_map keys_latest)
  qed
  then show ?thesis unfolding independent_publishers_def Let_def rows
    by (auto simp: latest_per_publisher_def)
qed

text \<open>
  A CID must be classified here, skip hook and reuse notwithstanding, exactly when this node
  has not classified it yet and either a peer reported its labels as wrong or exactly one
  publisher has classified it independently.
\<close>

theorem must_classify_spec:
  "must_classify E db c \<longleftrightarrow>
     (\<nexists>r me. e_peer E = Some me \<and> me \<noteq> [] \<and> r \<in> set (classifies db) \<and> c_cid r = c \<and> c_publisher r = me)
     \<and> ((\<exists>r\<in>set (reports db). rp_cid r = c \<and> rp_reason r = ''wrong'')
        \<or> card (c_publisher ` {r \<in> set (classifies db). c_cid r = c \<and> classifier_kind r \<noteq> ''reuse''}) = 1)"
  by (auto simp: must_classify_def should_second_classify_def needs_review_def local_classified_def
      independent_publishers_card list_ex_iff split: option.splits)

section \<open>Snapshots\<close>

lemma signed_not_Nil: "signed_body m \<Longrightarrow> m_body m \<noteq> []"
  by (auto simp: signed_body_def)

lemma newest_bodies_spec:
  assumes "\<And>m. P m \<Longrightarrow> m_body m \<noteq> []"
  shows "length (newest_bodies P n db) = min n (length (filter P (messages db)))
    \<and> set (newest_bodies P n db) \<subseteq> m_body ` {m \<in> set (messages db). P m}
    \<and> (length (newest_bodies P n db) < n \<longrightarrow> set (newest_bodies P n db) = m_body ` {m \<in> set (messages db). P m})"
proof -
  let ?t = "order_limit (\<lambda>m. - m_received m) n (filter P (messages db))"
  have sub: "set ?t \<subseteq> {m \<in> set (messages db). P m}" using set_order_limit [of "\<lambda>m. - m_received m" n] by fastforce
  then have "filter (\<lambda>b. b \<noteq> []) (map m_body ?t) = map m_body ?t"
    using assms by (intro filter_False_id) auto
  then have eq: "newest_bodies P n db = rev (map m_body ?t)" by (simp add: newest_bodies_def)
  have len: "length ?t = min n (length (filter P (messages db)))" by (simp add: order_limit_def)
  have "set ?t = {m \<in> set (messages db). P m}" if "length ?t < n"
  proof -
    have "length (filter P (messages db)) \<le> n" using that len by (simp add: min_def split: if_splits)
    from order_limit_all [OF this, of "\<lambda>m. - m_received m"] show ?thesis by simp
  qed
  then show ?thesis unfolding eq using len sub by auto
qed

text \<open>
  A snapshot has at most \<open>limit\<close> lines, each the signed envelope of a message; documents,
  aliases and reports come first, and scope skips follow only when all of those fit.
\<close>

theorem snapshot_lines_spec:
  "\<exists>ds ss. snapshot_lines db limit = ds @ ss \<and> length (ds @ ss) \<le> nat limit
     \<and> set ds \<subseteq> m_body ` {m \<in> set (messages db). snapshot_doc db m}
     \<and> set ss \<subseteq> m_body ` {m \<in> set (messages db). snapshot_skip db m}
     \<and> (ss \<noteq> [] \<longrightarrow> set ds = m_body ` {m \<in> set (messages db). snapshot_doc db m})"
proof -
  let ?ds = "newest_bodies (snapshot_doc db) (nat limit) db"
  let ?n = "nat limit - length ?ds"
  let ?ss = "if ?n > 0 then newest_bodies (snapshot_skip db) ?n db else []"
  have d: "snapshot_doc db m \<Longrightarrow> m_body m \<noteq> []" "snapshot_skip db m \<Longrightarrow> m_body m \<noteq> []" for m
    by (auto simp: snapshot_doc_def snapshot_skip_def dest: signed_not_Nil)
  have "snapshot_lines db limit = ?ds @ ?ss" by (simp add: snapshot_lines_def Let_def)
  moreover have "length (?ds @ ?ss) \<le> nat limit"
  proof -
    have "length ?ds \<le> nat limit" "length ?ss \<le> nat limit - length ?ds"
      using newest_bodies_spec [of "snapshot_doc db" "nat limit" db, OF d(1), THEN conjunct1]
        newest_bodies_spec [of "snapshot_skip db" ?n db, OF d(2), THEN conjunct1] by simp_all
    then show ?thesis unfolding length_append by linarith
  qed
  moreover have "set ?ds \<subseteq> m_body ` {m \<in> set (messages db). snapshot_doc db m}"
    using newest_bodies_spec [of "snapshot_doc db", OF d(1)] by blast
  moreover have "set ?ss \<subseteq> m_body ` {m \<in> set (messages db). snapshot_skip db m}"
    using newest_bodies_spec [of "snapshot_skip db" ?n db, OF d(2), THEN conjunct2, THEN conjunct1]
    by (auto split: if_splits)
  moreover have "?ss \<noteq> [] \<longrightarrow> set ?ds = m_body ` {m \<in> set (messages db). snapshot_doc db m}"
  proof
    assume "?ss \<noteq> []"
    then have "length ?ds < nat limit" by (simp split: if_splits)
    then show "set ?ds = m_body ` {m \<in> set (messages db). snapshot_doc db m}"
      using newest_bodies_spec [of "snapshot_doc db" "nat limit" db, OF d(1)] by blast
  qed
  ultimately show ?thesis by blast
qed


section \<open>Concrete catalogs\<close>

text \<open>
  Two peers; the first has classified a document, the second holds a claim on another CID and
  has skipped a third.
\<close>

definition ex_env :: env where
  "ex_env = \<lparr>e_club = ex_club, e_fetch = Map.empty, e_sha256 = (\<lambda>b. [of_nat (length b)]),
     e_float_str = (\<lambda>s. None), e_int_affinity = DText, e_peer = Some ''me'', e_now = 100\<rparr>"

definition ex_row :: crow where
  "ex_row = ex_crow ''h1'' ''peer1'' ''computer-science'' 1"

definition ex_claim :: claimrow where
  "ex_claim = \<lparr>cl_publisher = ''peer2'', cl_cid = ''f01551203aabb01'', cl_until = 200\<rparr>"

definition ex_catalog :: catalog where
  "ex_catalog = empty_catalog\<lparr>
     messages := [\<lparr>m_hash = ''h1'', m_kind = ''classify'', m_cid = c_cid ex_row, m_publisher = ''peer1'',
                   m_body = [], m_received = 1\<rparr>],
     classifies := [ex_row],
     docs := [doc_of ''computer-science'' 1 ex_row 1],
     docs_fts := [fts_of (doc_of ''computer-science'' 1 ex_row 1)],
     docs_count := Some 1,
     claims := [ex_claim],
     skips := [\<lparr>s_cid = ''f01551203aabb02'', s_publisher = ''peer2'', s_mime = None,
                s_reason = Some ''out_of_scope'', s_received = 2\<rparr>]\<rparr>"

lemma ex_valid: "valid ''f01551203aabbcc''" "valid ''f01551203aabb01''" "valid ''f01551203aabb02''"
  by code_simp+

lemma ex_wf_catalog: "wf_catalog ex_catalog"
  using ex_valid
  by (simp add: wf_catalog_def keys_ok_def docs_ok_def rows_ok_def black_ok_def owners_def ex_catalog_def
      empty_catalog_def ex_row_def ex_crow_def ex_claim_def pk_def has_key_def doc_src_def doc_of_def fts_of_def)

theorem lookup_cid_witness: "\<exists>cl. lookup_cid ex_env ex_catalog ''f01551203aabbcc'' = Some (HitClassify cl)"
  using lookup_cid_spec [OF ex_wf_catalog, where E = ex_env and c = "''f01551203aabbcc''"]
  by (auto simp: ex_catalog_def ex_row_def ex_crow_def split: option.splits hit.splits)

theorem expire_claims_witness:
  "lookup_cid ex_env (expire_claims ex_env ex_catalog) ''f01551203aabb01'' = lookup_cid ex_env ex_catalog ''f01551203aabb01''"
  by (rule expire_claims_lookup [OF ex_wf_catalog])

definition ex_msg :: "string \<Rightarrow> publisher \<Rightarrow> cid \<Rightarrow> (string \<times> json) list \<Rightarrow> (string \<times> json) list" where
  "ex_msg kind p c rest = [(''kind'', JStr kind), (''cid'', JStr c), (''publisher'', JStr p)] @ rest"

abbreviation ex_ingest :: "(string \<times> json) list \<Rightarrow> bool res \<times> catalog \<times> queue" where
  "ex_ingest obj \<equiv> ingest_message ex_env None obj (ex_catalog, empty_queue)"

lemma ex_skip_new: "fst (ex_ingest (ex_msg ''skip'' ''peer1'' ''f01551203aabbcc'' [])) = Inr True"
  by code_simp

theorem ingest_idempotent_witness:
  "\<exists>db. ingest_message ex_env None (ex_msg ''skip'' ''peer1'' ''f01551203aabbcc'' []) (db, empty_queue)
        = (Inr False, db, empty_queue)"
proof -
  let ?r = "ex_ingest (ex_msg ''skip'' ''peer1'' ''f01551203aabbcc'' [])"
  have "?r = (Inr True, fst (snd ?r), snd (snd ?r))" using ex_skip_new by (simp add: prod_eq_iff)
  from ingest_message_idempotent [OF this] show ?thesis by blast
qed

theorem ingest_first_seen_witness:
  "sql_get d_cid ''f01551203aabbcc'' (docs (fst (snd (ex_ingest (ex_msg ''classify'' ''peer2'' ''f01551203aabbcc'' [(''field'', JStr ''cs'')])))))
   = Some (doc_of ''computer-science'' 1 ex_row 1)"
  by (rule ingest_first_seen_wins [where db = ex_catalog and q = empty_queue and E = ex_env and rt = None])
    (simp_all add: ex_catalog_def sql_get_def ex_row_def ex_crow_def prod_eq_iff)

lemma ex_second_claim: "admit ex_env (ex_msg ''claim'' ''peer2'' ''f01551203aabbcc'' [(''until'', JInt 300)]) ex_catalog
    = Inr (Some (''claim'', ''f01551203aabbcc'', cl_publisher ex_claim))"
  by code_simp

theorem second_claim_witness:
  "claims (fst (snd (ex_ingest (ex_msg ''claim'' ''peer2'' ''f01551203aabbcc'' [(''until'', JInt 300)])))) = claims ex_catalog"
  by (rule second_claim_ignored [OF ex_wf_catalog _ _ _ ex_second_claim, where rt = None and q = empty_queue])
    (simp_all add: ex_catalog_def ex_claim_def ex_env_def prod_eq_iff)


section \<open>A message that is stored only half\<close>

text \<open>
  A classify message whose \<open>mime_type\<close> is an object is recorded in \<open>messages\<close> before its
  columns are bound. Binding raises, and when the message is offered again it counts as a
  duplicate: it stays recorded without ever becoming a classification.
\<close>

theorem unbindable_classify_is_lost:
  "\<exists>E obj db db' q. ingest_message E None obj (db, q) = (Inl BindError, db', q)
     \<and> ingest_message E None obj (db', q) = (Inr False, db', q)
     \<and> length (messages db') = length (messages db) + 1 \<and> classifies db' = classifies db"
proof -
  let ?obj = "ex_msg ''classify'' ''peer2'' ''f01551203aabbcc'' [(''mime_type'', JObj [])]"
  let ?db = "fst (snd (ex_ingest ?obj))"
  have "fst (ex_ingest ?obj) = Inl BindError" by code_simp
  moreover have "snd (snd (ex_ingest ?obj)) = empty_queue" by code_simp
  ultimately have 1: "ex_ingest ?obj = (Inl BindError, ?db, empty_queue)" by (simp add: prod_eq_iff)
  have "admit ex_env ?obj ex_catalog = Inr (Some (''classify'', ''f01551203aabbcc'', ''peer2''))" by code_simp
  from ingest_again [OF 1 this]
  have 2: "ingest_message ex_env None ?obj (?db, empty_queue) = (Inr False, ?db, empty_queue)" .
  have 3: "length (messages ?db) = length (messages ex_catalog) + 1" by code_simp
  have 4: "classifies ?db = classifies ex_catalog"
    by code_simp
  show ?thesis using 1 2 3 4 by blast
qed

text \<open>A catalog with a signed document and a signed scope skip.\<close>

definition ex_body :: "string \<Rightarrow> string" where
  "ex_body x = x @ [char_of (34 :: nat)] @ ''sig'' @ [char_of (34 :: nat), CHR '':'']"

definition ex_signed :: "string \<Rightarrow> cid \<Rightarrow> string \<Rightarrow> time \<Rightarrow> message" where
  "ex_signed kind c x t = \<lparr>m_hash = x, m_kind = kind, m_cid = c, m_publisher = ''peer1'',
     m_body = ex_body x, m_received = t\<rparr>"

definition ex_snapshot :: catalog where
  "ex_snapshot = ex_catalog\<lparr>messages := [ex_signed ''skip'' ''f01551203aabb02'' ''s'' 2,
     ex_signed ''classify'' ''f01551203aabbcc'' ''d'' 3]\<rparr>"

lemma ex_snapshot_facts:
  "snapshot_lines ex_snapshot 5 = [ex_body ''d'', ex_body ''s'']"
  "filter (snapshot_doc ex_snapshot) (messages ex_snapshot) = [ex_signed ''classify'' ''f01551203aabbcc'' ''d'' 3]"
  by code_simp+

theorem snapshot_lines_witness:
  "\<exists>ds ss. snapshot_lines ex_snapshot 5 = ds @ ss \<and> ss \<noteq> [] \<and> set ds = {ex_body ''d''}"
proof -
  have docs: "{m \<in> set (messages ex_snapshot). snapshot_doc ex_snapshot m} = {ex_signed ''classify'' ''f01551203aabbcc'' ''d'' 3}"
    using arg_cong [OF ex_snapshot_facts(2), of set] by (simp only: set_filter list.set)
  obtain ds ss where spec: "snapshot_lines ex_snapshot 5 = ds @ ss"
      "set ds \<subseteq> m_body ` {m \<in> set (messages ex_snapshot). snapshot_doc ex_snapshot m}"
      "ss \<noteq> [] \<longrightarrow> set ds = m_body ` {m \<in> set (messages ex_snapshot). snapshot_doc ex_snapshot m}"
    using snapshot_lines_spec [of ex_snapshot 5] by (elim exE conjE) (rule that)
  have "ss \<noteq> []"
  proof
    assume "ss = []"
    then have "ds = [ex_body ''d'', ex_body ''s'']" using spec(1) ex_snapshot_facts(1) by simp
    then show False using spec(2) unfolding docs by (simp add: ex_signed_def ex_body_def)
  qed
  moreover from this have "set ds = {ex_body ''d''}" using spec(3) unfolding docs by (simp add: ex_signed_def)
  ultimately show ?thesis using spec(1) by blast
qed

end
