(* ===== verification/Ingest.thy ===== *)
theory Ingest
  imports Store_Props Log
begin

text \<open>
  \<open>observer/ingest.py\<close>: draining clubd's inbox into the catalog. The inbox is the list of its
  files; the saved cursor maps a file name to the offset after its last ingested line. \<open>parse\<close> is
  \<open>json.loads(line.decode("utf-8"))\<close>, None where it raises ValueError.
\<close>

section \<open>Draining\<close>

text \<open>\<open>bytes.strip()\<close>.\<close>

definition byte_space :: "byte \<Rightarrow> bool" where
  "byte_space b \<longleftrightarrow> b \<in> {9, 10, 11, 12, 13, 32}"

definition bytes_strip :: "bytes \<Rightarrow> bytes" where
  "bytes_strip s = py_rstrip byte_space (py_lstrip byte_space s)"

type_synonym inbox_state = "int \<times> catalog \<times> queue"

definition inbox_line :: "env \<Rightarrow> (bytes \<Rightarrow> json option) \<Rightarrow> bytes \<Rightarrow> nat \<Rightarrow> inbox_state \<Rightarrow> unit res \<times> inbox_state" where
  "inbox_line E parse line off s =
     (case s of (n, db, q) \<Rightarrow>
        let l = bytes_strip line in
        if l = [] then (Inr (), s)
        else (case parse l of
          None \<Rightarrow> (Inr (), s)
        | Some (JObj obj) \<Rightarrow>
            (case ingest_message E None obj (db, q) of
               (Inl e, db', q') \<Rightarrow> (Inl e, n, db', q')
             | (Inr new, db', q') \<Rightarrow>
                 if new then
                   (Inr (), n + 1, db',
                    if jget obj ''kind'' = JStr ''classify''
                    then snd (maybe_enqueue_second E db' (case jget obj ''cid'' of JStr c \<Rightarrow> c | _ \<Rightarrow> []) q')
                    else q')
                 else (Inr (), n, db', q'))
        | Some v \<Rightarrow> (Inl AttributeError, s)))"

record inbox_file =
  i_name :: string
  i_data :: bytes
  i_mtime :: time

type_synonym offsets = "string \<Rightarrow> nat option"

definition start_pos :: "offsets \<Rightarrow> inbox_file \<Rightarrow> nat" where
  "start_pos offs f =
     (let pos = (case offs (i_name f) of None \<Rightarrow> 0 | Some n \<Rightarrow> n) in
      if pos > length (i_data f) then 0 else pos)"

fun drain_files :: "env \<Rightarrow> (bytes \<Rightarrow> json option) \<Rightarrow> inbox_file list \<Rightarrow> offsets \<Rightarrow> inbox_state \<Rightarrow>
    offsets res \<times> inbox_state" where
  "drain_files E parse [] offs s = (Inr offs, s)"
| "drain_files E parse (f # fs) offs s =
     (if py_endswith (i_name f) ''.jsonl'' then
        (case drain_file read_all_lines (inbox_line E parse) (i_data f) (start_pos offs f) s of
           (Inl e, s') \<Rightarrow> (Inl e, s')
         | (Inr pos, s') \<Rightarrow> drain_files E parse fs (offs(i_name f \<mapsto> pos)) s')
      else drain_files E parse fs offs s)"

section \<open>Pruning the inbox\<close>

definition consumed_file :: "offsets \<Rightarrow> inbox_file \<Rightarrow> bool" where
  "consumed_file offs f \<longleftrightarrow> length (i_data f) \<le> (case offs (i_name f) of None \<Rightarrow> 0 | Some n \<Rightarrow> n)"

definition old_file :: "intcfg \<Rightarrow> time \<Rightarrow> string \<Rightarrow> offsets \<Rightarrow> inbox_file \<Rightarrow> bool" where
  "old_file C now today offs f \<longleftrightarrow>
     i_name f \<noteq> today \<and> consumed_file offs f
     \<and> i_mtime f < now - of_int (cfg_get C ''inbox_keep_days'' 7) * 86400"

definition inbox_size :: "inbox_file list \<Rightarrow> int" where
  "inbox_size fs = sum_list (map (\<lambda>f. int (length (i_data f))) fs)"

text \<open>The second loop: drop the oldest files but today's until the total fits.\<close>

fun drop_oldest :: "string \<Rightarrow> int \<Rightarrow> int \<Rightarrow> inbox_file list \<Rightarrow> inbox_file list" where
  "drop_oldest today cap tot [] = []"
| "drop_oldest today cap tot (f # fs) =
     (if tot \<le> cap then f # fs
      else if i_name f = today then f # drop_oldest today cap tot fs
      else drop_oldest today cap (tot - int (length (i_data f))) fs)"

definition prune_inbox :: "intcfg \<Rightarrow> time \<Rightarrow> string \<Rightarrow> inbox_file list \<Rightarrow> offsets \<Rightarrow> inbox_file list \<times> offsets" where
  "prune_inbox C now today fs offs =
     (let logs = sort_key i_name (filter (\<lambda>f. py_endswith (i_name f) ''.jsonl'') fs);
          logs1 = filter (\<lambda>f. \<not> old_file C now today offs f) logs;
          logs2 = drop_oldest today (cfg_get C ''inbox_max_bytes'' (64 * 1024 * 1024)) (inbox_size logs1) logs1;
          gone = i_name ` (set logs - set logs2)
      in (filter (\<lambda>f. i_name f \<notin> gone) fs, \<lambda>p. if p \<in> gone then None else offs p))"

section \<open>One drain\<close>

text \<open>
  An exception leaves the cursor file as it was: the new offsets are saved only at the end.
\<close>

record inbox_world =
  w_files :: "inbox_file list"
  w_offsets :: offsets
  w_catalog :: catalog
  w_queue :: queue

definition drain_once :: "env \<Rightarrow> intcfg \<Rightarrow> string \<Rightarrow> (bytes \<Rightarrow> json option) \<Rightarrow> inbox_world \<Rightarrow> int res \<times> inbox_world" where
  "drain_once E C today parse w =
     (case drain_files E parse (sort_key i_name (w_files w)) (w_offsets w) (0, w_catalog w, w_queue w) of
        (Inl e, n, db, q) \<Rightarrow> (Inl e, w\<lparr>w_catalog := db, w_queue := q\<rparr>)
      | (Inr offs, n, db, q) \<Rightarrow>
          (case prune_inbox C (e_now E) today (w_files w) offs of (fs, offs') \<Rightarrow>
             (Inr n, \<lparr>w_files = fs, w_offsets = offs', w_catalog = expire_claims E db, w_queue = q\<rparr>)))"

section \<open>Invariants\<close>

lemma wf_maybe_enqueue_second [wfq]: "wf_queue q \<Longrightarrow> wf_queue (snd (maybe_enqueue_second E db c q))"
  by (auto simp: maybe_enqueue_second_def intro: wfq)

definition wf_state :: "inbox_state \<Rightarrow> bool" where
  "wf_state s \<longleftrightarrow> wf_catalog (fst (snd s)) \<and> wf_queue (snd (snd s))"

lemma wf_inbox_line:
  assumes "wf_state s"
  shows "wf_state (snd (inbox_line E parse line off s))"
proof -
  obtain n db q where s: "s = (n, db, q)" using prod_cases3 by blast
  have "wf_catalog db' \<and> wf_queue q'" if "ingest_message E None obj (db, q) = (r, db', q')" for obj r db' q'
    using assms wf_ingest_message [OF _ that] by (simp add: wf_state_def s)
  then show ?thesis
    using assms
    by (auto simp: inbox_line_def s wf_state_def Let_def intro!: wf_maybe_enqueue_second
        split: option.splits json.splits prod.splits sum.splits)
qed

lemma wf_drain_files: "wf_state s \<Longrightarrow> wf_state (snd (drain_files E parse fs offs s))"
proof (induction E parse fs offs s rule: drain_files.induct)
  case (2 E parse f fs offs s)
  have "wf_state (snd (drain_file read_all_lines (inbox_line E parse) (i_data f) (start_pos offs f) s))"
    unfolding drain_file_def by (rule run_lines_inv [of _ wf_state]) (auto intro: wf_inbox_line 2)
  then show ?case using 2 by (auto simp: fun_upd_def split: prod.splits sum.splits)
qed simp

lemma wf_drain_once:
  assumes "wf_catalog (w_catalog w)" "wf_queue (w_queue w)"
  shows "wf_catalog (w_catalog (snd (drain_once E C today parse w))) \<and> wf_queue (w_queue (snd (drain_once E C today parse w)))"
  using wf_drain_files [of "(0, w_catalog w, w_queue w)" E parse "sort_key i_name (w_files w)" "w_offsets w"] assms
  by (auto simp: drain_once_def wf_state_def intro: wfc split: prod.splits sum.splits)


section \<open>Reading in instalments and reading again\<close>

text \<open>
  C28: Draining in instalments. Draining what clubd has written of an inbox file and draining on
  after it has appended more is draining the longer file once, with the same catalog, queue and
  offset; when the first part raises, so does the whole.
\<close>

theorem inbox_resume:
  "drain_file read_all_lines (inbox_line E parse) (A @ B) 0 s =
     (case drain_file read_all_lines (inbox_line E parse) A 0 s of
        (Inl e, s') \<Rightarrow> (Inl e, s')
      | (Inr off, s') \<Rightarrow> drain_file read_all_lines (inbox_line E parse) (A @ B) off s')"
  by (rule inbox_log.drain_resume)

text \<open>A message that an ingest leaves as it is: refused by the guards, or stored already.\<close>

definition settled :: "env \<Rightarrow> (string \<times> json) list \<Rightarrow> catalog \<Rightarrow> bool" where
  "settled E obj db \<longleftrightarrow> admit E obj db = Inr None
     \<or> (\<exists>x. admit E obj db = Inr (Some x)) \<and> has_key m_hash (payload_hash (e_sha256 E) (JObj obj)) (messages db)"

lemma settled_ingest: "settled E obj db \<Longrightarrow> ingest_message E rt obj (db, q) = (Inr False, db, q)"
  by (auto simp: settled_def ingest_message_def Let_def)

lemma ingest_frame:
  assumes "ingest_message E rt obj (db, q) = (r, db', q')"
  shows "blacklisted db' = blacklisted db" "has_key m_hash h (messages db) \<Longrightarrow> has_key m_hash h (messages db')"
proof -
  have "blacklisted db' = blacklisted db \<and> (has_key m_hash h (messages db) \<longrightarrow> has_key m_hash h (messages db'))"
  proof (cases rule: ingest_message_cases [where E = E and rt = rt and obj = obj and db = db and q = q])
    case (stored kind c p now u db'' q1)
    then show ?thesis
      using assms dispatch_frame [of E obj kind "payload_hash (e_sha256 E) (JObj obj)" c p now
          "db\<lparr>messages := messages db @ [message_of E obj kind c p now]\<rparr>"] by (auto simp: has_key_def)
  qed (use assms in auto)
  then show "blacklisted db' = blacklisted db" "has_key m_hash h (messages db) \<Longrightarrow> has_key m_hash h (messages db')" by auto
qed

lemma settled_mono: "settled E obj db \<Longrightarrow> ingest_message E rt obj' (db, q) = (r, db', q') \<Longrightarrow> settled E obj db'"
  using ingest_frame [of E rt obj' db q r db' q'] admit_cong [of db' db E obj] unfolding settled_def by auto

lemma ingest_settles:
  assumes "ingest_message E rt obj (db, q) = (Inr new, db', q')"
  shows "settled E obj db'"
proof (cases rule: ingest_message_cases [where E = E and rt = rt and obj = obj and db = db and q = q])
  case (unchanged r)
  then have eq: "db' = db" "r = Inr new" using assms by auto
  consider e where "admit E obj db = Inl e" | "admit E obj db = Inr None" | kind c p where "admit E obj db = Inr (Some (kind, c, p))"
    by (metis obj_sumE option.exhaust prod_cases3)
  then show ?thesis
  proof cases
    case 1
    then show ?thesis using unchanged(5) eq by auto
  qed (use unchanged(3) eq in \<open>auto simp: settled_def\<close>)
next
  case (stored kind c p now u db'' q1)
  have eq: "db'' = db'" using stored(4) assms by simp
  have "has_key m_hash (payload_hash (e_sha256 E) (JObj obj)) (messages db')"
    using dispatch_frame [of E obj kind "payload_hash (e_sha256 E) (JObj obj)" c p now
        "db\<lparr>messages := messages db @ [message_of E obj kind c p now]\<rparr>"] stored(3) eq by (simp add: has_key_def)
  moreover have "admit E obj db' = admit E obj db" using ingest_frame(1) [OF assms] by (rule admit_cong)
  ultimately show ?thesis using stored(1) by (auto simp: settled_def)
qed

text \<open>The same for a line of the inbox.\<close>

definition line_settled :: "env \<Rightarrow> (bytes \<Rightarrow> json option) \<Rightarrow> catalog \<Rightarrow> bytes \<Rightarrow> bool" where
  "line_settled E parse db line \<longleftrightarrow> bytes_strip line = [] \<or> parse (bytes_strip line) = None
     \<or> (\<exists>obj. parse (bytes_strip line) = Some (JObj obj) \<and> settled E obj db)"

lemma line_settled_nop: "line_settled E parse db line \<Longrightarrow> inbox_line E parse line off (n, db, q) = (Inr (), n, db, q)"
  by (auto simp: line_settled_def inbox_line_def Let_def settled_ingest)

lemma inbox_line_cases:
  assumes "inbox_line E parse line off (n, db, q) = (Inr u, n', db', q')"
  obtains "db' = db" "q' = q" "line_settled E parse db line"
  | obj new q1 where "parse (bytes_strip line) = Some (JObj obj)" "ingest_message E None obj (db, q) = (Inr new, db', q1)"
  using assms by (auto simp: inbox_line_def line_settled_def Let_def split: if_splits option.splits json.splits prod.splits sum.splits)

lemma inbox_line_settles:
  assumes "inbox_line E parse line off (n, db, q) = (Inr u, n', db', q')"
  shows "line_settled E parse db' line" "line_settled E parse db line' \<Longrightarrow> line_settled E parse db' line'"
  by (rule inbox_line_cases [OF assms]; auto simp: line_settled_def dest: ingest_settles intro: settled_mono)+

lemma run_settles:
  assumes "run_lines (inbox_line E parse) ls off s = (Inr off', n', db', q')"
  shows "(\<forall>l\<in>set ls. line_settled E parse db' l)
    \<and> (\<forall>l. line_settled E parse (fst (snd s)) l \<longrightarrow> line_settled E parse db' l)"
  using assms
proof (induction ls arbitrary: off s)
  case (Cons l ls)
  obtain n db q where s: "s = (n, db, q)" using prod_cases3 by blast
  obtain u n1 db1 q1 where step: "inbox_line E parse l (off + length l) (n, db, q) = (Inr u, n1, db1, q1)"
      and rest: "run_lines (inbox_line E parse) ls (off + length l) (n1, db1, q1) = (Inr off', n', db', q')"
    using Cons.prems by (auto simp: s split: prod.splits sum.splits)
  from Cons.IH [OF rest] inbox_line_settles [OF step] show ?case by (simp add: s)
qed simp

lemma run_settled_nop:
  "\<forall>l\<in>set ls. line_settled E parse db l \<Longrightarrow>
   run_lines (inbox_line E parse) ls off (n, db, q) = (Inr (off + length (concat ls)), n, db, q)"
  by (induction ls arbitrary: off) (simp_all add: line_settled_nop)

text \<open>
  Redelivery is harmless. If the process dies after a file was drained and before the cursor
  file is written, the next start reads the same lines again: no line is counted as new, and
  catalog and queue stay as they are.
\<close>

theorem inbox_redelivery:
  assumes "drain_file read_all_lines (inbox_line E parse) content off s = (Inr off', n, db, q)"
  shows "drain_file read_all_lines (inbox_line E parse) content off (0, db, q) = (Inr off', 0, db, q)"
proof -
  have run: "run_lines (inbox_line E parse) (takeWhile complete_line (read_all_lines (drop off content))) off s = (Inr off', n, db, q)"
    using assms by (simp add: drain_file_def)
  show ?thesis
    unfolding drain_file_def
    using run_settled_nop [OF run_settles [OF run, THEN conjunct1], of off 0 q] run_lines_offset [OF run] by simp
qed


section \<open>A line that stops the drain\<close>


section \<open>What pruning keeps\<close>

lemma set_drop_oldest: "set (drop_oldest today cap tot fs) \<subseteq> set fs"
  by (induction today cap tot fs rule: drop_oldest.induct) auto

lemma drop_oldest_today: "f \<in> set fs \<Longrightarrow> i_name f = today \<Longrightarrow> f \<in> set (drop_oldest today cap tot fs)"
  by (induction today cap tot fs rule: drop_oldest.induct) auto

lemma distinct_drop_oldest: "distinct fs \<Longrightarrow> distinct (drop_oldest today cap tot fs)"
  by (induction today cap tot fs rule: drop_oldest.induct) (auto dest: subsetD [OF set_drop_oldest])

lemma drop_oldest_size:
  "tot = k + inbox_size fs \<Longrightarrow>
   k + inbox_size (drop_oldest today cap tot fs) \<le> cap \<or> (\<forall>f\<in>set (drop_oldest today cap tot fs). i_name f = today)"
proof (induction today cap tot fs arbitrary: k rule: drop_oldest.induct)
  case (2 today cap tot f fs)
  consider "tot \<le> cap" | "\<not> tot \<le> cap" "i_name f = today" | "\<not> tot \<le> cap" "i_name f \<noteq> today" by blast
  then show ?case
  proof cases
    case 2
    from "2.IH"(1) [OF this, of "k + int (length (i_data f))"] "2.prems" 2 show ?thesis by (auto simp: inbox_size_def)
  next
    case 3
    from "2.IH"(2) [OF this, of k] "2.prems" 3 show ?thesis by (auto simp: inbox_size_def)
  qed (use "2.prems" in simp)
qed (simp add: inbox_size_def)

lemma inbox_size_set: "distinct fs \<Longrightarrow> inbox_size fs = (\<Sum>f\<in>set fs. int (length (i_data f)))"
  by (simp add: inbox_size_def sum_list_distinct_conv_sum_set)

abbreviation jsonl :: "inbox_file list \<Rightarrow> inbox_file list" where
  "jsonl fs \<equiv> filter (\<lambda>f. py_endswith (i_name f) ''.jsonl'') fs"

text \<open>
  Pruning the inbox never removes today's file, forgets the cursor of exactly the files it
  removes, and leaves at most \<open>inbox_max_bytes\<close> of message files, unless today's file alone is
  larger.
\<close>

theorem prune_inbox_spec:
  assumes "distinct (map i_name fs)" "prune_inbox C now today fs offs = (fs', offs')"
  shows "(\<forall>f\<in>set fs. i_name f = today \<longrightarrow> f \<in> set fs')
    \<and> (\<forall>f\<in>set fs. offs' (i_name f) = (if f \<in> set fs' then offs (i_name f) else None))
    \<and> (inbox_size (jsonl fs') \<le> cfg_get C ''inbox_max_bytes'' (64 * 1024 * 1024)
         \<or> (\<forall>f\<in>set (jsonl fs'). i_name f = today))"
proof (intro conjI)
  let ?cap = "cfg_get C ''inbox_max_bytes'' (64 * 1024 * 1024)"
  define logs where "logs = sort_key i_name (jsonl fs)"
  define logs1 where "logs1 = filter (\<lambda>f. \<not> old_file C now today offs f) logs"
  define logs2 where "logs2 = drop_oldest today ?cap (inbox_size logs1) logs1"
  define gone where "gone = i_name ` (set logs - set logs2)"
  have res: "fs' = filter (\<lambda>f. i_name f \<notin> gone) fs" "offs' = (\<lambda>p. if p \<in> gone then None else offs p)"
    using assms(2) by (simp_all add: prune_inbox_def Let_def logs_def logs1_def logs2_def gone_def)
  have logs: "set logs = set (jsonl fs)" by (simp add: logs_def)
  have sub: "set logs2 \<subseteq> set logs" using set_drop_oldest by (fastforce simp: logs2_def logs1_def)
  have gone_iff: "i_name f \<in> gone \<longleftrightarrow> f \<in> set logs - set logs2" if "f \<in> set fs" for f
    using assms(1) that logs by (auto simp: gone_def distinct_map inj_on_def)
  have today: "f \<in> set fs' " if f: "f \<in> set fs" "i_name f = today" for f
  proof -
    have "f \<in> set logs \<Longrightarrow> f \<in> set logs2"
      using f(2) by (auto simp: logs2_def logs1_def old_file_def intro!: drop_oldest_today)
    then show ?thesis using gone_iff [OF f(1)] f(1) by (auto simp: res)
  qed
  then show "\<forall>f\<in>set fs. i_name f = today \<longrightarrow> f \<in> set fs'" by blast
  show "\<forall>f\<in>set fs. offs' (i_name f) = (if f \<in> set fs' then offs (i_name f) else None)" by (simp add: res)
  have same: "set (jsonl fs') = set logs2" using gone_iff sub logs by (auto simp: res)
  have "distinct fs" using assms(1) by (simp add: distinct_map)
  then have "distinct (jsonl fs')" "distinct logs2"
    by (auto simp: res logs2_def logs1_def logs_def intro!: distinct_drop_oldest)
  then have "inbox_size (jsonl fs') = inbox_size logs2" by (simp only: inbox_size_set same)
  then show "inbox_size (jsonl fs') \<le> ?cap \<or> (\<forall>f\<in>set (jsonl fs'). i_name f = today)"
    using drop_oldest_size [of "inbox_size logs1" 0 logs1 today ?cap] unfolding same logs2_def [symmetric] by simp
qed

section \<open>Concrete inboxes\<close>

text \<open>The line \<open>1\<close> stands for a skip message, the line \<open>2\<close> for one whose kind is a list.\<close>

definition ex_parse :: "bytes \<Rightarrow> json option" where
  "ex_parse l = (if l = [49] then Some (JObj (ex_msg ''skip'' ''peer1'' ''f01551203aabbcc'' []))
     else if l = [50] then Some (JObj [(''kind'', JList [])]) else None)"

definition ex_inbox :: "bytes \<Rightarrow> inbox_file" where
  "ex_inbox content = \<lparr>i_name = ''d.jsonl'', i_data = content, i_mtime = 0\<rparr>"

definition ex_world :: "bytes \<Rightarrow> inbox_world" where
  "ex_world content = \<lparr>w_files = [ex_inbox content], w_offsets = (\<lambda>p. None), w_catalog = ex_catalog, w_queue = empty_queue\<rparr>"

lemma ex_drain:
  "fst (drain_file read_all_lines (inbox_line ex_env ex_parse) [49, 10] 0 (0, ex_catalog, empty_queue)) = Inr 2"
  "snd (snd (snd (drain_file read_all_lines (inbox_line ex_env ex_parse) [49, 10] 0 (0, ex_catalog, empty_queue)))) = empty_queue"
  by code_simp+

theorem inbox_redelivery_witness:
  "\<exists>db. drain_file read_all_lines (inbox_line ex_env ex_parse) [49, 10] 0 (0, db, empty_queue) = (Inr 2, 0, db, empty_queue)"
proof -
  obtain n db where "drain_file read_all_lines (inbox_line ex_env ex_parse) [49, 10] 0 (0, ex_catalog, empty_queue) = (Inr 2, n, db, empty_queue)"
    using ex_drain by (metis prod.collapse)
  from inbox_redelivery [OF this] show ?thesis by blast
qed


text \<open>Two files of yesterday's and today's messages under a cap of three bytes.\<close>

definition ex_days :: "inbox_file list" where
  "ex_days = [(ex_inbox [1, 2])\<lparr>i_name := ''e.jsonl''\<rparr>, ex_inbox [1, 2]]"

theorem prune_inbox_witness:
  "(ex_inbox [1, 2])\<lparr>i_name := ''e.jsonl''\<rparr> \<in> set (fst (prune_inbox [''inbox_max_bytes'' \<mapsto> 3] 0 ''e.jsonl'' ex_days (\<lambda>p. None)))
   \<and> ex_inbox [1, 2] \<notin> set (fst (prune_inbox [''inbox_max_bytes'' \<mapsto> 3] 0 ''e.jsonl'' ex_days (\<lambda>p. None)))"
proof -
  let ?p = "prune_inbox [''inbox_max_bytes'' \<mapsto> 3] 0 ''e.jsonl'' ex_days (\<lambda>p. None)"
  have "distinct (map i_name ex_days)" by code_simp
  from prune_inbox_spec [OF this, of "[''inbox_max_bytes'' \<mapsto> 3]" 0 "''e.jsonl''" "\<lambda>p. None" "fst ?p" "snd ?p"]
  have "\<forall>f\<in>set ex_days. i_name f = ''e.jsonl'' \<longrightarrow> f \<in> set (fst ?p)" by simp
  then have "(ex_inbox [1, 2])\<lparr>i_name := ''e.jsonl''\<rparr> \<in> set (fst ?p)" by (simp add: ex_days_def)
  moreover have names: "map i_name (fst ?p) = [''e.jsonl'']" by code_simp
  have "i_name (ex_inbox [1, 2]) \<notin> set (map i_name (fst ?p))" unfolding names by (simp add: ex_inbox_def)
  then have "ex_inbox [1, 2] \<notin> set (fst ?p)" unfolding set_map by (rule contrapos_nn) (rule imageI)
  ultimately show ?thesis ..
qed

end
