(* ===== verification/Busy.thy ===== *)
theory Busy
  imports Spool Ingest Janitor Clubd
begin

text \<open>
  Which rows are in flight: no operation of the queue but \<open>take_batch\<close> puts a row into the state
  \<open>processing\<close>. The collection \<open>busy\<close> holds one law per operation; they carry the proof that a row
  in flight always has a worker.
\<close>

definition processing :: "queue \<Rightarrow> cid set" where
  "processing q = {c. \<exists>r\<in>set (cids q). r_cid r = c \<and> r_status r = Processing}"

named_theorems busy \<comment> \<open>operations put no row in flight\<close>

lemma processingI:
  assumes "\<And>r. r \<in> set (cids q') \<Longrightarrow> r_status r = Processing \<Longrightarrow> \<exists>r0\<in>set (cids q). r_cid r0 = r_cid r \<and> r_status r0 = Processing"
  shows "processing q' \<subseteq> processing q"
  using assms by (auto simp: processing_def)

lemma busy_same [busy]: "cids q' = cids q \<Longrightarrow> processing q' \<subseteq> processing q"
  by (simp add: processing_def)

lemma busy_subset [busy]: "set (cids q') \<subseteq> set (cids q) \<Longrightarrow> processing q' \<subseteq> processing q"
  by (auto simp: processing_def)

lemma busy_delete [busy]: "processing (q\<lparr>cids := sql_delete P (cids q)\<rparr>) \<subseteq> processing q"
  by (rule busy_subset) auto

lemma busy_update [busy]:
  assumes "\<And>r. r_cid (f r) = r_cid r" "\<And>r. r_status (f r) = Processing \<Longrightarrow> r_status r = Processing"
  shows "processing (q\<lparr>cids := sql_update P f (cids q)\<rparr>) \<subseteq> processing q"
  by (rule processingI) (use assms in \<open>auto elim!: in_updateE\<close>)

lemma busy_append [busy]: "r_status r \<noteq> Processing \<Longrightarrow> processing (q\<lparr>cids := cids q @ [r]\<rparr>) \<subseteq> processing q"
  by (auto simp: processing_def)

lemma new_row_status [simp]: "r_status (new_row c codec f l p w src fname) = Discovered"
  by (simp add: new_row_def)

lemma busy_forget_cid [busy]: "processing (forget_cid c q) \<subseteq> processing q - {c}"
  by (auto simp: processing_def forget_cid_def)

lemma busy_enqueue_review [busy]: "processing (snd (enqueue_review F now lc c q)) \<subseteq> processing q"
  by (auto simp: enqueue_review_def Let_def processing_def)

lemma busy_remember_binary [busy]: "processing (remember_binary now c mime q) \<subseteq> processing q - {c}"
  by (auto simp: processing_def remember_binary_def forget_cid_def)

lemma busy_drop_directory [busy]: "processing (drop_directory now c q) \<subseteq> processing q - {c}"
  by (auto simp: processing_def drop_directory_def Let_def)

lemma busy_trim: "trim_ok P q res \<Longrightarrow> processing (snd res) \<subseteq> processing q"
  by (rule busy_subset) (use trims_subset [OF trim_ok_trims] in blast)

lemma busy_prune [busy]: "wf_queue q \<Longrightarrow> processing (snd (prune F now q)) \<subseteq> processing q"
  using prune_rows_back [of q _ F now] trims_subset [OF trim_ok_trims [OF trim_ok_prune_trim, of q F now]]
  by (fastforce simp: processing_def requeue_def)

lemma set_col_status: "r_status (fold set_col flds r) = r_status r"
proof -
  have "r_status (set_col f r) = r_status r" for f r by (cases f) simp_all
  then show ?thesis by (induction flds arbitrary: r) simp_all
qed

lemma busy_mark [busy]:
  assumes "st \<noteq> Processing"
  shows "processing (mark c st flds q) \<subseteq> processing q - {c}"
proof -
  let ?f = "\<lambda>r. fold set_col flds (r\<lparr>r_status := st\<rparr>)"
  have f: "r_status (?f r) = st" "r_cid (?f r) = r_cid r" for r by (simp_all add: set_col_simps set_col_status)
  have "processing (mark c st flds q) \<subseteq> processing q"
    unfolding mark_def by (rule busy_update) (use assms in \<open>simp_all only: f\<close>)
  moreover have "r_status r \<noteq> Processing" if "r \<in> set (cids (mark c st flds q))" "r_cid r = c" for r
  proof -
    from that(1) have "r \<in> set (sql_update (\<lambda>r. r_cid r = c) ?f (cids q))" by (simp add: mark_def del: set_sql_update)
    then show ?thesis
    proof (cases rule: in_updateE)
      case (1 x)
      then show ?thesis using assms f(1) [of x] by simp
    next
      case 2
      then show ?thesis using that(2) by simp
    qed
  qed
  ultimately show ?thesis by (auto simp: processing_def)
qed

lemma busy_bump_attempts [busy]: "processing (bump_attempts c n q) \<subseteq> processing q"
  unfolding bump_attempts_def by (rule busy_update) auto

lemma busy_note_fetch [busy]: "processing (note_fetch now c ret q) \<subseteq> processing q"
  unfolding note_fetch_def by (rule busy_update) auto

lemma busy_forget_rows [busy]: "processing (forget_rows rows q) \<subseteq> processing q"
proof (induction rows arbitrary: q)
  case (Cons r rows)
  then show ?case using busy_forget_cid [of "r_cid r" q] by (fastforce simp: forget_rows_def)
qed (simp add: forget_rows_def)

lemma busy_evict_dir_probes [busy]: "processing (snd (evict_dir_probes n q)) \<subseteq> processing q"
  by (simp add: evict_dir_probes_def Let_def busy_forget_rows)

lemma busy_name:
  "processing (q\<lparr>cids := sql_update (\<lambda>r. r_cid r = c)
     (\<lambda>r. r\<lparr>r_filename := (case r_filename r of None \<Rightarrow> Some f | Some f \<Rightarrow> Some f)\<rparr>) (cids q)\<rparr>) \<subseteq> processing q"
  by (rule busy_update) simp_all

lemma busy_children_loop:
  "processing (snd (enqueue_children_loop F now catalogued skip_cid picked named_n n q)) \<subseteq> processing q"
proof (induction picked arbitrary: named_n n q)
  case (Cons fc picked)
  obtain filename c where fc: "fc = (filename, c)" by fastforce
  obtain room q' where room: "(if pdf_can_admit F q then (1, q) else evict_dir_probes 1 q) = (room, q')" by fastforce
  then have q': "processing q' \<subseteq> processing q"
    using busy_evict_dir_probes [of 1 q] by (auto split: if_splits)
  have "processing (q'\<lparr>cids := cids q' @ [new_row c (codec_of c) t now 1 1 Named (Some filename)]\<rparr>) \<subseteq> processing q" for t
    by (rule order_trans [OF busy_append q']) simp
  note step = order_trans [OF Cons.IH this]
  show ?case
    using Cons.IH order_trans [OF Cons.IH busy_name] step q'
    unfolding fc enqueue_children_loop.simps room by (simp add: Let_def)
qed simp

lemma busy_enqueue_doc_children [busy]:
  "processing (snd (enqueue_doc_children F now catalogued ls skip_cid q)) \<subseteq> processing q"
proof -
  have "processing (snd (drop_named_non_pdf q)) \<subseteq> processing q"
    by (simp add: drop_named_non_pdf_def Let_def busy_forget_rows)
  then show ?thesis
    using order_trans [OF busy_children_loop] by (simp add: enqueue_doc_children_def Let_def)
qed

lemma busy_record_line [busy]: "processing (snd (record_line E loads txt q)) \<subseteq> processing q"
proof -
  obtain res q' where eq: "record_line E loads txt q = (res, q')" by fastforce
  from record_line_step [OF eq] have "want_step E (\<lambda>c. peer_total c q') (cids q) (cids q')" by blast
  then show ?thesis
    by (cases rule: want_step.cases) (auto simp: eq processing_def want_again_def elim!: in_updateE)
qed

lemma busy_ingest_message [busy]: "processing (snd (snd (ingest_message E rt obj (db, q)))) \<subseteq> processing q"
  using busy_enqueue_review
  by (auto simp: ingest_message_def Let_def split: sum.splits option.splits prod.splits)

lemma busy_maybe_enqueue_second [busy]: "processing (snd (maybe_enqueue_second E db c q)) \<subseteq> processing q"
  using busy_enqueue_review by (simp add: maybe_enqueue_second_def)

lemma busy_publish_report [busy]: "processing (snd (snd (snd (publish_report E reply c reason (db, q))))) \<subseteq> processing q"
  using publish_report_state [of E reply c reason "(db, q)"] busy_ingest_message by (metis order_refl snd_conv)

lemma busy_evict_batch [busy]: "wf_queue q \<Longrightarrow> processing (snd (evict_batch now q)) \<subseteq> processing q"
  using evict_batch_evicts [of q now] by (intro busy_subset) (auto simp: evicts_def)

lemma busy_trim_evicted [busy]: "processing (trim_evicted q) \<subseteq> processing q"
  by (rule busy_same) (simp add: trim_evicted_def Let_def)

text \<open>Taking puts exactly the rows it hands out in flight.\<close>

lemma busy_take_batch:
  assumes "wf_queue q" "take_batch F now limit q = (rows, q')"
  shows "processing q' = processing q \<union> r_cid ` set rows"
proof -
  have ok: "batch_ok F (take_args F now) q rows q'" using take_batch_ok [OF assms] by blast
  then have q': "q' = processing_rows rows q" "set rows \<subseteq> set (cids q)" by (auto simp: batch_ok_def)
  let ?f = "\<lambda>r. if r \<in> set rows then r\<lparr>r_status := Processing\<rparr> else r"
  have cids: "set (cids q') = ?f ` set (cids q)" by (simp add: q'(1) processing_rows_def)
  have "r_cid (?f r) = r_cid r" "r_status (?f r) = Processing \<longleftrightarrow> r \<in> set rows \<or> r_status r = Processing" for r by auto
  then have "processing q' = {c. \<exists>r\<in>set (cids q). r_cid r = c \<and> (r \<in> set rows \<or> r_status r = Processing)}"
    unfolding processing_def cids by (simp only: bex_simps)
  then show ?thesis using q'(2) by (auto simp: processing_def)
qed

end
