(* ===== verification/Indexer_Laws.thy ===== *)
theory Indexer_Laws
  imports Indexer Busy
begin

text \<open>
  Laws of a worker's run: which writes it makes, that it settles its row and gives the claim slot
  back, what it publishes, and when a row counts as indexed.
\<close>

section \<open>The shape of a run\<close>

text \<open>A write concerns the run's CID only, and marks no row as in flight.\<close>

fun effect_on :: "cid \<Rightarrow> effect \<Rightarrow> bool" where
  "effect_on c (EForget c') = (c' = c)"
| "effect_on c (EMark c' st flds) = (c' = c \<and> st \<noteq> Processing \<and> attempts_ok flds)"
| "effect_on c (EBump c' n) = (c' = c \<and> 0 \<le> n)"
| "effect_on c (ENote t c' ret) = (c' = c)"
| "effect_on c (EChildren t ls c') = (c' = c)"
| "effect_on c (EDropDir t c') = (c' = c)"
| "effect_on c (ERemember t c' mime) = (c' = c)"
| "effect_on c _ = True"

fun settles :: "cid \<Rightarrow> effect \<Rightarrow> bool" where
  "settles c (EForget c') = (c' = c)"
| "settles c (EMark c' st flds) = (c' = c \<and> st \<noteq> Processing)"
| "settles c (EDropDir t c') = (c' = c)"
| "settles c (ERemember t c' mime) = (c' = c)"
| "settles c _ = False"

text \<open>The claim discipline: a claim is tried once, while none is held, and released before the end.\<close>

fun plan_ok :: "bool \<Rightarrow> effect list \<Rightarrow> bool" where
  "plan_ok cl [] = (\<not> cl)"
| "plan_ok cl (e # es) =
     (case e of
        ETryClaim t posts acc t' \<Rightarrow> \<not> cl \<and> plan_ok True es \<and> plan_ok False es
      | ERelease \<Rightarrow> plan_ok False es
      | _ \<Rightarrow> plan_ok cl es)"

fun claim_free :: "effect \<Rightarrow> bool" where
  "claim_free (ETryClaim t posts acc t') = False"
| "claim_free ERelease = False"
| "claim_free _ = True"

lemma plan_ok_free: "list_all claim_free es \<Longrightarrow> plan_ok cl (es @ es') = plan_ok cl es'"
proof (induction es)
  case (Cons e es)
  then show ?case by (cases e) auto
qed simp

definition tidy :: "cid \<Rightarrow> bool res \<times> effect list \<Rightarrow> bool" where
  "tidy c x \<longleftrightarrow> list_all (effect_on c) (snd x) \<and> list_all claim_free (snd x)
     \<and> (\<forall>b. fst x = Inr b \<longrightarrow> list_ex (settles c) (snd x))"

lemma seen_cols_ok [simp]: "attempts_ok (seen_cols mime sz filename @ cols) = attempts_ok cols"
  by (simp add: attempts_ok_def seen_cols_def)

lemma attempts_ok_simps [simp]:
  "attempts_ok []" "attempts_ok (SetMime m # cs) = attempts_ok cs" "attempts_ok (SetSize n # cs) = attempts_ok cs"
  "attempts_ok (SetFilename f # cs) = attempts_ok cs" "attempts_ok (SetError e # cs) = attempts_ok cs"
  "attempts_ok (SetLastChecked t # cs) = attempts_ok cs" "attempts_ok (SetAttempts k # cs) = (0 \<le> k \<and> attempts_ok cs)"
  by (simp_all add: attempts_ok_def)

lemma retry_later_on [simp]:
  assumes "0 \<le> r_attempts row"
  shows "effect_on (r_cid row) (retry_later row (seen_cols mime sz filename) err)" "effect_on (r_cid row) (retry_later row [] err)"
    "settles (r_cid row) (retry_later row flds err)" "claim_free (retry_later row flds err)"
  using assms by (simp_all add: retry_later_def)

lemma list_all_posts [simp]: "list_all (effect_on c) (map EPost posts)" "list_all claim_free (map EPost posts)"
  by (simp_all add: list_all_iff)

lemma precheck_tidy: "precheck A row = Some (b, effs) \<Longrightarrow> tidy (r_cid row) (Inr b, effs)"
  by (auto simp: precheck_def tidy_def Let_def split: if_splits option.splits hit.splits)

lemma fetch_failed_tidy: "tidy (r_cid row) (fetch_failed A row attempts r)"
  by (simp add: fetch_failed_def tidy_def)

lemma handle_directory_tidy: "tidy (r_cid row) (handle_directory A row attempts r)"
  by (simp add: handle_directory_def tidy_def Let_def)

lemma reuse_verdict_tidy: "0 \<le> r_attempts row \<Longrightarrow> tidy (r_cid row) (reuse_verdict A row mime sz filename license fp cl)"
  by (auto simp: reuse_verdict_def tidy_def split: prod.splits)

lemma scope_skip_tidy:
  "0 \<le> r_attempts row \<Longrightarrow> list_all (effect_on (r_cid row)) dones \<Longrightarrow> list_all claim_free dones \<Longrightarrow>
   tidy (r_cid row) (scope_skip A row mime sz filename dones)"
  by (auto simp: scope_skip_def tidy_def split: prod.splits)

lemma llm_publish_tidy: "0 \<le> r_attempts row \<Longrightarrow> tidy (r_cid row) (llm_publish A row mime sz filename license fp m)"
  by (auto simp: llm_publish_def tidy_def split: prod.splits sum.splits)

lemma llm_verdict_tidy: "0 \<le> r_attempts row \<Longrightarrow> tidy (r_cid row) (llm_verdict A row t mime sz filename license fp prior)"
  using llm_publish_tidy scope_skip_tidy by (auto simp: llm_verdict_def tidy_def split: sum.splits option.splits)

text \<open>A whole run: its writes, a settled row on normal return, and the claim discipline.\<close>

definition good_run :: "cid \<Rightarrow> bool res \<times> effect list \<Rightarrow> bool" where
  "good_run c x \<longleftrightarrow> list_all (effect_on c) (snd x) \<and> plan_ok False (snd x)
     \<and> (\<forall>b. fst x = Inr b \<longrightarrow> list_ex (settles c) (snd x))"

lemma tidy_good: "tidy c x \<Longrightarrow> good_run c x"
  using plan_ok_free [of "snd x" False "[]"] by (simp add: tidy_def good_run_def)

lemma judge_text_good:
  assumes n: "0 \<le> r_attempts row"
  shows "good_run (r_cid row) (judge_text A row t mime sz filename license fp)"
proof -
  obtain res effs where v: "llm_verdict A row t mime sz filename license fp (v_prior A t mime filename) = (res, effs)" by fastforce
  then have "tidy (r_cid row) (res, effs)" using llm_verdict_tidy [OF n] by metis
  then have "good_run (r_cid row) (res, claim_effect A (r_cid row) # effs @ [ERelease])"
    using plan_ok_free [of effs _ "[ERelease]"] by (auto simp: good_run_def tidy_def claim_effect_def split: prod.splits)
  moreover have "good_run (r_cid row) (scope_skip A row mime sz filename [EStat ''heuristic_skips'' 1])"
    by (intro tidy_good scope_skip_tidy n) simp_all
  moreover have "good_run (r_cid row) (Inr False, [retry_later row (seen_cols mime sz filename) ''llm_down''])"
    by (intro tidy_good) (simp add: tidy_def n)
  ultimately show ?thesis by (simp add: judge_text_def Let_def v)
qed

lemma classify_text_good: "0 \<le> r_attempts row \<Longrightarrow> good_run (r_cid row) (classify_text A row t mime sz filename license)"
  using judge_text_good tidy_good [OF reuse_verdict_tidy] by (simp add: classify_text_def Let_def split: option.splits)

lemma handle_sample_good: "0 \<le> r_attempts row \<Longrightarrow> good_run (r_cid row) (handle_sample A row r)"
  using classify_text_good by (auto simp: handle_sample_def Let_def good_run_def split: prod.splits)

lemma handle_fetch_good:
  assumes "0 \<le> r_attempts row" "0 \<le> attempts"
  shows "good_run (r_cid row) (handle_fetch A row attempts r)"
  using handle_sample_good [OF assms(1), of A r] tidy_good [OF fetch_failed_tidy [of row A attempts r]]
    tidy_good [OF handle_directory_tidy [of row A attempts r]] assms(2)
  by (auto simp: handle_fetch_def good_run_def split: prod.splits)

lemma process_one_good:
  assumes "process_one A row = Some x" "0 \<le> r_attempts row"
  shows "good_run (r_cid row) x"
  using assms tidy_good [OF precheck_tidy] handle_fetch_good [OF assms(2)]
  by (fastforce simp: process_one_def Let_def split: option.splits prod.splits)

lemma plan_ok_append: "plan_ok cl es \<Longrightarrow> list_all claim_free es' \<Longrightarrow> plan_ok cl (es @ es')"
proof (induction cl es rule: plan_ok.induct)
  case (1 cl)
  then show ?case using plan_ok_free [of es' cl "[]"] by simp
next
  case (2 cl e es)
  then show ?case by (cases e) auto
qed

text \<open>What the worker loop does with a row, exceptions included.\<close>

lemma work_on_good:
  assumes "work_on A row = Some effs" "0 \<le> r_attempts row"
  shows "list_all (effect_on (r_cid row)) effs \<and> plan_ok False effs \<and> list_ex (settles (r_cid row)) effs"
proof -
  from assms(1) obtain res effs0 where p: "process_one A row = Some (res, effs0)"
    by (auto simp: work_on_def split: option.splits)
  note good = process_one_good [OF p assms(2)]
  show ?thesis
  proof (cases res)
    case (Inl e)
    then show ?thesis using assms good p
      by (auto simp: work_on_def good_run_def intro!: plan_ok_append)
  next
    case (Inr b)
    then show ?thesis using assms(1) good p by (auto simp: work_on_def good_run_def)
  qed
qed

section \<open>Running the writes\<close>

definition run_plan :: "env \<Rightarrow> int \<Rightarrow> effect list \<Rightarrow> observer \<times> bool \<Rightarrow> observer \<times> bool" where
  "run_plan E ttl effs s = fold (apply_effect E ttl) effs s"

lemma try_claim_queue [simp]: "g_queue (fst (try_claim ttl t posts acc t' g)) = g_queue g"
  "g_catalog (fst (try_claim ttl t posts acc t' g)) = g_catalog g"
  by (simp_all add: try_claim_def Let_def)

lemma bump_simps [simp]: "g_queue (bump k n g) = g_queue g" "g_catalog (bump k n g) = g_catalog g" "g_slot (bump k n g) = g_slot g"
  by (simp_all add: bump_def)

lemma apply_effect_catalog [simp]: "g_catalog (fst (apply_effect E ttl e (g, cl))) = g_catalog g"
  by (cases e) (auto simp: on_queue_def split: prod.splits)

text \<open>A write keeps the queue well-formed, and takes the row out of flight when it settles it.\<close>

lemma apply_effect_queue:
  assumes "effect_on c e" "wf_queue (g_queue g)"
  shows "wf_queue (g_queue (fst (apply_effect E ttl e (g, cl))))"
    "processing (g_queue (fst (apply_effect E ttl e (g, cl)))) \<subseteq> processing (g_queue g) - (if settles c e then {c} else {})"
proof -
  have ch: "wf_queue q'" "processing q' \<subseteq> processing (g_queue g)"
    if "enqueue_doc_children F t cat ls (Some c) (g_queue g) = (n, q')" for F t cat ls n q'
    using wf_enqueue_doc_children [OF assms(2), of F t cat ls "Some c"] busy_enqueue_doc_children [of F t cat ls "Some c" "g_queue g"] that
    by simp_all
  show "wf_queue (g_queue (fst (apply_effect E ttl e (g, cl))))"
    using assms by (cases e) (auto simp: on_queue_def ch(1) wfq split: prod.splits)
  show "processing (g_queue (fst (apply_effect E ttl e (g, cl)))) \<subseteq> processing (g_queue g) - (if settles c e then {c} else {})"
  proof (cases e)
    case (EChildren t ls c')
    then show ?thesis using assms(1) ch(2) by (auto split: prod.splits)
  qed (use assms(1) in \<open>simp_all add: on_queue_def busy\<close>)
qed

lemma apply_effect_slot:
  assumes "plan_ok cl (e # es)" "apply_effect E ttl e (g, cl) = (g', cl')"
  shows "plan_ok cl' es \<and> g_slot g' + of_bool cl' = g_slot g + of_bool cl"
proof (cases e)
  case (ETryClaim t posts acc t')
  then show ?thesis using assms by (auto simp: try_claim_def Let_def split: if_splits)
next
  case (EChildren t ls c)
  then show ?thesis using assms by (auto simp: bump_def split: prod.splits if_splits)
qed (use assms in \<open>auto simp: on_queue_def split: if_splits\<close>)

lemma run_plan_inv:
  assumes "list_all (effect_on c) effs" "plan_ok cl effs" "wf_queue (g_queue g)" "run_plan E ttl effs (g, cl) = (g', cl')"
  shows "\<not> cl' \<and> g_slot g' = g_slot g + of_bool cl \<and> g_catalog g' = g_catalog g \<and> wf_queue (g_queue g')
    \<and> processing (g_queue g') \<subseteq> processing (g_queue g) - (if list_ex (settles c) effs then {c} else {})"
  using assms
proof (induction effs arbitrary: g cl)
  case (Cons e effs)
  obtain g1 cl1 where e: "apply_effect E ttl e (g, cl) = (g1, cl1)" by fastforce
  have on: "effect_on c e" "list_all (effect_on c) effs" using Cons.prems(1) by simp_all
  note slot = apply_effect_slot [OF Cons.prems(2) e]
  note step = apply_effect_queue [OF on(1) Cons.prems(3), of E ttl cl, unfolded e fst_conv]
  have "g_catalog g1 = g_catalog g" using apply_effect_catalog [of E ttl e g cl] by (simp add: e)
  then show ?case
    using Cons.IH [OF on(2) _ step(1), of cl1] slot step(2) Cons.prems(4) by (auto simp: run_plan_def e split: if_splits)
qed (simp_all add: run_plan_def)


section \<open>What a run publishes\<close>

lemma fetch_cid_mime: "fetch_cid N c codec attempt = Some r \<Longrightarrow> fr_mime r = None \<or> fr_directory r"
  by (auto simp: fetch_cid_def Let_def whole_block_def new_result_def split: sum.splits option.splits if_splits)

text \<open>The only bodies a run posts beside claims: an out-of-scope skip or a classification.\<close>

definition posts_skip :: "view \<Rightarrow> cid \<Rightarrow> string \<Rightarrow> payload \<Rightarrow> bool" where
  "posts_skip A c mime body \<longleftrightarrow> body = publish_body (v_club A) (skip_payload c (Some mime) SCOPE_SKIP_REASON)"

definition posts_verdict :: "view \<Rightarrow> cid \<Rightarrow> string \<Rightarrow> string \<Rightarrow> payload \<Rightarrow> bool" where
  "posts_verdict A c mime fp body \<longleftrightarrow>
     (\<exists>sz filename field topic keywords license classifier now.
        body \<in> set (snd (publish_verdict A c (verdict_fields mime sz filename field topic keywords license fp classifier now))))"

lemma scope_skip_posts: "EPost body \<in> set (snd (scope_skip A row mime sz filename dones)) \<Longrightarrow>
    EPost body \<in> set dones \<or> posts_skip A (r_cid row) mime body"
  by (auto simp: scope_skip_def publish_skip_def posts_skip_def retry_later_def split: prod.splits if_splits)
    (metis publish_posts snd_conv)+

lemma reuse_verdict_posts: "EPost body \<in> set (snd (reuse_verdict A row mime sz filename license fp cl)) \<Longrightarrow>
    posts_verdict A (r_cid row) mime fp body"
  unfolding posts_verdict_def
  by (auto simp: reuse_verdict_def retry_later_def split: prod.splits if_splits) (metis snd_conv)+

lemma llm_publish_posts: "EPost body \<in> set (snd (llm_publish A row mime sz filename license fp m)) \<Longrightarrow>
    posts_verdict A (r_cid row) mime fp body"
  unfolding posts_verdict_def
  by (auto simp: llm_publish_def retry_later_def split: prod.splits sum.splits if_splits) (metis snd_conv)+

text \<open>What justifies a body: the prior, the model, or an equal text in the catalog.\<close>

definition model_says :: "view \<Rightarrow> wrow \<Rightarrow> string \<Rightarrow> string \<Rightarrow> string option \<Rightarrow> bool \<Rightarrow> bool" where
  "model_says A row t mime filename b \<longleftrightarrow>
     (\<exists>m. v_classify A t mime filename (r_codec row) = Inr (Some m) \<and> meta_in_scope m = b)"

definition justified :: "view \<Rightarrow> wrow \<Rightarrow> string \<Rightarrow> string \<Rightarrow> string option \<Rightarrow> payload \<Rightarrow> bool" where
  "justified A row t mime filename body \<longleftrightarrow>
     (let prior = v_prior A t mime filename; fp = fingerprint (e_sha256 (v_env A)) t in
      posts_skip A (r_cid row) mime body \<and> (prior = UNLIKELY \<or> prior \<noteq> LIKELY \<and> model_says A row t mime filename False)
      \<or> posts_verdict A (r_cid row) mime fp body
          \<and> (classify_by_text_hash (v_cat A AtReuse) fp \<noteq> None \<or> prior \<noteq> UNLIKELY \<and> model_says A row t mime filename True))"

lemma llm_verdict_posts:
  assumes "EPost body \<in> set (snd (llm_verdict A row t mime sz filename license fp prior))"
  shows "posts_skip A (r_cid row) mime body \<and> prior \<noteq> LIKELY \<and> model_says A row t mime filename False
    \<or> posts_verdict A (r_cid row) mime fp body \<and> model_says A row t mime filename True"
proof (cases "v_classify A t mime filename (r_codec row)")
  case (Inr mo)
  then obtain m where m: "mo = Some m" "m \<noteq> []"
    using assms by (cases mo) (auto simp: llm_verdict_def retry_later_def split: if_splits)
  show ?thesis
  proof (cases "meta_in_scope m")
    case True
    then show ?thesis using assms Inr m llm_publish_posts by (auto simp: llm_verdict_def model_says_def)
  next
    case False
    then have "prior \<noteq> LIKELY" using assms Inr m by (auto simp: llm_verdict_def)
    with False have "posts_skip A (r_cid row) mime body"
      using assms Inr m scope_skip_posts [of body A row mime sz filename "[EStat ''llm_skips'' 1, EClearClaim]"]
      by (simp add: llm_verdict_def)
    then show ?thesis using False Inr m \<open>prior \<noteq> LIKELY\<close> by (auto simp: model_says_def)
  qed
qed (use assms in \<open>simp add: llm_verdict_def\<close>)

lemma judge_text_posts:
  assumes "EPost body \<in> set (snd (judge_text A row t mime sz filename license (fingerprint (e_sha256 (v_env A)) t)))"
  shows "justified A row t mime filename body"
proof (cases "v_prior A t mime filename = UNLIKELY")
  case True
  then show ?thesis
    using assms scope_skip_posts [of body A row mime sz filename "[EStat ''heuristic_skips'' 1]"]
    by (simp add: judge_text_def justified_def Let_def)
next
  case False
  then have "EPost body \<in> set (snd (llm_verdict A row t mime sz filename license (fingerprint (e_sha256 (v_env A)) t)
      (v_prior A t mime filename)))"
    using assms by (auto simp: judge_text_def Let_def retry_later_def claim_effect_def split: if_splits prod.splits)
  then show ?thesis using llm_verdict_posts False by (fastforce simp: justified_def Let_def)
qed

lemma classify_text_posts:
  "EPost body \<in> set (snd (classify_text A row t mime sz filename license)) \<Longrightarrow> justified A row t mime filename body"
  using judge_text_posts reuse_verdict_posts
  by (fastforce simp: classify_text_def Let_def justified_def split: option.splits if_splits)

text \<open>Where a published body comes from.\<close>

lemma process_one_posts:
  assumes "process_one A row = Some (res, effs)" "EPost body \<in> set effs"
  shows "\<exists>r t mime license. precheck A row = None
    \<and> fetch_cid (v_net A) (r_cid row) (Some (r_codec row)) (r_attempts row) = Some r \<and> fr_ok r \<and> \<not> fr_directory r
    \<and> extract_document (v_extract A) (fr_data r) None (fr_filename r) = (t, mime, license)
    \<and> processable (Some mime) \<and> usable_text t (Some mime) \<and> (mime = ''application/pdf'' \<longrightarrow> \<not> fr_truncated r)
    \<and> justified A row t mime (fr_filename r) body"
proof -
  have none: "precheck A row = None"
    using assms by (auto simp: process_one_def precheck_def Let_def split: option.splits hit.splits if_splits)
  then obtain r where r: "fetch_cid (v_net A) (r_cid row) (Some (r_codec row)) (r_attempts row) = Some r"
      "(res, effs) = handle_fetch A row (r_attempts row + 1) r"
    using assms(1) by (auto simp: process_one_def Let_def)
  have ok: "fr_ok r" "\<not> fr_directory r" and smp: "EPost body \<in> set (snd (handle_sample A row r))"
    using assms(2) r(2) by (auto simp: handle_fetch_def handle_directory_def fetch_failed_def Let_def split: if_splits prod.splits)
  then have mime0: "fr_mime r = None" using fetch_cid_mime [OF r(1)] by simp
  obtain t mime license where x: "extract_document (v_extract A) (fr_data r) None (fr_filename r) = (t, mime, license)"
    using prod_cases3 by blast
  have good: "processable (Some mime)" "usable_text t (Some mime)"
    using smp x mime0 by (auto simp: handle_sample_def Let_def split: if_splits)
  have "\<not> (fr_truncated r \<and> mime = ''application/pdf'')"
    using smp x mime0 sniff_prefix_agrees [of "v_extract A" "fr_data r" "fr_filename r"]
    by (auto simp: handle_sample_def Let_def split: if_splits)
  moreover have "justified A row t mime (fr_filename r) body"
    using smp x mime0 classify_text_posts by (fastforce simp: handle_sample_def Let_def split: if_splits)
  ultimately show ?thesis using none r(1) ok x good by blast
qed

lemma posts_skip_fields:
  assumes "posts_skip A c mime body"
  shows "jget body ''kind'' = JStr ''skip'' \<and> jget body ''cid'' = JStr c \<and> jget body ''club'' = JStr (v_club A)
    \<and> jget body ''mime_type'' = JStr mime \<and> jget body ''reason'' = JStr SCOPE_SKIP_REASON"
  using assms by (simp add: posts_skip_def jget_publish_body) (simp add: skip_payload_def jget_def opt_json_def)

lemma classify_payload_jget:
  "jget (classify_payload c flds) k =
     (case map_of (rev flds) k of Some v \<Rightarrow> v | None \<Rightarrow> jget [(''kind'', JStr ''classify''), (''cid'', JStr c)] k)"
proof -
  have "jget (fold (\<lambda>kv body. AList.update (fst kv) (snd kv) body) flds body) k =
      (case map_of (rev flds) k of Some v \<Rightarrow> v | None \<Rightarrow> jget body k)" for body
  proof (induction flds arbitrary: body)
    case (Cons kv flds)
    then show ?case by (cases kv) (auto simp: jget_update map_add_def split: option.splits)
  qed simp
  then show ?thesis by (simp add: classify_payload_def)
qed

lemma map_of_rev_distinct: "distinct (map fst xs) \<Longrightarrow> map_of (rev xs) k = map_of xs k"
proof (induction xs)
  case (Cons x xs)
  then have "map_of xs (fst x) = None" by (simp add: map_of_eq_None_iff)
  then show ?case using Cons by (cases x) (auto simp: map_add_def split: option.splits)
qed simp

lemma verdict_fields_jget:
  "map_of (rev (verdict_fields mime sz filename field topic kws license fp classifier now)) k =
     map_of (verdict_fields mime sz filename field topic kws license fp classifier now) k"
  by (rule map_of_rev_distinct) (simp add: verdict_fields_def)

lemma posts_verdict_fields:
  assumes "posts_verdict A c mime fp body"
  shows "jget body ''kind'' = JStr ''classify'' \<and> jget body ''cid'' = JStr c \<and> jget body ''club'' = JStr (v_club A)
    \<and> jget body ''mime_type'' = JStr mime \<and> jget body ''text_sha256'' = JStr fp"
proof -
  obtain sz filename field topic kws license classifier now where
    b: "body \<in> set (snd (publish_verdict A c (verdict_fields mime sz filename field topic kws license fp classifier now)))"
    using assms by (auto simp: posts_verdict_def)
  let ?v = "verdict_fields mime sz filename field topic kws license fp classifier now"
  obtain f' where f': "body = publish_body (v_club A) (classify_payload c (verdict_fields mime sz filename f' topic kws license fp classifier now))"
  proof -
    have "AList.update ''field'' v ?v = verdict_fields mime sz filename v topic kws license fp classifier now" for v
      by (simp add: verdict_fields_def)
    then show thesis
      using b that publish_posts by (fastforce simp: publish_verdict_def publish_classify_def split: if_splits)
  qed
  have "jget (classify_payload c (verdict_fields mime sz filename f' topic kws license fp classifier now)) k =
      (case map_of (verdict_fields mime sz filename f' topic kws license fp classifier now) k of
         Some v \<Rightarrow> v | None \<Rightarrow> jget [(''kind'', JStr ''classify''), (''cid'', JStr c)] k)" for k
    unfolding classify_payload_jget verdict_fields_jget ..
  then show ?thesis unfolding f' by (simp add: jget_publish_body) (simp add: verdict_fields_def jget_def)
qed

lemma justified_fields:
  assumes "justified A row t mime filename body"
  shows "jget body ''cid'' = JStr (r_cid row) \<and> jget body ''club'' = JStr (v_club A) \<and> jget body ''mime_type'' = JStr mime"
  using assms posts_skip_fields posts_verdict_fields by (fastforce simp: justified_def Let_def)

lemma precheck_None_valid: "precheck A row = None \<Longrightarrow> valid (r_cid row)"
  by (auto simp: precheck_def Let_def split: if_splits)



section \<open>Rows and the club\<close>

definition landed :: "view \<Rightarrow> effect list \<Rightarrow> bool" where
  "landed A effs \<longleftrightarrow> (\<exists>body. EPost body \<in> set effs \<and> jget body ''kind'' = JStr ''classify'' \<and> v_reply A body \<noteq> Down)"

lemma verdict_landed:
  assumes "publish_verdict A c (verdict_fields mime sz filename field topic kws license fp classifier now) = (ok, posts)" "truthy ok"
  shows "landed A (map EPost posts @ effs)"
proof -
  let ?p = "publish_verdict A c (verdict_fields mime sz filename field topic kws license fp classifier now)"
  have "truthy (fst ?p)" using assms by simp
  then obtain body where b: "snd ?p = [body]" "v_reply A body \<noteq> Down"
    using publish_truthy unfolding publish_verdict_def publish_classify_def by blast
  then have "posts_verdict A c mime fp body" unfolding posts_verdict_def by (metis list.set_intros(1))
  then show ?thesis using posts_verdict_fields b assms by (auto simp: landed_def)
qed

lemma reuse_indexed: "EMark c Indexed flds \<in> set (snd (reuse_verdict A row mime sz filename license fp cl)) \<Longrightarrow>
    landed A (snd (reuse_verdict A row mime sz filename license fp cl))"
  by (auto simp: reuse_verdict_def retry_later_def verdict_landed split: prod.splits if_splits)

lemma llm_publish_indexed: "EMark c Indexed flds \<in> set (snd (llm_publish A row mime sz filename license fp m)) \<Longrightarrow>
    landed A (snd (llm_publish A row mime sz filename license fp m))"
  by (auto simp: llm_publish_def retry_later_def verdict_landed split: prod.splits sum.splits if_splits)

lemma scope_skip_indexed: "EMark c Indexed flds \<in> set (snd (scope_skip A row mime sz filename dones)) \<Longrightarrow>
    EMark c Indexed flds \<in> set dones"
  by (auto simp: scope_skip_def retry_later_def split: prod.splits if_splits)

lemma landed_mono: "landed A es \<Longrightarrow> set es \<subseteq> set es' \<Longrightarrow> landed A es'"
  by (auto simp: landed_def)

lemma llm_verdict_indexed: "EMark c Indexed flds \<in> set (snd (llm_verdict A row t mime sz filename license fp prior)) \<Longrightarrow>
    landed A (snd (llm_verdict A row t mime sz filename license fp prior))"
  using llm_publish_indexed
  by (auto simp: llm_verdict_def retry_later_def split: sum.splits option.splits if_splits dest!: scope_skip_indexed)

lemma judge_text_indexed:
  assumes "EMark c Indexed flds \<in> set (snd (judge_text A row t mime sz filename license fp))"
  shows "landed A (snd (judge_text A row t mime sz filename license fp))"
proof -
  obtain res effs where v: "llm_verdict A row t mime sz filename license fp (v_prior A t mime filename) = (res, effs)" by fastforce
  then have "landed A effs" if "EMark c Indexed flds \<in> set effs"
    using llm_verdict_indexed that by (metis snd_conv)
  then have "landed A (claim_effect A (r_cid row) # effs @ [ERelease])" if "EMark c Indexed flds \<in> set effs"
    using landed_mono [of A effs "claim_effect A (r_cid row) # effs @ [ERelease]"] that by auto
  then show ?thesis
    using assms by (auto simp: judge_text_def Let_def v retry_later_def claim_effect_def
        split: if_splits prod.splits dest!: scope_skip_indexed)
qed

lemma handle_sample_indexed: "EMark c Indexed flds \<in> set (snd (handle_sample A row r)) \<Longrightarrow> landed A (snd (handle_sample A row r))"
  using judge_text_indexed reuse_indexed
  by (auto simp: handle_sample_def classify_text_def Let_def split: prod.splits if_splits option.splits)

text \<open>
  C7: A row counts as indexed only when the club has the verdict: a run marks a row as indexed only if
  the catalog already held a classification of the CID, or if clubd accepted the classification that
  this run posted.
\<close>

theorem indexed_means_published:
  assumes "process_one A row = Some (res, effs)" "EMark c Indexed flds \<in> set effs"
  shows "(\<exists>cl. lookup_cid (env_at A AtLookup) (v_cat A AtLookup) (r_cid row) = Some (HitClassify cl))
    \<or> (\<exists>body. EPost body \<in> set effs \<and> jget body ''kind'' = JStr ''classify'' \<and> v_reply A body \<noteq> Down)"
proof (cases "precheck A row")
  case (Some x)
  then show ?thesis using assms
    by (auto simp: process_one_def precheck_def Let_def split: option.splits hit.splits if_splits)
next
  case None
  then obtain r where r: "handle_fetch A row (r_attempts row + 1) r = (res, effs)"
    using assms(1) by (auto simp: process_one_def Let_def)
  have "EMark c Indexed flds \<in> set (snd (handle_sample A row r))" "set (snd (handle_sample A row r)) \<subseteq> set effs"
    using assms(2) r by (auto simp: handle_fetch_def handle_directory_def fetch_failed_def Let_def split: if_splits prod.splits)
  then have "landed A effs" using handle_sample_indexed landed_mono by blast
  then show ?thesis by (simp add: landed_def)
qed

text \<open>After the fetch, a row goes back to waiting by \<open>retry_later\<close> only.\<close>

fun back_ok :: "wrow \<Rightarrow> effect \<Rightarrow> bool" where
  "back_ok row (EMark c Discovered flds) =
     (c = r_cid row \<and> (\<exists>cols err. flds = cols @ [SetError (Some err), SetAttempts (r_attempts row)]))"
| "back_ok row _ = True"

abbreviation retries :: "wrow \<Rightarrow> effect list \<Rightarrow> bool" where
  "retries row effs \<equiv> list_all (back_ok row) effs"

lemma back_ok_simps [simp]: "back_ok row (retry_later row cols err)" "back_ok row (claim_effect A c)" "retries row (map EPost posts)"
  by (auto simp: retry_later_def claim_effect_def list_all_iff split: prod.splits)

lemma handle_sample_retries: "retries row (snd (handle_sample A row r))"
proof -
  have scope: "retries row dones \<Longrightarrow> retries row (snd (scope_skip A row mime sz filename dones))" for mime sz filename dones
    by (auto simp: scope_skip_def split: prod.splits)
  have publish: "retries row (snd (llm_publish A row mime sz filename license fp m))"
    "retries row (snd (reuse_verdict A row mime sz filename license fp cl))" for mime sz filename license fp m cl
    by (auto simp: llm_publish_def reuse_verdict_def split: prod.splits sum.splits)
  have "retries row (snd (llm_verdict A row t mime sz filename license fp prior))" for t mime sz filename license fp prior
    using scope publish(1) by (auto simp: llm_verdict_def split: sum.splits option.splits)
  then have "retries row (snd (judge_text A row t mime sz filename license fp))" for t mime sz filename license fp
    using scope by (auto simp: judge_text_def Let_def split: prod.splits) (metis snd_conv)+
  then show ?thesis
    using publish(2) by (auto simp: handle_sample_def classify_text_def Let_def split: prod.splits option.splits)
qed

text \<open>
  C15: Only fetching costs attempts. When the sample was fetched and the row goes back to waiting, because
  clubd, the classifier or the code failed, its attempt counter is set back to what it was.
\<close>

theorem retry_keeps_attempts:
  assumes "precheck A row = None" "fetch_cid (v_net A) (r_cid row) (Some (r_codec row)) (r_attempts row) = Some r" "fr_ok r"
    and "work_on A row = Some effs" "EMark c Discovered flds \<in> set effs"
  shows "c = r_cid row \<and> r_attempts (fold set_col flds r0) = r_attempts row"
proof -
  have "retries row (snd (handle_fetch A row (r_attempts row + 1) r))"
    using handle_sample_retries [of row A r] assms(3)
    by (auto simp: handle_fetch_def handle_directory_def Let_def split: prod.splits)
  then have "retries row effs"
    using assms(1,2,4) by (auto simp: work_on_def process_one_def split: prod.splits sum.splits)
  then have "back_ok row (EMark c Discovered flds)" using assms(5) unfolding list_all_iff by blast
  then show ?thesis by auto
qed

section \<open>A concrete run\<close>

text \<open>The PDF of the example network, a likely prior and a model that confirms the scope.\<close>

definition ex_cat :: catalog where "ex_cat = empty_catalog"

definition ex_run_env :: env where
  "ex_run_env = \<lparr>e_club = ex_club, e_fetch = Map.empty, e_sha256 = byte_sum, e_float_str = (\<lambda>_. None),
     e_int_affinity = DText, e_peer = Some ''me'', e_now = 0\<rparr>"

definition ex_extract :: extractors where
  "ex_extract = \<lparr>x_html_text = (\<lambda>_. []), x_html_license = (\<lambda>_. None), x_pdf = (\<lambda>_. (replicate 80 (CHR ''a''), None)),
     x_license = (\<lambda>_. None), x_json_ok = (\<lambda>_. False), x_max_chars = 100\<rparr>"

definition ex_answer :: payload where
  "ex_answer = [(''in_scope'', JBool True), (''field'', JStr ''cs''), (''topic'', JStr ''sets''), (''keywords'', JStr ''a, b''), (''license'', JNull)]"

definition ex_view :: view where
  "ex_view = \<lparr>v_env = ex_run_env, v_now = (\<lambda>_. 100), v_cat = (\<lambda>_. ex_cat), v_net = file_net, v_extract = ex_extract,
     v_prior = (\<lambda>_ _ _. LIKELY), v_llm_up = True, v_classify = (\<lambda>_ _ _ _. Inr (Some ex_answer)), v_reply = (\<lambda>_. NoJson), v_ttl = 900\<rparr>"

definition ex_doc_row :: wrow where
  "ex_doc_row = new_row (leaf_text 223) ''dag-pb'' 10 20 1 1 Sniff None"

lemma ex_doc_row_simps: "r_cid ex_doc_row = leaf_text 223" "r_codec ex_doc_row = ''dag-pb''" "r_attempts ex_doc_row = 0"
  by (simp_all add: ex_doc_row_def new_row_def)

lemma valid_leaf_text: "valid (leaf_text d)"
  by (simp add: valid_def decode_leaf_text)

lemma ex_precheck: "precheck ex_view ex_doc_row = None"
  by (simp add: precheck_def ex_doc_row_simps valid_leaf_text ex_view_def ex_cat_def empty_catalog_def lookup_cid_def
      preferred_classify_def rows_of_def sql_get_def)

definition ex_text :: string where "ex_text = replicate 80 (CHR ''a'')"

lemma ex_extracted: "extract_document ex_extract ex_leaf None None = (ex_text, ''application/pdf'', None)"
  by code_simp

lemma ex_usable: "usable_text ex_text (Some ''application/pdf'')"
  by code_simp

lemma ex_view_simps:
  "v_env ex_view = ex_run_env" "v_now ex_view s = 100" "v_cat ex_view s = ex_cat" "v_net ex_view = file_net"
  "v_extract ex_view = ex_extract" "v_prior ex_view a b cc = LIKELY" "v_llm_up ex_view"
  "v_classify ex_view a b cc d = Inr (Some ex_answer)" "v_reply ex_view body = NoJson" "e_sha256 ex_run_env = byte_sum"
  by (simp_all add: ex_view_def ex_run_env_def)

lemma pdf_result_simps: "fr_ok pdf_result" "fr_data pdf_result = ex_leaf" "\<not> fr_truncated pdf_result" "\<not> fr_directory pdf_result"
  "fr_mime pdf_result = None" "fr_size pdf_result = Some 4" "fr_filename pdf_result = None"
  by (simp_all add: pdf_result_def new_result_def)

definition ex_verdict :: payload where
  "ex_verdict = publish_body (v_club ex_view) (classify_payload (leaf_text 223)
     (verdict_fields ''application/pdf'' 4 None (JStr ''computer-science'') (JStr ''sets'') (JStr ''a, b'') None (fingerprint byte_sum ex_text)
        [(''kind'', JStr ''llm''), (''model'', JStr []), (''prompt_ver'', JStr ''1'')] 100))"

lemma ex_verdict_kind: "jget ex_verdict ''kind'' = JStr ''classify''" "jget ex_verdict ''cid'' = JStr (leaf_text 223)"
    "jget ex_verdict ''mime_type'' = JStr ''application/pdf''"
  unfolding ex_verdict_def
  by (simp_all add: jget_publish_body classify_payload_jget verdict_fields_jget) (simp_all add: verdict_fields_def jget_def)

lemma ex_field: "normalize_field ex_club (JStr ''cs'') = ''computer-science''"
  by code_simp

lemma ex_publish: "publish_verdict ex_view (leaf_text 223) (verdict_fields ''application/pdf'' 4 None (JStr ''cs'') (JStr ''sets'') (JStr ''a, b'') None
    (fingerprint byte_sum ex_text) [(''kind'', JStr ''llm''), (''model'', JStr []), (''prompt_ver'', JStr ''1'')] 100) = (JBool True, [ex_verdict])"
proof -
  have "AList.update ''field'' v (verdict_fields m n f x t k l fp cl now) = verdict_fields m n f v t k l fp cl now"
    "jget (verdict_fields m n f x t k l fp cl now) ''field'' = x" for v m n f x t k l fp cl now
    by (simp_all add: verdict_fields_def jget_def)
  then show ?thesis
    using ex_verdict_kind(1,2) valid_leaf_text [of 223]
    by (simp add: publish_verdict_def publish_classify_def publish_def ex_view_simps ex_field flip: ex_verdict_def)
      (simp add: ex_run_env_def ex_field ex_view_simps flip: ex_verdict_def)
qed

lemma ex_sample: "handle_sample ex_view ex_doc_row pdf_result =
    judge_text ex_view ex_doc_row ex_text ''application/pdf'' 4 None None (fingerprint byte_sum ex_text)"
proof -
  have "processable (Some ''application/pdf'')" by code_simp
  then show ?thesis
    by (simp add: handle_sample_def pdf_result_simps ex_view_simps ex_extracted ex_usable classify_text_def
        classify_by_text_hash_def ex_cat_def empty_catalog_def)
qed

lemma ex_judged: "judge_text ex_view ex_doc_row ex_text ''application/pdf'' 4 None None (fingerprint byte_sum ex_text) =
    (Inr True, [claim_effect ex_view (leaf_text 223), EPost ex_verdict,
       EMark (leaf_text 223) Indexed (seen_cols ''application/pdf'' 4 None @ [SetError None]), EStat ''llm_classifies'' 1, EClearClaim, ERelease])"
proof -
  have "meta_in_scope ex_answer" "ex_answer \<noteq> []" "LIKELY \<noteq> UNLIKELY" "prompt_ver ex_club = ''1''" by code_simp+
  moreover have "meta_item ex_answer ''license'' = Inr JNull" "meta_item ex_answer ''field'' = Inr (JStr ''cs'')"
    "meta_item ex_answer ''topic'' = Inr (JStr ''sets'')" "meta_item ex_answer ''keywords'' = Inr (JStr ''a, b'')"
    "jget ex_answer ''model'' = JNull" by code_simp+
  moreover have "e_club ex_run_env = ex_club" by (simp add: ex_run_env_def)
  ultimately show ?thesis
    by (simp add: judge_text_def llm_verdict_def llm_publish_def ex_view_simps ex_doc_row_simps res_bind_def license_of_def
        str_or_def ex_publish)
qed

lemma ex_run: "process_one ex_view ex_doc_row = Some (Inr True,
    [EBump (leaf_text 223) 1, ENote 100 (leaf_text 223) (Some 100), EStat ''fetched'' 1, claim_effect ex_view (leaf_text 223),
     EPost ex_verdict, EMark (leaf_text 223) Indexed (seen_cols ''application/pdf'' 4 None @ [SetError None]),
     EStat ''llm_classifies'' 1, EClearClaim, ERelease])"
  using file_net_fetch
  by (simp add: process_one_def ex_precheck ex_doc_row_simps ex_view_simps handle_fetch_def ex_sample ex_judged pdf_result_simps)



theorem indexed_means_published_witness:
  "\<exists>body. EPost body \<in> set (snd (the (process_one ex_view ex_doc_row))) \<and> jget body ''kind'' = JStr ''classify'' \<and> v_reply ex_view body \<noteq> Down"
proof -
  have "lookup_cid (env_at ex_view AtLookup) (v_cat ex_view AtLookup) (r_cid ex_doc_row) = None"
    by (simp add: ex_view_simps ex_cat_def empty_catalog_def lookup_cid_def preferred_classify_def rows_of_def sql_get_def)
  then show ?thesis
    using indexed_means_published [OF ex_run, of "leaf_text 223" "seen_cols ''application/pdf'' 4 None @ [SetError None]"]
    by (simp add: ex_run)
qed

definition ex_node :: observer where
  "ex_node = \<lparr>g_catalog = ex_cat, g_queue = empty_queue\<lparr>cids := [ex_doc_row\<lparr>r_status := Processing\<rparr>]\<rparr>, g_slot = 1, g_claimed_until = 0,
     g_posted = [], g_run_stats = (\<lambda>_. 0), g_window = (\<lambda>_. 0)\<rparr>"

lemma ex_node_wf: "wf_queue (g_queue ex_node)"
  by (simp add: ex_node_def wf_queue_def empty_queue_def pk_def row_ok_def ex_doc_row_def new_row_def valid_leaf_text codec_of_def
      decode_leaf_text)


text \<open>The same run while the classifier is down.\<close>

abbreviation down_view :: view where "down_view \<equiv> ex_view\<lparr>v_llm_up := False\<rparr>"

lemma down_precheck: "precheck down_view ex_doc_row = None"
  by (simp add: precheck_def ex_doc_row_simps valid_leaf_text ex_view_simps ex_cat_def empty_catalog_def lookup_cid_def
      preferred_classify_def rows_of_def sql_get_def)

lemma down_sample: "handle_sample down_view ex_doc_row pdf_result =
    (Inr False, [retry_later ex_doc_row (seen_cols ''application/pdf'' 4 None) ''llm_down''])"
proof -
  have "processable (Some ''application/pdf'')" "LIKELY \<noteq> UNLIKELY" by code_simp+
  then show ?thesis
    by (simp add: handle_sample_def pdf_result_simps ex_view_simps ex_extracted ex_usable classify_text_def judge_text_def
        classify_by_text_hash_def ex_cat_def empty_catalog_def)
qed

lemma down_run: "work_on down_view ex_doc_row = Some
    [EBump (leaf_text 223) 1, ENote 100 (leaf_text 223) (Some 100), EStat ''fetched'' 1,
     EMark (leaf_text 223) Discovered (seen_cols ''application/pdf'' 4 None @ [SetError (Some ''llm_down''), SetAttempts 0])]"
  using file_net_fetch
  by (simp add: work_on_def process_one_def down_precheck ex_doc_row_simps ex_view_simps handle_fetch_def down_sample pdf_result_simps
      retry_later_def)

theorem retry_keeps_attempts_witness:
  "r_attempts (fold set_col (seen_cols ''application/pdf'' 4 None @ [SetError (Some ''llm_down''), SetAttempts 0]) (ex_doc_row\<lparr>r_attempts := 1\<rparr>)) = 0"
proof -
  have "fetch_cid (v_net down_view) (r_cid ex_doc_row) (Some (r_codec ex_doc_row)) (r_attempts ex_doc_row) = Some pdf_result"
    using file_net_fetch by (simp add: ex_doc_row_simps ex_view_simps)
  from retry_keeps_attempts [OF down_precheck this _ down_run] show ?thesis by (simp add: pdf_result_simps ex_doc_row_simps)
qed

end
