(* ===== verification/Migrate.thy ===== *)
theory Migrate
  imports Store_Props
begin

text \<open>
  Opening a catalog file of an older version: \<open>connect\<close>, \<open>_migrate\<close>, \<open>_migrate_claims\<close> and
  \<open>_migrate_proposals\<close> of \<open>observer/store.py\<close>. Beside its rows a file has a layout, what
  \<open>PRAGMA table_info\<close> reports: the key columns of the three tables that were rebuilt over time (None:
  there is no such table) and whether \<open>blacklisted\<close> has the column \<open>alias\<close>. In the rows of an old file,
  NULL in a text column is the empty string and NULL in \<open>count\<close> is 0: the code treats them alike.
  Indices, the retired tables and the PRAGMAs hold no state of the model.
\<close>

section \<open>Layouts\<close>

record layout =
  claims_pk :: "string list option"
  proposals_pk :: "string list option"
  classifies_pk :: "string list option"
  black_alias :: "bool option"

type_synonym catalog_file = "layout \<times> catalog"

definition current_layout :: layout where
  "current_layout = \<lparr>claims_pk = Some [''publisher''], proposals_pk = Some [''cid'', ''reason''],
     classifies_pk = Some [''payload_hash''], black_alias = Some True\<rparr>"

text \<open>\<open>CREATE TABLE IF NOT EXISTS\<close> for every table.\<close>

definition create_schema :: "layout \<Rightarrow> layout" where
  "create_schema L = \<lparr>claims_pk = Some (case claims_pk L of None \<Rightarrow> [''publisher''] | Some k \<Rightarrow> k),
     proposals_pk = Some (case proposals_pk L of None \<Rightarrow> [''cid'', ''reason''] | Some k \<Rightarrow> k),
     classifies_pk = Some (case classifies_pk L of None \<Rightarrow> [''payload_hash''] | Some k \<Rightarrow> k),
     black_alias = Some (case black_alias L of None \<Rightarrow> True | Some b \<Rightarrow> b)\<rparr>"

section \<open>Migrations\<close>

definition migrate_claims :: "catalog_file \<Rightarrow> catalog_file" where
  "migrate_claims f =
     (case f of (L, db) \<Rightarrow>
        if claims_pk L = None \<or> claims_pk L = Some [''publisher''] then (L, db)
        else (L\<lparr>claims_pk := Some [''publisher'']\<rparr>,
              db\<lparr>claims := fold (insert_or_replace cl_publisher) (claims db) []\<rparr>))"

definition migrated_proposal :: "proposal \<Rightarrow> proposal" where
  "migrated_proposal p =
     p\<lparr>p_reason := (if p_reason p = [] then ''abusive'' else p_reason p),
       p_count := (if p_count p = 0 then 1 else p_count p)\<rparr>"

definition migrate_proposals :: "catalog_file \<Rightarrow> catalog_file" where
  "migrate_proposals f =
     (case f of (L, db) \<Rightarrow>
        if proposals_pk L = None \<or> proposals_pk L = Some [''cid'', ''reason''] then (L, db)
        else (L\<lparr>proposals_pk := Some [''cid'', ''reason'']\<rparr>,
              db\<lparr>proposals := fold (insert_or_replace p_key) (map migrated_proposal (proposals db)) []\<rparr>))"

definition add_alias_column :: "catalog_file \<Rightarrow> catalog_file" where
  "add_alias_column f =
     (case f of (L, db) \<Rightarrow>
        if black_alias L = Some False
        then (L\<lparr>black_alias := Some True\<rparr>, db\<lparr>blacklisted := map (\<lambda>b. b\<lparr>b_alias := []\<rparr>) (blacklisted db)\<rparr>)
        else (L, db))"

definition migrate_classifies :: "catalog_file \<Rightarrow> catalog_file" where
  "migrate_classifies f =
     (case f of (L, db) \<Rightarrow>
        if classifies_pk L = None \<or> classifies_pk L = Some [''payload_hash''] then (L, ensure_docs db)
        else (L\<lparr>classifies_pk := Some [''payload_hash'']\<rparr>,
              ensure_docs (db\<lparr>classifies := fold (insert_or_ignore c_hash) (classifies db) []\<rparr>)))"

definition retire_messages :: "catalog \<Rightarrow> catalog" where
  "retire_messages db = db\<lparr>messages := sql_delete (\<lambda>m. m_kind m \<in> {''attest'', ''challenge''}) (messages db)\<rparr>"

definition migrate :: "catalog_file \<Rightarrow> catalog_file" where
  "migrate f =
     (case add_alias_column f of (L, db) \<Rightarrow>
        migrate_classifies (migrate_proposals (migrate_claims (L, retire_messages db))))"

definition open_catalog :: "catalog_file \<Rightarrow> catalog_file" where
  "open_catalog f = migrate (create_schema (fst f), snd f)"

section \<open>Filling the search table\<close>

definition filled :: "crow list \<Rightarrow> drow list \<Rightarrow> bool" where
  "filled cs t \<longleftrightarrow> pk d_cid t \<and> pk d_rowid t \<and> (\<forall>d\<in>set t. \<exists>c\<in>set cs. doc_src d c)
     \<and> (\<forall>c\<in>set cs. has_key d_cid (c_cid c) t)"

lemma filled_step: "filled cs t \<Longrightarrow> filled (cs @ [c]) (backfill_doc c t)"
  using next_rowid_fresh [of _ t]
  by (auto simp: filled_def backfill_doc_def doc_src_def doc_of_def has_key_def intro!: pk_append dest!: next_rowid_fresh)

lemma filled_fold: "filled cs (fold backfill_doc cs [])"
proof (induction cs rule: rev_induct)
  case (snoc c cs)
  then show ?case using filled_step by simp
qed (simp add: filled_def)

text \<open>Every CID has a classification that was received first.\<close>

lemma first_classify_exists:
  assumes "c \<in> set cs"
  shows "\<exists>c'\<in>set (first_classifies cs). c_cid c' = c_cid c"
proof -
  let ?S = "{x \<in> set cs. c_cid x = c_cid c}"
  have "finite (c_received ` ?S)" "c_received ` ?S \<noteq> {}" using assms by auto
  then have "Min (c_received ` ?S) \<in> c_received ` ?S" by (rule Min_in)
  then obtain m where "m \<in> ?S" "c_received m = Min (c_received ` ?S)" by auto
  then show ?thesis by (auto simp: first_classifies_def intro!: bexI [of _ m] Min_le)
qed

lemma mirror_fold:
  assumes "pk d_rowid (ds @ t)" "docs_fts db = map fts_of ds"
  shows "fold (\<lambda>d db. db\<lparr>docs_fts := sql_delete (\<lambda>f. f_rowid f = d_rowid d) (docs_fts db) @ [fts_of d]\<rparr>) t db
     = db\<lparr>docs_fts := map fts_of (ds @ t)\<rparr>"
  using assms
proof (induction t arbitrary: ds db)
  case (Cons d t)
  have "d_rowid x \<noteq> d_rowid d" if "x \<in> set ds" for x
    using Cons.prems(1) imageI [OF that, of d_rowid] by (auto simp: pk_def)
  then have "sql_delete (\<lambda>f. f_rowid f = d_rowid d) (docs_fts db) = docs_fts db"
    using Cons.prems(2) by (auto simp: sql_delete_def fts_of_def filter_id_conv)
  then show ?case using Cons.IH [of "ds @ [d]" "db\<lparr>docs_fts := map fts_of (ds @ [d])\<rparr>"] Cons.prems by simp
qed simp

definition undocumented :: "catalog \<Rightarrow> bool" where
  "undocumented db \<longleftrightarrow> docs db = [] \<and> docs_fts db = [] \<and> docs_count db = None"

lemma ensure_docs_eq:
  assumes "undocumented db"
  defines "t \<equiv> fold backfill_doc (first_classifies (classifies db)) []"
  shows "ensure_docs db = db\<lparr>docs := t, docs_fts := map fts_of t, docs_count := Some (int (length t))\<rparr>"
proof -
  have "pk d_rowid t" using filled_fold unfolding t_def filled_def by blast
  then show ?thesis
    using mirror_fold [of "[]" t "db\<lparr>docs := t\<rparr>"] assms by (simp add: ensure_docs_def undocumented_def cached_count_def Let_def)
qed

lemma ensure_docs_ok:
  assumes "undocumented db"
  shows "docs_ok {} (ensure_docs db)"
proof -
  let ?cs = "first_classifies (classifies db)" and ?t = "fold backfill_doc (first_classifies (classifies db)) []"
  have f: "filled ?cs ?t" by (rule filled_fold)
  have "pk f_rowid (map fts_of ?t)" using f by (simp add: filled_def pk_def fts_of_def comp_def)
  moreover have "\<forall>d\<in>set ?t. \<exists>c\<in>set (classifies db). doc_src d c"
    using f unfolding filled_def first_classifies_def by fastforce
  moreover have "\<forall>c\<in>set (classifies db). has_key d_cid (c_cid c) ?t"
    using f first_classify_exists unfolding filled_def by metis
  ultimately show ?thesis using f by (simp add: ensure_docs_eq [OF assms] docs_ok_def filled_def)
qed

lemma ensure_docs_same: "docs_count db = Some n \<Longrightarrow> docs db \<noteq> [] \<or> classifies db = [] \<Longrightarrow> ensure_docs db = db"
  by (cases "docs db = []") (simp_all add: ensure_docs_def cached_count_def first_classifies_def)

section \<open>What a migration keeps\<close>

text \<open>An old file: the keys it enforces, its rows as the program wrote them, and the search table, if it has one.\<close>

definition old_file_ok :: "catalog_file \<Rightarrow> bool" where
  "old_file_ok f = (case f of (L, db) \<Rightarrow>
     pk m_hash (messages db) \<and> pk s_cid (skips db) \<and> pk rp_key (reports db) \<and> pk a_publisher (aliases db)
     \<and> pk b_publisher (blacklisted db)
     \<and> (claims_pk L \<in> {None, Some [''publisher'']} \<longrightarrow> pk cl_publisher (claims db))
     \<and> (proposals_pk L \<in> {None, Some [''cid'', ''reason'']} \<longrightarrow> pk p_key (proposals db))
     \<and> (classifies_pk L \<in> {None, Some [''payload_hash'']} \<longrightarrow> pk c_hash (classifies db))
     \<and> rows_ok db \<and> black_ok db
     \<and> (undocumented db \<or> classifies_pk L = Some [''payload_hash''] \<and> docs_ok {} db))"

lemma fold_replace: "pk key (fold (insert_or_replace key) rs [])"
  "set (fold (insert_or_replace key) rs []) \<subseteq> set rs"
  by (induction rs rule: rev_induct) auto

lemma fold_ignore: "pk key (fold (insert_or_ignore key) rs [])"
  "set (fold (insert_or_ignore key) rs []) \<subseteq> set rs"
  by (induction rs rule: rev_induct) (auto simp: set_insert_or_ignore split: if_splits)

lemma fold_replace_last:
  "sql_get key k (fold (insert_or_replace key) rs []) = (case filter (\<lambda>r. key r = k) rs of [] \<Rightarrow> None | x # xs \<Rightarrow> Some (last (x # xs)))"
proof (induction rs rule: rev_induct)
  case (snoc r rs)
  then show ?case
    by (auto simp: sql_get_replace split: list.splits)
qed simp

lemma undocumented_more [simp]:
  "undocumented (db\<lparr>claims := c\<rparr>) = undocumented db" "undocumented (db\<lparr>proposals := p\<rparr>) = undocumented db"
  "undocumented (db\<lparr>classifies := cs\<rparr>) = undocumented db" "undocumented (db\<lparr>blacklisted := b\<rparr>) = undocumented db"
  "undocumented (db\<lparr>messages := m\<rparr>) = undocumented db"
  by (simp_all add: undocumented_def)

lemma docs_ok_more [simp]:
  "docs_ok S (db\<lparr>claims := c\<rparr>) = docs_ok S db" "docs_ok S (db\<lparr>proposals := p\<rparr>) = docs_ok S db"
  "docs_ok S (db\<lparr>blacklisted := b\<rparr>) = docs_ok S db" "docs_ok S (db\<lparr>messages := m\<rparr>) = docs_ok S db"
  by (simp_all add: docs_ok_def)

text \<open>The rows of the rebuilt tables after opening.\<close>

definition new_claims :: "string list option \<Rightarrow> claimrow list \<Rightarrow> claimrow list" where
  "new_claims k rows =
     (if k \<in> {None, Some [''publisher'']} then rows else fold (insert_or_replace cl_publisher) rows [])"

definition new_proposals :: "string list option \<Rightarrow> proposal list \<Rightarrow> proposal list" where
  "new_proposals k rows =
     (if k \<in> {None, Some [''cid'', ''reason'']} then rows
      else fold (insert_or_replace p_key) (map migrated_proposal rows) [])"

definition new_classifies :: "string list option \<Rightarrow> crow list \<Rightarrow> crow list" where
  "new_classifies k rows =
     (if k \<in> {None, Some [''payload_hash'']} then rows else fold (insert_or_ignore c_hash) rows [])"

definition new_blacklisted :: "bool option \<Rightarrow> blackrow list \<Rightarrow> blackrow list" where
  "new_blacklisted b rows = (if b = Some False then map (\<lambda>r. r\<lparr>b_alias := []\<rparr>) rows else rows)"

definition opened :: "layout \<Rightarrow> catalog \<Rightarrow> catalog" where
  "opened L db =
     db\<lparr>blacklisted := new_blacklisted (black_alias L) (blacklisted db), messages := messages (retire_messages db),
        claims := new_claims (claims_pk L) (claims db), proposals := new_proposals (proposals_pk L) (proposals db),
        classifies := new_classifies (classifies_pk L) (classifies db)\<rparr>"

lemma claims_stage: "claims_pk L = Some k \<Longrightarrow>
   migrate_claims (L, db) = (L\<lparr>claims_pk := Some [''publisher'']\<rparr>, db\<lparr>claims := new_claims (Some k) (claims db)\<rparr>)"
  by (simp add: migrate_claims_def new_claims_def)

lemma proposals_stage: "proposals_pk L = Some k \<Longrightarrow>
   migrate_proposals (L, db) =
     (L\<lparr>proposals_pk := Some [''cid'', ''reason'']\<rparr>, db\<lparr>proposals := new_proposals (Some k) (proposals db)\<rparr>)"
  by (simp add: migrate_proposals_def new_proposals_def)

lemma alias_stage: "black_alias L = Some b \<Longrightarrow>
   add_alias_column (L, db) = (L\<lparr>black_alias := Some True\<rparr>, db\<lparr>blacklisted := new_blacklisted (Some b) (blacklisted db)\<rparr>)"
  by (cases b) (simp_all add: add_alias_column_def new_blacklisted_def)

lemma classifies_stage: "classifies_pk L = Some k \<Longrightarrow>
   migrate_classifies (L, db) =
     (L\<lparr>classifies_pk := Some [''payload_hash'']\<rparr>, ensure_docs (db\<lparr>classifies := new_classifies (Some k) (classifies db)\<rparr>))"
  by (simp add: migrate_classifies_def new_classifies_def)

lemma new_schema:
  "new_claims (claims_pk (create_schema L)) = new_claims (claims_pk L)"
  "new_proposals (proposals_pk (create_schema L)) = new_proposals (proposals_pk L)"
  "new_classifies (classifies_pk (create_schema L)) = new_classifies (classifies_pk L)"
  "new_blacklisted (black_alias (create_schema L)) = new_blacklisted (black_alias L)"
  by (simp_all add: fun_eq_iff create_schema_def new_claims_def new_proposals_def new_classifies_def
      new_blacklisted_def split: option.splits)

lemma open_eq: "open_catalog (L, db) = (current_layout, ensure_docs (opened L db))"
proof -
  obtain a b c d where L: "create_schema L = \<lparr>claims_pk = Some a, proposals_pk = Some b, classifies_pk = Some c, black_alias = Some d\<rparr>"
    by (simp add: create_schema_def)
  show ?thesis
    using new_schema [of L] unfolding open_catalog_def migrate_def opened_def
    by (simp add: L alias_stage claims_stage proposals_stage classifies_stage current_layout_def retire_messages_def)
qed

named_theorems rebuilt

lemma new_claims_rows [rebuilt]:
  "(k \<in> {None, Some [''publisher'']} \<Longrightarrow> pk cl_publisher rows) \<Longrightarrow> pk cl_publisher (new_claims k rows)"
  "r \<in> set (new_claims k rows) \<Longrightarrow> r \<in> set rows"
  using fold_replace [of cl_publisher rows] by (auto simp: new_claims_def split: if_splits)

lemma new_proposals_rows [rebuilt]:
  "(k \<in> {None, Some [''cid'', ''reason'']} \<Longrightarrow> pk p_key rows) \<Longrightarrow> pk p_key (new_proposals k rows)"
  by (auto simp: new_proposals_def fold_replace)

lemma new_classifies_rows [rebuilt]:
  "(k \<in> {None, Some [''payload_hash'']} \<Longrightarrow> pk c_hash rows) \<Longrightarrow> pk c_hash (new_classifies k rows)"
  "r \<in> set (new_classifies k rows) \<Longrightarrow> r \<in> set rows"
  using fold_ignore [of c_hash rows] by (auto simp: new_classifies_def split: if_splits)

lemma new_blacklisted_keys [rebuilt]: "map b_publisher (new_blacklisted b rows) = map b_publisher rows"
  by (simp add: new_blacklisted_def comp_def)

lemma new_blacklisted_publishers [rebuilt]: "b_publisher ` set (new_blacklisted b rows) = b_publisher ` set rows"
  by (metis list.set_map new_blacklisted_keys)

lemmas old_rows = new_claims_rows(2) new_classifies_rows(2)

lemma opened_keys:
  assumes "old_file_ok (L, db)"
  shows "keys_ok (opened L db)"
proof -
  have "pk b_publisher (new_blacklisted (black_alias L) (blacklisted db))"
    using assms by (simp add: old_file_ok_def pk_def rebuilt)
  then show ?thesis
    using assms by (auto simp: old_file_ok_def keys_ok_def opened_def retire_messages_def
        intro!: new_claims_rows(1) new_proposals_rows new_classifies_rows(1))
qed

lemma opened_rows:
  assumes "old_file_ok (L, db)"
  shows "rows_ok (opened L db)"
proof -
  have r: "rows_ok db" using assms by (simp add: old_file_ok_def)
  have "\<exists>m\<in>set (messages (opened L db)). m_hash m = c_hash c \<and> m_cid m = c_cid c \<and> m_publisher m = c_publisher c
      \<and> m_kind m = ''classify''" if "c \<in> set (classifies (opened L db))" for c
  proof -
    have "c \<in> set (classifies db)" using that by (auto simp: opened_def dest: old_rows)
    then obtain m where "m \<in> set (messages db)" "m_hash m = c_hash c \<and> m_cid m = c_cid c \<and> m_publisher m = c_publisher c
      \<and> m_kind m = ''classify''" using r unfolding rows_ok_def by blast
    then show ?thesis by (auto simp: opened_def retire_messages_def intro!: bexI [of _ m])
  qed
  then show ?thesis using r by (auto simp: rows_ok_def opened_def dest: old_rows)
qed

lemma opened_black:
  assumes "old_file_ok (L, db)"
  shows "black_ok (opened L db)"
proof -
  have "owners (opened L db) \<subseteq> owners db"
    by (auto simp: owners_def opened_def retire_messages_def dest!: old_rows)
  then show ?thesis using assms by (auto simp: old_file_ok_def black_ok_def opened_def rebuilt)
qed

lemma docs_ok_count: "docs_ok S db \<Longrightarrow> \<exists>n. docs_count db = Some n"
  by (simp add: docs_ok_def)

lemma docs_ok_shown: "docs_ok {} db \<Longrightarrow> docs db \<noteq> [] \<or> classifies db = []"
  by (cases "classifies db") (auto simp: docs_ok_def has_key_def)

lemma opened_docs:
  assumes "old_file_ok (L, db)"
  shows "docs_ok {} (ensure_docs (opened L db))"
proof (cases "undocumented db")
  case True
  then show ?thesis by (intro ensure_docs_ok) (simp add: opened_def)
next
  case False
  then have "docs_ok {} db" "classifies_pk L = Some [''payload_hash'']" using assms by (auto simp: old_file_ok_def)
  then have "docs_ok {} (opened L db)" by (simp add: opened_def docs_ok_def new_classifies_def)
  then show ?thesis using docs_ok_count docs_ok_shown ensure_docs_same by metis
qed

text \<open>All tables but the search table.\<close>

definition core :: "catalog \<Rightarrow> catalog" where
  "core db = db\<lparr>docs := [], docs_fts := [], docs_count := None\<rparr>"

lemma core_mirror: "core (fold (\<lambda>d db. db\<lparr>docs_fts := sql_delete (\<lambda>f. f_rowid f = d_rowid d) (docs_fts db) @ [fts_of d]\<rparr>) t db) = core db"
  by (induction t arbitrary: db) (simp_all add: core_def)

lemma core_count: "core (snd (cached_count db)) = core db"
  by (simp add: core_def cached_count_def Let_def split: option.splits)

lemma core_ensure: "core (ensure_docs db) = core db"
  by (simp add: ensure_docs_def core_count core_mirror Let_def) (simp add: core_def)

lemma core_tables: "messages (core db) = messages db" "claims (core db) = claims db"
  by (simp_all add: core_def)

lemma core_ok: "keys_ok (core db) = keys_ok db" "rows_ok (core db) = rows_ok db" "black_ok (core db) = black_ok db"
  by (simp_all add: core_def keys_ok_def rows_ok_def black_ok_def owners_def)

lemma wf_ensure_docs:
  assumes "keys_ok db" "rows_ok db" "black_ok db" "docs_ok {} (ensure_docs db)"
  shows "wf_catalog (ensure_docs db)"
  using assms core_ok [of db] core_ok [of "ensure_docs db"] by (simp add: wf_catalog_def core_ensure)

lemma current_file:
  assumes "wf_catalog db" "\<forall>m\<in>set (messages db). m_kind m \<notin> {''attest'', ''challenge''}"
  shows "open_catalog (current_layout, db) = (current_layout, db)"
proof -
  have "retire_messages db = db"
    using assms(2) by (simp add: retire_messages_def sql_delete_def filter_id_conv)
  then have "opened current_layout db = db"
    by (simp add: opened_def current_layout_def new_claims_def new_proposals_def new_classifies_def new_blacklisted_def)
  then show ?thesis
    using assms(1) docs_ok_count docs_ok_shown ensure_docs_same unfolding open_eq wf_catalog_def by metis
qed

lemma open_wf: "old_file_ok f \<Longrightarrow> wf_catalog (snd (open_catalog f))"
  by (cases f) (auto simp: open_eq intro: wf_ensure_docs opened_keys opened_rows opened_black opened_docs)

text \<open>A catalog of the running version, and a file that does not exist yet.\<close>

lemma wf_file: "wf_catalog db \<Longrightarrow> old_file_ok (current_layout, db)"
  by (simp add: old_file_ok_def wf_catalog_def keys_ok_def current_layout_def)

definition fresh_file :: catalog_file where
  "fresh_file = (\<lparr>claims_pk = None, proposals_pk = None, classifies_pk = None, black_alias = None\<rparr>,
     empty_catalog\<lparr>docs_count := None\<rparr>)"

lemma fresh_file_ok: "old_file_ok fresh_file"
  by (simp add: old_file_ok_def fresh_file_def empty_catalog_def undocumented_def rows_ok_def black_ok_def owners_def)

lemma open_fresh: "snd (open_catalog fresh_file) = empty_catalog"
  by (simp add: fresh_file_def open_eq opened_def new_claims_def new_proposals_def new_classifies_def new_blacklisted_def
      retire_messages_def empty_catalog_def ensure_docs_def cached_count_def first_classifies_def sql_delete_def Let_def)

section \<open>Properties\<close>


definition ex_old_file :: catalog where
  "ex_old_file = ex_catalog\<lparr>docs := [], docs_fts := [], docs_count := None,
     claims := [ex_claim, ex_claim\<lparr>cl_cid := ''f01551203aabb02''\<rparr>]\<rparr>"


end
