(* ===== verification/System.thy ===== *)
theory System
  imports Indexer_Laws Migrate
begin

text \<open>
  The running node: \<open>observer/main.py\<close> starts it, then its threads interleave. A state is the node's
  data and the workers; a step is one operation that runs under a lock or in one transaction: a
  worker's next write, an ingested message, a recorded spool line, a janitor operation, an operation
  of the web interface, or a restart of the whole process. What a worker's run meets is arbitrary, and
  so are the messages, lines, clock readings and requests.
\<close>

section \<open>States\<close>

text \<open>A busy worker has the writes it still has to make and whether it holds the claim slot.\<close>

datatype worker = Idle | Busy wrow "effect list" bool | Hung wrow

record system =
  y_node :: observer
  y_workers :: "worker list"

section \<open>Start-up\<close>

definition startup :: "env \<Rightarrow> (string \<Rightarrow> json option) \<Rightarrow> (bytes \<Rightarrow> string) \<Rightarrow> spool_dir \<Rightarrow> catalog \<Rightarrow> queue \<Rightarrow> catalog \<times> queue" where
  "startup E loads utf8 files db q =
     (let db1 = snd (purge_unprocessable_skips db);
          db2 = snd (purge_invalid_cids db1);
          q1 = snd (release_processing q);
          q2 = snd (requeue_unpublished db2 q1);
          q3 = snd (prune (e_fetch E) (e_now E) q2);
          q4 = snd (snd (spool_run_once E loads utf8 db2 files q3))
      in (db2, q4))"

text \<open>\<open>main\<close>: start-up, the alias is announced, then the workers start.\<close>

definition boot :: "env \<Rightarrow> (string \<Rightarrow> json option) \<Rightarrow> (bytes \<Rightarrow> string) \<Rightarrow> spool_dir \<Rightarrow> (payload \<Rightarrow> club_reply) \<Rightarrow>
    catalog \<Rightarrow> queue \<Rightarrow> system" where
  "boot E loads utf8 files reply db q =
     (case startup E loads utf8 files db q of
        (db', q') \<Rightarrow>
          \<lparr>y_node = \<lparr>g_catalog = db', g_queue = q', g_slot = 1, g_claimed_until = 0, g_posted = snd (announce E reply db'),
                      g_run_stats = (\<lambda>_. 0), g_window = (\<lambda>_. 0)\<rparr>,
           y_workers = replicate (nat (cfg_get (e_fetch E) ''concurrency'' 8)) Idle\<rparr>)"

section \<open>Steps\<close>

definition with_db :: "catalog \<Rightarrow> observer \<Rightarrow> observer" where
  "with_db db g = g\<lparr>g_catalog := db\<rparr>"

definition with_posts :: "payload list \<Rightarrow> observer \<Rightarrow> observer" where
  "with_posts posts g = g\<lparr>g_posted := g_posted g @ posts\<rparr>"

text \<open>Operations of the threads other than the workers, on the node's data.\<close>

inductive node_step :: "observer \<Rightarrow> observer \<Rightarrow> bool" where
  record_line: "node_step g (on_queue (\<lambda>q. snd (record_line E loads txt q)) g)"
| save_offset: "node_step g (on_queue (save_offset path off) g)"
| drop_offset: "node_step g (on_queue (\<lambda>q. q\<lparr>spool_offsets := sql_delete (\<lambda>r. fst r = path) (spool_offsets q)\<rparr>) g)"
| ingest: "ingest_message E rt obj (g_catalog g, g_queue g) = (r, db', q') \<Longrightarrow>
    node_step g (g\<lparr>g_catalog := db', g_queue := q'\<rparr>)"
| second: "node_step g (on_queue (\<lambda>q. snd (maybe_enqueue_second E (g_catalog g) c q)) g)"
| expire: "node_step g (with_db (expire_claims E (g_catalog g)) g)"
| prune: "node_step g (on_queue (\<lambda>q. snd (prune F now q)) g)"
| evict: "node_step g (on_queue (\<lambda>q. snd (evict_batch now q)) g)"
| trim: "node_step g (on_queue trim_evicted g)"
| summary: "node_step g (snd (log_summary g))"
| propose: "node_step g (with_db (snd (propose_report now c reason (g_catalog g))) g)"
| drop_prop: "node_step g (with_db (drop_proposal c reason (g_catalog g)) g)"
| blacklist: "node_step g (with_db (snd (blacklist E publisher (g_catalog g))) g)"
| unblacklist: "node_step g (with_db (snd (unblacklist publisher (g_catalog g))) g)"
| set_alias: "set_and_publish E reply v (g_catalog g) = (r, posts, db') \<Longrightarrow> node_step g (with_posts posts (with_db db' g))"
| report: "publish_report E reply c reason (g_catalog g, g_queue g) = (r, posts, db', q') \<Longrightarrow>
    node_step g (with_posts posts (g\<lparr>g_catalog := db', g_queue := q'\<rparr>))"

definition put_worker :: "nat \<Rightarrow> worker \<Rightarrow> observer \<Rightarrow> system \<Rightarrow> system" where
  "put_worker i w g y = y\<lparr>y_node := g, y_workers := (y_workers y)[i := w]\<rparr>"

text \<open>
  A worker takes a row, makes its writes one by one, and is idle again; an exception between two
  writes releases the claim and puts the row back. A fetch that never returns hangs its worker.
\<close>

inductive sys_step :: "system \<Rightarrow> system \<Rightarrow> bool" where
  other: "node_step (y_node y) g \<Longrightarrow> sys_step y (y\<lparr>y_node := g\<rparr>)"
| take: "i < length (y_workers y) \<Longrightarrow> y_workers y ! i = Idle \<Longrightarrow>
    take_batch F now 1 (g_queue (y_node y)) = ([row], q') \<Longrightarrow>
    w = (case work_on A row of None \<Rightarrow> Hung row | Some effs \<Rightarrow> Busy row effs False) \<Longrightarrow>
    sys_step y (put_worker i w ((y_node y)\<lparr>g_queue := q'\<rparr>) y)"
| do_write: "i < length (y_workers y) \<Longrightarrow> y_workers y ! i = Busy row (e # es) cl \<Longrightarrow>
    apply_effect E ttl e (y_node y, cl) = (g, cl') \<Longrightarrow> sys_step y (put_worker i (Busy row es cl') g y)"
| crash: "i < length (y_workers y) \<Longrightarrow> y_workers y ! i = Busy row es cl \<Longrightarrow>
    sys_step y (put_worker i (Busy row [ERelease, retry_later row [] err] cl) (y_node y) y)"
| finish: "i < length (y_workers y) \<Longrightarrow> y_workers y ! i = Busy row [] cl \<Longrightarrow>
    sys_step y (put_worker i Idle (y_node y) y)"

text \<open>The first start opens the catalog file of any older version, or none; a restart opens the node's own.\<close>

inductive reach :: "system \<Rightarrow> bool" where
  first: "old_file_ok f \<Longrightarrow> wf_queue q \<Longrightarrow> reach (boot E loads utf8 files reply (snd (open_catalog f)) q)"
| restart: "reach y \<Longrightarrow>
    reach (boot E loads utf8 files reply (snd (open_catalog (current_layout, g_catalog (y_node y)))) (g_queue (y_node y)))"
| step: "reach y \<Longrightarrow> sys_step y y' \<Longrightarrow> reach y'"

section \<open>The invariant\<close>

fun holds_claim :: "worker \<Rightarrow> bool" where
  "holds_claim (Busy row es cl) = cl"
| "holds_claim _ = False"

text \<open>A worker that will take its row out of flight.\<close>

fun will_settle :: "cid \<Rightarrow> worker \<Rightarrow> bool" where
  "will_settle c Idle = False"
| "will_settle c (Busy row es cl) = (r_cid row = c \<and> list_ex (settles c) es)"
| "will_settle c (Hung row) = (r_cid row = c)"

fun worker_ok :: "worker \<Rightarrow> bool" where
  "worker_ok (Busy row es cl) = (0 \<le> r_attempts row \<and> list_all (effect_on (r_cid row)) es \<and> plan_ok cl es)"
| "worker_ok _ = True"

definition claim_count :: "worker list \<Rightarrow> int" where
  "claim_count ws = (\<Sum>w\<leftarrow>ws. of_bool (holds_claim w))"

definition sys_inv :: "system \<Rightarrow> bool" where
  "sys_inv y \<longleftrightarrow> wf_catalog (g_catalog (y_node y)) \<and> wf_queue (g_queue (y_node y))
     \<and> 0 \<le> g_slot (y_node y) \<and> g_slot (y_node y) + claim_count (y_workers y) = 1 \<and> list_all worker_ok (y_workers y)
     \<and> (\<forall>c\<in>processing (g_queue (y_node y)). list_ex (will_settle c) (y_workers y))"

lemma sum_list_put: "i < length xs \<Longrightarrow> sum_list (xs[i := x]) = sum_list xs + x - xs ! i" for x :: int
  by (induction xs arbitrary: i) (auto split: nat.splits)

lemma claim_count_put: "i < length ws \<Longrightarrow>
    claim_count (ws[i := w]) = claim_count ws + of_bool (holds_claim w) - of_bool (holds_claim (ws ! i))"
  by (simp add: claim_count_def map_update sum_list_put)

lemma list_ex_put: "i < length ws \<Longrightarrow> list_ex P ws \<Longrightarrow> (P (ws ! i) \<Longrightarrow> P w) \<Longrightarrow> list_ex P (ws[i := w])"
  by (auto simp: list_ex_length nth_list_update) metis

lemma list_all_put: "list_all P ws \<Longrightarrow> P w \<Longrightarrow> list_all P (ws[i := w])"
  by (simp add: list_all_iff set_update_subset_insert) (metis insertE set_update_subset_insert subsetD)

subsection \<open>Steps keep it\<close>

lemma node_step_ok:
  assumes "node_step g g'" "wf_catalog (g_catalog g)" "wf_queue (g_queue g)"
  shows "wf_catalog (g_catalog g') \<and> wf_queue (g_queue g') \<and> processing (g_queue g') \<subseteq> processing (g_queue g) \<and> g_slot g' = g_slot g"
  using assms
proof cases
  case (ingest E rt obj r db' q')
  then show ?thesis
    using wf_ingest_message [OF assms(2) ingest(2)] busy_ingest_message [of E rt obj "g_catalog g" "g_queue g"] assms(3) by simp
next
  case (set_alias E reply v r posts db')
  then show ?thesis
    using wf_set_and_publish [OF assms(2), of E reply v] assms(3) by (simp add: with_posts_def with_db_def)
next
  case (report E reply c reason r posts db' q')
  then show ?thesis
    using wf_publish_report [OF assms(2,3) report(2)] busy_publish_report [of E reply c reason "g_catalog g" "g_queue g"]
    by (simp add: with_posts_def)
next
  case (drop_offset path)
  then show ?thesis using assms wf_import.gone by (simp add: on_queue_def processing_def)
next
  case (save_offset path off)
  then show ?thesis using assms wf_save_offset by (simp add: on_queue_def processing_def)
next
  case (summary)
  then show ?thesis using assms by (simp add: log_summary_def)
next
  case (prune F now)
  then show ?thesis using assms wf_prune busy_prune by (simp add: on_queue_def)
next
  case (evict now)
  then show ?thesis using assms wf_evict_batch busy_evict_batch by (simp add: on_queue_def)
next
  case (trim)
  then show ?thesis using assms wf_trim_evicted busy_trim_evicted by (simp add: on_queue_def)
next
  case (record_line E loads x)
  then show ?thesis using assms wf_record_line busy_record_line by (simp add: on_queue_def)
next
  case (second E c)
  then show ?thesis using assms wf_maybe_enqueue_second busy_maybe_enqueue_second by (simp add: on_queue_def)
next
  case (blacklist E p)
  then show ?thesis using assms wf_blacklist by (simp add: with_db_def)
qed (use assms wf_simple_ops in \<open>simp_all add: with_db_def\<close>)

lemma wf_requeue [wfq]: "wf_queue q \<Longrightarrow> wf_queue (snd (requeue_unpublished db q))"
proof -
  assume "wf_queue q"
  then have "wf_queue (q\<lparr>cids := sql_update (unpublished db) (requeue ''republish'') (cids q)\<rparr>)"
    by (rule wf_update) (auto simp: requeue_def row_ok_def)
  from wf_update [OF this, of "\<lambda>r. r\<lparr>r_attempts := 0, r_status := Discovered\<rparr>" "\<lambda>r. r_error r = Some ''publish_failed''"]
  show ?thesis by (simp add: requeue_unpublished_def Let_def row_ok_def)
qed

text \<open>A fresh process holds no row in flight.\<close>

interpretation busy_import: import_inv E loads "\<lambda>q. processing q = {}" for E loads
proof unfold_locales
  show "processing (snd (record_line E loads x q)) = {}" if "processing q = {}" for x q
    using busy_record_line [of E loads x q] that by blast
qed (auto simp: processing_def)

lemma release_idle: "processing (snd (release_processing q)) = {}"
  by (auto simp: processing_def release_processing_def split: if_splits)

lemma requeue_idle: "processing q = {} \<Longrightarrow> processing (snd (requeue_unpublished db q)) = {}"
  by (fastforce simp: processing_def requeue_unpublished_def Let_def requeue_def)

lemma startup_ok:
  assumes "wf_catalog db" "wf_queue q" "startup E loads utf8 files db q = (db', q')"
  shows "wf_catalog db' \<and> wf_queue q' \<and> processing q' = {}"
proof -
  let ?db2 = "snd (purge_invalid_cids (snd (purge_unprocessable_skips db)))"
  let ?q2 = "snd (requeue_unpublished ?db2 (snd (release_processing q)))"
  let ?q3 = "snd (prune (e_fetch E) (e_now E) ?q2)"
  have st: "db' = ?db2" "q' = snd (snd (spool_run_once E loads utf8 ?db2 files ?q3))"
    using assms(3) by (auto simp: startup_def Let_def)
  have "wf_catalog ?db2" by (intro wf_purge_invalid_cids wf_purge_unprocessable assms(1))
  moreover have q2: "wf_queue ?q2" by (intro wf_requeue wf_release_processing assms(2))
  then have "wf_queue q'" unfolding st by (intro wf_import.cycle wf_prune)
  moreover have "processing ?q3 = {}"
    using busy_prune [OF q2, of "e_fetch E" "e_now E"] requeue_idle [OF release_idle] by blast
  then have "processing q' = {}" unfolding st by (rule busy_import.cycle)
  ultimately show ?thesis using st by simp
qed

lemma boot_inv:
  assumes "wf_catalog db" "wf_queue q"
  shows "sys_inv (boot E loads utf8 files reply db q)"
proof -
  obtain db' q' where st: "startup E loads utf8 files db q = (db', q')" by fastforce
  have "claim_count (replicate n Idle) = 0" for n by (induction n) (simp_all add: claim_count_def)
  then show ?thesis using startup_ok [OF assms st] by (simp add: boot_def st sys_inv_def list_all_iff)
qed

lemma apply_effect_slot_nonneg:
  assumes "apply_effect E ttl e (g, cl) = (g', cl')" "0 \<le> g_slot g"
  shows "0 \<le> g_slot g'"
proof (cases e)
  case (EChildren t ls c)
  then show ?thesis using assms by (auto split: prod.splits if_splits)
qed (use assms in \<open>auto simp: on_queue_def try_claim_def Let_def split: if_splits\<close>)

text \<open>Replacing one worker: what is to be shown of the new worker and the new data.\<close>

lemma put_worker_inv:
  assumes inv: "sys_inv y" "i < length (y_workers y)"
    and node: "wf_catalog (g_catalog g)" "wf_queue (g_queue g)" "worker_ok w" "0 \<le> g_slot g"
      "g_slot g + of_bool (holds_claim w) = g_slot (y_node y) + of_bool (holds_claim (y_workers y ! i))"
    and settle: "\<And>c. c \<in> processing (g_queue g) \<Longrightarrow>
      will_settle c w \<or> c \<in> processing (g_queue (y_node y)) \<and> \<not> will_settle c (y_workers y ! i)"
  shows "sys_inv (put_worker i w g y)"
proof -
  have "list_ex (will_settle c) ((y_workers y)[i := w])" if c: "c \<in> processing (g_queue g)" for c
  proof (cases "will_settle c w")
    case True
    then show ?thesis using inv(2) by (metis length_list_update list_ex_length nth_list_update_eq)
  next
    case False
    then have "list_ex (will_settle c) (y_workers y)" "\<not> will_settle c (y_workers y ! i)"
      using settle [OF c] inv(1) by (auto simp: sys_inv_def)
    then show ?thesis using list_ex_put [OF inv(2), of "will_settle c" w] by blast
  qed
  then show ?thesis
    using inv node list_all_put [of worker_ok "y_workers y" w i] by (simp add: sys_inv_def put_worker_def claim_count_put)
qed

lemma inv_worker: "sys_inv y \<Longrightarrow> i < length (y_workers y) \<Longrightarrow> worker_ok (y_workers y ! i)"
  by (simp add: sys_inv_def list_all_length)

lemma sys_step_inv:
  assumes "sys_step y y'" "sys_inv y"
  shows "sys_inv y'"
  using assms(1)
proof cases
  case (other g)
  then show ?thesis using node_step_ok [OF other(2)] assms(2) by (auto simp: sys_inv_def)
next
  case (take i F now row q' w A)
  have wf: "wf_catalog (g_catalog (y_node y))" "wf_queue (g_queue (y_node y))" "0 \<le> g_slot (y_node y)"
    using assms(2) by (simp_all add: sys_inv_def)
  have "batch_ok F (take_args F now) (g_queue (y_node y)) [row] q'" using take_batch_ok [OF wf(2) take(4)] by blast
  then have "row_ok row" using wf_queue_row [OF wf(2)] by (simp add: batch_ok_def)
  then have n: "0 \<le> r_attempts row" by (simp add: row_ok_def)
  have w: "worker_ok w" "\<not> holds_claim w" "will_settle (r_cid row) w"
    using work_on_good [OF _ n, of A] take(5) n by (auto split: option.splits)
  show ?thesis
    unfolding take(1)
  proof (rule put_worker_inv [OF assms(2) take(2)])
    show "wf_queue (g_queue ((y_node y)\<lparr>g_queue := q'\<rparr>))" using wf_take_batch [OF wf(2), of F now 1] take(4) by simp
    show "will_settle c w \<or> c \<in> processing (g_queue (y_node y)) \<and> \<not> will_settle c (y_workers y ! i)"
      if "c \<in> processing (g_queue ((y_node y)\<lparr>g_queue := q'\<rparr>))" for c
      using that busy_take_batch [OF wf(2) take(4)] w(3) take(3) by auto
  qed (use wf w take(3) in simp_all)
next
  case (do_write i row e es cl E ttl g cl')
  have wf: "wf_catalog (g_catalog (y_node y))" "wf_queue (g_queue (y_node y))" "0 \<le> g_slot (y_node y)"
    using assms(2) by (simp_all add: sys_inv_def)
  have ok: "0 \<le> r_attempts row" "effect_on (r_cid row) e" "list_all (effect_on (r_cid row)) es" "plan_ok cl (e # es)"
    using inv_worker [OF assms(2) do_write(2)] by (simp_all add: do_write(3))
  note q = apply_effect_queue [OF ok(2) wf(2), of E ttl cl, unfolded do_write(4) fst_conv]
  note slot = apply_effect_slot [OF ok(4) do_write(4)] apply_effect_slot_nonneg [OF do_write(4) wf(3)]
  have cat: "g_catalog g = g_catalog (y_node y)" using apply_effect_catalog [of E ttl e "y_node y" cl] do_write(4) by simp
  show ?thesis
    unfolding do_write(1)
  proof (rule put_worker_inv [OF assms(2) do_write(2)])
    show "will_settle c (Busy row es cl') \<or> c \<in> processing (g_queue (y_node y)) \<and> \<not> will_settle c (y_workers y ! i)"
      if "c \<in> processing (g_queue g)" for c
      using that q(2) do_write(3) by (auto split: if_splits)
  qed (use wf cat q(1) ok slot do_write(3) in simp_all)
next
  case (crash i row es cl err)
  have wf: "wf_catalog (g_catalog (y_node y))" "wf_queue (g_queue (y_node y))" "0 \<le> g_slot (y_node y)"
    using assms(2) by (simp_all add: sys_inv_def)
  have n: "0 \<le> r_attempts row" using inv_worker [OF assms(2) crash(2)] by (simp add: crash(3))
  show ?thesis
    unfolding crash(1)
  proof (rule put_worker_inv [OF assms(2) crash(2)])
    show "will_settle c (Busy row [ERelease, retry_later row [] err] cl)
        \<or> c \<in> processing (g_queue (y_node y)) \<and> \<not> will_settle c (y_workers y ! i)"
      if "c \<in> processing (g_queue (y_node y))" for c
      using that n crash(3) by auto
  qed (use wf n crash(3) in \<open>simp_all add: retry_later_def\<close>)
next
  case (finish i row cl)
  have "\<not> cl" using inv_worker [OF assms(2) finish(2)] by (simp add: finish(3))
  then show ?thesis
    unfolding finish(1) using assms(2) finish(2,3) by (intro put_worker_inv) (simp_all add: sys_inv_def)
qed

lemma reach_inv: "reach y \<Longrightarrow> sys_inv y"
proof (induction rule: reach.induct)
  case (first f q E loads utf8 files reply)
  then show ?case by (intro boot_inv open_wf)
next
  case (restart y E loads utf8 files reply)
  then show ?case by (intro boot_inv open_wf wf_file) (simp_all add: sys_inv_def)
next
  case (step y y')
  then show ?case using sys_step_inv by blast
qed

text \<open>A node whose files do not exist yet.\<close>

lemma reach_fresh: "reach (boot E loads utf8 files reply empty_catalog empty_queue)"
  using reach.first [OF fresh_file_ok wf_empty_queue] by (simp add: open_fresh)

section \<open>Properties of the running node\<close>



lemma claim_count_filter: "claim_count ws = int (length (filter holds_claim ws))"
  by (induction ws) (simp_all add: claim_count_def)

text \<open>
  C3: At most one worker holds the claim slot in any reachable state, the semaphore is never released
  more often than acquired, and it is free exactly when no worker holds it.
\<close>

theorem one_claim_at_a_time:
  assumes "reach y"
  shows "length (filter holds_claim (y_workers y)) \<le> 1 \<and> g_slot (y_node y) = 1 - int (length (filter holds_claim (y_workers y)))"
  using reach_inv [OF assms] by (auto simp: sys_inv_def claim_count_filter)

subsection \<open>Progress\<close>

text \<open>A busy worker that goes on makes its writes and is idle.\<close>

lemma worker_ends:
  "i < length (y_workers y) \<Longrightarrow> y_workers y ! i = Busy row es cl \<Longrightarrow>
   \<exists>y'. sys_step\<^sup>*\<^sup>* y y' \<and> y_workers y' = (y_workers y)[i := Idle]"
proof (induction es arbitrary: y cl)
  case Nil
  then have "sys_step y (put_worker i Idle (y_node y) y)" by (rule sys_step.finish)
  then show ?case by (intro exI [of _ "put_worker i Idle (y_node y) y"]) (auto simp: put_worker_def)
next
  case (Cons e es)
  obtain g cl' where e: "apply_effect (undefined :: env) 0 e (y_node y, cl) = (g, cl')" by fastforce
  let ?y = "put_worker i (Busy row es cl') g y"
  have st: "sys_step y ?y" by (rule sys_step.do_write [OF Cons.prems e])
  have "i < length (y_workers ?y)" "y_workers ?y ! i = Busy row es cl'"
    using Cons.prems(1) by (simp_all add: put_worker_def)
  from Cons.IH [OF this] obtain y' where y': "sys_step\<^sup>*\<^sup>* ?y y'" "y_workers y' = (y_workers ?y)[i := Idle]" by blast
  have "sys_step\<^sup>*\<^sup>* y y'" using st y'(1) by (rule converse_rtranclp_into_rtranclp)
  then show ?case using y'(2) by (intro exI [of _ y']) (simp add: put_worker_def)
qed

lemma filter_put_Idle: "i < length ws \<Longrightarrow> ws ! i \<noteq> Idle \<Longrightarrow>
    length (filter (\<lambda>w. w \<noteq> Idle) (ws[i := Idle])) < length (filter (\<lambda>w. w \<noteq> Idle) ws)"
proof (induction ws arbitrary: i)
  case (Cons w ws)
  then show ?case by (cases i) auto
qed simp

lemma all_workers_end:
  "\<forall>w\<in>set (y_workers y). \<forall>row. w \<noteq> Hung row \<Longrightarrow> \<exists>y'. sys_step\<^sup>*\<^sup>* y y' \<and> (\<forall>w\<in>set (y_workers y'). w = Idle)"
proof (induction "length (filter (\<lambda>w. w \<noteq> Idle) (y_workers y))" arbitrary: y rule: less_induct)
  case less
  show ?case
  proof (cases "\<forall>w\<in>set (y_workers y). w = Idle")
    case True
    then show ?thesis by blast
  next
    case False
    then obtain i where i: "i < length (y_workers y)" "y_workers y ! i \<noteq> Idle" by (auto simp: in_set_conv_nth)
    then obtain row es cl where b: "y_workers y ! i = Busy row es cl"
      using less.prems by (cases "y_workers y ! i") (auto simp: in_set_conv_nth)
    from worker_ends [OF i(1) b] obtain y1 where y1: "sys_step\<^sup>*\<^sup>* y y1" "y_workers y1 = (y_workers y)[i := Idle]" by blast
    have "length (filter (\<lambda>w. w \<noteq> Idle) (y_workers y1)) < length (filter (\<lambda>w. w \<noteq> Idle) (y_workers y))"
      unfolding y1(2) using i by (rule filter_put_Idle)
    moreover have "\<forall>w\<in>set (y_workers y1). \<forall>row. w \<noteq> Hung row"
      using less.prems y1(2) set_update_subset_insert [of "y_workers y" i Idle] by auto
    ultimately obtain y' where "sys_step\<^sup>*\<^sup>* y1 y'" "\<forall>w\<in>set (y_workers y'). w = Idle" using less.hyps by blast
    then show ?thesis using y1(1) by (meson rtranclp_trans)
  qed
qed

lemma reach_steps: "sys_step\<^sup>*\<^sup>* y y' \<Longrightarrow> reach y \<Longrightarrow> reach y'"
  by (induction rule: rtranclp_induct) (auto intro: reach.step)


section \<open>A concrete history\<close>

text \<open>The node starts, two peers ask for the same block, and a worker takes it.\<close>

definition ex_boot :: system where
  "ex_boot = boot ex_spool_env ex_loads ex_utf8 [] (\<lambda>_. Down) empty_catalog empty_queue"

definition ex_sniffed :: observer where
  "ex_sniffed = on_queue (\<lambda>q. snd (record_line ex_spool_env ex_loads ''2'' q))
     (on_queue (\<lambda>q. snd (record_line ex_spool_env ex_loads ''1'' q)) (y_node ex_boot))"

lemma ex_sniffed_reach: "reach (ex_boot\<lparr>y_node := ex_sniffed\<rparr>)"
proof -
  have "reach ex_boot" unfolding ex_boot_def by (rule reach_fresh)
  from reach.step [OF this sys_step.other [OF node_step.record_line [of _ ex_spool_env ex_loads "''1''"]]]
  have "reach (ex_boot\<lparr>y_node := on_queue (\<lambda>q. snd (record_line ex_spool_env ex_loads ''1'' q)) (y_node ex_boot)\<rparr>)" .
  from reach.step [OF this sys_step.other [OF node_step.record_line [of _ ex_spool_env ex_loads "''2''"]]]
  show ?thesis by (simp add: ex_sniffed_def)
qed

lemma ex_taken: "map r_cid (fst (take_batch Map.empty 110 1 (g_queue ex_sniffed))) = [''f01551203aabbcc'']"
  by code_simp

lemma ex_workers: "y_workers ex_boot = replicate 8 Idle"
  by (simp add: ex_boot_def boot_def ex_spool_env_def cfg_get_def split: prod.splits)

lemma raw_returns: "fetch_cid N c (Some ''raw'') attempt \<noteq> None"
  by (simp add: fetch_cid_def Let_def str_or_def split: sum.splits)

lemma raw_work_returns: "r_codec row = ''raw'' \<Longrightarrow> work_on A row \<noteq> None"
  using raw_returns [of "v_net A" "r_cid row" "r_attempts row"]
  by (auto simp: work_on_def process_one_def Let_def split: option.splits sum.splits)

lemma ex_flight: "\<exists>y. reach y \<and> ''f01551203aabbcc'' \<in> processing (g_queue (y_node y)) \<and> (\<forall>w\<in>set (y_workers y). \<forall>row. w \<noteq> Hung row)"
proof -
  obtain rows q' where t: "take_batch Map.empty 110 1 (g_queue ex_sniffed) = (rows, q')" by fastforce
  then obtain row where row: "rows = [row]" "r_cid row = ''f01551203aabbcc''" using ex_taken by auto
  have wf: "wf_queue (g_queue ex_sniffed)" using reach_inv [OF ex_sniffed_reach] by (simp add: sys_inv_def)
  have "row_ok row" using take_batch_ok [OF wf t] wf_queue_row [OF wf] row(1) by (simp add: batch_ok_def)
  moreover have "codec_of ''f01551203aabbcc'' = ''raw''" by code_simp
  ultimately obtain effs where effs: "work_on ex_view row = Some effs"
    using raw_work_returns [of row ex_view] row(2) by (auto simp: row_ok_def)
  let ?y = "ex_boot\<lparr>y_node := ex_sniffed\<rparr>"
  let ?z = "put_worker 0 (Busy row effs False) ((y_node ?y)\<lparr>g_queue := q'\<rparr>) ?y"
  have "sys_step ?y ?z"
  proof (rule sys_step.take [where F = Map.empty and now = 110 and A = ex_view])
    show "Busy row effs False = (case work_on ex_view row of None \<Rightarrow> Hung row | Some effs \<Rightarrow> Busy row effs False)"
      unfolding effs by simp
  qed (use t row ex_workers in simp_all)
  then have "reach ?z" by (rule reach.step [OF ex_sniffed_reach])
  moreover have "\<forall>w\<in>set (y_workers ?z). \<forall>row. w \<noteq> Hung row"
    using ex_workers set_update_subset_insert [of "replicate 8 Idle" 0 "Busy row effs False"] by (auto simp: put_worker_def)
  ultimately show ?thesis
    using busy_take_batch [OF wf t] row ex_workers by (intro exI [of _ ?z]) (simp add: put_worker_def)
qed



theorem one_claim_at_a_time_witness: "length (filter holds_claim (y_workers ex_boot)) \<le> 1"
proof -
  have "reach ex_boot" unfolding ex_boot_def by (rule reach_fresh)
  from one_claim_at_a_time [OF this] show ?thesis by (rule conjunct1)
qed


end
