(* ===== verification/Auth.thy ===== *)
theory Auth
  imports Store
begin

text \<open>
  \<open>observer/auth.py\<close>: the optional admin password, session cookies and the two sliding-window
  rate limits. The state is the two files under \<open>data/\<close> and the two dictionaries of recent
  attempts. The key derivation functions and HMAC of \<open>hashlib\<close> and \<open>hmac\<close> are arguments, and so
  are the clock readings and the random bytes a request draws; base64 and \<open>int()\<close> of a string are
  written out. A stored JSON file is its parsed value; a write that fails (a full disk) is not
  modelled.
\<close>

section \<open>Library functions\<close>

text \<open>
  \<open>int(s)\<close> of a string of at most 4300 digits: surrounding white space, a sign and underscores
  between digits are allowed.
\<close>

fun int_digits :: "bool \<Rightarrow> string \<Rightarrow> nat list option" where
  "int_digits after_digit [] = (if after_digit then Some [] else None)"
| "int_digits after_digit (c # s) =
     (case index_in DIGITS c of
        Some d \<Rightarrow> map_option (Cons d) (int_digits True s)
      | None \<Rightarrow> if after_digit \<and> c = CHR ''_'' then int_digits False s else None)"

definition int_of_str :: "string \<Rightarrow> int option" where
  "int_of_str s =
     (let t = py_strip s;
          (neg, u) = (case t of
                        [] \<Rightarrow> (False, [])
                      | c # r \<Rightarrow> if c = CHR ''-'' then (True, r) else if c = CHR ''+'' then (False, r)
                                 else (False, t))
      in map_option (\<lambda>ds. if neg then - int (be_value 10 ds) else int (be_value 10 ds))
           (int_digits False u))"

definition int_of_json :: "json \<Rightarrow> int res" where
  "int_of_json v =
     (case v of
        JInt n \<Rightarrow> Inr n
      | JBool b \<Rightarrow> Inr (if b then 1 else 0)
      | JStr s \<Rightarrow> (case int_of_str s of None \<Rightarrow> Inl ValueError | Some n \<Rightarrow> Inr n)
      | _ \<Rightarrow> Inl TypeError)"

definition B64_ALPHABET :: string where
  "B64_ALPHABET = ''ABCDEFGHIJKLMNOPQRSTUVWXYZabcdefghijklmnopqrstuvwxyz0123456789-_''"

definition b64_char :: "nat \<Rightarrow> char" where
  "b64_char n = B64_ALPHABET ! (n mod 64)"

text \<open>\<open>base64.urlsafe_b64encode\<close>.\<close>

fun urlsafe_b64encode :: "bytes \<Rightarrow> string" where
  "urlsafe_b64encode [] = []"
| "urlsafe_b64encode [a] = [b64_char (unat a div 4), b64_char (unat a mod 4 * 16), CHR ''='', CHR ''='']"
| "urlsafe_b64encode [a, b] =
     [b64_char (unat a div 4), b64_char (unat a mod 4 * 16 + unat b div 16),
      b64_char (unat b mod 16 * 4), CHR ''='']"
| "urlsafe_b64encode (a # b # c # r) =
     [b64_char (unat a div 4), b64_char (unat a mod 4 * 16 + unat b div 16),
      b64_char (unat b mod 16 * 4 + unat c div 64), b64_char (unat c mod 64)] @ urlsafe_b64encode r"

text \<open>
  The value of a character for \<open>base64.urlsafe_b64decode\<close>, which maps the two url-safe characters
  to plus and slash and leaves those themselves valid.
\<close>

definition b64_value :: "char \<Rightarrow> nat option" where
  "b64_value c =
     (if c = CHR ''+'' then Some 62 else if c = CHR ''/'' then Some 63 else index_in B64_ALPHABET c)"

text \<open>
  \<open>binascii.a2b_base64\<close> outside strict mode: \<open>q\<close> is the position in the quad, \<open>left\<close> the bits not
  yet output. Characters outside the alphabet are skipped, a complete padding ends the input, and
  an incomplete quad is an error.
\<close>

fun a2b_base64 :: "nat \<Rightarrow> nat \<Rightarrow> nat \<Rightarrow> string \<Rightarrow> bytes option" where
  "a2b_base64 q left pads [] = (if q = 0 then Some [] else None)"
| "a2b_base64 q left pads (c # s) =
     (if c = CHR ''='' then
        (if 2 \<le> q then (if 4 \<le> q + (pads + 1) then Some [] else a2b_base64 q left (pads + 1) s)
         else a2b_base64 q left pads s)
      else
        (case b64_value c of
           None \<Rightarrow> a2b_base64 q left pads s
         | Some v \<Rightarrow>
             if q = 0 then a2b_base64 1 v 0 s
             else if q = 1 then map_option (Cons (of_nat (left * 4 + v div 16))) (a2b_base64 2 (v mod 16) 0 s)
             else if q = 2 then map_option (Cons (of_nat (left * 16 + v div 4))) (a2b_base64 3 (v mod 4) 0 s)
             else map_option (Cons (of_nat (left * 64 + v))) (a2b_base64 0 0 0 s)))"

text \<open>A string with characters above 127 cannot be encoded and raises ValueError.\<close>

definition urlsafe_b64decode :: "string \<Rightarrow> bytes option" where
  "urlsafe_b64decode s =
     (if list_all (\<lambda>c. (of_char c :: nat) < 128) s then a2b_base64 0 0 0 s else None)"

definition ascii_encode :: "string \<Rightarrow> bytes" where
  "ascii_encode s = map (\<lambda>c. of_nat (of_char c)) s"

definition ascii_decode :: "bytes \<Rightarrow> string option" where
  "ascii_decode bs = (if list_all (\<lambda>b. unat b < 128) bs then Some (map (\<lambda>b. char_of (unat b)) bs) else None)"

text \<open>What \<open>hashlib\<close> and \<open>hmac\<close> offer; a derivation raises on parameters it does not accept.\<close>

record crypto =
  has_scrypt :: bool
  scrypt :: "bytes \<Rightarrow> bytes \<Rightarrow> int \<Rightarrow> int \<Rightarrow> int \<Rightarrow> int \<Rightarrow> bytes res"
  pbkdf2_sha256 :: "bytes \<Rightarrow> bytes \<Rightarrow> int \<Rightarrow> int \<Rightarrow> bytes res"
  hmac_sha256 :: "bytes \<Rightarrow> bytes \<Rightarrow> bytes"

section \<open>State and requests\<close>

definition SESSION_TTL :: int where "SESSION_TTL = 12 * 3600"
definition MAX_PASSWORD :: nat where "MAX_PASSWORD = 128"
definition FAIL_LIMIT :: nat where "FAIL_LIMIT = 5"
definition FAIL_WINDOW :: time where "FAIL_WINDOW = 60"
definition DKLEN :: int where "DKLEN = 32"
definition REPORT_LIMIT :: nat where "REPORT_LIMIT = 8"
definition REPORT_WINDOW :: time where "REPORT_WINDOW = 600"

text \<open>The admin file: absent, unreadable or not JSON, or a JSON value.\<close>

datatype stored = Unreadable | Parsed json

record authst =
  admin_file :: "stored option"
  session_file :: "bytes option"
  failures :: "string \<rightharpoonup> time list"
  report_hits :: "string \<rightharpoonup> time list"

text \<open>The client's address (None when the server does not know it), its cookie, and the scheme.\<close>

record request =
  rq_host :: "string option"
  rq_cookie :: "string option"
  rq_https :: bool

text \<open>
  What a request draws from outside: the wall clock, the monotonic clock (each read once per
  request), and the random bytes for a session key, a nonce and a salt.
\<close>

record draws =
  w_time :: time
  w_mono :: time
  w_key :: bytes
  w_nonce :: bytes
  w_salt :: bytes

text \<open>A handler's result: the status of a raised HTTPException, or its value.\<close>

type_synonym 'a http = "nat + 'a"

text \<open>Looking up a member of an object that is written out.\<close>

lemma jget_simps: "jget [] k = JNull" "jget ((k', v) # kvs) k = (if k = k' then v else jget kvs k)"
  by (simp_all add: jget_def)

section \<open>Passwords\<close>

definition default_kdf :: "crypto \<Rightarrow> (string \<times> json) list" where
  "default_kdf C =
     (if has_scrypt C
      then [(''kdf'', JStr ''scrypt''), (''n'', JInt (2 ^ 14)), (''r'', JInt 8), (''p'', JInt 1),
            (''dklen'', JInt DKLEN)]
      else [(''kdf'', JStr ''pbkdf2_sha256''), (''iterations'', JInt 600000), (''dklen'', JInt DKLEN)])"

definition int_param :: "(string \<times> json) list \<Rightarrow> string \<Rightarrow> int res" where
  "int_param params k = (case map_of params k of None \<Rightarrow> Inl KeyError | Some v \<Rightarrow> int_of_json v)"

definition derive :: "crypto \<Rightarrow> string \<Rightarrow> bytes \<Rightarrow> (string \<times> json) list \<Rightarrow> bytes res" where
  "derive C password salt params =
     (let raw = utf8_encode password;
          kdf = jget params ''kdf'';
          len = jget params ''dklen''
      in res_bind (int_of_json (if truthy len then len else JInt DKLEN)) (\<lambda>dklen.
         if kdf = JStr ''scrypt'' then
           res_bind (int_param params ''n'') (\<lambda>n.
           res_bind (int_param params ''r'') (\<lambda>r.
           res_bind (int_param params ''p'') (\<lambda>p. scrypt C raw salt n r p dklen)))
         else if kdf = JStr ''pbkdf2_sha256'' then
           res_bind (int_param params ''iterations'') (\<lambda>i. pbkdf2_sha256 C raw salt i dklen)
         else Inl ValueError))"

definition corrupt_record :: "(string \<times> json) list" where
  "corrupt_record = [(''corrupt'', JBool True)]"

definition load_record :: "authst \<Rightarrow> (string \<times> json) list option" where
  "load_record st =
     (case admin_file st of
        None \<Rightarrow> None
      | Some (Parsed (JObj rec)) \<Rightarrow>
          if \<not> truthy (jget rec ''hash'') \<or> \<not> truthy (jget rec ''salt'') then Some corrupt_record
          else Some rec
      | Some _ \<Rightarrow> Some corrupt_record)"

definition password_is_set :: "authst \<Rightarrow> bool" where
  "password_is_set st = (load_record st \<noteq> None)"

definition is_corrupt :: "authst \<Rightarrow> bool" where
  "is_corrupt st = (case load_record st of None \<Rightarrow> False | Some rec \<Rightarrow> truthy (jget rec ''corrupt''))"

definition rev_of :: "authst \<Rightarrow> int" where
  "rev_of st =
     (case load_record st of
        None \<Rightarrow> 0
      | Some rec \<Rightarrow>
          if truthy (jget rec ''corrupt'') then 0
          else (let v = jget rec ''rev'' in
                case int_of_json (if truthy v then v else JInt 1) of Inl e \<Rightarrow> 1 | Inr n \<Rightarrow> n))"

definition check_length :: "string \<Rightarrow> unit res" where
  "check_length password =
     (if password = [] then Inl ValueError
      else if length password > MAX_PASSWORD then Inl ValueError else Inr ())"

definition set_password :: "crypto \<Rightarrow> draws \<Rightarrow> string \<Rightarrow> authst \<Rightarrow> unit res \<times> authst" where
  "set_password C w password st =
     (case check_length password of
        Inl e \<Rightarrow> (Inl e, st)
      | Inr u \<Rightarrow>
          (case derive C password (w_salt w) (default_kdf C) of
             Inl e \<Rightarrow> (Inl e, st)
           | Inr digest \<Rightarrow>
               (Inr (), st\<lparr>admin_file := Some (Parsed (JObj (default_kdf C
                  @ [(''salt'', JStr (hex_bytes (w_salt w))), (''hash'', JStr (hex_bytes digest)),
                     (''rev'', JInt (rev_of st + 1))])))\<rparr>)))"

definition clear_password :: "authst \<Rightarrow> authst" where
  "clear_password st = st\<lparr>admin_file := None\<rparr>"

definition hex_field :: "(string \<times> json) list \<Rightarrow> string \<Rightarrow> bytes res" where
  "hex_field rec k =
     (case map_of rec k of
        None \<Rightarrow> Inl KeyError
      | Some (JStr s) \<Rightarrow> fromhex s
      | Some _ \<Rightarrow> Inl TypeError)"

text \<open>ValueError, KeyError and TypeError while the stored record is used mean no match.\<close>

definition verify_password :: "crypto \<Rightarrow> string \<Rightarrow> authst \<Rightarrow> bool res" where
  "verify_password C password st =
     (case load_record st of
        None \<Rightarrow> Inr False
      | Some rec \<Rightarrow>
          if truthy (jget rec ''corrupt'') then Inr False
          else if length password > MAX_PASSWORD then Inr False
          else
            (case res_bind (hex_field rec ''salt'') (\<lambda>salt.
                  res_bind (hex_field rec ''hash'') (\<lambda>expected.
                  res_bind (derive C password salt rec) (\<lambda>got. Inr (got = expected)))) of
               Inl e \<Rightarrow> if e \<in> {ValueError, KeyError, TypeError} then Inr False else Inl e
             | Inr b \<Rightarrow> Inr b))"

section \<open>Sessions\<close>

definition session_secret :: "draws \<Rightarrow> authst \<Rightarrow> bytes \<times> authst" where
  "session_secret w st =
     (case session_file st of
        Some key \<Rightarrow>
          if 32 \<le> length key then (take 32 key, st) else (w_key w, st\<lparr>session_file := Some (w_key w)\<rparr>)
      | None \<Rightarrow> (w_key w, st\<lparr>session_file := Some (w_key w)\<rparr>))"

definition b64e :: "bytes \<Rightarrow> string" where
  "b64e raw = py_rstrip (\<lambda>c. c = CHR ''='') (urlsafe_b64encode raw)"

definition b64d :: "string \<Rightarrow> bytes option" where
  "b64d s = urlsafe_b64decode (s @ replicate (nat (- int (length s) mod 4)) (CHR ''=''))"

definition session_payload :: "int \<Rightarrow> string \<Rightarrow> int \<Rightarrow> bytes" where
  "session_payload expiry nonce rv = ascii_encode (dec_int expiry @ '':'' @ nonce @ '':'' @ dec_int rv)"

definition issue_session :: "crypto \<Rightarrow> draws \<Rightarrow> authst \<Rightarrow> string \<times> authst" where
  "issue_session C w st =
     (let expiry = py_int (w_time w) + SESSION_TTL;
          payload = session_payload expiry (hex_bytes (w_nonce w)) (rev_of st);
          (key, st') = session_secret w st
      in (b64e (payload @ hmac_sha256 C key payload), st'))"

text \<open>The three parts of a payload, and the test on them.\<close>

definition payload_fields :: "bytes \<Rightarrow> (int \<times> int) option" where
  "payload_fields payload =
     (case ascii_decode payload of
        None \<Rightarrow> None
      | Some t \<Rightarrow>
          (case split_by (\<lambda>c. c = CHR '':'') t of
             [exp_s, nonce, rev_s] \<Rightarrow>
               if nonce = [] then None
               else (case (int_of_str exp_s, int_of_str rev_s) of
                       (Some expiry, Some rv) \<Rightarrow> Some (expiry, rv)
                     | _ \<Rightarrow> None)
           | _ \<Rightarrow> None))"

definition session_ok :: "crypto \<Rightarrow> draws \<Rightarrow> request \<Rightarrow> authst \<Rightarrow> bool \<times> authst" where
  "session_ok C w rq st =
     (let token = str_or (rq_cookie rq) [] in
      if token = [] then (False, st)
      else case b64d token of
        None \<Rightarrow> (False, st)
      | Some raw \<Rightarrow>
          if length raw < 33 then (False, st)
          else
            let payload = take (length raw - 32) raw;
                mac = drop (length raw - 32) raw;
                (key, st') = session_secret w st
            in if mac \<noteq> hmac_sha256 C key payload then (False, st')
               else (case payload_fields payload of
                       None \<Rightarrow> (False, st')
                     | Some (expiry, rv) \<Rightarrow>
                         (\<not> expiry < py_int (w_time w) \<and> rv = rev_of st', st')))"

text \<open>The cookie of a response: its value and its \<open>secure\<close> attribute; None deletes it.\<close>

definition set_session_cookie :: "crypto \<Rightarrow> draws \<Rightarrow> request \<Rightarrow> authst \<Rightarrow> (string \<times> bool) option \<times> authst" where
  "set_session_cookie C w rq st =
     (let (token, st') = issue_session C w st in (Some (token, rq_https rq), st'))"

section \<open>Rate limits\<close>

definition client_ip :: "request \<Rightarrow> string" where
  "client_ip rq = str_or (rq_host rq) ''unknown''"

definition recent :: "time \<Rightarrow> time \<Rightarrow> time list option \<Rightarrow> time list" where
  "recent window now stamps = filter (\<lambda>t. now - t < window) (case stamps of None \<Rightarrow> [] | Some ts \<Rightarrow> ts)"

definition check_login_rate :: "draws \<Rightarrow> request \<Rightarrow> authst \<Rightarrow> unit http \<times> authst" where
  "check_login_rate w rq st =
     (let ip = client_ip rq;
          stamps = recent FAIL_WINDOW (w_mono w) (failures st ip);
          st' = st\<lparr>failures := (failures st)(ip \<mapsto> stamps)\<rparr>
      in (if FAIL_LIMIT \<le> length stamps then Inl 429 else Inr (), st'))"

definition record_login_failure :: "draws \<Rightarrow> request \<Rightarrow> authst \<Rightarrow> authst" where
  "record_login_failure w rq st =
     (let ip = client_ip rq in
      st\<lparr>failures := (failures st)(ip \<mapsto>
           (case failures st ip of None \<Rightarrow> [] | Some ts \<Rightarrow> ts) @ [w_mono w])\<rparr>)"

definition clear_login_failures :: "request \<Rightarrow> authst \<Rightarrow> authst" where
  "clear_login_failures rq st = st\<lparr>failures := (failures st)(client_ip rq := None)\<rparr>"

definition check_report_rate :: "draws \<Rightarrow> request \<Rightarrow> authst \<Rightarrow> unit http \<times> authst" where
  "check_report_rate w rq st =
     (let ip = client_ip rq;
          stamps = recent REPORT_WINDOW (w_mono w) (report_hits st ip)
      in if REPORT_LIMIT \<le> length stamps
         then (Inl 429, st\<lparr>report_hits := (report_hits st)(ip \<mapsto> stamps)\<rparr>)
         else (Inr (), st\<lparr>report_hits := (report_hits st)(ip \<mapsto> stamps @ [w_mono w])\<rparr>))"

section \<open>Who may do what\<close>

definition is_localhost :: "request \<Rightarrow> bool" where
  "is_localhost rq = (str_or (rq_host rq) [] \<in> {''127.0.0.1'', ''::1''})"

definition is_admin :: "crypto \<Rightarrow> draws \<Rightarrow> request \<Rightarrow> authst \<Rightarrow> bool \<times> authst" where
  "is_admin C w rq st =
     (if password_is_set st then session_ok C w rq st else (is_localhost rq, st))"

definition require_admin :: "crypto \<Rightarrow> draws \<Rightarrow> request \<Rightarrow> authst \<Rightarrow> unit http \<times> authst" where
  "require_admin C w rq st =
     (if password_is_set st then
        (case session_ok C w rq st of (ok, st') \<Rightarrow> (if ok then Inr () else Inl 401, st'))
      else (if is_localhost rq then Inr () else Inl 403, st))"

definition require_admin_read :: "crypto \<Rightarrow> draws \<Rightarrow> request \<Rightarrow> authst \<Rightarrow> unit http \<times> authst" where
  "require_admin_read C w rq st =
     (if password_is_set st then
        (case session_ok C w rq st of (ok, st') \<Rightarrow> (if ok then Inr () else Inl 401, st'))
      else (Inr (), st))"

definition auth_status :: "crypto \<Rightarrow> draws \<Rightarrow> request \<Rightarrow> authst \<Rightarrow> (bool \<times> bool) \<times> authst" where
  "auth_status C w rq st =
     (if password_is_set st
      then (case session_ok C w rq st of (ok, st') \<Rightarrow> ((True, ok), st'))
      else ((False, is_localhost rq), st))"

end
