(* ===== verification/Hosts.thy ===== *)
theory Hosts
  imports Auth
begin

text \<open>
  The class \<open>_Host\<close> of \<open>observer/classify.py\<close> and the table \<open>_hosts\<close>: per chat backend, when it
  may be asked again, how long it is paused after the next refusal and how far apart its chats are.
  Clock readings are arguments. An operation is one critical section, so the locks are implicit.
\<close>

definition BACKOFF_START :: time where "BACKOFF_START = 20"
definition CHAT_GAP_START :: time where "CHAT_GAP_START = 4"

record host =
  h_id :: string
  h_pause_until :: time
  h_backoff :: time
  h_chat_gap :: time
  h_last_chat :: time
  h_last_429 :: time
  h_avail_ts :: "time option"
  h_avail_ok :: bool
  h_probing :: bool
  h_model :: json

definition new_host :: "string \<Rightarrow> host" where
  "new_host pid = \<lparr>h_id = pid, h_pause_until = 0, h_backoff = BACKOFF_START, h_chat_gap = CHAT_GAP_START,
     h_last_chat = 0, h_last_429 = 0, h_avail_ts = None, h_avail_ok = False, h_probing = False,
     h_model = JNull\<rparr>"

definition is_paused :: "time \<Rightarrow> host \<Rightarrow> bool" where
  "is_paused now h \<longleftrightarrow> h_pause_until h \<noteq> 0 \<and> now < h_pause_until h"

definition pause :: "time \<Rightarrow> time \<Rightarrow> host \<Rightarrow> host" where
  "pause now seconds h =
     (let secs = max 20 (min seconds 300);
          until = now + secs
      in h\<lparr>h_pause_until := (if until > h_pause_until h then until else h_pause_until h),
           h_avail_ok := False, h_avail_ts := Some now\<rparr>)"

definition note_success :: "host \<Rightarrow> host" where
  "note_success h =
     (if h_chat_gap h > CHAT_GAP_START
      then h\<lparr>h_chat_gap := max CHAT_GAP_START (h_chat_gap h - 1 / 2)\<rparr> else h)"

text \<open>\<open>retry_after\<close> is the number of the response's \<open>Retry-After\<close> header, if it has one.\<close>

definition on_rate_limit :: "time \<Rightarrow> time option \<Rightarrow> host \<Rightarrow> host" where
  "on_rate_limit now retry_after h =
     (let h1 = (if h_last_429 h \<noteq> 0 \<and> now - h_last_429 h > 180 then h\<lparr>h_backoff := BACKOFF_START\<rparr> else h);
          wait = max (case retry_after of None \<Rightarrow> 0 | Some s \<Rightarrow> s) (h_backoff h1);
          h2 = pause now wait h1
      in h2\<lparr>h_backoff := min (h_backoff h2 * 2) 300,
            h_chat_gap := min (max (h_chat_gap h2) CHAT_GAP_START + 4) 16,
            h_last_429 := now\<rparr>)"

text \<open>How long \<open>pace\<close> sleeps; the chat is stamped with the clock after the sleep.\<close>

definition pace_wait :: "bool \<Rightarrow> time \<Rightarrow> host \<Rightarrow> time" where
  "pace_wait remote now h =
     (let gap = (if \<not> remote \<and> h_chat_gap h \<le> CHAT_GAP_START then 0 else h_chat_gap h)
      in if h_last_chat h > 0 \<and> gap > 0 then max 0 (gap - (now - h_last_chat h)) else 0)"

definition pace :: "bool \<Rightarrow> time \<Rightarrow> host \<Rightarrow> time \<times> host" where
  "pace remote now h =
     (let now' = now + pace_wait remote now h in (now', h\<lparr>h_last_chat := now'\<rparr>))"

definition ensure_host :: "string \<Rightarrow> (string \<rightharpoonup> host) \<Rightarrow> host \<times> (string \<rightharpoonup> host)" where
  "ensure_host pid hs =
     (case hs pid of Some h \<Rightarrow> (h, hs) | None \<Rightarrow> (new_host pid, hs(pid \<mapsto> new_host pid)))"

section \<open>The first half of a reachability probe\<close>

text \<open>
  \<open>_host_up\<close> up to the request: either a known answer, or None when this thread has to ask, having
  marked the host as being probed. \<open>probe_done\<close> is what follows the request.
\<close>

definition probe_start :: "time \<Rightarrow> host \<Rightarrow> bool option \<times> host" where
  "probe_start now h =
     (if h_pause_until h \<noteq> 0 \<and> now < h_pause_until h then (Some False, h)
      else
        let h1 = (if h_pause_until h \<noteq> 0 then h\<lparr>h_pause_until := 0, h_avail_ts := None\<rparr> else h);
            ttl = (if h_avail_ok h1 then 60 else 5)
        in if (case h_avail_ts h1 of None \<Rightarrow> False | Some ts \<Rightarrow> now - ts < ttl) then (Some (h_avail_ok h1), h1)
           else if h_probing h1 then (Some (h_avail_ok h1), h1)
           else (None, h1\<lparr>h_probing := True\<rparr>))"

definition probe_done :: "time \<Rightarrow> bool \<Rightarrow> host \<Rightarrow> host" where
  "probe_done now ok h = h\<lparr>h_avail_ok := ok, h_avail_ts := Some now, h_probing := False\<rparr>"

section \<open>Laws\<close>

text \<open>What every host keeps: its back-off and its gap stay in their ranges.\<close>

definition host_ok :: "host \<Rightarrow> bool" where
  "host_ok h \<longleftrightarrow> 20 \<le> h_backoff h \<and> h_backoff h \<le> 300 \<and> 4 \<le> h_chat_gap h \<and> h_chat_gap h \<le> 16"

named_theorems hosts

lemmas host_defs = host_ok_def new_host_def pause_def note_success_def on_rate_limit_def pace_def
  probe_start_def probe_done_def BACKOFF_START_def CHAT_GAP_START_def Let_def

lemma host_ok_new [hosts, simp]: "host_ok (new_host pid)"
  by (simp add: host_defs)

lemma host_ok_pause [hosts, simp]: "host_ok (pause now s h) = host_ok h"
  by (simp add: host_defs)

lemma host_ok_success [hosts]: "host_ok h \<Longrightarrow> host_ok (note_success h)"
  by (auto simp: host_defs max_def)

lemma host_ok_rate_limit [hosts]: "host_ok h \<Longrightarrow> host_ok (on_rate_limit now r h)"
  by (auto simp: host_defs max_def min_def split: option.splits)

lemma host_ok_pace [hosts]: "host_ok h \<Longrightarrow> host_ok (snd (pace remote now h))"
  by (simp add: host_defs)

lemma host_ok_probe [hosts]: "host_ok h \<Longrightarrow> host_ok (snd (probe_start now h))"
  "host_ok h \<Longrightarrow> host_ok (probe_done now ok h)"
  by (auto simp: host_defs split: option.splits)

text \<open>A pause begun now lasts between twenty seconds and five minutes, unless a longer one is running.\<close>

lemma pause_span:
  assumes "0 \<le> now"
  shows "is_paused t (pause now s h) \<longleftrightarrow> t < max (h_pause_until h) (now + max 20 (min s 300))"
  using assms by (auto simp: is_paused_def pause_def Let_def max_def min_def)

lemma rate_limit_pauses:
  assumes "host_ok h" "0 \<le> now" "t < now + h_backoff (on_rate_limit now r h) / 2"
  shows "is_paused t (on_rate_limit now r h)"
  using assms by (auto simp: is_paused_def host_defs max_def min_def split: option.splits if_splits)

text \<open>Two chats with a host that was used before are at least its gap apart.\<close>

lemma pace_gap:
  assumes "pace remote now h = (now', h')" "0 < h_last_chat h" "remote \<or> CHAT_GAP_START < h_chat_gap h"
    "0 < h_chat_gap h"
  shows "h_last_chat h' - h_last_chat h \<ge> h_chat_gap h \<and> now \<le> now' \<and> h_last_chat h' = now'"
  using assms by (auto simp: pace_def pace_wait_def Let_def)

end
