(* ===== verification/Llm.thy ===== *)
theory Llm
  imports Hosts "HOL-Library.AList"
begin

text \<open>
  \<open>observer/llm.py\<close>: the chat backends that may be used, kept in \<open>data/llm.json\<close> and cached. The
  record is the JSON object of the file, so a hand-edited file is covered; \<open>cfg\<close> is the section
  \<open>llm\<close> of the configuration. Saving replaces the file, the cache and the table of hosts. A write
  that fails is not modelled; the deep copy through JSON text is the identity on values.
\<close>

section \<open>Presets and state\<close>

record preset =
  ps_id :: string
  ps_name :: string
  ps_base_url :: string
  ps_model :: string
  ps_needs_key :: bool

definition PRESETS :: "preset list" where
  "PRESETS =
     [\<lparr>ps_id = ''lmstudio'', ps_name = ''Local'', ps_base_url = ''http://127.0.0.1:1234/v1'',
       ps_model = [], ps_needs_key = False\<rparr>,
      \<lparr>ps_id = ''academiccloud'', ps_name = ''Academic Cloud'',
       ps_base_url = ''https://chat-ai.academiccloud.de/v1'', ps_model = ''qwen3.6-35b-a3b'', ps_needs_key = True\<rparr>,
      \<lparr>ps_id = ''groq'', ps_name = ''Groq'', ps_base_url = ''https://api.groq.com/openai/v1'',
       ps_model = ''openai/gpt-oss-20b'', ps_needs_key = True\<rparr>,
      \<lparr>ps_id = ''cerebras'', ps_name = ''Cerebras'', ps_base_url = ''https://api.cerebras.ai/v1'',
       ps_model = ''gpt-oss-120b'', ps_needs_key = True\<rparr>]"

definition preset_of :: "string \<Rightarrow> preset option" where
  "preset_of pid = find (\<lambda>p. ps_id p = pid) PRESETS"

type_synonym obj = "(string \<times> json) list"

record chatst =
  llm_file :: "stored option"
  llm_cache :: "obj option"
  hosts :: "string \<rightharpoonup> host"

definition llm_reset :: "chatst \<Rightarrow> chatst" where
  "llm_reset st = st\<lparr>llm_cache := None\<rparr>"

text \<open>\<open>x or y\<close> on JSON values, and \<open>rstrip("/")\<close>, which only a string has.\<close>

definition jor :: "json \<Rightarrow> json \<Rightarrow> json" where
  "jor v d = (if truthy v then v else d)"

definition rstrip_slash :: "json \<Rightarrow> string res" where
  "rstrip_slash v =
     (case v of JStr s \<Rightarrow> Inr (py_rstrip (\<lambda>c. c = CHR ''/'') s) | _ \<Rightarrow> Inl AttributeError)"

definition preset_row :: "preset \<Rightarrow> obj" where
  "preset_row p = [(''name'', JStr (ps_name p)), (''base_url'', JStr (ps_base_url p)),
     (''model'', JStr (ps_model p)), (''api_key'', JStr [])]"

definition seed_from_config :: "obj \<Rightarrow> obj res" where
  "seed_from_config cfg =
     (let providers = map (\<lambda>p. (ps_id p, JObj (preset_row p))) PRESETS;
          model = jor (jget cfg ''model'') (JStr []);
          key = jor (jget cfg ''api_key'') (jor (jget cfg ''key'') (JStr []))
      in res_bind (rstrip_slash (jor (jget cfg ''base_url'') (JStr []))) (\<lambda>url.
           let row = preset_row (hd PRESETS);
               row = (if url \<noteq> [] then AList.update ''base_url'' (JStr url) row else row);
               row = (if truthy model then AList.update ''model'' model row else row);
               row = (if truthy key then AList.update ''api_key'' key row else row)
           in Inr [(''active'', JStr ''lmstudio''),
                   (''providers'', JObj (AList.update ''lmstudio'' (JObj row) providers))]))"

section \<open>Reading\<close>

definition providers_of :: "obj \<Rightarrow> obj" where
  "providers_of rec = (case jget rec ''providers'' of JObj kvs \<Rightarrow> kvs | _ \<Rightarrow> [])"

fun keep_known :: "obj \<Rightarrow> string list \<Rightarrow> string list \<Rightarrow> string list" where
  "keep_known providers [] out = out"
| "keep_known providers (pid # ids) out =
     keep_known providers ids
       (if pid \<in> fst ` set providers \<and> pid \<notin> set out then out @ [pid] else out)"

definition active_ids :: "obj \<Rightarrow> string list" where
  "active_ids rec =
     (let raw = jget rec ''active'';
          ids = (if raw = JNull \<or> raw = JStr [] then []
                 else case raw of
                   JList xs \<Rightarrow> filter (\<lambda>s. s \<noteq> []) (map (\<lambda>x. py_strip (py_str x)) xs)
                 | _ \<Rightarrow> filter (\<lambda>s. s \<noteq> []) [py_strip (py_str raw)])
      in keep_known (providers_of rec) ids [])"

definition load_llm :: "obj \<Rightarrow> chatst \<Rightarrow> obj res \<times> chatst" where
  "load_llm cfg st =
     (case llm_cache st of
        Some rec \<Rightarrow> (Inr rec, st)
      | None \<Rightarrow>
          (case (case llm_file st of
                   Some (Parsed (JObj rec)) \<Rightarrow> (case jget rec ''providers'' of JObj kvs \<Rightarrow> Some rec | _ \<Rightarrow> None)
                 | _ \<Rightarrow> None) of
             Some rec \<Rightarrow>
               (let rec' = (if active_ids rec = [] \<and> jget rec ''active'' \<notin> {JNull, JStr [], JList []}
                            then AList.update ''active'' (JList (if ''lmstudio'' \<in> fst ` set (providers_of rec)
                                                                then [JStr ''lmstudio''] else [])) rec
                            else rec)
                in (Inr rec', st\<lparr>llm_cache := Some rec'\<rparr>))
           | None \<Rightarrow>
               (case seed_from_config cfg of
                  Inl e \<Rightarrow> (Inl e, st)
                | Inr rec \<Rightarrow> (Inr rec, st\<lparr>llm_cache := Some rec\<rparr>))))"

text \<open>A backend as the rest of the program sees it.\<close>

record provider =
  pv_id :: string
  pv_name :: json
  pv_base_url :: string
  pv_model :: json
  pv_api_key :: json
  pv_needs_key :: bool

definition row_of :: "obj \<Rightarrow> string \<Rightarrow> obj res" where
  "row_of rec pid =
     (case jor (jget (providers_of rec) pid) (JObj []) of JObj row \<Rightarrow> Inr row | _ \<Rightarrow> Inl AttributeError)"

definition preset_or_default :: "string \<Rightarrow> preset" where
  "preset_or_default pid =
     (case preset_of pid of
        Some p \<Rightarrow> p
      | None \<Rightarrow> \<lparr>ps_id = pid, ps_name = pid, ps_base_url = [], ps_model = [], ps_needs_key = True\<rparr>)"

definition provider_row :: "obj \<Rightarrow> string \<Rightarrow> provider res" where
  "provider_row rec pid =
     (let preset = preset_or_default pid in
      res_bind (row_of rec pid) (\<lambda>row.
      res_bind (rstrip_slash (jor (jget row ''base_url'') (JStr (ps_base_url preset)))) (\<lambda>url.
        Inr \<lparr>pv_id = pid, pv_name = jor (jget row ''name'') (JStr (ps_name preset)), pv_base_url = url,
             pv_model = jor (jget row ''model'') (JStr (ps_model preset)),
             pv_api_key = jor (jget row ''api_key'') (JStr []), pv_needs_key = ps_needs_key preset\<rparr>)))"

fun res_mapM :: "('a \<Rightarrow> 'b res) \<Rightarrow> 'a list \<Rightarrow> 'b list res" where
  "res_mapM f [] = Inr []"
| "res_mapM f (x # xs) = res_bind (f x) (\<lambda>y. res_bind (res_mapM f xs) (\<lambda>ys. Inr (y # ys)))"

definition enabled_of :: "obj \<Rightarrow> provider list res" where
  "enabled_of rec = res_mapM (provider_row rec) (active_ids rec)"

definition enabled :: "obj \<Rightarrow> chatst \<Rightarrow> provider list res \<times> chatst" where
  "enabled cfg st =
     (case load_llm cfg st of (Inl e, st') \<Rightarrow> (Inl e, st') | (Inr rec, st') \<Rightarrow> (enabled_of rec, st'))"

definition no_provider :: provider where
  "no_provider = \<lparr>pv_id = [], pv_name = JStr [], pv_base_url = [], pv_model = JStr [], pv_api_key = JStr [],
     pv_needs_key = False\<rparr>"

section \<open>What the web interface is shown\<close>

text \<open>\<open>sep.join(values)\<close>: an element that is not a string raises TypeError.\<close>

definition join_json :: "string \<Rightarrow> json list \<Rightarrow> string res" where
  "join_json sep vs =
     res_bind (res_mapM (\<lambda>v. case v of JStr s \<Rightarrow> Inr s | _ \<Rightarrow> Inl TypeError) vs) (\<lambda>ss. Inr (py_join sep ss))"

definition local_model :: "obj \<Rightarrow> string" where
  "local_model cfg = py_strip (py_str (jor (jget cfg ''model'') (JStr [])))"

definition public_preset :: "obj \<Rightarrow> obj \<Rightarrow> string list \<Rightarrow> preset \<Rightarrow> json res" where
  "public_preset cfg rec ids p =
     res_bind (row_of rec (ps_id p)) (\<lambda>row.
     res_bind (rstrip_slash (jor (jget row ''base_url'') (JStr (ps_base_url p)))) (\<lambda>url.
       Inr (JObj [(''id'', JStr (ps_id p)), (''name'', JStr (ps_name p)), (''base_url'', JStr url),
         (''model'', jor (jget row ''model'') (JStr (ps_model p))),
         (''default_base_url'', JStr (py_rstrip (\<lambda>c. c = CHR ''/'') (ps_base_url p))),
         (''default_model'', JStr (if ps_model p \<noteq> [] then ps_model p
                                  else if ps_id p = ''lmstudio'' then local_model cfg else [])),
         (''has_key'', JBool (truthy (jget row ''api_key''))),
         (''needs_key'', JBool (ps_needs_key p)), (''in_use'', JBool (ps_id p \<in> set ids))])))"

text \<open>Here a row is used as it is: an empty or missing value that is not an object raises, too.\<close>

definition public_other :: "string list \<Rightarrow> string \<times> json \<Rightarrow> json res" where
  "public_other ids kv =
     (case snd kv of
        JObj row \<Rightarrow>
          res_bind (rstrip_slash (jor (jget row ''base_url'') (JStr []))) (\<lambda>url.
            Inr (JObj [(''id'', JStr (fst kv)), (''name'', jor (jget row ''name'') (JStr (fst kv))),
              (''base_url'', JStr url), (''model'', jor (jget row ''model'') (JStr [])),
              (''has_key'', JBool (truthy (jget row ''api_key''))), (''needs_key'', JBool True),
              (''in_use'', JBool (fst kv \<in> set ids))]))
      | _ \<Rightarrow> Inl AttributeError)"

definition public_of :: "obj \<Rightarrow> obj \<Rightarrow> obj res" where
  "public_of cfg rec =
     res_bind (enabled_of rec) (\<lambda>rows.
       let ids = map pv_id rows;
           cur = (case rows of [] \<Rightarrow> no_provider | r # rs \<Rightarrow> r)
       in res_bind (res_mapM (public_preset cfg rec ids) PRESETS) (\<lambda>known.
          res_bind (res_mapM (public_other ids)
              (filter (\<lambda>kv. preset_of (fst kv) = None) (providers_of rec))) (\<lambda>others.
          res_bind (join_json '', '' (map pv_name rows)) (\<lambda>names.
          res_bind (join_json [CHR '' '', char_of (183 :: nat), CHR '' '']
              (filter truthy (map pv_model rows))) (\<lambda>models.
            Inr [(''active'', JStr (pv_id cur)), (''active_ids'', JList (map JStr ids)),
              (''name'', JStr names), (''model'', JStr models), (''base_url'', JStr (pv_base_url cur)),
              (''enabled'', JBool (ids \<noteq> [])), (''providers'', JList (known @ others))])))))"

definition public :: "obj \<Rightarrow> chatst \<Rightarrow> obj res \<times> chatst" where
  "public cfg st =
     (case load_llm cfg st of (Inl e, st') \<Rightarrow> (Inl e, st') | (Inr rec, st') \<Rightarrow> (public_of cfg rec, st'))"

section \<open>Changing\<close>

definition save_llm :: "obj \<Rightarrow> chatst \<Rightarrow> chatst" where
  "save_llm rec st = st\<lparr>llm_file := Some (Parsed (JObj rec)), llm_cache := Some rec, hosts := Map.empty\<rparr>"

definition validate_id :: "string \<Rightarrow> string res" where
  "validate_id v = (let s = py_lower (py_strip v) in if club_id_ok s then Inr s else Inl ValueError)"

definition clean_url :: "string \<Rightarrow> string res" where
  "clean_url v =
     (let url = py_rstrip (\<lambda>c. c = CHR ''/'') (py_strip v) in
      if url = [] then Inl ValueError
      else if \<not> (py_startswith url ''http://'' \<or> py_startswith url ''https://'') then Inl ValueError
      else Inr url)"

text \<open>The three changes: on the record, then saved and shown.\<close>

definition with_record :: "obj \<Rightarrow> (obj \<Rightarrow> obj res) \<Rightarrow> chatst \<Rightarrow> obj res \<times> chatst" where
  "with_record cfg f st =
     (case load_llm cfg st of
        (Inl e, st') \<Rightarrow> (Inl e, st')
      | (Inr rec, st') \<Rightarrow>
          (case f rec of Inl e \<Rightarrow> (Inl e, st') | Inr rec' \<Rightarrow> public cfg (save_llm rec' st')))"

definition set_active_of :: "string \<Rightarrow> obj \<Rightarrow> obj res" where
  "set_active_of provider_id rec =
     (if py_strip provider_id = [] then Inr (AList.update ''active'' (JList []) rec)
      else res_bind (validate_id provider_id) (\<lambda>pid.
        res_bind
          (if pid \<in> fst ` set (providers_of rec) then Inr rec
           else case preset_of pid of
             None \<Rightarrow> Inl ValueError
           | Some p \<Rightarrow> Inr (AList.update ''providers''
                (JObj (AList.update pid (JObj (preset_row p)) (providers_of rec))) rec)) (\<lambda>rec1.
        Inr (AList.update ''active'' (JList [JStr pid]) rec1))))"

definition disable_of :: "string \<Rightarrow> obj \<Rightarrow> obj res" where
  "disable_of provider_id rec =
     (if py_strip provider_id = [] then Inr (AList.update ''active'' (JList []) rec)
      else res_bind (validate_id provider_id) (\<lambda>pid.
        Inr (AList.update ''active'' (JList (map JStr (filter (\<lambda>i. i \<noteq> pid) (active_ids rec)))) rec)))"

definition default_row :: "string \<Rightarrow> obj" where
  "default_row pid =
     (case preset_of pid of
        Some p \<Rightarrow> [(''name'', JStr (if ps_name p = [] then pid else ps_name p)),
          (''base_url'', JStr (ps_base_url p)), (''model'', JStr (ps_model p)), (''api_key'', JStr [])]
      | None \<Rightarrow> [(''name'', JStr pid), (''base_url'', JStr []), (''model'', JStr []), (''api_key'', JStr [])])"

text \<open>A row that is not an object fails at its first assignment.\<close>

definition edit_row :: "string \<Rightarrow> string \<Rightarrow> string \<Rightarrow> string \<Rightarrow> json \<Rightarrow> json res" where
  "edit_row name base_url model api_key row0 =
     (case row0 of
        JObj row \<Rightarrow>
          (let row = (if name \<noteq> [] then AList.update ''name'' (JStr (take 64 (py_strip name))) row else row) in
           res_bind (if base_url \<noteq> []
                     then res_bind (clean_url base_url) (\<lambda>u. Inr (AList.update ''base_url'' (JStr u) row))
                     else Inr row) (\<lambda>row.
           let row = (if model \<noteq> [] then AList.update ''model'' (JStr (take 128 (py_strip model))) row else row) in
           if api_key \<noteq> [] then
             (if length api_key > 512 then Inl ValueError
              else Inr (JObj (AList.update ''api_key'' (JStr api_key) row)))
           else Inr (JObj row)))
      | _ \<Rightarrow> if name = [] \<and> base_url = [] \<and> model = [] \<and> api_key = [] then Inr row0 else
              if name = [] \<and> base_url \<noteq> [] then res_bind (clean_url base_url) (\<lambda>u. Inl TypeError)
              else if name = [] \<and> model = [] \<and> length api_key > 512 then Inl ValueError
              else Inl TypeError)"

definition save_provider_of :: "string \<Rightarrow> string \<Rightarrow> string \<Rightarrow> string \<Rightarrow> string \<Rightarrow> obj \<Rightarrow> obj res" where
  "save_provider_of provider_id name base_url model api_key rec =
     res_bind (validate_id provider_id) (\<lambda>pid.
     res_bind (edit_row name base_url model api_key
                 (jor (jget (providers_of rec) pid) (JObj (default_row pid)))) (\<lambda>row.
       let rec1 = AList.update ''providers'' (JObj (AList.update pid row (providers_of rec))) rec;
           ids = active_ids rec1;
           ids = (if pid \<notin> set ids then ids @ [pid] else ids)
       in Inr (AList.update ''active'' (JList (map JStr ids)) rec1)))"

definition set_active :: "obj \<Rightarrow> string \<Rightarrow> chatst \<Rightarrow> obj res \<times> chatst" where
  "set_active cfg provider_id st = with_record cfg (set_active_of provider_id) st"

definition disable :: "obj \<Rightarrow> string \<Rightarrow> chatst \<Rightarrow> obj res \<times> chatst" where
  "disable cfg provider_id st = with_record cfg (disable_of provider_id) st"

definition save_provider :: "obj \<Rightarrow> string \<Rightarrow> string \<Rightarrow> string \<Rightarrow> string \<Rightarrow> string \<Rightarrow> chatst \<Rightarrow> obj res \<times> chatst" where
  "save_provider cfg provider_id name base_url model api_key st =
     (case validate_id provider_id of
        Inl e \<Rightarrow> (Inl e, st)
      | Inr pid \<Rightarrow> with_record cfg (save_provider_of provider_id name base_url model api_key) st)"

section \<open>Laws\<close>

lemma keep_known_props:
  "set (keep_known ps ids out) = set out \<union> (set ids \<inter> fst ` set ps)"
  "distinct out \<Longrightarrow> distinct (keep_known ps ids out)"
  by (induction ids arbitrary: out) auto

lemma keep_known_id: "distinct (out @ ids) \<Longrightarrow> set ids \<subseteq> fst ` set ps \<Longrightarrow> keep_known ps ids out = out @ ids"
  by (induction ids arbitrary: out) auto

text \<open>The ids in use are distinct, known, not empty, and without surrounding white space.\<close>

lemma active_ids_props:
  "distinct (active_ids rec)" "set (active_ids rec) \<subseteq> fst ` set (providers_of rec)"
  "pid \<in> set (active_ids rec) \<Longrightarrow> pid \<noteq> [] \<and> py_strip pid = pid"
  by (auto simp: active_ids_def Let_def keep_known_props split: json.splits if_splits)

lemma jget_alist_update: "jget (AList.update k v rec) k' = (if k' = k then v else jget rec k')"
  by (simp add: jget_def update_conv)

lemma providers_of_update:
  "providers_of (AList.update ''active'' v rec) = providers_of rec"
  "providers_of (AList.update ''providers'' (JObj kvs) rec) = kvs"
  by (simp_all add: providers_of_def jget_alist_update)

text \<open>Writing a list of good ids as the active ones makes exactly these active.\<close>

lemma active_ids_written:
  assumes "distinct ids" "set ids \<subseteq> fst ` set (providers_of rec)"
    and "\<And>i. i \<in> set ids \<Longrightarrow> i \<noteq> [] \<and> py_strip i = i"
  shows "active_ids (AList.update ''active'' (JList (map JStr ids)) rec) = ids"
proof -
  have "filter (\<lambda>s. s \<noteq> []) (map (\<lambda>x. py_strip (py_str x)) (map JStr ids)) = ids"
    using assms(3) by (induction ids) (auto simp: py_str_def)
  then show ?thesis
    using assms(1,2) by (simp add: active_ids_def jget_alist_update providers_of_update keep_known_id Let_def)
qed

lemma slug_not_space: "slug_char c \<Longrightarrow> \<not> py_isspace c"
  by (auto simp: slug_char_def py_isspace_def Let_def)

lemma validate_id_ok: "validate_id v = Inr pid \<Longrightarrow> pid \<noteq> [] \<and> py_strip pid = pid \<and> club_id_ok pid"
  by (auto simp: validate_id_def Let_def club_id_ok_def slug_not_space intro!: py_strip_trimmed split: if_splits)

lemma keys_update: "fst ` set (AList.update k v kvs) = insert k (fst ` set kvs)"
  by (induction kvs) auto

lemma keep_known_extended:
  assumes "fst ` set ps' = insert p (fst ` set ps)" "filter (\<lambda>i. i \<noteq> p) out' = filter (\<lambda>i. i \<noteq> p) out"
  shows "filter (\<lambda>i. i \<noteq> p) (keep_known ps' ids out') = filter (\<lambda>i. i \<noteq> p) (keep_known ps ids out)"
  using assms(2)
proof (induction ids arbitrary: out out')
  case (Cons i ids)
  have "i \<noteq> p \<Longrightarrow> i \<in> set out' \<longleftrightarrow> i \<in> set out"
    using arg_cong [OF Cons.prems, of set] by auto
  with Cons.prems assms(1) show ?case
    unfolding keep_known.simps by (intro Cons.IH) auto
qed simp

lemma active_ids_extended:
  assumes "fst ` set kvs = insert p (fst ` set (providers_of rec))"
  shows "filter (\<lambda>i. i \<noteq> p) (active_ids (AList.update ''providers'' (JObj kvs) rec)) = filter (\<lambda>i. i \<noteq> p) (active_ids rec)"
  unfolding active_ids_def Let_def providers_of_update jget_alist_update
  by (simp add: keep_known_extended [OF assms])

text \<open>What a successful change leaves active.\<close>

lemma set_active_effect:
  "set_active_of v rec = Inr rec' \<Longrightarrow> py_strip v \<noteq> [] \<Longrightarrow> \<exists>pid. validate_id v = Inr pid \<and> active_ids rec' = [pid]"
  using active_ids_written [of "[the (case validate_id v of Inr pid \<Rightarrow> Some pid | _ \<Rightarrow> None)]"] validate_id_ok [of v]
  by (fastforce simp: set_active_of_def res_bind_def providers_of_update keys_update
      split: sum.splits if_splits option.splits)

lemma set_active_none: "set_active_of v rec = Inr rec' \<Longrightarrow> py_strip v = [] \<Longrightarrow> active_ids rec' = []"
  by (auto simp: set_active_of_def active_ids_def jget_alist_update Let_def)

lemma disable_effect:
  assumes "disable_of v rec = Inr rec'" "validate_id v = Inr pid" "py_strip v \<noteq> []"
  shows "active_ids rec' = filter (\<lambda>i. i \<noteq> pid) (active_ids rec)"
proof -
  have "rec' = AList.update ''active'' (JList (map JStr (filter (\<lambda>i. i \<noteq> pid) (active_ids rec)))) rec"
    using assms by (auto simp: disable_of_def res_bind_def)
  then show ?thesis
    by (auto intro!: active_ids_written simp: active_ids_props(1) dest: active_ids_props(3) set_mp [OF active_ids_props(2)])
qed

lemma save_provider_record:
  assumes "save_provider_of v name base_url model api_key rec = Inr rec'" "validate_id v = Inr pid"
  obtains row ids where "edit_row name base_url model api_key (jor (jget (providers_of rec) pid) (JObj (default_row pid))) = Inr row"
    "rec' = AList.update ''active'' (JList (map JStr ids)) (AList.update ''providers''
        (JObj (AList.update pid row (providers_of rec))) rec)"
    "active_ids rec' = ids" "providers_of rec' = AList.update pid row (providers_of rec)"
    "filter (\<lambda>i. i \<noteq> pid) ids = filter (\<lambda>i. i \<noteq> pid) (active_ids rec)" "pid \<in> set ids"
proof -
  obtain row where row: "edit_row name base_url model api_key
      (jor (jget (providers_of rec) pid) (JObj (default_row pid))) = Inr row"
    using assms by (auto simp: save_provider_of_def res_bind_def split: sum.splits)
  let ?rec1 = "AList.update ''providers'' (JObj (AList.update pid row (providers_of rec))) rec"
  let ?ids = "if pid \<notin> set (active_ids ?rec1) then active_ids ?rec1 @ [pid] else active_ids ?rec1"
  have rec': "rec' = AList.update ''active'' (JList (map JStr ?ids)) ?rec1"
    using assms row by (simp add: save_provider_of_def res_bind_def Let_def)
  have "active_ids rec' = ?ids"
    unfolding rec' using validate_id_ok [OF assms(2)] set_mp [OF active_ids_props(2) [of ?rec1]]
    by (intro active_ids_written)
      (auto simp: providers_of_update keys_update active_ids_props(1) dest: active_ids_props(3) split: if_splits)
  moreover have "filter (\<lambda>i. i \<noteq> pid) ?ids = filter (\<lambda>i. i \<noteq> pid) (active_ids rec)"
    using active_ids_extended [of "AList.update pid row (providers_of rec)" pid rec] by (simp add: keys_update)
  ultimately show thesis
    using that [OF row rec'] rec' by (auto simp: providers_of_update)
qed

lemma row_of_other: "providers_of rec' = AList.update pid row (providers_of rec) \<Longrightarrow> q \<noteq> pid \<Longrightarrow> provider_row rec' q = provider_row rec q"
  by (simp add: provider_row_def row_of_def jget_alist_update)

lemma rstrip_idem: "py_rstrip P (py_rstrip P s) = py_rstrip P s"
  by (simp add: py_rstrip_def)

lemma clean_url_props: "clean_url v = Inr u \<Longrightarrow> u \<noteq> [] \<and> py_rstrip (\<lambda>c. c = CHR ''/'') u = u
    \<and> (py_startswith u ''http://'' \<or> py_startswith u ''https://'')"
  by (auto simp: clean_url_def Let_def rstrip_idem split: if_splits)

lemma edit_row_url:
  assumes "edit_row name base_url model api_key row0 = Inr row" "base_url \<noteq> []"
  shows "\<exists>u r. clean_url base_url = Inr u \<and> row = JObj r \<and> jget r ''base_url'' = JStr u"
  using assms by (cases row0)
    (auto simp: edit_row_def res_bind_def Let_def jget_alist_update split: sum.splits if_splits)

text \<open>
  Saving a backend puts it into use, keeps the others in use in their order and their settings, and
  an address it is given is an http(s) address.
\<close>

theorem save_provider_effect:
  assumes "save_provider_of v name base_url model api_key rec = Inr rec'" "validate_id v = Inr pid"
  shows "pid \<in> set (active_ids rec')
    \<and> filter (\<lambda>i. i \<noteq> pid) (active_ids rec') = filter (\<lambda>i. i \<noteq> pid) (active_ids rec)
    \<and> (\<forall>q. q \<noteq> pid \<longrightarrow> provider_row rec' q = provider_row rec q)
    \<and> (base_url \<noteq> [] \<longrightarrow> (\<exists>p. provider_row rec' pid = Inr p \<and> clean_url base_url = Inr (pv_base_url p)
          \<and> (py_startswith (pv_base_url p) ''http://'' \<or> py_startswith (pv_base_url p) ''https://'')))"
  using assms
proof (rule save_provider_record)
  fix row ids
  assume row: "edit_row name base_url model api_key (jor (jget (providers_of rec) pid) (JObj (default_row pid))) = Inr row"
    and p: "providers_of rec' = AList.update pid row (providers_of rec)"
    and ids: "active_ids rec' = ids" "filter (\<lambda>i. i \<noteq> pid) ids = filter (\<lambda>i. i \<noteq> pid) (active_ids rec)" "pid \<in> set ids"
  have "\<exists>p. provider_row rec' pid = Inr p \<and> clean_url base_url = Inr (pv_base_url p)
      \<and> (py_startswith (pv_base_url p) ''http://'' \<or> py_startswith (pv_base_url p) ''https://'')" if "base_url \<noteq> []"
  proof -
    note url = edit_row_url [OF row that]
    then obtain u r where u: "clean_url base_url = Inr u" "row = JObj r" "jget r ''base_url'' = JStr u" by blast
    then have "r \<noteq> []" by (auto simp: jget_def)
    with u p clean_url_props [OF u(1)] show ?thesis
      by (auto simp: provider_row_def row_of_def jget_alist_update jor_def rstrip_slash_def res_bind_def Let_def)
  qed
  with ids row_of_other [OF p] show ?thesis by auto
qed

subsection \<open>Keys stay inside\<close>

text \<open>A record with every API key replaced by whether there is one.\<close>

definition mask_members :: "obj \<Rightarrow> obj" where
  "mask_members row = map (\<lambda>(k, x). (k, if k = ''api_key'' then JBool (truthy x) else x)) row"

definition mask_row :: "json \<Rightarrow> json" where
  "mask_row v =
     (case v of
        JObj row \<Rightarrow> JObj (mask_members row)
      | _ \<Rightarrow> v)"

definition mask_keys :: "obj \<Rightarrow> obj" where
  "mask_keys rec =
     map (\<lambda>(k, x). (k, if k = ''providers''
            then (case x of JObj kvs \<Rightarrow> JObj (map (\<lambda>(pid, row). (pid, mask_row row)) kvs) | _ \<Rightarrow> x)
            else x)) rec"

lemma jget_map: "jget (map (\<lambda>(k, x). (k, f k x)) kvs) k = (if k \<in> fst ` set kvs then f k (jget kvs k) else JNull)"
  by (induction kvs) (auto simp: jget_def)

lemma fst_map_snd: "fst ` set (map (\<lambda>(k, x). (k, f k x)) kvs) = fst ` set kvs"
  by (induction kvs) auto

lemma jget_map_snd: "f JNull = JNull \<Longrightarrow> jget (map (\<lambda>(k, x). (k, f x)) kvs) k = f (jget kvs k)"
  by (induction kvs) (auto simp: jget_def)

lemma jget_absent: "k \<notin> fst ` set kvs \<Longrightarrow> jget kvs k = JNull"
  by (induction kvs) (auto simp: jget_def)

lemma jget_mask_row:
  "k \<noteq> ''api_key'' \<Longrightarrow> jget (mask_members row) k = jget row k"
  "truthy (jget (mask_members row) ''api_key'')
     = truthy (jget row ''api_key'')"
  unfolding mask_members_def jget_map [where f = "\<lambda>k x. if k = ''api_key'' then JBool (truthy x) else x"]
  by (simp_all add: jget_absent)

lemma jget_masked:
  "jget (mask_members row) ''name'' = jget row ''name''"
  "jget (mask_members row) ''base_url'' = jget row ''base_url''"
  "jget (mask_members row) ''model'' = jget row ''model''"
  "truthy (jget (mask_members row) ''api_key'') = truthy (jget row ''api_key'')"
  by (rule jget_mask_row, simp)+ (rule jget_mask_row)

definition mask_providers :: "json \<Rightarrow> json" where
  "mask_providers x =
     (case x of JObj kvs \<Rightarrow> JObj (map (\<lambda>(pid, row). (pid, mask_row row)) kvs) | _ \<Rightarrow> x)"

lemma mask_keys_alt: "mask_keys rec = map (\<lambda>(k, x). (k, if k = ''providers'' then mask_providers x else x)) rec"
  by (auto simp: mask_keys_def mask_providers_def)

lemma mask_providers_Null [simp]: "mask_providers JNull = JNull"
  by (simp add: mask_providers_def)

lemma jget_mask_keys: "jget (mask_keys rec) k = (if k = ''providers'' then mask_providers (jget rec k) else jget rec k)"
  unfolding mask_keys_alt jget_map [where f = "\<lambda>k x. if k = ''providers'' then mask_providers x else x"]
  by (simp add: jget_absent)

lemma providers_mask: "providers_of (mask_keys rec) = map (\<lambda>(pid, row). (pid, mask_row row)) (providers_of rec)"
  by (cases "jget rec ''providers''") (simp_all add: providers_of_def jget_mask_keys mask_providers_def)

lemma active_ids_mask: "active_ids (mask_keys rec) = active_ids rec"
proof -
  have "keep_known (map (\<lambda>(pid, row). (pid, mask_row row)) ps) ids out = keep_known ps ids out" for ps ids out
    by (induction ids arbitrary: out) (simp_all only: keep_known.simps fst_map_snd [where f = "\<lambda>k. mask_row"])
  then show ?thesis by (simp add: active_ids_def jget_mask_keys providers_mask)
qed

lemma truthy_mask_row [simp]: "truthy (mask_row v) = truthy v"
  by (cases v) (auto simp: mask_row_def mask_members_def)

lemma row_of_mask:
  "row_of (mask_keys rec) pid = map_sum (\<lambda>e. e) mask_members (row_of rec pid)"
proof -
  have "jget (providers_of (mask_keys rec)) pid = mask_row (jget (providers_of rec) pid)"
    unfolding providers_mask by (rule jget_map_snd) (simp add: mask_row_def)
  then show ?thesis
    by (cases "jget (providers_of rec) pid") (auto simp: row_of_def jor_def mask_row_def mask_members_def)
qed

definition shown :: "provider \<Rightarrow> string \<times> json \<times> string \<times> json" where
  "shown p = (pv_id p, pv_name p, pv_base_url p, pv_model p)"

lemma provider_row_mask: "map_sum (\<lambda>e. e) shown (provider_row (mask_keys rec) pid) = map_sum (\<lambda>e. e) shown (provider_row rec pid)"
  by (cases "row_of rec pid")
    (auto simp: provider_row_def row_of_mask res_bind_def jget_mask_row shown_def Let_def split: sum.splits)

lemma res_mapM_cong: "(\<And>x. x \<in> set xs \<Longrightarrow> map_sum (\<lambda>e. e) h (f x) = map_sum (\<lambda>e. e) h (g x)) \<Longrightarrow>
    map_sum (\<lambda>e. e) (map h) (res_mapM f xs) = map_sum (\<lambda>e. e) (map h) (res_mapM g xs)"
proof (induction xs)
  case (Cons x xs)
  have "map_sum (\<lambda>e. e) h (f x) = map_sum (\<lambda>e. e) h (g x)" by (rule Cons.prems) simp
  moreover have "map_sum (\<lambda>e. e) (map h) (res_mapM f xs) = map_sum (\<lambda>e. e) (map h) (res_mapM g xs)"
    by (rule Cons.IH) (simp add: Cons.prems)
  moreover have "map_sum (\<lambda>e. e) (map h) (res_bind a (\<lambda>y. res_bind as (\<lambda>ys. Inr (y # ys))))
      = res_bind (map_sum (\<lambda>e. e) h a) (\<lambda>y. res_bind (map_sum (\<lambda>e. e) (map h) as) (\<lambda>ys. Inr (y # ys)))" for a as
    by (cases a; cases as) (auto simp: res_bind_def)
  ultimately show ?case by simp
qed simp

lemma enabled_mask: "map_sum (\<lambda>e. e) (map shown) (enabled_of (mask_keys rec)) = map_sum (\<lambda>e. e) (map shown) (enabled_of rec)"
  unfolding enabled_of_def active_ids_mask by (rule res_mapM_cong) (rule provider_row_mask)

lemma public_preset_mask: "public_preset cfg (mask_keys rec) ids p = public_preset cfg rec ids p"
  unfolding public_preset_def row_of_mask
  by (cases "row_of rec (ps_id p)") (simp_all only: res_bind_def map_sum.simps sum.case jget_masked)

lemma public_other_mask: "public_other ids (k, mask_row v) = public_other ids (k, v)"
  by (cases v) (simp_all only: public_other_def mask_row_def snd_conv fst_conv json.case jget_masked)

lemma others_mask: "res_mapM (public_other ids) (filter (\<lambda>kv. P (fst kv)) (providers_of (mask_keys rec)))
    = res_mapM (public_other ids) (filter (\<lambda>kv. P (fst kv)) (providers_of rec))"
proof -
  have "res_mapM (public_other ids) (filter (\<lambda>kv. P (fst kv)) (map (\<lambda>(pid, row). (pid, mask_row row)) kvs))
      = res_mapM (public_other ids) (filter (\<lambda>kv. P (fst kv)) kvs)" for kvs
    by (induction kvs) (auto simp: public_other_mask)
  then show ?thesis by (simp add: providers_mask)
qed

text \<open>
  The settings page learns of an API key at most whether there is one: replacing every key by that
  bit changes nothing of what it is sent.
\<close>

theorem public_hides_keys: "public_of cfg (mask_keys rec) = public_of cfg rec"
proof (cases "enabled_of rec")
  case (Inl e)
  with enabled_mask [of rec] have "enabled_of (mask_keys rec) = Inl e" by (cases "enabled_of (mask_keys rec)") auto
  with Inl show ?thesis by (simp add: public_of_def res_bind_def)
next
  case (Inr rows)
  with enabled_mask [of rec] obtain rows' where rows': "enabled_of (mask_keys rec) = Inr rows'" "map shown rows' = map shown rows"
    by (cases "enabled_of (mask_keys rec)") auto
  have eqs: "map pv_id rows' = map pv_id rows" "map pv_name rows' = map pv_name rows" "map pv_model rows' = map pv_model rows"
    "pv_id (case rows' of [] \<Rightarrow> no_provider | r # rs \<Rightarrow> r) = pv_id (case rows of [] \<Rightarrow> no_provider | r # rs \<Rightarrow> r)"
    "pv_base_url (case rows' of [] \<Rightarrow> no_provider | r # rs \<Rightarrow> r) = pv_base_url (case rows of [] \<Rightarrow> no_provider | r # rs \<Rightarrow> r)"
    using rows'(2) by (induction rows' rows rule: list_induct2', auto simp: shown_def)
  show ?thesis
    unfolding public_of_def rows' Inr res_bind_def sum.case Let_def eqs public_preset_mask [abs_def]
      others_mask [where P = "\<lambda>k. preset_of k = None"] by (rule refl)
qed

definition ex_llm_record :: obj where
  "ex_llm_record = [(''active'', JStr ''lmstudio''),
     (''providers'', JObj [(''lmstudio'', JObj [(''name'', JStr ''Local''), (''api_key'', JStr ''k'')])])]"

theorem save_provider_effect_witness:
  "''groq'' \<in> set (active_ids (case save_provider_of ''Groq'' [] ''https://x.y/'' [] [] ex_llm_record of Inr r \<Rightarrow> r | Inl e \<Rightarrow> []))"
proof -
  obtain rec' where r: "save_provider_of ''Groq'' [] ''https://x.y/'' [] [] ex_llm_record = Inr rec'"
    and v: "validate_id ''Groq'' = Inr ''groq''"
  proof -
    have "(case save_provider_of ''Groq'' [] ''https://x.y/'' [] [] ex_llm_record of Inr r \<Rightarrow> True | Inl e \<Rightarrow> False)"
      by code_simp
    moreover have "validate_id ''Groq'' = Inr ''groq''" by code_simp
    ultimately show thesis using that
      by (cases "save_provider_of ''Groq'' [] ''https://x.y/'' [] [] ex_llm_record") auto
  qed
  from save_provider_effect [OF r v] r show ?thesis by simp
qed

subsection \<open>The cache and the file\<close>

text \<open>A record that loading leaves as it is.\<close>

definition stable :: "obj \<Rightarrow> bool" where
  "stable rec \<longleftrightarrow> (\<exists>kvs. jget rec ''providers'' = JObj kvs)
     \<and> (active_ids rec \<noteq> [] \<or> jget rec ''active'' \<in> {JNull, JStr [], JList []})"

text \<open>The cache, where there is one, is what a restarted process would load.\<close>

definition coherent :: "obj \<Rightarrow> chatst \<Rightarrow> bool" where
  "coherent cfg st \<longleftrightarrow>
     (\<forall>rec. llm_cache st = Some rec \<longrightarrow> fst (load_llm cfg (llm_reset st)) = Inr rec \<and> stable rec)"

lemma load_stable: "llm_file st = Some (Parsed (JObj rec)) \<Longrightarrow> stable rec \<Longrightarrow> fst (load_llm cfg (llm_reset st)) = Inr rec"
  by (auto simp: load_llm_def llm_reset_def stable_def)

lemma load_reset: "fst (load_llm cfg (llm_reset (snd (load_llm cfg st)))) = fst (load_llm cfg (llm_reset st))"
  by (auto simp: load_llm_def llm_reset_def Let_def split: option.splits stored.splits json.splits sum.splits)

lemma stable_active:
  assumes "\<exists>kvs. jget rec ''providers'' = JObj kvs" "distinct ids" "set ids \<subseteq> fst ` set (providers_of rec)"
    and "\<And>i. i \<in> set ids \<Longrightarrow> i \<noteq> [] \<and> py_strip i = i"
  shows "stable (AList.update ''active'' (JList (map JStr ids)) rec)"
  using assms active_ids_written [OF assms(2-4)]
  by (cases ids) (auto simp: stable_def jget_alist_update)

lemma reset_id: "llm_cache st = None \<Longrightarrow> llm_reset st = st"
  by (simp add: llm_reset_def)

definition repaired :: "obj \<Rightarrow> obj" where
  "repaired rec =
     (if active_ids rec = [] \<and> jget rec ''active'' \<notin> {JNull, JStr [], JList []}
      then AList.update ''active'' (JList (if ''lmstudio'' \<in> fst ` set (providers_of rec)
                                          then [JStr ''lmstudio''] else [])) rec
      else rec)"

lemma load_cases:
  assumes "llm_cache st = None" "load_llm cfg st = (Inr rec, st')"
  shows "llm_cache st' = Some rec"
    and "seed_from_config cfg = Inr rec \<or> (\<exists>r kvs. jget r ''providers'' = JObj kvs \<and> rec = repaired r)"
  using assms unfolding load_llm_def Let_def repaired_def [symmetric]
  by (auto split: option.splits stored.splits json.splits sum.splits)

lemma stable_repaired: "jget r ''providers'' = JObj kvs \<Longrightarrow> stable (repaired r)"
proof -
  have "py_strip ''lmstudio'' = ''lmstudio''" by code_simp
  moreover assume "jget r ''providers'' = JObj kvs"
  ultimately have "''lmstudio'' \<in> fst ` set (providers_of r) \<Longrightarrow> stable (AList.update ''active'' (JList [JStr ''lmstudio'']) r)"
    and "stable (AList.update ''active'' (JList []) r)"
    using stable_active [of r "[''lmstudio'']"] stable_active [of r "[]"] by auto
  with \<open>jget r ''providers'' = JObj kvs\<close> show ?thesis
    unfolding repaired_def by (cases "''lmstudio'' \<in> fst ` set (providers_of r)") (auto simp: stable_def)
qed

lemma stable_seed:
  assumes "seed_from_config cfg = Inr r"
  shows "stable r"
proof -
  obtain row where r: "r = [(''active'', JStr ''lmstudio''),
      (''providers'', JObj (AList.update ''lmstudio'' (JObj row) (map (\<lambda>p. (ps_id p, JObj (preset_row p))) PRESETS)))]"
    using assms by (auto simp: seed_from_config_def res_bind_def Let_def split: sum.splits)
  have "py_strip ''lmstudio'' = ''lmstudio''" by code_simp
  then have "active_ids r = [''lmstudio'']"
    unfolding r by (simp add: active_ids_def providers_of_def jget_simps py_str_def keys_update)
  then show ?thesis by (simp add: stable_def r jget_simps)
qed

lemma stable_load:
  assumes "load_llm cfg st = (Inr rec, st')" "coherent cfg st"
  shows "stable rec \<and> llm_cache st' = Some rec"
proof (cases "llm_cache st")
  case None
  from load_cases [OF None assms(1)] show ?thesis by (auto intro: stable_seed stable_repaired)
qed (use assms in \<open>auto simp: load_llm_def coherent_def\<close>)

lemma coherent_load: "coherent cfg st \<Longrightarrow> coherent cfg (snd (load_llm cfg st))"
proof (cases "fst (load_llm cfg st)")
  case (Inl e)
  then have "snd (load_llm cfg st) = st"
    by (auto simp: load_llm_def Let_def split: option.splits stored.splits json.splits sum.splits)
  then show "coherent cfg st \<Longrightarrow> ?thesis" by simp
next
  case (Inr rec)
  assume coh: "coherent cfg st"
  from Inr have l: "load_llm cfg st = (Inr rec, snd (load_llm cfg st))" by (metis prod.collapse)
  from stable_load [OF l coh] have s: "stable rec" "llm_cache (snd (load_llm cfg st)) = Some rec" by auto
  have "fst (load_llm cfg (llm_reset st)) = Inr rec"
    using coh Inr by (cases "llm_cache st") (auto simp: coherent_def reset_id load_llm_def [of cfg st])
  then show ?thesis using s by (simp add: coherent_def load_reset)
qed

lemma coherent_save: "stable rec \<Longrightarrow> coherent cfg (save_llm rec st)"
  by (simp add: coherent_def save_llm_def load_stable)

lemma coherent_change:
  assumes "coherent cfg st" "\<And>rec rec'. stable rec \<Longrightarrow> f rec = Inr rec' \<Longrightarrow> stable rec'"
  shows "coherent cfg (snd (with_record cfg f st))"
proof -
  have loaded: "coherent cfg (snd (load_llm cfg st))" by (rule coherent_load [OF assms(1)])
  have saved: "coherent cfg (snd (public cfg (save_llm rec' st')))" if "stable rec'" for rec' st'
  proof -
    have "snd (public cfg s) = snd (load_llm cfg s)" for s by (auto simp: public_def split: prod.splits sum.splits)
    then show ?thesis using coherent_load [OF coherent_save [OF that]] by simp
  qed
  show ?thesis
  proof (cases "load_llm cfg st")
    case (Pair r st')
    with loaded saved stable_load [OF _ assms(1)] assms(2) show ?thesis
      by (auto simp: with_record_def split: sum.splits)
  qed
qed

lemma stable_set_active: "stable rec \<Longrightarrow> set_active_of v rec = Inr rec' \<Longrightarrow> stable rec'"
  using validate_id_ok [of v] stable_active [of _ "[the (case validate_id v of Inr pid \<Rightarrow> Some pid | _ \<Rightarrow> None)]"]
  by (fastforce simp: set_active_of_def stable_def res_bind_def jget_alist_update providers_of_update keys_update
      split: sum.splits if_splits option.splits)

lemma stable_disable: "stable rec \<Longrightarrow> disable_of v rec = Inr rec' \<Longrightarrow> stable rec'"
proof -
  assume s: "stable rec" and d: "disable_of v rec = Inr rec'"
  have "stable (AList.update ''active'' (JList (map JStr (filter (\<lambda>i. i \<noteq> pid) (active_ids rec)))) rec)" for pid
    using s by (intro stable_active)
      (auto simp: stable_def active_ids_props(1) dest: active_ids_props(3) set_mp [OF active_ids_props(2)])
  moreover have "stable (AList.update ''active'' (JList []) rec)"
    using s by (auto simp: stable_def jget_alist_update)
  ultimately show ?thesis using d by (auto simp: disable_of_def res_bind_def split: if_splits sum.splits)
qed

lemma stable_save_provider:
  assumes "stable rec" "save_provider_of v name base_url model api_key rec = Inr rec'"
  shows "stable rec'"
proof -
  obtain pid where "validate_id v = Inr pid"
    using assms(2) by (auto simp: save_provider_of_def res_bind_def split: sum.splits)
  from assms(2) this show ?thesis
    by (rule save_provider_record) (auto simp: stable_def jget_alist_update)
qed

text \<open>The calls other parts of the program make, and a restart of the process.\<close>

datatype llm_call =
    SetActive string | Disable string | SaveProvider string string string string string
  | Enabled | Public | Restart

fun llm_step :: "obj \<Rightarrow> llm_call \<Rightarrow> chatst \<Rightarrow> chatst" where
  "llm_step cfg (SetActive v) st = snd (set_active cfg v st)"
| "llm_step cfg (Disable v) st = snd (disable cfg v st)"
| "llm_step cfg (SaveProvider v n u m k) st = snd (save_provider cfg v n u m k st)"
| "llm_step cfg Enabled st = snd (enabled cfg st)"
| "llm_step cfg Public st = snd (public cfg st)"
| "llm_step cfg Restart st = llm_reset st"

lemma coherent_step: "coherent cfg st \<Longrightarrow> coherent cfg (llm_step cfg c st)"
proof (cases c)
  case (SaveProvider v n u m k)
  then show "coherent cfg st \<Longrightarrow> ?thesis"
    by (auto simp: save_provider_def intro: coherent_change stable_save_provider split: sum.splits)
qed (auto simp: set_active_def disable_def enabled_def public_def llm_reset_def coherent_def [of cfg "st\<lparr>llm_cache := None\<rparr>"]
    intro: coherent_change stable_set_active stable_disable dest: coherent_load split: prod.splits sum.splits)

text \<open>
  C39: From any file on disk, valid or not, and through any calls, the cached settings are those a
  restarted process reads back: a restart changes nothing.
\<close>

theorem restart_keeps_settings:
  assumes "llm_cache st = None"
  shows "fst (load_llm cfg (llm_reset (fold (llm_step cfg) calls st))) = fst (load_llm cfg (fold (llm_step cfg) calls st))"
proof -
  have "coherent cfg st" using assms by (simp add: coherent_def)
  then have "coherent cfg (fold (llm_step cfg) calls st)"
    by (induction calls arbitrary: st) (auto intro: coherent_step)
  then show ?thesis
    by (cases "llm_cache (fold (llm_step cfg) calls st)")
      (auto simp: coherent_def reset_id load_llm_def [of cfg "fold (llm_step cfg) calls st"])
qed

definition ex_chatst :: chatst where
  "ex_chatst = \<lparr>llm_file = Some (Parsed (JObj ex_llm_record)), llm_cache = None, hosts = Map.empty\<rparr>"

theorem restart_keeps_settings_witness:
  "fst (load_llm [] (llm_reset (fold (llm_step []) [SetActive ''groq'', Disable ''groq''] ex_chatst)))
     = fst (load_llm [] (fold (llm_step []) [SetActive ''groq'', Disable ''groq''] ex_chatst))"
  by (rule restart_keeps_settings) (simp add: ex_chatst_def)

end
