(* ===== verification/Classify.thy ===== *)
theory Classify
  imports Llm
begin

text \<open>
  \<open>observer/classify.py\<close>: asking the chat backends in use for a document's metadata. The backends
  answer over HTTP: \<open>net\<close> gives the answer to a call, and how long it took, from the calls made so
  far. \<open>loads\<close> is \<open>json.loads\<close> (None where it raises ValueError); a header \<open>Retry-After\<close> arrives as
  the number \<open>float\<close> reads from it. One classification runs by itself; what other threads do to the
  hosts in between is not modelled. Log messages are left out.
\<close>

section \<open>Calls and answers\<close>

record chat_request =
  cr_model :: json
  cr_system :: string
  cr_user :: string
  cr_schema :: "json option"
  cr_effort :: "string option"
  cr_temperature :: time
  cr_max_tokens :: int
  cr_stream :: bool

text \<open>The URL, the bearer token if there is one, and for a chat its body.\<close>

datatype call =
    GetModels string "json option"
  | PostChat string "json option" chat_request

text \<open>\<open>Failed\<close> is a RequestException without response; a body that is not JSON is None.\<close>

datatype answer =
    Failed
  | Answered int "time option" "json option"

record event =
  ev_host :: string
  ev_call :: call
  ev_start :: time
  ev_answer :: answer
  ev_end :: time

record backend = chatst +
  b_now :: time
  b_log :: "event list"

type_synonym net = "event list \<Rightarrow> call \<Rightarrow> answer \<times> time"

definition send :: "net \<Rightarrow> string \<Rightarrow> call \<Rightarrow> backend \<Rightarrow> answer \<times> backend" where
  "send net pid c st =
     (case net (b_log st) c of
        (a, elapsed) \<Rightarrow>
          (a, st\<lparr>b_now := b_now st + elapsed,
                b_log := b_log st @ [\<lparr>ev_host = pid, ev_call = c, ev_start = b_now st, ev_answer = a,
                                      ev_end = b_now st + elapsed\<rparr>]\<rparr>))"

definition get_host :: "string \<Rightarrow> backend \<Rightarrow> host" where
  "get_host pid st = fst (ensure_host pid (hosts st))"

definition set_host :: "string \<Rightarrow> host \<Rightarrow> backend \<Rightarrow> backend" where
  "set_host pid h st = st\<lparr>hosts := (hosts st)(pid \<mapsto> h)\<rparr>"

text \<open>\<open>resp.raise_for_status()\<close>.\<close>

definition error_status :: "int \<Rightarrow> bool" where
  "error_status s \<longleftrightarrow> 400 \<le> s \<and> s < 600"

text \<open>
  How a request ends without a message: the host is paused, an HTTPError with the status of its
  response, another RequestException, or an exception that nothing here catches.
\<close>

datatype chat_error = Paused | HttpError "(int \<times> time option) option" | NoAnswer | Raised pyerr

type_synonym 'a chat = "chat_error + 'a"

definition auth_header :: "provider \<Rightarrow> json option" where
  "auth_header prov = (if truthy (pv_api_key prov) then Some (pv_api_key prov) else None)"

section \<open>The prompt and the schema\<close>

definition PROMPT_HEAD :: string where
  "PROMPT_HEAD = ''You classify textual content found on IPFS for a shared club index.'' @ [CHR 0x0A]"

definition PROMPT_FIELDS :: string where
  "PROMPT_FIELDS = CHR 0x0A # ''For in-scope documents, provide a broad field, a specific topic, and 5-10 search keywords.'' @ CHR 0x0A # ''Field must be one of: ''"

definition PROMPT_TAIL :: string where
  "PROMPT_TAIL = ''.'' @ CHR 0x0A # ''Be factual rather than guessing. Only report a license when it is explicitly stated in the supplied sample; otherwise use null. Never infer it from the publisher, author, topic, or open access status.''"

definition system_prompt :: "club \<Rightarrow> string" where
  "system_prompt P = PROMPT_HEAD @ in_scope_description P @ PROMPT_FIELDS @ py_join '', '' (club_fields P) @ PROMPT_TAIL"

definition build_schema :: "club \<Rightarrow> json" where
  "build_schema P =
     JObj [(''type'', JStr ''json_schema''),
       (''json_schema'', JObj [(''name'', JStr ''cid_classification''), (''strict'', JBool True),
         (''schema'', JObj [(''type'', JStr ''object''),
           (''properties'', JObj
             [(''in_scope'', JObj [(''type'', JStr ''boolean''), (''description'', JStr (in_scope_description P))]),
              (''field'', JObj [(''type'', JStr ''string''),
                 (''description'', JStr (''Broad field slug from: '' @ py_join '', '' (club_fields P)))]),
              (''topic'', JObj [(''type'', JStr ''string''), (''description'', JStr ''Specific topic in a few words'')]),
              (''keywords'', JObj [(''type'', JStr ''array''), (''items'', JObj [(''type'', JStr ''string'')]),
                 (''description'', JStr ''5-10 search keywords'')]),
              (''license'', JObj [(''type'', JList [JStr ''string'', JStr ''null'']),
                 (''description'', JStr ''An explicitly stated license only; null when absent'')])]),
           (''required'', JList (map JStr [''in_scope'', ''field'', ''topic'', ''keywords'', ''license''])),
           (''additionalProperties'', JBool False)])])]"

text \<open>\<open>s[:n]\<close>, which counts a negative \<open>n\<close> from the end.\<close>

definition py_prefix :: "int \<Rightarrow> 'a list \<Rightarrow> 'a list" where
  "py_prefix n s = (if 0 \<le> n then take (nat n) s else take (length s - nat (- n)) s)"

definition user_prompt :: "string \<Rightarrow> string option \<Rightarrow> string option \<Rightarrow> string option \<Rightarrow> int \<Rightarrow> string" where
  "user_prompt t mime filename codec max_chars =
     ''Datatype: '' @ str_or mime ''unknown'' @ CHR 0x0A # ''Codec: '' @ str_or codec ''unknown''
     @ CHR 0x0A # ''Filename: '' @ take 120 (str_or filename ''unknown'')
     @ [CHR 0x0A, CHR 0x0A] @ ''Content sample:'' @ CHR 0x0A # py_prefix max_chars t"

section \<open>One request\<close>

text \<open>\<open>models[0]["id"]\<close> of a list that is not empty.\<close>

definition first_model :: "json \<Rightarrow> json res" where
  "first_model models =
     (case models of
        JList (JObj m # ms) \<Rightarrow> (case map_of m ''id'' of Some v \<Rightarrow> Inr v | None \<Rightarrow> Inl KeyError)
      | JObj kvs \<Rightarrow> Inl KeyError
      | _ \<Rightarrow> Inl TypeError)"

definition model_id :: "net \<Rightarrow> provider \<Rightarrow> backend \<Rightarrow> json chat \<times> backend" where
  "model_id net prov st =
     (let pid = pv_id prov; h = get_host pid st in
      if truthy (h_model h) then (Inr (h_model h), st)
      else if truthy (pv_model prov) then
        (Inr (pv_model prov), set_host pid (h\<lparr>h_model := pv_model prov\<rparr>) st)
      else
        (case send net pid (GetModels (pv_base_url prov @ ''/models'') (auth_header prov)) st of
           (Failed, st') \<Rightarrow> (Inl NoAnswer, st')
         | (Answered status retry body, st') \<Rightarrow>
             if error_status status then (Inl (HttpError (Some (status, retry))), st')
             else (case body of
                 None \<Rightarrow> (Inl NoAnswer, st')
               | Some (JObj o1) \<Rightarrow>
                   (let models = (case map_of o1 ''data'' of None \<Rightarrow> JList [] | Some v \<Rightarrow> v) in
                    if \<not> truthy models then (Inl (Raised RuntimeError), st')
                    else (case first_model models of
                            Inl e \<Rightarrow> (Inl (Raised e), st')
                          | Inr m \<Rightarrow> (Inr m, set_host pid ((get_host pid st')\<lparr>h_model := m\<rparr>) st')))
               | Some _ \<Rightarrow> (Inl (Raised AttributeError), st'))))"

text \<open>From the body of a successful chat to its first message.\<close>

definition first_message :: "json \<Rightarrow> obj res" where
  "first_message body =
     (case body of
        JObj o1 \<Rightarrow>
          (case jor (jget o1 ''choices'') (JList [JObj []]) of
             JList (JObj choice # cs) \<Rightarrow>
               (case jor (jget choice ''message'') (JObj []) of
                  JObj message \<Rightarrow> Inr (AList.update ''_finish'' (jget choice ''finish_reason'') message)
                | _ \<Rightarrow> Inl TypeError)
           | JList cs \<Rightarrow> Inl AttributeError
           | JStr s \<Rightarrow> Inl AttributeError
           | JObj kvs \<Rightarrow> Inl KeyError
           | _ \<Rightarrow> Inl TypeError)
      | _ \<Rightarrow> Inl AttributeError)"

text \<open>The three payloads: with schema and reasoning effort, with schema, and bare.\<close>

definition attempts :: "json \<Rightarrow> (json option \<times> string option) list" where
  "attempts schema = [(Some schema, Some ''none''), (Some schema, None), (None, None)]"

definition chat_body :: "club \<Rightarrow> json \<Rightarrow> string \<Rightarrow> json option \<times> string option \<Rightarrow> chat_request" where
  "chat_body P model user extra =
     \<lparr>cr_model = model, cr_system = system_prompt P, cr_user = user, cr_schema = fst extra,
      cr_effort = snd extra, cr_temperature = 2 / 10, cr_max_tokens = 2500, cr_stream = False\<rparr>"

fun try_payloads :: "net \<Rightarrow> club \<Rightarrow> provider \<Rightarrow> string \<Rightarrow> (json option \<times> string option) list \<Rightarrow>
    (int \<times> time option) option \<Rightarrow> backend \<Rightarrow> obj chat \<times> backend" where
  "try_payloads net P prov user [] last_resp st = (Inl (HttpError last_resp), st)"
| "try_payloads net P prov user (extra # rest) last_resp st =
     (case model_id net prov st of
        (Inl e, st1) \<Rightarrow> (Inl e, st1)
      | (Inr model, st1) \<Rightarrow>
          (let pid = pv_id prov; h = get_host pid st1 in
           if is_paused (b_now st1) h then (Inl Paused, st1)
           else
             (case pace (pv_needs_key prov) (b_now st1) h of
                (now', h') \<Rightarrow>
                  (case send net pid (PostChat (pv_base_url prov @ ''/chat/completions'') (auth_header prov)
                                        (chat_body P model user extra))
                          (set_host pid h' (st1\<lparr>b_now := now'\<rparr>)) of
                     (Failed, st2) \<Rightarrow> (Inl NoAnswer, st2)
                   | (Answered status retry body, st2) \<Rightarrow>
                       if status = 400 \<and> extra \<noteq> (None, None)
                       then try_payloads net P prov user rest (Some (status, retry)) st2
                       else if error_status status then (Inl (HttpError (Some (status, retry))), st2)
                       else (case body of
                           None \<Rightarrow> (Inl NoAnswer, st2)
                         | Some b \<Rightarrow>
                             (case first_message b of
                                Inl e \<Rightarrow> (Inl (Raised e), st2)
                              | Inr m \<Rightarrow> (Inr m, st2)))))))"

definition request_chat :: "net \<Rightarrow> club \<Rightarrow> provider \<Rightarrow> string \<Rightarrow> backend \<Rightarrow> obj chat \<times> backend" where
  "request_chat net P prov user st = try_payloads net P prov user (attempts (build_schema P)) None st"

section \<open>Reading the reply\<close>

text \<open>\<open>json.dumps\<close> with its default separators, escaping all but printable ASCII.\<close>

definition ascii_json_char :: "char \<Rightarrow> string" where
  "ascii_json_char c =
     (if 127 \<le> (of_char c :: nat) then char_of (92 :: nat) # ''u00'' @ hex2 (of_char c) else json_char c)"

definition ascii_quote :: "string \<Rightarrow> string" where
  "ascii_quote s = char_of (34 :: nat) # concat (map ascii_json_char s) @ [char_of (34 :: nat)]"

fun dumps_default :: "json \<Rightarrow> string" where
  "dumps_default JNull = ''null''"
| "dumps_default (JBool b) = (if b then ''true'' else ''false'')"
| "dumps_default (JInt n) = dec_int n"
| "dumps_default (JStr s) = ascii_quote s"
| "dumps_default (JList xs) = ''['' @ py_join '', '' (map dumps_default xs) @ '']''"
| "dumps_default (JObj kvs) =
     ''{'' @ py_join '', '' (map (\<lambda>(k, v). ascii_quote k @ '': '' @ dumps_default v) kvs) @ ''}''"

fun flatten_text :: "json \<Rightarrow> string list" where
  "flatten_text (JStr s) = (if s = [] then [] else [s])"
| "flatten_text (JList xs) = concat (map flatten_text xs)"
| "flatten_text (JObj kvs) =
     (case jget kvs ''parsed'' of JObj p \<Rightarrow> [dumps_default (JObj p)] | _ \<Rightarrow> [])
     @ concat (map (\<lambda>k. case map_of (map (\<lambda>(k', v). (k', flatten_text v)) kvs) k of None \<Rightarrow> [] | Some ss \<Rightarrow> ss)
                 [''text'', ''content'', ''reasoning'', ''arguments''])"
| "flatten_text v = []"

text \<open>The length of the shortest prefix after which every opened brace is closed again.\<close>

fun brace_end :: "int \<Rightarrow> string \<Rightarrow> nat option" where
  "brace_end depth [] = None"
| "brace_end depth (c # s) =
     (if c = CHR ''{'' then map_option Suc (brace_end (depth + 1) s)
      else if c = CHR ''}'' then (if depth - 1 = 0 then Some 1 else map_option Suc (brace_end (depth - 1) s))
      else map_option Suc (brace_end depth s))"

fun scan_object :: "(string \<Rightarrow> json option) \<Rightarrow> string \<Rightarrow> json option" where
  "scan_object loads [] = None"
| "scan_object loads (c # s) =
     (if c = CHR ''{'' then
        (case brace_end 0 (c # s) of
           None \<Rightarrow> scan_object loads s
         | Some n \<Rightarrow> (case loads (take n (c # s)) of None \<Rightarrow> scan_object loads s | Some j \<Rightarrow> Some j))
      else scan_object loads s)"

fun first_some :: "('a \<Rightarrow> 'b option) \<Rightarrow> 'a list \<Rightarrow> 'b option" where
  "first_some f [] = None"
| "first_some f (x # xs) = (case f x of None \<Rightarrow> first_some f xs | Some y \<Rightarrow> Some y)"

text \<open>The arguments of the first tool call that has usable ones; None when there is none.\<close>

fun tool_reply :: "(string \<Rightarrow> json option) \<Rightarrow> json list \<Rightarrow> json option res" where
  "tool_reply loads [] = Inr None"
| "tool_reply loads (JObj c # cs) =
     (case jor (jget c ''function'') (JObj []) of
        JObj f \<Rightarrow>
          (case jget f ''arguments'' of
             JObj a \<Rightarrow> Inr (Some (JObj a))
           | JStr s \<Rightarrow> (case loads s of Some j \<Rightarrow> Inr (Some j) | None \<Rightarrow> tool_reply loads cs)
           | _ \<Rightarrow> tool_reply loads cs)
      | _ \<Rightarrow> Inl AttributeError)"
| "tool_reply loads (c # cs) = Inl AttributeError"

text \<open>Iterating over an object or a string gives strings, which have no \<open>get\<close>.\<close>

definition tool_calls :: "(string \<Rightarrow> json option) \<Rightarrow> obj \<Rightarrow> json option res" where
  "tool_calls loads message =
     (case jor (jget message ''tool_calls'') (JList []) of
        JList cs \<Rightarrow> tool_reply loads cs
      | JObj kvs \<Rightarrow> Inl AttributeError
      | JStr s \<Rightarrow> Inl AttributeError
      | _ \<Rightarrow> Inl TypeError)"

text \<open>\<open>_parse_json_reply\<close>: JNull stands for None, which is also what the text \<open>null\<close> parses to.\<close>

definition parse_json_reply :: "(string \<Rightarrow> json option) \<Rightarrow> obj \<Rightarrow> json res" where
  "parse_json_reply loads message =
     (case jget message ''parsed'' of
        JObj (kv # kvs) \<Rightarrow> Inr (JObj (kv # kvs))
      | _ \<Rightarrow>
          res_bind (tool_calls loads message) (\<lambda>tool.
            case tool of
              Some j \<Rightarrow> Inr j
            | None \<Rightarrow>
                (let candidates = concat (map (\<lambda>k. flatten_text (jget message k))
                                            [''content'', ''reasoning_content'', ''reasoning''])
                 in case first_some loads candidates of
                      Some j \<Rightarrow> Inr j
                    | None \<Rightarrow>
                        (case first_some (scan_object loads) candidates of Some j \<Rightarrow> Inr j | None \<Rightarrow> Inr JNull))))"

definition in_scope :: "obj \<Rightarrow> bool" where
  "in_scope out =
     (if ''in_scope'' \<in> fst ` set out then truthy (jget out ''in_scope'') else truthy (jget out ''academic_document''))"

definition keywords_text :: "json \<Rightarrow> string" where
  "keywords_text v = (case v of JList ks \<Rightarrow> py_join '', '' (map py_str ks) | _ \<Rightarrow> py_str v)"

definition parse_meta :: "(string \<Rightarrow> json option) \<Rightarrow> club \<Rightarrow> obj \<Rightarrow> obj option res" where
  "parse_meta loads P message =
     res_bind (parse_json_reply loads message) (\<lambda>out.
       case out of
         JNull \<Rightarrow> Inr None
       | JObj o1 \<Rightarrow>
           Inr (Some [(''in_scope'', JBool (in_scope o1)),
             (''field'', JStr (normalize_field P (jget o1 ''field''))),
             (''topic'', JStr (take 200 (case map_of o1 ''topic'' of None \<Rightarrow> [] | Some v \<Rightarrow> py_str v))),
             (''keywords'', JStr (take 500 (keywords_text (jor (jget o1 ''keywords'') (JList []))))),
             (''license'', if truthy (jget o1 ''license'') then JStr (take 200 (py_str (jget o1 ''license''))) else JNull)])
       | _ \<Rightarrow> Inl AttributeError)"

section \<open>Choosing a backend\<close>

text \<open>
  The hosts of the candidates come into being while they are looked at; of those not paused the one
  whose last chat is longest ago is taken, the first of them when several are.
\<close>

definition ensure_all :: "provider list \<Rightarrow> backend \<Rightarrow> backend" where
  "ensure_all provs st = fold (\<lambda>p st. set_host (pv_id p) (get_host (pv_id p) st) st) provs st"

definition choose_backend :: "provider list \<Rightarrow> string list \<Rightarrow> backend \<Rightarrow> provider option \<times> backend" where
  "choose_backend provs exclude st =
     (let cands = filter (\<lambda>p. pv_id p \<notin> set exclude) provs;
          st' = ensure_all cands st;
          ready = filter (\<lambda>p. \<not> is_paused (b_now st') (get_host (pv_id p) st')) cands
      in ((case sort_key (\<lambda>p. h_last_chat (get_host (pv_id p) st')) ready of
             [] \<Rightarrow> None | p # ps \<Rightarrow> Some p), st'))"

text \<open>What a text length leads to: the next length, the next backend, or the end.\<close>

datatype verdict = Shorter | NextBackend | Done obj | Escapes pyerr

definition on_error :: "string \<Rightarrow> int \<Rightarrow> chat_error \<Rightarrow> backend \<Rightarrow> verdict \<times> backend" where
  "on_error pid chars e st =
     (case e of
        Raised x \<Rightarrow> (Escapes x, st)
      | Paused \<Rightarrow> (NextBackend, st)
      | NoAnswer \<Rightarrow> (NextBackend, st)
      | HttpError None \<Rightarrow> (NextBackend, st)
      | HttpError (Some (status, retry)) \<Rightarrow>
          if status = 400 \<and> chars > 300 then (Shorter, st)
          else (NextBackend,
            let h = get_host pid st in
            if status = 401 then set_host pid (pause (b_now st) 60 h) st
            else if status = 402 then set_host pid (pause (b_now st) 300 h) st
            else if status = 429 then set_host pid (on_rate_limit (b_now st) retry h) st
            else st))"

definition on_message :: "(string \<Rightarrow> json option) \<Rightarrow> club \<Rightarrow> provider \<Rightarrow> obj \<Rightarrow> backend \<Rightarrow> verdict \<times> backend" where
  "on_message loads P prov message st =
     (case parse_meta loads P message of
        Inl e \<Rightarrow> (Escapes e, st)
      | Inr None \<Rightarrow> (NextBackend, st)
      | Inr (Some meta) \<Rightarrow>
          (let h = note_success (get_host (pv_id prov) st) in
           (Done (meta @ [(''model'', jor (h_model h) (jor (pv_model prov) (JStr []))),
                          (''provider'', JStr (pv_id prov))]),
            set_host (pv_id prov) h st)))"

fun try_lengths :: "net \<Rightarrow> (string \<Rightarrow> json option) \<Rightarrow> club \<Rightarrow> provider \<Rightarrow> (int \<Rightarrow> string) \<Rightarrow> int list \<Rightarrow>
    backend \<Rightarrow> verdict \<times> backend" where
  "try_lengths net loads P prov prompt [] st = (NextBackend, st)"
| "try_lengths net loads P prov prompt (chars # rest) st =
     (case request_chat net P prov (prompt chars) st of
        (Inr message, st1) \<Rightarrow> on_message loads P prov message st1
      | (Inl e, st1) \<Rightarrow>
          (case on_error (pv_id prov) chars e st1 of
             (Shorter, st2) \<Rightarrow> try_lengths net loads P prov prompt rest st2
           | r \<Rightarrow> r))"

lemma choose_candidate: "choose_backend provs exclude st = (Some p, st') \<Longrightarrow> p \<in> set provs \<and> pv_id p \<notin> set exclude
    \<and> \<not> is_paused (b_now st') (get_host (pv_id p) st')"
proof -
  assume c: "choose_backend provs exclude st = (Some p, st')"
  let ?s = "sort_key (\<lambda>p. h_last_chat (get_host (pv_id p) st')) (filter (\<lambda>p. \<not> is_paused (b_now st') (get_host (pv_id p) st'))
      (filter (\<lambda>p. pv_id p \<notin> set exclude) provs))"
  from c have "\<exists>ps. ?s = p # ps" by (auto simp: choose_backend_def Let_def split: list.splits)
  then have "p \<in> set ?s" by (metis list.set_intros(1))
  then show ?thesis by simp
qed

text \<open>The loop over the backends; each round excludes one more of them.\<close>

function classify_loop :: "net \<Rightarrow> (string \<Rightarrow> json option) \<Rightarrow> club \<Rightarrow> (int \<Rightarrow> string) \<Rightarrow> int \<Rightarrow> provider list \<Rightarrow>
    string list \<Rightarrow> backend \<Rightarrow> obj option res \<times> backend" where
  "classify_loop net loads P prompt max_chars provs tried st =
     (case choose_backend provs tried st of
        (None, st1) \<Rightarrow> (Inr None, st1)
      | (Some prov, st1) \<Rightarrow>
          (case try_lengths net loads P prov prompt [max_chars, max_chars div 2, max_chars div 4] st1 of
             (Escapes e, st2) \<Rightarrow> (Inl e, st2)
           | (Done meta, st2) \<Rightarrow> (Inr (Some meta), st2)
           | (NextBackend, st2) \<Rightarrow> classify_loop net loads P prompt max_chars provs (pv_id prov # tried) st2
           | (Shorter, st2) \<Rightarrow> classify_loop net loads P prompt max_chars provs (pv_id prov # tried) st2))"
  by pat_completeness auto

termination
proof (relation "measure (\<lambda>(net, loads, P, prompt, max_chars, provs, tried, st).
    length (filter (\<lambda>p. pv_id p \<notin> set tried) provs))", goal_cases)
  have less: "length (filter (\<lambda>p. pv_id p \<notin> set (pv_id q # tried)) provs)
      < length (filter (\<lambda>p. pv_id p \<notin> set tried) provs)"
    if "q \<in> set provs" "pv_id q \<notin> set tried" for q tried and provs :: "provider list"
    using that
  proof (induction provs)
    case (Cons p provs)
    have "length (filter (\<lambda>p. pv_id p \<notin> set (pv_id q # tried)) provs) \<le> length (filter (\<lambda>p. pv_id p \<notin> set tried) provs)"
      by (rule length_filter_mono) simp
    with Cons show ?case by auto
  qed simp
  {
    case (2 net loads P prompt max_chars provs tried st x st1 prov v st2)
    then show ?case using less choose_candidate [of provs tried st prov st1] by auto
  next
    case (3 net loads P prompt max_chars provs tried st x st1 prov v st2)
    then show ?case using less choose_candidate [of provs tried st prov st1] by auto
  }
qed simp

declare classify_loop.simps [simp del]

section \<open>The module's functions\<close>

definition enabled_here :: "obj \<Rightarrow> backend \<Rightarrow> provider list res \<times> backend" where
  "enabled_here cfg st =
     (case enabled cfg (chatst.truncate st) of (r, cs) \<Rightarrow> (r, st\<lparr>llm_cache := llm_cache cs\<rparr>))"

definition classify :: "net \<Rightarrow> (string \<Rightarrow> json option) \<Rightarrow> club \<Rightarrow> obj \<Rightarrow> int \<Rightarrow> string \<Rightarrow> string option \<Rightarrow> string option \<Rightarrow>
    string option \<Rightarrow> backend \<Rightarrow> obj option res \<times> backend" where
  "classify net loads P cfg max_chars t mime filename codec st =
     (case enabled_here cfg st of
        (Inl e, st0) \<Rightarrow> (Inl e, st0)
      | (Inr provs, st0) \<Rightarrow>
          if provs = [] then (Inr None, st0)
          else classify_loop net loads P (user_prompt t mime filename codec) max_chars provs [] st0)"

text \<open>\<open>_host_up\<close> and \<open>available\<close>, which asks every backend in use.\<close>

definition host_up :: "net \<Rightarrow> provider \<Rightarrow> backend \<Rightarrow> bool \<times> backend" where
  "host_up net prov st =
     (let pid = pv_id prov in
      case probe_start (b_now st) (get_host pid st) of
        (Some known, h) \<Rightarrow> (known, set_host pid h st)
      | (None, h) \<Rightarrow>
          (case send net pid (GetModels (pv_base_url prov @ ''/models'') (auth_header prov)) (set_host pid h st) of
             (a, st1) \<Rightarrow>
               (let ok = (case a of Failed \<Rightarrow> False | Answered status retry body \<Rightarrow> \<not> error_status status)
                in (ok, set_host pid (probe_done (b_now st1) ok (get_host pid st1)) st1))))"

fun any_up :: "net \<Rightarrow> provider list \<Rightarrow> bool \<Rightarrow> backend \<Rightarrow> bool \<times> backend" where
  "any_up net [] ok st = (ok, st)"
| "any_up net (prov # provs) ok st =
     (case host_up net prov st of (up, st') \<Rightarrow> any_up net provs (up \<or> ok) st')"

definition available :: "net \<Rightarrow> obj \<Rightarrow> backend \<Rightarrow> bool res \<times> backend" where
  "available net cfg st =
     (case enabled_here cfg st of
        (Inl e, st0) \<Rightarrow> (Inl e, st0)
      | (Inr provs, st0) \<Rightarrow> (case any_up net provs False st0 of (ok, st1) \<Rightarrow> (Inr ok, st1)))"

definition status_part :: "backend \<Rightarrow> provider \<Rightarrow> string" where
  "status_part st prov =
     (let h = get_host (pv_id prov) st in
      if is_paused (b_now st) h
      then pv_id prov @ ''=paused:'' @ dec_int (max 0 (py_int (h_pause_until h - b_now st))) @ ''s''
      else if h_avail_ok h then pv_id prov @ ''=ok'' else pv_id prov @ ''=down'')"

definition backends_status :: "obj \<Rightarrow> backend \<Rightarrow> string res \<times> backend" where
  "backends_status cfg st =
     (case enabled_here cfg st of
        (Inl e, st0) \<Rightarrow> (Inl e, st0)
      | (Inr provs, st0) \<Rightarrow>
          (let st1 = ensure_all provs st0; s = py_join '' '' (map (status_part st1) provs)
           in (Inr (if s = [] then ''llm=off'' else s), st1)))"

end
