(* ===== verification/Classify_Laws.thy ===== *)
theory Classify_Laws
  imports Classify
begin

text \<open>
  Laws of \<open>observer/classify.py\<close>: a classification asks every backend a bounded number of times, no
  backend is asked again before its refusal has run out or faster than its pace, a working backend
  is found, and what comes back has the form the indexer expects.
\<close>

section \<open>Hosts and the log\<close>

lemma get_set_host [simp]: "get_host pid (set_host pid' h st) = (if pid = pid' then h else get_host pid st)"
  by (auto simp: get_host_def set_host_def ensure_host_def split: option.splits)

lemma set_host_simps [simp]: "b_now (set_host pid h st) = b_now st" "b_log (set_host pid h st) = b_log st"
  by (simp_all add: set_host_def)

lemma get_host_more [simp]: "get_host pid (st\<lparr>b_now := n\<rparr>) = get_host pid st"
  "get_host pid (st\<lparr>b_log := l\<rparr>) = get_host pid st" "get_host pid (st\<lparr>llm_cache := c\<rparr>) = get_host pid st"
  by (simp_all add: get_host_def)

definition is_chat :: "event \<Rightarrow> bool" where
  "is_chat e \<longleftrightarrow> (case ev_call e of PostChat u k b \<Rightarrow> True | GetModels u k \<Rightarrow> False)"

definition chats :: "string \<Rightarrow> backend \<Rightarrow> event list" where
  "chats pid st = filter (\<lambda>e. is_chat e \<and> ev_host e = pid) (b_log st)"

lemma send_spec:
  assumes "send net pid c st = (a, st')"
  obtains t where "st' = st\<lparr>b_now := b_now st + t, b_log := b_log st @ [\<lparr>ev_host = pid, ev_call = c, ev_start = b_now st,
      ev_answer = a, ev_end = b_now st + t\<rparr>]\<rparr>" "net (b_log st) c = (a, t)"
  using assms by (auto simp: send_def split: prod.splits)

lemma ensure_all_simps [simp]: "b_now (ensure_all ps st) = b_now st" "b_log (ensure_all ps st) = b_log st"
  "get_host pid (ensure_all ps st) = get_host pid st"
  unfolding ensure_all_def by (induction ps arbitrary: st) auto

lemma choose_simps: "choose_backend provs tried st = (r, st') \<Longrightarrow>
    b_now st' = b_now st \<and> b_log st' = b_log st \<and> get_host pid st' = get_host pid st"
  by (auto simp: choose_backend_def Let_def)

section \<open>How often a backend is asked\<close>

lemma model_id_chats: "model_id net prov st = (r, st') \<Longrightarrow> chats pid st' = chats pid st"
  by (auto simp: model_id_def chats_def is_chat_def Let_def send_def split: if_splits prod.splits answer.splits option.splits json.splits sum.splits)

lemma try_payloads_chats:
  "try_payloads net P prov user extras last_resp st = (r, st') \<Longrightarrow>
     (pid \<noteq> pv_id prov \<longrightarrow> chats pid st' = chats pid st)
     \<and> length (chats (pv_id prov) st') \<le> length (chats (pv_id prov) st) + length extras"
proof (induction extras arbitrary: last_resp st)
  case (Cons extra rest)
  obtain m st1 where m: "model_id net prov st = (m, st1)" by fastforce
  note c1 = model_id_chats [OF m]
  show ?case
  proof (cases m)
    case (Inl e)
    with Cons.prems m c1 show ?thesis by simp
  next
    case (Inr model)
    let ?h = "get_host (pv_id prov) st1"
    obtain now' h' where p: "pace (pv_needs_key prov) (b_now st1) ?h = (now', h')" by fastforce
    obtain a st2 where s: "send net (pv_id prov) (PostChat (pv_base_url prov @ ''/chat/completions'') (auth_header prov)
        (chat_body P model user extra)) (set_host (pv_id prov) h' (st1\<lparr>b_now := now'\<rparr>)) = (a, st2)" by fastforce
    then have c2: "chats pid st2 = chats pid st1" if "pid \<noteq> pv_id prov" for pid
      using that by (auto simp: send_def chats_def split: prod.splits)
    have c3: "length (chats (pv_id prov) st2) \<le> Suc (length (chats (pv_id prov) st1))"
      using s by (auto simp: send_def chats_def split: prod.splits)
    show ?thesis
      using Cons.prems Cons.IH [of _ st2] m Inr p s c1 c2 c3
      by (fastforce simp: Let_def split: if_splits answer.splits option.splits sum.splits)
  qed
qed simp

lemma on_error_log [simp]: "b_log (snd (on_error pid chars e st)) = b_log st" "b_now (snd (on_error pid chars e st)) = b_now st"
  by (auto simp: on_error_def Let_def split: chat_error.splits option.splits)

lemma on_message_log [simp]: "b_log (snd (on_message loads P prov m st)) = b_log st" "b_now (snd (on_message loads P prov m st)) = b_now st"
  by (auto simp: on_message_def Let_def split: sum.splits option.splits)

lemma chats_cong: "b_log st = b_log st' \<Longrightarrow> chats pid st = chats pid st'"
  by (simp add: chats_def)

lemma try_lengths_chats:
  "try_lengths net loads P prov prompt ls st = (r, st') \<Longrightarrow>
     (pid \<noteq> pv_id prov \<longrightarrow> chats pid st' = chats pid st)
     \<and> length (chats (pv_id prov) st') \<le> length (chats (pv_id prov) st) + 3 * length ls"
proof (induction ls arbitrary: st)
  case (Cons chars ls)
  obtain a st1 where a: "request_chat net P prov (prompt chars) st = (a, st1)" by fastforce
  then have c: "(pid \<noteq> pv_id prov \<longrightarrow> chats pid st1 = chats pid st)
     \<and> length (chats (pv_id prov) st1) \<le> length (chats (pv_id prov) st) + 3"
    using try_payloads_chats [of net P prov "prompt chars" "attempts (build_schema P)" None st a st1 pid]
    by (simp add: request_chat_def attempts_def)
  show ?case
  proof (cases a)
    case (Inr m)
    then show ?thesis using Cons.prems a c chats_cong [OF on_message_log(1) [of loads P prov m st1]] by auto
  next
    case (Inl e)
    obtain v st2 where v: "on_error (pv_id prov) chars e st1 = (v, st2)" by fastforce
    then have c2: "chats q st2 = chats q st1" for q
      using chats_cong [OF on_error_log(1) [of "pv_id prov" chars e st1]] by auto
    show ?thesis using Cons.prems Cons.IH [of st2] a c c2 Inl v by (cases v) auto
  qed
qed simp

lemma classify_loop_chats:
  "classify_loop net loads P prompt n provs tried st = (r, st') \<Longrightarrow>
     length (chats pid st') \<le> length (chats pid st)
       + (if pid \<in> pv_id ` set provs \<and> pid \<notin> set tried then 9 else 0)"
proof (induction net loads P prompt n provs tried st rule: classify_loop.induct)
  case (1 net loads P prompt n provs tried st)
  obtain c st1 where c: "choose_backend provs tried st = (c, st1)" by fastforce
  have same: "chats pid st1 = chats pid st" using choose_simps [OF c] by (intro chats_cong) blast
  show ?case
  proof (cases c)
    case None
    with "1.prems" c same show ?thesis by (simp add: classify_loop.simps [of net loads P prompt n provs tried st])
  next
    case (Some prov)
    obtain v st2 where v: "try_lengths net loads P prov prompt [n, n div 2, n div 4] st1 = (v, st2)" by fastforce
    have in_provs: "prov \<in> set provs" "pv_id prov \<notin> set tried" using choose_candidate [of provs tried st prov st1] c Some by auto
    have step: "length (chats pid st2) \<le> length (chats pid st) + (if pid = pv_id prov then 9 else 0)"
      using try_lengths_chats [OF v, of pid] same by auto
    have rest: "length (chats pid st') \<le> length (chats pid st2)
        + (if pid \<in> pv_id ` set provs \<and> pid \<notin> set (pv_id prov # tried) then 9 else 0)"
      if "classify_loop net loads P prompt n provs (pv_id prov # tried) st2 = (r, st')" "v = NextBackend \<or> v = Shorter"
      using "1.IH" [OF c [symmetric] Some] v that by auto
    have unfold: "(r, st') = (case v of Escapes e \<Rightarrow> (Inl e, st2) | Done meta \<Rightarrow> (Inr (Some meta), st2)
        | _ \<Rightarrow> classify_loop net loads P prompt n provs (pv_id prov # tried) st2)"
      using "1.prems" c Some v by (simp add: classify_loop.simps [of net loads P prompt n provs tried st] split: verdict.splits)
    show ?thesis using step rest unfold in_provs by (cases v) (auto split: if_splits)
  qed
qed

text \<open>
  A classification returns after asking each backend at most nine times: three text lengths with
  three payloads each.
\<close>

theorem classify_chat_bound:
  "length (chats pid (snd (classify net loads P cfg n t mime filename codec st))) \<le> length (chats pid st) + 9"
proof -
  obtain e st0 where e: "enabled_here cfg st = (e, st0)" by fastforce
  then have "b_log st0 = b_log st" by (auto simp: enabled_here_def split: prod.splits)
  then have "chats pid st0 = chats pid st" by (rule chats_cong)
  moreover have "length (chats pid (snd (classify_loop net loads P prompt n provs [] st0))) \<le> length (chats pid st0) + 9"
    for prompt provs
    using classify_loop_chats [of net loads P prompt n provs "[]" st0 "fst (classify_loop net loads P prompt n provs [] st0)"
        "snd (classify_loop net loads P prompt n provs [] st0)" pid] by (simp split: if_splits)
  ultimately show ?thesis using e by (auto simp: classify_def split: sum.splits)
qed

section \<open>Refusals and pace\<close>

text \<open>How long a backend that answered so is left alone, at least.\<close>

definition penalty :: "answer \<Rightarrow> time" where
  "penalty a =
     (case a of
        Failed \<Rightarrow> 0
      | Answered status retry body \<Rightarrow>
          if status = 401 then 60 else if status = 402 then 300 else if status = 429 then 20 else 0)"

text \<open>Two chats with the same backend, the first before the second in the log.\<close>

definition spaced :: "(string \<Rightarrow> bool) \<Rightarrow> event \<Rightarrow> event \<Rightarrow> bool" where
  "spaced remote e f \<longleftrightarrow> (ev_host e = ev_host f \<longrightarrow>
     ev_end e + penalty (ev_answer e) \<le> ev_start f \<and> (remote (ev_host e) \<longrightarrow> ev_start e + 4 \<le> ev_start f))"

definition polite :: "(string \<Rightarrow> bool) \<Rightarrow> event list \<Rightarrow> bool" where
  "polite remote es \<longleftrightarrow> sorted_wrt (spaced remote) (filter is_chat es)"

definition settled :: "backend \<Rightarrow> event \<Rightarrow> bool" where
  "settled st e \<longleftrightarrow> ev_end e + penalty (ev_answer e) \<le> max (b_now st) (h_pause_until (get_host (ev_host e) st))"

definition recorded :: "backend \<Rightarrow> event \<Rightarrow> bool" where
  "recorded st e \<longleftrightarrow> 0 < ev_start e \<and> ev_start e \<le> ev_end e \<and> ev_end e \<le> b_now st
     \<and> ev_start e \<le> h_last_chat (get_host (ev_host e) st)"

text \<open>
  The invariant, but for a refusal with status \<open>s\<close> that backend \<open>pid\<close> has just given and that is
  not yet acted on.
\<close>

definition owes :: "(string \<times> int) option \<Rightarrow> time \<Rightarrow> event \<Rightarrow> bool" where
  "owes owed now e \<longleftrightarrow> (\<exists>s r b. owed = Some (ev_host e, s) \<and> ev_end e = now \<and> ev_answer e = Answered s r b)"

definition polite_but :: "(string \<Rightarrow> bool) \<Rightarrow> (string \<times> int) option \<Rightarrow> backend \<Rightarrow> bool" where
  "polite_but remote owed st \<longleftrightarrow> 0 < b_now st \<and> polite remote (b_log st) \<and> (\<forall>pid. host_ok (get_host pid st))
     \<and> (\<forall>e\<in>set (b_log st). is_chat e \<longrightarrow> recorded st e
          \<and> (settled st e \<or> owes owed (b_now st) e))"

lemma owes_None [simp]: "\<not> owes None now e"
  by (simp add: owes_def)

abbreviation polite_state :: "(string \<Rightarrow> bool) \<Rightarrow> backend \<Rightarrow> bool" where
  "polite_state remote st \<equiv> polite_but remote None st"

lemma polite_but_weaken: "polite_state remote st \<Longrightarrow> polite_but remote owed st"
  by (auto simp: polite_but_def)

lemma penalty_nonneg: "0 \<le> penalty a"
  by (auto simp: penalty_def split: answer.splits)

lemma penalty_none: "s \<notin> {401, 402, 429} \<Longrightarrow> penalty (Answered s r b) = 0"
  by (auto simp: penalty_def)

lemma polite_snoc:
  "polite remote (es @ [f]) \<longleftrightarrow> polite remote es \<and> (is_chat f \<longrightarrow> (\<forall>e\<in>set es. is_chat e \<longrightarrow> spaced remote e f))"
  by (auto simp: polite_def sorted_wrt_append)

text \<open>Replacing a host by one that is as restrictive keeps the invariant.\<close>

lemma polite_set_host:
  assumes "polite_but remote owed st" "host_ok h"
    and "h_pause_until (get_host pid st) \<le> max (b_now st) (h_pause_until h)"
    and "h_last_chat (get_host pid st) \<le> h_last_chat h"
  shows "polite_but remote owed (set_host pid h st)"
proof -
  have "settled st e \<Longrightarrow> settled (set_host pid h st) e" for e
    using assms(3) by (auto simp: settled_def)
  moreover have "recorded st e \<Longrightarrow> recorded (set_host pid h st) e" for e
    using assms(4) by (auto simp: recorded_def)
  ultimately show ?thesis using assms(1,2) unfolding polite_but_def by simp blast
qed

lemma polite_later:
  assumes "polite_state remote st" "b_now st \<le> n"
  shows "polite_state remote (st\<lparr>b_now := n\<rparr>)"
  using assms by (fastforce simp: polite_but_def settled_def recorded_def)

lemma polite_cong:
  assumes "polite_but remote owed st" "b_now st' = b_now st" "b_log st' = b_log st" "hosts st' = hosts st"
  shows "polite_but remote owed st'"
proof -
  have "get_host pid st' = get_host pid st" for pid using assms(4) by (simp add: get_host_def)
  then show ?thesis using assms by (simp add: polite_but_def settled_def recorded_def)
qed

text \<open>Asking for the models leaves it, and so does a chat that starts when the host allows it.\<close>

definition patient :: "net \<Rightarrow> bool" where
  "patient net \<longleftrightarrow> (\<forall>es c. 0 \<le> snd (net es c))"

lemma polite_get:
  assumes "polite_state remote st" "patient net" "send net pid (GetModels u k) st = (a, st')"
  shows "polite_state remote st' \<and> get_host q st' = get_host q st \<and> b_now st \<le> b_now st'"
proof -
  obtain t where st': "st' = st\<lparr>b_now := b_now st + t, b_log := b_log st @ [\<lparr>ev_host = pid, ev_call = GetModels u k,
      ev_start = b_now st, ev_answer = a, ev_end = b_now st + t\<rparr>]\<rparr>" "net (b_log st) (GetModels u k) = (a, t)"
    using send_spec [OF assms(3)] by blast
  have "0 \<le> snd (net (b_log st) (GetModels u k))" using assms(2) by (simp add: patient_def)
  then have t: "0 \<le> t" using st'(2) by simp
  with assms(1) show ?thesis
    unfolding st'(1) by (fastforce simp: polite_but_def settled_def recorded_def polite_snoc is_chat_def)
qed

lemma polite_post:
  assumes "polite_state remote st" "patient net" "\<not> is_paused (b_now st) (get_host pid st)"
    and "pace (remote pid) (b_now st) (get_host pid st) = (n, h)"
    and "send net pid (PostChat u k b) (set_host pid h (st\<lparr>b_now := n\<rparr>)) = (a, st')"
  shows "polite_but remote (case a of Failed \<Rightarrow> None | Answered s r body \<Rightarrow> Some (pid, s)) st'"
proof -
  let ?h0 = "get_host pid st" and ?st1 = "set_host pid h (st\<lparr>b_now := n\<rparr>)"
  have n: "b_now st \<le> n" "h = ?h0\<lparr>h_last_chat := n\<rparr>" "pace_wait (remote pid) (b_now st) ?h0 = n - b_now st"
    using assms(4) by (auto simp: pace_def pace_wait_def Let_def)
  have ok: "host_ok ?h0" "0 < b_now st" using assms(1) by (auto simp: polite_but_def)
  then have hok: "host_ok h" using n(2) by (simp add: host_ok_def)
  have rec: "recorded st e" "settled st e" if "e \<in> set (b_log st)" "is_chat e" for e
    using assms(1) that by (auto simp: polite_but_def)
  have gap: "h_last_chat ?h0 + 4 \<le> n" if "0 < h_last_chat ?h0" "remote pid"
    using that n(3) ok(1) by (auto simp: pace_wait_def host_ok_def Let_def max_def split: if_splits)
  have at_n: "b_now ?st1 = n" "b_log ?st1 = b_log st" by simp_all
  obtain t where st': "st' = ?st1\<lparr>b_now := n + t, b_log := b_log st @ [\<lparr>ev_host = pid, ev_call = PostChat u k b,
      ev_start = n, ev_answer = a, ev_end = n + t\<rparr>]\<rparr>" "net (b_log st) (PostChat u k b) = (a, t)"
    using send_spec [OF assms(5)] unfolding at_n by blast
  have "0 \<le> snd (net (b_log st) (PostChat u k b))" using assms(2) by (simp add: patient_def)
  then have t: "0 \<le> t" using st'(2) by simp
  have sp: "spaced remote e \<lparr>ev_host = pid, ev_call = PostChat u k b, ev_start = n, ev_answer = a, ev_end = n + t\<rparr>"
    if e: "e \<in> set (b_log st)" "is_chat e" for e
  proof -
    have "ev_end e + penalty (ev_answer e) \<le> n" if "ev_host e = pid"
      using rec [OF e] that assms(3) n(1) penalty_nonneg [of "ev_answer e"]
      by (auto simp: settled_def recorded_def is_paused_def max_def split: if_splits)
    moreover have "ev_start e + 4 \<le> n" if "ev_host e = pid" "remote pid"
      using rec [OF e] that gap by (auto simp: recorded_def)
    ultimately show ?thesis by (auto simp: spaced_def)
  qed
  let ?f = "\<lparr>ev_host = pid, ev_call = PostChat u k b, ev_start = n, ev_answer = a, ev_end = n + t\<rparr>"
  have host: "get_host q st' = (if q = pid then h else get_host q st)" for q by (simp add: st'(1))
  have now: "b_now st' = n + t" and log: "b_log st' = b_log st @ [?f]" by (simp_all add: st'(1))
  have old: "recorded st' e \<and> settled st' e" if "e \<in> set (b_log st)" "is_chat e" for e
    using rec [OF that] n(1,2) t by (auto simp: recorded_def settled_def host now)
  have new: "recorded st' ?f" using ok n(1,2) t by (auto simp: recorded_def host now)
  have owed: "settled st' ?f \<or> owes (case a of Failed \<Rightarrow> None | Answered s r body \<Rightarrow> Some (pid, s)) (b_now st') ?f"
    by (cases a) (auto simp: settled_def owes_def now penalty_def)
  have "polite remote (b_log st')" using assms(1) sp by (auto simp: log polite_snoc polite_but_def)
  moreover have "host_ok (get_host q st')" for q using assms(1) hok by (auto simp: host polite_but_def)
  moreover have "0 < b_now st'" using ok(2) n(1) t by (simp add: now)
  ultimately show ?thesis using old new owed unfolding polite_but_def by (simp add: log ball_Un) 
qed

lemma polite_model:
  assumes "polite_but remote owed st" "h_pause_until h = h_pause_until (get_host pid st)"
    "h_last_chat h = h_last_chat (get_host pid st)" "host_ok h = host_ok (get_host pid st)"
  shows "polite_but remote owed (set_host pid h st)"
  using assms by (intro polite_set_host) (auto simp: polite_but_def)

lemma polite_model_id:
  assumes "polite_state remote st" "patient net" "model_id net prov st = (r, st')"
  shows "polite_state remote st'"
proof (cases "truthy (h_model (get_host (pv_id prov) st)) \<or> truthy (pv_model prov)")
  case True
  then show ?thesis
    using assms polite_model [OF assms(1)] by (auto simp: model_id_def host_ok_def Let_def split: if_splits)
next
  case False
  obtain a st1 where s: "send net (pv_id prov) (GetModels (pv_base_url prov @ ''/models'') (auth_header prov)) st = (a, st1)"
    by fastforce
  have st1: "polite_state remote st1" using polite_get [OF assms(1,2) s] by blast
  then have m: "polite_state remote (set_host (pv_id prov) ((get_host (pv_id prov) st1)\<lparr>h_model := m\<rparr>) st1)" for m
    by (intro polite_model) (simp_all add: host_ok_def)
  show ?thesis
    using assms(3) False s st1 m
    by (auto simp: model_id_def Let_def split: if_splits answer.splits option.splits json.splits sum.splits)
qed

text \<open>What is owed after a request that ended so.\<close>

definition owed_by :: "string \<Rightarrow> 'a chat \<Rightarrow> (string \<times> int) option" where
  "owed_by pid r = (case r of Inl (HttpError (Some (s, t))) \<Rightarrow> Some (pid, s) | _ \<Rightarrow> None)"

lemma polite_settle:
  assumes "polite_but remote (Some (pid, s)) st" "s \<notin> {401, 402, 429}"
  shows "polite_state remote st"
proof -
  have "settled st e" if "owes (Some (pid, s)) (b_now st) e" for e
    using that assms(2) by (auto simp: owes_def settled_def penalty_none)
  then show ?thesis using assms(1) by (auto simp: polite_but_def)
qed

lemma polite_try_payloads:
  assumes "patient net" "remote (pv_id prov) = pv_needs_key prov"
  shows "polite_state remote st \<Longrightarrow> try_payloads net P prov user extras last_resp st = (r, st') \<Longrightarrow>
     polite_but remote (owed_by (pv_id prov) r) st'"
proof (induction extras arbitrary: last_resp st)
  case Nil
  then show ?case by (auto intro: polite_but_weaken)
next
  case (Cons extra rest)
  obtain m st1 where m: "model_id net prov st = (m, st1)" by fastforce
  have st1: "polite_state remote st1" by (rule polite_model_id [OF Cons.prems(1) assms(1) m])
  show ?case
  proof (cases m)
    case (Inl e)
    with Cons.prems(2) m st1 show ?thesis by (auto intro: polite_but_weaken)
  next
    case (Inr model)
    let ?h = "get_host (pv_id prov) st1"
    let ?c = "PostChat (pv_base_url prov @ ''/chat/completions'') (auth_header prov) (chat_body P model user extra)"
    obtain n h where p: "pace (pv_needs_key prov) (b_now st1) ?h = (n, h)" by fastforce
    obtain a st2 where s: "send net (pv_id prov) ?c (set_host (pv_id prov) h (st1\<lparr>b_now := n\<rparr>)) = (a, st2)" by fastforce
    show ?thesis
    proof (cases "is_paused (b_now st1) ?h")
      case True
      with Cons.prems(2) m Inr st1 show ?thesis by (auto simp: Let_def intro: polite_but_weaken)
    next
      case False
      have st2: "polite_but remote (case a of Failed \<Rightarrow> None | Answered s r body \<Rightarrow> Some (pv_id prov, s)) st2"
        by (rule polite_post [OF st1 assms(1) False _ s]) (use p assms(2) in simp)
      show ?thesis
      proof (cases a)
        case Failed
        with Cons.prems(2) m Inr False p s st2 show ?thesis by (auto simp: Let_def owed_by_def)
      next
        case (Answered status retry body)
        have free: "polite_state remote st2" if "\<not> error_status status \<or> status = 400"
          using polite_settle [of remote "pv_id prov" status st2] st2 Answered that by (auto simp: error_status_def)
        show ?thesis
          using Cons.prems(2) Cons.IH [of st2] m Inr False p s st2 free Answered
          by (auto simp: Let_def owed_by_def split: if_splits option.splits sum.splits)
      qed
    qed
  qed
qed

lemma polite_pause:
  assumes "polite_but remote (Some (pid, s)) st" "host_ok h"
    and "h_pause_until (get_host pid st) \<le> h_pause_until h" "h_last_chat (get_host pid st) \<le> h_last_chat h"
    and "b_now st + penalty (Answered s None None) \<le> h_pause_until h"
  shows "polite_state remote (set_host pid h st)"
proof -
  have "polite_but remote (Some (pid, s)) (set_host pid h st)"
    using assms by (intro polite_set_host) auto
  moreover have "settled (set_host pid h st) e" if "owes (Some (pid, s)) (b_now st) e" for e
    using that assms(5) by (auto simp: owes_def settled_def penalty_def)
  ultimately show ?thesis unfolding polite_but_def by auto
qed

lemma on_rate_limit_pause:
  "h_pause_until h \<le> h_pause_until (on_rate_limit now r h) \<and> now + 20 \<le> h_pause_until (on_rate_limit now r h)
     \<and> h_last_chat (on_rate_limit now r h) = h_last_chat h"
  by (auto simp: host_defs max_def min_def split: option.splits)

lemma pause_until_ge: "h_pause_until h \<le> h_pause_until (pause now s h) \<and> now + max 20 (min s 300) \<le> h_pause_until (pause now s h)
     \<and> h_last_chat (pause now s h) = h_last_chat h"
  by (auto simp: pause_def Let_def)

lemma polite_on_error:
  assumes "polite_but remote (owed_by pid (Inl e :: 'a chat)) st"
  shows "polite_state remote (snd (on_error pid chars e st))"
proof (cases "owed_by pid (Inl e :: 'a chat)")
  case None
  with assms show ?thesis by (auto simp: owed_by_def on_error_def split: chat_error.splits option.splits)
next
  case (Some o1)
  then obtain s r where e: "e = HttpError (Some (s, r))" "o1 = (pid, s)"
    by (auto simp: owed_by_def split: chat_error.splits option.splits)
  have st: "polite_but remote (Some (pid, s)) st" and ok: "host_ok (get_host pid st)"
    using assms Some e by (auto simp: polite_but_def)
  show ?thesis
  proof (cases "s \<in> {401, 402, 429}")
    case False
    with polite_settle [OF st] show ?thesis by (auto simp: on_error_def e Let_def)
  next
    case True
    have "polite_state remote (set_host pid (pause (b_now st) t (get_host pid st)) st)"
      if "penalty (Answered s None None) \<le> max 20 (min t 300)" for t
      using that pause_until_ge [of "get_host pid st" "b_now st" t] ok
      by (intro polite_pause [OF st]) auto
    moreover have "polite_state remote (set_host pid (on_rate_limit (b_now st) r (get_host pid st)) st)" if "s = 429"
      using that on_rate_limit_pause [of "get_host pid st" "b_now st" r] ok
      by (intro polite_pause [OF st]) (auto simp: penalty_def intro: host_ok_rate_limit)
    ultimately show ?thesis using True by (auto simp: on_error_def e Let_def penalty_def)
  qed
qed

lemma polite_on_message:
  assumes "polite_state remote st"
  shows "polite_state remote (snd (on_message loads P prov m st))"
proof -
  let ?h = "get_host (pv_id prov) st"
  have "host_ok (note_success ?h)" using assms by (auto simp: polite_but_def intro: host_ok_success)
  then have "polite_state remote (set_host (pv_id prov) (note_success ?h) st)"
    by (intro polite_set_host [OF assms]) (auto simp: note_success_def)
  with assms show ?thesis by (auto simp: on_message_def Let_def split: sum.splits option.splits)
qed

lemma polite_try_lengths:
  assumes "patient net" "remote (pv_id prov) = pv_needs_key prov"
  shows "polite_state remote st \<Longrightarrow> polite_state remote (snd (try_lengths net loads P prov prompt ls st))"
proof (induction ls arbitrary: st)
  case (Cons chars ls)
  obtain a st1 where a: "request_chat net P prov (prompt chars) st = (a, st1)" by fastforce
  then have st1: "polite_but remote (owed_by (pv_id prov) a) st1"
    using polite_try_payloads [OF assms Cons.prems] by (simp add: request_chat_def)
  show ?case
  proof (cases a)
    case (Inr m)
    with st1 a polite_on_message show ?thesis by (simp add: owed_by_def)
  next
    case (Inl e)
    obtain v st2 where v: "on_error (pv_id prov) chars e st1 = (v, st2)" by fastforce
    then have "polite_state remote st2"
      using polite_on_error [of remote "pv_id prov" e st1 chars] st1 Inl by (metis snd_conv)
    with Cons.IH [of st2] a v Inl show ?thesis by (cases v) auto
  qed
qed simp

lemma polite_hosts_same:
  assumes "polite_but remote owed st" "\<And>pid. get_host pid st' = get_host pid st" "b_now st' = b_now st" "b_log st' = b_log st"
  shows "polite_but remote owed st'"
  using assms by (simp add: polite_but_def settled_def recorded_def)

lemma polite_classify_loop:
  assumes "patient net" "\<forall>p\<in>set provs. remote (pv_id p) = pv_needs_key p" "polite_state remote st"
  shows "polite_state remote (snd (classify_loop net loads P prompt n provs tried st))"
  using assms
proof (induction net loads P prompt n provs tried st rule: classify_loop.induct)
  case (1 net loads P prompt n provs tried st)
  obtain c st1 where c: "choose_backend provs tried st = (c, st1)" by fastforce
  have st1: "polite_state remote st1"
    using choose_simps [OF c] by (intro polite_hosts_same [OF "1.prems"(3)]) auto
  show ?case
  proof (cases c)
    case None
    with c st1 show ?thesis by (simp add: classify_loop.simps [of net loads P prompt n provs tried st])
  next
    case (Some prov)
    obtain v st2 where v: "try_lengths net loads P prov prompt [n, n div 2, n div 4] st1 = (v, st2)" by fastforce
    have "prov \<in> set provs" using choose_candidate [of provs tried st prov st1] c Some by auto
    then have st2: "polite_state remote st2"
      using polite_try_lengths [OF "1.prems"(1) _ st1, of prov loads P prompt "[n, n div 2, n div 4]"] "1.prems"(2) v by auto
    show ?thesis
      using c Some v st2 "1.IH" [OF c [symmetric] Some] "1.prems"(1,2)
      by (auto simp: classify_loop.simps [of net loads P prompt n provs tried st] split: verdict.splits)
  qed
qed

lemma probe_keeps: "h_last_chat (snd (probe_start now h)) = h_last_chat h"
  "h_pause_until h \<le> max now (h_pause_until (snd (probe_start now h)))"
  by (auto simp: probe_start_def Let_def split: option.splits)

lemma polite_host_up:
  assumes "polite_state remote st" "patient net" "host_up net prov st = (up, st')"
  shows "polite_state remote st'"
proof -
  let ?h = "get_host (pv_id prov) st"
  obtain k h where p: "probe_start (b_now st) ?h = (k, h)" by fastforce
  have "host_ok ?h" using assms(1) by (auto simp: polite_but_def)
  then have st1: "polite_state remote (set_host (pv_id prov) h st)"
    using p probe_keeps(1) [where now = "b_now st" and h = ?h] probe_keeps(2) [where now = "b_now st" and h = ?h]
      host_ok_probe(1) [where h = ?h and now = "b_now st"] by (intro polite_set_host [OF assms(1)]) auto
  show ?thesis
  proof (cases k)
    case (Some known)
    with assms(3) p st1 show ?thesis by (auto simp: host_up_def)
  next
    case None
    obtain a st2 where s: "send net (pv_id prov) (GetModels (pv_base_url prov @ ''/models'') (auth_header prov))
        (set_host (pv_id prov) h st) = (a, st2)" by fastforce
    have st2: "polite_state remote st2" using polite_get [OF st1 assms(2) s] by blast
    have "polite_state remote (set_host (pv_id prov) (probe_done (b_now st2) ok (get_host (pv_id prov) st2)) st2)" for ok
      using st2 by (intro polite_model) (auto simp: probe_done_def host_ok_def)
    with assms(3) p None s show ?thesis by (auto simp: host_up_def Let_def)
  qed
qed

lemma polite_any_up: "polite_state remote st \<Longrightarrow> patient net \<Longrightarrow> polite_state remote (snd (any_up net provs ok st))"
proof (induction provs arbitrary: ok st)
  case (Cons p provs)
  obtain up st' where "host_up net p st = (up, st')" by fastforce
  with Cons polite_host_up [OF Cons.prems this] show ?case by simp
qed simp

text \<open>Whether a backend is a remote service is a matter of its id.\<close>

definition remote_id :: "string \<Rightarrow> bool" where
  "remote_id pid = ps_needs_key (preset_or_default pid)"

lemma res_mapM_set: "res_mapM f xs = Inr ys \<Longrightarrow> y \<in> set ys \<Longrightarrow> \<exists>x\<in>set xs. f x = Inr y"
  by (induction xs arbitrary: ys) (fastforce simp: res_bind_def split: sum.splits)+

lemma enabled_here_props:
  assumes "enabled_here cfg st = (r, st')"
  shows "b_now st' = b_now st" "b_log st' = b_log st" "hosts st' = hosts st"
    and "r = Inr provs \<Longrightarrow> p \<in> set provs \<Longrightarrow> remote_id (pv_id p) = pv_needs_key p"
proof -
  show "b_now st' = b_now st" "b_log st' = b_log st" "hosts st' = hosts st"
    using assms by (auto simp: enabled_here_def split: prod.splits)
  assume "r = Inr provs" "p \<in> set provs"
  then obtain rec pid where "provider_row rec pid = Inr p"
    using assms by (auto simp: enabled_here_def enabled_def enabled_of_def split: prod.splits sum.splits dest!: res_mapM_set)
  then show "remote_id (pv_id p) = pv_needs_key p"
    by (auto simp: provider_row_def remote_id_def res_bind_def Let_def split: sum.splits)
qed

text \<open>The uses the program makes of this module, and time that passes between them.\<close>

datatype chat_use = Classify string "string option" "string option" "string option" | Available | Status | Wait time

fun chat_step :: "net \<Rightarrow> (string \<Rightarrow> json option) \<Rightarrow> club \<Rightarrow> obj \<Rightarrow> int \<Rightarrow> chat_use \<Rightarrow> backend \<Rightarrow> backend" where
  "chat_step net loads P cfg n (Classify t mime fname codec) st = snd (classify net loads P cfg n t mime fname codec st)"
| "chat_step net loads P cfg n Available st = snd (available net cfg st)"
| "chat_step net loads P cfg n Status st = snd (backends_status cfg st)"
| "chat_step net loads P cfg n (Wait d) st = st\<lparr>b_now := b_now st + max 0 d\<rparr>"

lemma polite_step:
  assumes "polite_state remote_id st" "patient net"
  shows "polite_state remote_id (chat_step net loads P cfg n u st)"
proof -
  obtain r st0 where e: "enabled_here cfg st = (r, st0)" by fastforce
  have st0: "polite_state remote_id st0"
    using enabled_here_props [OF e] by (intro polite_cong [OF assms(1)]) auto
  show ?thesis
  proof (cases u)
    case (Classify t mime fname codec)
    have "polite_state remote_id (snd (classify_loop net loads P prompt n provs [] st0))" if "r = Inr provs" for provs prompt
      using enabled_here_props(4) [OF e that] by (intro polite_classify_loop [OF assms(2) _ st0]) auto
    with e st0 Classify show ?thesis by (auto simp: classify_def split: sum.splits)
  next
    case Available
    have "any_up net provs False st0 = (ok, st1) \<Longrightarrow> polite_state remote_id st1" for provs ok st1
      using polite_any_up [OF st0 assms(2), of provs False] by simp
    with e st0 Available show ?thesis by (auto simp: available_def split: sum.splits prod.splits)
  next
    case Status
    have "polite_state remote_id (ensure_all provs st0)" for provs
      by (intro polite_hosts_same [OF st0]) simp_all
    with e st0 Status show ?thesis by (auto simp: backends_status_def Let_def split: sum.splits)
  next
    case (Wait d)
    then show ?thesis by (simp add: polite_later [OF assms(1)])
  qed
qed


text \<open>A refusing service and a settings file that uses it.\<close>

definition refusing_net :: net where
  "refusing_net es c = (Answered 429 None None, 1)"

definition ex_groq :: obj where
  "ex_groq = [(''active'', JList [JStr ''groq'']), (''providers'', JObj [(''groq'', JObj [(''api_key'', JStr ''k'')])])]"

definition ex_backend :: backend where
  "ex_backend = \<lparr>llm_file = Some (Parsed (JObj ex_groq)), llm_cache = None, hosts = Map.empty, b_now = 1, b_log = []\<rparr>"


section \<open>A working backend is found\<close>

lemma model_id_configured:
  assumes "truthy (pv_model prov)"
  shows "\<exists>model st1. model_id net prov st = (Inr model, st1) \<and> b_now st1 = b_now st \<and> b_log st1 = b_log st
     \<and> (\<forall>q. h_pause_until (get_host q st1) = h_pause_until (get_host q st))
     \<and> (\<forall>q. q \<noteq> pv_id prov \<longrightarrow> get_host q st1 = get_host q st)"
  using assms by (cases "truthy (h_model (get_host (pv_id prov) st))") (simp_all add: model_id_def Let_def)

text \<open>Every backend has a model configured, and chats are answered with bodies this module can read.\<close>

definition readable :: "(string \<Rightarrow> json option) \<Rightarrow> club \<Rightarrow> answer \<Rightarrow> bool" where
  "readable loads P a \<longleftrightarrow>
     (case a of
        Failed \<Rightarrow> True
      | Answered s r None \<Rightarrow> True
      | Answered s r (Some body) \<Rightarrow>
          error_status s \<or> (\<exists>m meta. first_message body = Inr m \<and> parse_meta loads P m = Inr meta))"

definition chats_readable :: "net \<Rightarrow> (string \<Rightarrow> json option) \<Rightarrow> club \<Rightarrow> bool" where
  "chats_readable net loads P \<longleftrightarrow> (\<forall>es u k body. readable loads P (fst (net es (PostChat u k body))))"

text \<open>A backend whose every chat yields a message with property \<open>Q\<close>, and one that yields metadata.\<close>

definition answers :: "net \<Rightarrow> (obj \<Rightarrow> bool) \<Rightarrow> provider \<Rightarrow> bool" where
  "answers net Q b \<longleftrightarrow> (\<forall>es k body. \<exists>s r reply m t.
     net es (PostChat (pv_base_url b @ ''/chat/completions'') k body) = (Answered s r (Some reply), t)
     \<and> s < 400 \<and> first_message reply = Inr m \<and> Q m)"

definition works :: "net \<Rightarrow> (string \<Rightarrow> json option) \<Rightarrow> club \<Rightarrow> provider \<Rightarrow> bool" where
  "works net loads P b \<longleftrightarrow> answers net (\<lambda>m. \<exists>meta. parse_meta loads P m = Inr (Some meta)) b"

lemma try_payloads_effect:
  assumes "patient net" "chats_readable net loads P" "truthy (pv_model prov)"
  shows "try_payloads net P prov user extras last_resp st = (r, st') \<Longrightarrow>
     b_now st \<le> b_now st' \<and> (\<forall>q. q \<noteq> pv_id prov \<longrightarrow> get_host q st' = get_host q st)
     \<and> (case r of Inl e \<Rightarrow> (\<forall>x. e \<noteq> Raised x) | Inr m \<Rightarrow> \<exists>meta. parse_meta loads P m = Inr meta)"
proof (induction extras arbitrary: last_resp st)
  case (Cons extra rest)
  obtain model st1 where m: "model_id net prov st = (Inr model, st1)" "b_now st1 = b_now st"
    "\<And>q. q \<noteq> pv_id prov \<Longrightarrow> get_host q st1 = get_host q st"
    using model_id_configured [OF assms(3), of net st] by blast
  let ?h = "get_host (pv_id prov) st1"
  let ?c = "PostChat (pv_base_url prov @ ''/chat/completions'') (auth_header prov) (chat_body P model user extra)"
  obtain n h where p: "pace (pv_needs_key prov) (b_now st1) ?h = (n, h)" by fastforce
  then have n: "b_now st1 \<le> n" by (auto simp: pace_def pace_wait_def Let_def)
  obtain a st2 where s: "send net (pv_id prov) ?c (set_host (pv_id prov) h (st1\<lparr>b_now := n\<rparr>)) = (a, st2)" by fastforce
  obtain t where st2: "st2 = (set_host (pv_id prov) h (st1\<lparr>b_now := n\<rparr>))\<lparr>b_now := n + t,
      b_log := b_log st1 @ [\<lparr>ev_host = pv_id prov, ev_call = ?c, ev_start = n, ev_answer = a, ev_end = n + t\<rparr>]\<rparr>"
    "net (b_log st1) ?c = (a, t)"
    using send_spec [OF s] by simp blast
  have "0 \<le> snd (net (b_log st1) ?c)" "readable loads P (fst (net (b_log st1) ?c))"
    using assms(1,2) unfolding patient_def chats_readable_def by blast+
  then have t: "0 \<le> t" "readable loads P a" using st2(2) by simp_all
  have now: "b_now st \<le> b_now st2" "\<And>q. q \<noteq> pv_id prov \<Longrightarrow> get_host q st2 = get_host q st"
    using n t(1) m by (simp_all add: st2(1))
  show ?case
    using Cons.prems Cons.IH [of _ st2] m p s now t(2)
    by (fastforce simp: Let_def readable_def split: if_splits answer.splits option.splits sum.splits)
qed (auto split: sum.splits)

lemma try_lengths_effect:
  assumes "patient net" "chats_readable net loads P" "truthy (pv_model prov)"
  shows "try_lengths net loads P prov prompt ls st = (v, st') \<Longrightarrow>
     b_now st \<le> b_now st' \<and> (\<forall>q. q \<noteq> pv_id prov \<longrightarrow> get_host q st' = get_host q st)
     \<and> (v = NextBackend \<or> (\<exists>meta. v = Done meta))"
proof (induction ls arbitrary: st)
  case (Cons chars ls)
  obtain a st1 where a: "request_chat net P prov (prompt chars) st = (a, st1)" by fastforce
  note e1 = try_payloads_effect [OF assms, of "prompt chars" "attempts (build_schema P)" None st a st1]
  show ?case
  proof (cases a)
    case (Inr m)
    with a e1 obtain meta where "parse_meta loads P m = Inr meta" by (auto simp: request_chat_def)
    with Cons.prems a e1 Inr show ?thesis
      by (auto simp: request_chat_def on_message_def Let_def split: option.splits)
  next
    case (Inl e)
    obtain v2 st2 where v: "on_error (pv_id prov) chars e st1 = (v2, st2)" by fastforce
    have "b_now st2 = b_now st1 \<and> (\<forall>q. q \<noteq> pv_id prov \<longrightarrow> get_host q st2 = get_host q st1) \<and> (v2 = NextBackend \<or> v2 = Shorter)"
      using v a e1 Inl by (auto simp: request_chat_def on_error_def Let_def split: chat_error.splits option.splits if_splits)
    with Cons.prems Cons.IH [of st2] a e1 v Inl show ?thesis by (auto simp: request_chat_def)
  qed
qed simp

text \<open>A backend that answers is asked once.\<close>

lemma answers_request:
  assumes "answers net Q b" "truthy (pv_model b)" "\<not> is_paused (b_now st) (get_host (pv_id b) st)"
  shows "\<exists>m st'. request_chat net P b user st = (Inr m, st') \<and> Q m"
proof -
  obtain model st1 where m: "model_id net b st = (Inr model, st1)" "b_now st1 = b_now st"
    "h_pause_until (get_host (pv_id b) st1) = h_pause_until (get_host (pv_id b) st)"
    using model_id_configured [OF assms(2), of net st] by blast
  then have up: "\<not> is_paused (b_now st1) (get_host (pv_id b) st1)" using assms(3) by (simp add: is_paused_def)
  obtain n h where p: "pace (pv_needs_key b) (b_now st1) (get_host (pv_id b) st1) = (n, h)" by fastforce
  let ?c = "PostChat (pv_base_url b @ ''/chat/completions'') (auth_header b)
      (chat_body P model user (Some (build_schema P), Some ''none''))"
  obtain s r reply msg t where w: "net (b_log st1) ?c = (Answered s r (Some reply), t)" "s < 400"
    "first_message reply = Inr msg" "Q msg"
    using assms(1) unfolding answers_def by blast
  have "\<not> error_status s" "s \<noteq> 400" using w(2) by (auto simp: error_status_def)
  with m p w up show ?thesis by (simp add: request_chat_def attempts_def Let_def send_def)
qed

lemma works_try_lengths:
  assumes "works net loads P b" "truthy (pv_model b)" "\<not> is_paused (b_now st) (get_host (pv_id b) st)"
  shows "\<exists>meta. fst (try_lengths net loads P b prompt (l # ls) st) = Done meta"
proof -
  obtain m meta st' where "request_chat net P b (prompt l) st = (Inr m, st')" "parse_meta loads P m = Inr (Some meta)"
    using answers_request [OF assms(1) [unfolded works_def] assms(2,3)] by blast
  then show ?thesis by (simp add: on_message_def Let_def)
qed

lemma choose_some:
  assumes "b \<in> set provs" "pv_id b \<notin> set tried" "\<not> is_paused (b_now st) (get_host (pv_id b) st)"
  shows "\<exists>p. fst (choose_backend provs tried st) = Some p"
proof -
  let ?s = "sort_key (\<lambda>p. h_last_chat (get_host (pv_id p) st)) (filter (\<lambda>p. \<not> is_paused (b_now st) (get_host (pv_id p) st))
      (filter (\<lambda>p. pv_id p \<notin> set tried) provs))"
  have "b \<in> set ?s" using assms by simp
  then have "?s \<noteq> []" by (metis empty_iff list.set(1))
  then show ?thesis by (cases ?s) (auto simp: choose_backend_def Let_def)
qed

lemma classify_loop_finds:
  assumes "patient net" "chats_readable net loads P" "\<forall>p\<in>set provs. truthy (pv_model p)" "works net loads P b"
    and "inj_on pv_id (set provs)" "b \<in> set provs" "pv_id b \<notin> set tried" "\<not> is_paused (b_now st) (get_host (pv_id b) st)"
  shows "\<exists>meta. fst (classify_loop net loads P prompt n provs tried st) = Inr (Some meta)"
  using assms
proof (induction net loads P prompt n provs tried st rule: classify_loop.induct)
  case (1 net loads P prompt n provs tried st)
  note prems = "1.prems"
  obtain c st1 where c: "choose_backend provs tried st = (c, st1)" by fastforce
  obtain p where p: "c = Some p" using choose_some [OF prems(6-8)] c by auto
  have st1: "b_now st1 = b_now st" "get_host q st1 = get_host q st" for q using choose_simps [OF c] by auto
  have p_in: "p \<in> set provs" "pv_id p \<notin> set tried" using choose_candidate [of provs tried st p st1] c p by auto
  obtain v st2 where v: "try_lengths net loads P p prompt [n, n div 2, n div 4] st1 = (v, st2)" by fastforce
  have eff: "b_now st1 \<le> b_now st2" "q \<noteq> pv_id p \<Longrightarrow> get_host q st2 = get_host q st1" "v = NextBackend \<or> (\<exists>meta. v = Done meta)" for q
    using try_lengths_effect [OF prems(1,2) _ v] prems(3) p_in by auto
  show ?case
  proof (cases "pv_id p = pv_id b")
    case True
    then have "p = b" using prems(5,6) p_in by (auto dest: inj_onD)
    then have "\<exists>meta. v = Done meta"
      using works_try_lengths [OF prems(4), of st1 prompt n "[n div 2, n div 4]"] prems(3,6,8) st1 v by auto
    then show ?thesis using c p v by (auto simp: classify_loop.simps [of net loads P prompt n provs tried st])
  next
    case False
    then have "\<not> is_paused (b_now st2) (get_host (pv_id b) st2)"
      using prems(8) st1 eff(1) eff(2) [of "pv_id b"] by (auto simp: is_paused_def)
    then have "\<exists>meta. fst (classify_loop net loads P prompt n provs (pv_id p # tried) st2) = Inr (Some meta)" if "v = NextBackend"
      using "1.IH"(2) [OF c [symmetric] p v [symmetric] that] prems False by auto
    then show ?thesis using eff(3) c p v by (auto simp: classify_loop.simps [of net loads P prompt n provs tried st])
  qed
qed


section \<open>Replies\<close>

lemma brace_end_append: "brace_end d s = Some n \<Longrightarrow> brace_end d (s @ t) = Some n"
  by (induction d s arbitrary: n rule: brace_end.induct) (auto split: if_splits)

lemma scan_object_finds:
  assumes "CHR ''{'' \<notin> set pre" "hd body = CHR ''{''" "brace_end 0 body = Some (length body)" "loads body = Some j"
  shows "scan_object loads (pre @ body @ post) = Some j"
  using assms(1)
proof (induction pre)
  case Nil
  obtain r where r: "body = CHR ''{'' # r" using assms(2,3) by (cases body) auto
  have "brace_end 0 (body @ post) = Some (length body)" by (rule brace_end_append [OF assms(3)])
  with assms(4) r show ?case by simp
qed auto

text \<open>
  A reply that wraps one JSON object in prose is understood: text without an opening brace before
  the object and anything after it do not matter.
\<close>

theorem reply_in_prose:
  assumes "jget message ''content'' = JStr (pre @ body @ post)" "loads (pre @ body @ post) = None"
    and "CHR ''{'' \<notin> set pre" "hd body = CHR ''{''" "brace_end 0 body = Some (length body)" "loads body = Some (JObj out)"
    and "\<And>kvs. jget message ''parsed'' \<noteq> JObj kvs" "jget message ''tool_calls'' = JNull"
    and "jget message ''reasoning_content'' = JNull" "jget message ''reasoning'' = JNull"
  shows "parse_json_reply loads message = Inr (JObj out)"
proof -
  have "pre @ body @ post \<noteq> []" using assms(5) by (cases body) auto
  then have flat: "flatten_text (JStr (pre @ body @ post)) = [pre @ body @ post]" by (simp only: flatten_text.simps if_False)
  have tool: "tool_calls loads message = Inr None" by (simp add: tool_calls_def assms(8) jor_def)
  have "flatten_text JNull = []" by simp
  then have cands: "concat (map (\<lambda>k. flatten_text (jget message k)) [''content'', ''reasoning_content'', ''reasoning''])
      = [pre @ body @ post]"
    by (simp only: list.map concat.simps assms(1,9,10) flat append.simps append_Nil2)
  have found: "first_some (scan_object loads) [pre @ body @ post] = Some (JObj out)" "first_some loads [pre @ body @ post] = None"
    using scan_object_finds [OF assms(3-5), of loads "JObj out" post] assms(2,6) by simp_all
  show ?thesis
    unfolding parse_json_reply_def tool cands res_bind_def Let_def found sum.case option.case
  proof (cases "jget message ''parsed''")
    case (JObj kvs)
    with assms(7) show "(case jget message ''parsed'' of JObj [] \<Rightarrow> Inr (JObj out) | JObj (kv # kvs) \<Rightarrow> Inr (JObj (kv # kvs))
        | _ \<Rightarrow> Inr (JObj out)) = Inr (JObj out)" by blast
  qed simp_all
qed

lemma parse_meta_form:
  assumes "parse_meta loads P m = Inr (Some meta)"
  shows "map fst meta = [''in_scope'', ''field'', ''topic'', ''keywords'', ''license'']
    \<and> (\<exists>b. jget meta ''in_scope'' = JBool b) \<and> (\<exists>x. jget meta ''field'' = JStr (normalize_field P x))
    \<and> (\<exists>s. jget meta ''topic'' = JStr s \<and> length s \<le> 200) \<and> (\<exists>s. jget meta ''keywords'' = JStr s \<and> length s \<le> 500)
    \<and> (jget meta ''license'' = JNull \<or> (\<exists>s. jget meta ''license'' = JStr s \<and> length s \<le> 200))"
proof -
  obtain out where out: "parse_json_reply loads m = Inr out"
    using assms by (cases "parse_json_reply loads m") (auto simp: parse_meta_def res_bind_def)
  obtain o1 where "out = JObj o1"
    using assms out by (cases out) (simp_all add: parse_meta_def res_bind_def)
  with assms out have meta: "meta = [(''in_scope'', JBool (in_scope o1)), (''field'', JStr (normalize_field P (jget o1 ''field''))),
      (''topic'', JStr (take 200 (case map_of o1 ''topic'' of None \<Rightarrow> [] | Some v \<Rightarrow> py_str v))),
      (''keywords'', JStr (take 500 (keywords_text (jor (jget o1 ''keywords'') (JList []))))),
      (''license'', if truthy (jget o1 ''license'') then JStr (take 200 (py_str (jget o1 ''license''))) else JNull)]"
    by (simp add: parse_meta_def res_bind_def)
  show ?thesis unfolding meta by (simp add: jget_simps) blast
qed

definition meta_form :: "club \<Rightarrow> string \<Rightarrow> obj \<Rightarrow> bool" where
  "meta_form P pid meta \<longleftrightarrow>
     map fst meta = [''in_scope'', ''field'', ''topic'', ''keywords'', ''license'', ''model'', ''provider'']
     \<and> (\<exists>b. jget meta ''in_scope'' = JBool b) \<and> (\<exists>x. jget meta ''field'' = JStr (normalize_field P x))
     \<and> (\<exists>s. jget meta ''topic'' = JStr s \<and> length s \<le> 200) \<and> (\<exists>s. jget meta ''keywords'' = JStr s \<and> length s \<le> 500)
     \<and> (jget meta ''license'' = JNull \<or> (\<exists>s. jget meta ''license'' = JStr s \<and> length s \<le> 200))
     \<and> jget meta ''provider'' = JStr pid"

lemma on_message_form: "fst (on_message loads P prov m st) = Done meta \<Longrightarrow> meta_form P (pv_id prov) meta"
proof -
  assume "fst (on_message loads P prov m st) = Done meta"
  then obtain base x where b: "parse_meta loads P m = Inr (Some base)"
    "meta = base @ [(''model'', x), (''provider'', JStr (pv_id prov))]"
    by (auto simp: on_message_def Let_def split: sum.splits option.splits)
  from parse_meta_form [OF b(1)] obtain a b c d e where
    "base = [(''in_scope'', a), (''field'', b), (''topic'', c), (''keywords'', d), (''license'', e)]"
    by (auto simp: map_eq_Cons_conv)
  with parse_meta_form [OF b(1)] b(2) show ?thesis by (simp add: meta_form_def jget_simps)
qed

lemma try_lengths_form: "fst (try_lengths net loads P prov prompt ls st) = Done meta \<Longrightarrow> meta_form P (pv_id prov) meta"
proof (induction ls arbitrary: st)
  case (Cons l ls)
  then show ?case
    by (auto simp: on_error_def Let_def dest: on_message_form
        split: prod.splits sum.splits verdict.splits chat_error.splits option.splits if_splits)
qed simp

lemma classify_loop_form:
  "classify_loop net loads P prompt n provs tried st = (Inr (Some meta), st') \<Longrightarrow> \<exists>p\<in>set provs. meta_form P (pv_id p) meta"
proof (induction net loads P prompt n provs tried st rule: classify_loop.induct)
  case (1 net loads P prompt n provs tried st)
  obtain c st1 where c: "choose_backend provs tried st = (c, st1)" by fastforce
  show ?case
  proof (cases c)
    case None
    with "1.prems" c show ?thesis by (simp add: classify_loop.simps [of net loads P prompt n provs tried st])
  next
    case (Some prov)
    obtain v st2 where v: "try_lengths net loads P prov prompt [n, n div 2, n div 4] st1 = (v, st2)" by fastforce
    have p: "prov \<in> set provs" using choose_candidate [of provs tried st prov st1] c Some by auto
    have d: "v = Done m \<Longrightarrow> meta_form P (pv_id prov) m" for m
      using try_lengths_form [of net loads P prov prompt "[n, n div 2, n div 4]" st1 m] v by simp
    show ?thesis
      using "1.prems" c Some v p d "1.IH" [OF c [symmetric] Some v [symmetric]]
      by (cases v) (auto simp: classify_loop.simps [of net loads P prompt n provs tried st])
  qed
qed


text \<open>
  A reply that is JSON but not an object, say a bare number, is neither metadata nor a failure of
  the backend: \<open>AttributeError\<close> leaves \<open>classify\<close>, and no other backend is asked.
\<close>

theorem bare_json_reply_escapes:
  assumes "enabled_here cfg st = (Inr [b], st0)" "truthy (pv_model b)"
    and "\<not> is_paused (b_now st) (get_host (pv_id b) st)"
    and "answers net (\<lambda>m. m = [(''content'', JStr s), (''_finish'', JNull)]) b" "s \<noteq> []" "loads s = Some (JInt k)"
  shows "fst (classify net loads P cfg n t mime filename codec st) = Inl AttributeError"
proof -
  let ?prompt = "user_prompt t mime filename codec"
  have host: "get_host q st0 = get_host q st" "b_now st0 = b_now st" for q
    using enabled_here_props(1,3) [OF assms(1)] by (simp_all add: get_host_def)
  have "choose_backend [b] [] st0 = (Some b, ensure_all [b] st0)"
    using assms(3) host by (simp add: choose_backend_def Let_def)
  moreover obtain st2 where "request_chat net P b (?prompt n) (ensure_all [b] st0) = (Inr [(''content'', JStr s), (''_finish'', JNull)], st2)"
    using answers_request [OF assms(4,2), of "ensure_all [b] st0" P "?prompt n"] assms(3) host by auto
  moreover have "parse_meta loads P [(''content'', JStr s), (''_finish'', JNull)] = Inl AttributeError"
    using assms(5,6) by (simp add: parse_meta_def parse_json_reply_def tool_calls_def jget_simps jor_def res_bind_def)
  ultimately show ?thesis
    using assms(1) by (simp add: classify_def classify_loop.simps [of net loads P ?prompt n "[b]" "[]" st0] on_message_def)
qed

section \<open>Instances\<close>

definition ex_groq_row :: provider where
  "ex_groq_row = \<lparr>pv_id = ''groq'', pv_name = JStr ''Groq'', pv_base_url = ''https://api.groq.com/openai/v1'',
     pv_model = JStr ''openai/gpt-oss-20b'', pv_api_key = JStr ''k'', pv_needs_key = True\<rparr>"

lemma ex_enabled: "\<exists>st0. enabled_here [] ex_backend = (Inr [ex_groq_row], st0)"
proof -
  have "fst (enabled_here [] ex_backend) = Inr [ex_groq_row]" by code_simp
  then show ?thesis by (metis prod.collapse)
qed

lemma ex_not_paused: "\<not> is_paused (b_now ex_backend) (get_host pid ex_backend)"
  by (simp add: is_paused_def get_host_def ensure_host_def ex_backend_def new_host_def)

definition reply_of :: "obj \<Rightarrow> json" where
  "reply_of m = JObj [(''choices'', JList [JObj [(''message'', JObj m)]])]"

definition replying_net :: "obj \<Rightarrow> net" where
  "replying_net m es c = (Answered 200 None (Some (reply_of m)), 1)"

lemma replying_answers: "m \<noteq> [] \<Longrightarrow> answers (replying_net m) (\<lambda>msg. msg = AList.update ''_finish'' JNull m) b"
  by (simp add: answers_def replying_net_def reply_of_def first_message_def jor_def jget_simps)


theorem bare_json_reply_escapes_witness:
  "fst (classify (replying_net [(''content'', JStr ''42'')]) (\<lambda>s. Some (JInt 42)) ex_club [] 3000
     ''text'' None None None ex_backend) = Inl AttributeError"
proof -
  obtain st0 where e: "enabled_here [] ex_backend = (Inr [ex_groq_row], st0)" using ex_enabled by blast
  show ?thesis
    by (rule bare_json_reply_escapes [OF e _ ex_not_paused, where s = "''42''" and k = 42])
      (use replying_answers [of "[(''content'', JStr ''42'')]"] in \<open>simp_all add: ex_groq_row_def\<close>)
qed

theorem reply_in_prose_witness:
  "parse_json_reply (\<lambda>s. if s = ''{}'' then Some (JObj []) else None) [(''content'', JStr ''Sure: {}.'')] = Inr (JObj [])"
  by (rule reply_in_prose [where pre = "''Sure: ''" and body = "''{}''" and post = "''.''"]) (simp_all add: jget_simps)

end
