(* ===== verification/Auth_Laws.thy ===== *)
theory Auth_Laws
  imports Auth
begin

text \<open>
  Laws of \<open>observer/auth.py\<close>: session tokens survive their encoding, a token is accepted exactly
  until it expires or the password changes, a stored password verifies exactly what derives the
  same digest, and both rate limits bound the attempts of an address in every window.
\<close>

section \<open>Encodings\<close>

text \<open>The encoding without its padding.\<close>

fun b64_core :: "bytes \<Rightarrow> string" where
  "b64_core [] = []"
| "b64_core [a] = [b64_char (unat a div 4), b64_char (unat a mod 4 * 16)]"
| "b64_core [a, b] =
     [b64_char (unat a div 4), b64_char (unat a mod 4 * 16 + unat b div 16), b64_char (unat b mod 16 * 4)]"
| "b64_core (a # b # c # r) =
     [b64_char (unat a div 4), b64_char (unat a mod 4 * 16 + unat b div 16),
      b64_char (unat b mod 16 * 4 + unat c div 64), b64_char (unat c mod 64)] @ b64_core r"

lemma length_B64: "length B64_ALPHABET = 64"
  by (simp add: B64_ALPHABET_def)

lemma b64_char_in: "b64_char n \<in> set B64_ALPHABET"
  by (simp add: b64_char_def length_B64)

lemma b64_alphabet_ascii: "c \<in> set B64_ALPHABET \<Longrightarrow> c \<noteq> CHR ''='' \<and> c \<noteq> CHR ''+'' \<and> c \<noteq> CHR ''/'' \<and> (of_char c :: nat) < 128"
  by (auto simp: B64_ALPHABET_def)

lemma b64_char_not_pad [simp]: "b64_char n \<noteq> CHR ''=''"
  using b64_alphabet_ascii [OF b64_char_in] by blast

lemma b64_value_char [simp]: "b64_value (b64_char n) = Some (n mod 64)"
proof -
  have "distinct B64_ALPHABET" by (simp add: B64_ALPHABET_def)
  then have "index_in B64_ALPHABET (B64_ALPHABET ! (n mod 64)) = Some (n mod 64)"
    by (intro index_in_nth) (auto simp: length_B64)
  with b64_alphabet_ascii [OF b64_char_in [of n]] show ?thesis
    by (simp add: b64_value_def b64_char_def)
qed

lemma b64_core_chars: "c \<in> set (b64_core raw) \<Longrightarrow> c \<in> set B64_ALPHABET"
  by (induction raw rule: b64_core.induct) (auto simp: b64_char_in)

lemma b64_pad: "urlsafe_b64encode raw = b64_core raw @ replicate (nat (- int (length (b64_core raw)) mod 4)) (CHR ''='')"
proof (induction raw rule: b64_core.induct)
  case (4 a b c r)
  have "- (4 + int n) mod 4 = - int n mod 4" for n by presburger
  with 4 show ?case by (simp add: algebra_simps)
qed (simp_all add: numeral_2_eq_2)

lemma dropWhile_absent: "x \<notin> set xs \<Longrightarrow> dropWhile (\<lambda>c. c = x) (replicate n x @ xs) = xs"
  by (induction n) (cases xs, auto)

lemma b64e_core: "b64e raw = b64_core raw"
proof -
  have "CHR ''='' \<notin> set (b64_core raw)"
    using b64_core_chars b64_alphabet_ascii by blast
  then show ?thesis
    by (simp add: b64e_def py_rstrip_def b64_pad [of raw] dropWhile_absent)
qed

lemma digit_split: "y < (m :: nat) \<Longrightarrow> (x * m + y) div m = x" "y < (m :: nat) \<Longrightarrow> (x * m + y) mod m = y"
  by simp_all

lemma byte_split:
  fixes a b c :: byte
  shows "(of_nat (unat a div 4 * 4 + (unat a mod 4 * 16 + unat b div 16) div 16) :: byte) = a"
    and "(of_nat ((unat a mod 4 * 16 + unat b div 16) mod 16 * 16 + (unat b mod 16 * 4 + unat c div 64) div 4) :: byte) = b"
    and "(of_nat ((unat b mod 16 * 4 + unat c div 64) mod 4 * 64 + unat c mod 64) :: byte) = c"
proof -
  have [simp]: "of_nat (unat x) = x" for x :: byte by simp
  have "unat b div 16 < 16" "unat c div 64 < 4" using byte_less [of b] byte_less [of c] by auto
  then show "(of_nat (unat a div 4 * 4 + (unat a mod 4 * 16 + unat b div 16) div 16) :: byte) = a"
    "(of_nat ((unat a mod 4 * 16 + unat b div 16) mod 16 * 16 + (unat b mod 16 * 4 + unat c div 64) div 4) :: byte) = b"
    "(of_nat ((unat b mod 16 * 4 + unat c div 64) mod 4 * 64 + unat c mod 64) :: byte) = c"
    by (simp_all only: digit_split div_mult_mod_eq \<open>\<And>x :: byte. of_nat (unat x) = x\<close>)
qed

lemma a2b_encode: "a2b_base64 0 0 0 (urlsafe_b64encode raw) = Some raw"
proof (induction raw rule: urlsafe_b64encode.induct)
  case (2 a)
  have "unat a div 4 < 64" "unat a mod 4 * 16 < 64" using byte_less [of a] by auto
  then show ?case using byte_split(1) [of a 0] by simp
next
  case (3 a b)
  have "unat a div 4 < 64" "unat a mod 4 * 16 + unat b div 16 < 64" "unat b mod 16 * 4 < 64"
    using byte_less [of a] byte_less [of b] by auto
  then show ?case using byte_split(1) [of a b] byte_split(2) [of a b 0] by simp
next
  case (4 a b c r)
  have "unat a div 4 < 64" "unat a mod 4 * 16 + unat b div 16 < 64" "unat b mod 16 * 4 + unat c div 64 < 64"
    using byte_less [of a] byte_less [of b] byte_less [of c] by auto
  then show ?case using 4 byte_split(1) [of a b] byte_split(2) [of a b c] byte_split(3) [of b c] by simp
qed simp

lemma b64d_b64e: "b64d (b64e raw) = Some raw"
proof -
  have "list_all (\<lambda>c. (of_char c :: nat) < 128) (urlsafe_b64encode raw)"
    using b64_core_chars [of _ raw] b64_alphabet_ascii by (auto simp: b64_pad [of raw] list_all_iff)
  then show ?thesis
    unfolding b64d_def urlsafe_b64decode_def b64e_core b64_pad [of raw, symmetric]
    by (simp add: a2b_encode)
qed

lemma int_digits_dec: "ds \<noteq> [] \<Longrightarrow> \<forall>d\<in>set ds. d < 10 \<Longrightarrow> int_digits b (map (\<lambda>d. DIGITS ! d) ds) = Some ds"
proof (induction ds arbitrary: b)
  case (Cons d ds)
  then have "index_in DIGITS (DIGITS ! d) = Some d" by (intro index_in_nth) (auto simp: DIGITS_props)
  with Cons show ?case by (cases "ds = []") auto
qed simp

lemma int_digits_dec_nat: "\<exists>ds. int_digits False (dec_nat n) = Some ds \<and> be_value 10 ds = n"
proof (cases "n = 0")
  case True
  then show ?thesis by (simp add: dec_nat_def DIGITS_def be_value_def)
next
  case False
  then have "be_digits 10 n \<noteq> []" by (simp add: be_digits.simps)
  then have "int_digits False (map (\<lambda>d. DIGITS ! d) (be_digits 10 n)) = Some (be_digits 10 n)"
    by (rule int_digits_dec) (auto dest: be_digits_less [rotated])
  with False show ?thesis by (simp add: dec_nat_def be_value_be_digits)
qed

lemma digit_char_props: "digit_char c \<Longrightarrow> \<not> py_isspace c \<and> c \<noteq> CHR ''-'' \<and> c \<noteq> CHR ''+'' \<and> c \<noteq> CHR '':'' \<and> (of_char c :: nat) < 128"
  by (auto simp: digit_char_def DIGITS_def py_isspace_def)

lemma dec_int_chars: "c \<in> set (dec_int n) \<Longrightarrow> digit_char c \<or> c = CHR ''-''"
  using dec_nat_digits by (auto simp: dec_int_def split: if_splits)

lemma int_of_str_dec_int [simp]: "int_of_str (dec_int n) = Some n"
proof -
  have strip: "py_strip (dec_int n) = dec_int n"
    by (rule py_strip_id) (use dec_int_chars digit_char_props in \<open>fastforce simp: py_isspace_def\<close>)
  show ?thesis
  proof (cases "n < 0")
    case True
    obtain ds where "int_digits False (dec_nat (nat (- n))) = Some ds" "be_value 10 ds = nat (- n)"
      using int_digits_dec_nat by blast
    with True strip show ?thesis by (simp add: int_of_str_def dec_int_def)
  next
    case False
    obtain ds where ds: "int_digits False (dec_nat (nat n)) = Some ds" "be_value 10 ds = nat n"
      using int_digits_dec_nat by blast
    obtain c r where "dec_nat (nat n) = c # r" using dec_nat_not_Nil [of "nat n"] by (cases "dec_nat (nat n)") auto
    moreover from this have "digit_char c" using dec_nat_digits [of c "nat n"] by simp
    ultimately show ?thesis using False strip ds digit_char_props [of c] by (simp add: int_of_str_def dec_int_def)
  qed
qed

lemma ascii_roundtrip: "\<forall>c\<in>set s. (of_char c :: nat) < 128 \<Longrightarrow> ascii_decode (ascii_encode s) = Some s"
  by (auto simp: ascii_decode_def ascii_encode_def unat_of_nat list_all_iff intro!: map_idI)

lemma hex_chars: "c \<in> set (hex_bytes bs) \<Longrightarrow> c \<in> set ''0123456789abcdef''"
proof -
  have nth: "''0123456789abcdef'' ! (n mod 16) \<in> set ''0123456789abcdef''" for n
    by (rule nth_mem) simp
  have "set (hex2 n) \<subseteq> set ''0123456789abcdef''" for n
    unfolding hex2_def using nth [of n] nth [of "n div 16"] by (simp only: list.set insert_subset) blast
  then show "c \<in> set (hex_bytes bs) \<Longrightarrow> c \<in> set ''0123456789abcdef''"
    unfolding hex_bytes_def set_concat set_map by blast
qed

lemma hex_bytes_Nil: "hex_bytes bs = [] \<longleftrightarrow> bs = []"
  by (cases bs) (auto simp: hex_bytes_def hex2_def)

lemma payload_fields_session:
  assumes "nonce \<noteq> []"
  shows "payload_fields (session_payload e (hex_bytes nonce) r) = Some (e, r)"
proof -
  let ?s = "dec_int e @ '':'' @ hex_bytes nonce @ '':'' @ dec_int r"
  have hex: "c \<noteq> CHR '':'' \<and> (of_char c :: nat) < 128" if "c \<in> set (hex_bytes nonce)" for c
    using hex_chars [OF that] by auto
  have dec: "c \<noteq> CHR '':'' \<and> (of_char c :: nat) < 128" if "c \<in> set (dec_int n)" for c n
    using dec_int_chars [OF that] digit_char_props [of c] by auto
  have "ascii_decode (ascii_encode ?s) = Some ?s"
    by (rule ascii_roundtrip) (use hex dec in auto)
  moreover have "split_by (\<lambda>c. c = CHR '':'') ?s = [dec_int e, hex_bytes nonce, dec_int r]"
    using hex dec by (simp add: split_by_append_sep split_by_id)
  ultimately show ?thesis
    using assms by (simp add: payload_fields_def session_payload_def hex_bytes_Nil)
qed

section \<open>Sessions\<close>

text \<open>
  What the theorems assume of the libraries: HMAC-SHA256 digests and session keys of 32 bytes, and
  key derivations that give some bytes.
\<close>

definition crypto_ok :: "crypto \<Rightarrow> bool" where
  "crypto_ok C \<longleftrightarrow> (\<forall>k m. length (hmac_sha256 C k m) = 32)
     \<and> (\<forall>raw salt n r p len. scrypt C raw salt n r p len \<noteq> Inr [])
     \<and> (\<forall>raw salt i len. pbkdf2_sha256 C raw salt i len \<noteq> Inr [])"

definition draws_ok :: "draws \<Rightarrow> bool" where
  "draws_ok w \<longleftrightarrow> length (w_key w) = 32 \<and> w_nonce w \<noteq> [] \<and> w_salt w \<noteq> []"

lemma session_secret_file: "session_secret w st = (key, st') \<Longrightarrow> draws_ok w \<Longrightarrow>
    \<exists>k. session_file st' = Some k \<and> 32 \<le> length k \<and> take 32 k = key"
  by (auto simp: session_secret_def draws_ok_def split: option.splits if_splits)

lemma session_secret_kept:
  assumes "session_secret w st = (key, st')" "draws_ok w" "session_file st'' = session_file st'"
  shows "session_secret w' st'' = (key, st'')"
  using session_secret_file [OF assms(1,2)] assms(3) by (auto simp: session_secret_def)

lemma session_secret_admin: "session_secret w st = (key, st') \<Longrightarrow> admin_file st' = admin_file st"
  by (auto simp: session_secret_def split: option.splits if_splits)

lemma load_record_cong: "admin_file st = admin_file st' \<Longrightarrow> load_record st = load_record st'"
  by (simp add: load_record_def)

lemma rev_of_cong: "admin_file st = admin_file st' \<Longrightarrow> rev_of st = rev_of st'"
  by (simp add: rev_of_def load_record_cong [of st st'])

lemma session_ok_token:
  assumes "rq_cookie rq = Some (b64e (session_payload e (hex_bytes nonce) r @ mac))"
    and "length mac = 32" "nonce \<noteq> []" "session_secret w st = (key, st')"
  shows "session_ok C w rq st =
    (mac = hmac_sha256 C key (session_payload e (hex_bytes nonce) r)
       \<and> py_int (w_time w) \<le> e \<and> r = rev_of st', st')"
proof -
  let ?p = "session_payload e (hex_bytes nonce) r"
  have "?p \<noteq> []" by (simp add: session_payload_def ascii_encode_def)
  then obtain n where n: "length ?p = Suc n" by (cases ?p) auto
  have "b64e (?p @ mac) \<noteq> []"
  proof
    assume "b64e (?p @ mac) = []"
    then have "b64d [] = Some (?p @ mac)" using b64d_b64e [of "?p @ mac"] by simp
    with n show False by (simp add: b64d_def urlsafe_b64decode_def)
  qed
  with assms n show ?thesis
    by (auto simp: session_ok_def str_or_def b64d_b64e payload_fields_session Let_def)
qed

text \<open>
  A session token is accepted exactly until it expires, twelve hours after it was issued, as long
  as the admin file and the session key stay as they are.
\<close>

theorem issued_session_ok:
  assumes "crypto_ok C" "draws_ok w" "issue_session C w st = (token, st')" "rq_cookie rq = Some token"
  shows "session_ok C w' rq st' = (py_int (w_time w') \<le> py_int (w_time w) + SESSION_TTL, st')"
proof -
  obtain key where key: "session_secret w st = (key, st')"
    and token: "token = b64e (session_payload (py_int (w_time w) + SESSION_TTL) (hex_bytes (w_nonce w)) (rev_of st)
        @ hmac_sha256 C key (session_payload (py_int (w_time w) + SESSION_TTL) (hex_bytes (w_nonce w)) (rev_of st)))"
    using assms(3) by (auto simp: issue_session_def Let_def split: prod.splits)
  have "session_secret w' st' = (key, st')" "rev_of st = rev_of st'"
    using session_secret_kept [OF key assms(2)] session_secret_admin [OF key] rev_of_cong [of st st'] by auto
  with assms(1,2,4) token show ?thesis
    by (subst session_ok_token [where key = key]) (auto simp: crypto_ok_def draws_ok_def)
qed

lemma jget_app: "jget (xs @ ys) k = (case map_of xs k of None \<Rightarrow> jget ys k | Some v \<Rightarrow> v)"
  by (simp add: jget_def map_add_def split: option.splits)

lemma default_kdf_keys: "map_of (default_kdf C) k = None" if "k \<in> {''salt'', ''hash'', ''rev'', ''corrupt''}"
  using that by (auto simp: default_kdf_def)

lemma derive_not_Nil: "crypto_ok C \<Longrightarrow> derive C password salt params \<noteq> Inr []"
  by (auto simp: crypto_ok_def derive_def res_bind_def Let_def split: sum.splits if_splits)

text \<open>The record a successful change of the password leaves.\<close>

lemma set_password_record:
  assumes "crypto_ok C" "draws_ok w" "set_password C w password st = (Inr (), st')"
  obtains digest where "derive C password (w_salt w) (default_kdf C) = Inr digest"
    "length password \<le> MAX_PASSWORD" "password \<noteq> []" "session_file st' = session_file st"
    "load_record st' = Some (default_kdf C @ [(''salt'', JStr (hex_bytes (w_salt w))),
       (''hash'', JStr (hex_bytes digest)), (''rev'', JInt (rev_of st + 1))])"
proof -
  obtain digest where d: "derive C password (w_salt w) (default_kdf C) = Inr digest"
    "check_length password = Inr ()"
    "st' = st\<lparr>admin_file := Some (Parsed (JObj (default_kdf C
       @ [(''salt'', JStr (hex_bytes (w_salt w))), (''hash'', JStr (hex_bytes digest)),
          (''rev'', JInt (rev_of st + 1))])))\<rparr>"
    using assms(3) by (auto simp: set_password_def split: sum.splits)
  moreover have "digest \<noteq> []" using derive_not_Nil [OF assms(1)] d(1) by metis
  ultimately show thesis
    using assms(2) that [of digest]
    by (auto simp: load_record_def jget_app default_kdf_keys jget_simps hex_bytes_Nil draws_ok_def
        check_length_def split: if_splits)
qed

lemma set_password_rev:
  assumes "crypto_ok C" "draws_ok w" "set_password C w password st = (Inr (), st')"
  shows "rev_of st' = (if rev_of st = - 1 then 1 else rev_of st + 1)"
  using assms by (rule set_password_record)
    (simp add: rev_of_def [of st'] jget_app default_kdf_keys jget_simps int_of_json_def Let_def)

text \<open>
  C32: Changing the password ends every session: a cookie accepted before the change is refused after
  it, at any time and with any session key.
\<close>

theorem password_change_revokes:
  assumes "crypto_ok C" "draws_ok w2"
    and "session_ok C w rq st = (True, st1)" "set_password C w2 password st1 = (Inr (), st2)"
  shows "\<not> fst (session_ok C w3 rq st2)"
proof -
  obtain raw e r where raw: "b64d (str_or (rq_cookie rq) []) = Some raw"
    "payload_fields (take (length raw - 32) raw) = Some (e, r)" "r = rev_of st1"
    using assms(3) by (auto simp: session_ok_def Let_def split: if_splits option.splits prod.splits)
  have "rev_of st2 \<noteq> r"
    using set_password_rev [OF assms(1,2,4)] raw(3) by auto
  moreover have "rev_of (snd (session_secret w3 st2)) = rev_of st2"
    by (rule rev_of_cong) (auto simp: session_secret_def split: option.splits)
  ultimately show ?thesis using raw(1,2)
    by (auto simp: session_ok_def Let_def split: prod.splits)
qed

text \<open>
  The revision that ends sessions lives in the admin file, so clearing the password forgets it: a
  session opened under the first password is accepted again once a second password is set.
\<close>

theorem cleared_password_revives_sessions:
  assumes "crypto_ok C" "draws_ok w1" "draws_ok w2" "draws_ok w" "\<not> password_is_set st"
    and "set_password C w1 p1 st = (Inr (), st1)" "issue_session C w st1 = (token, st2)"
    and "set_password C w2 p2 (clear_password st2) = (Inr (), st3)" "rq_cookie rq = Some token"
  shows "session_ok C w' rq st3 = (py_int (w_time w') \<le> py_int (w_time w) + SESSION_TTL, st3)"
proof -
  have "rev_of st = 0" "rev_of (clear_password st2) = 0"
    using assms(5) by (auto simp: rev_of_def password_is_set_def clear_password_def load_record_def)
  then have revs: "rev_of st1 = 1" "rev_of st3 = 1"
    using set_password_rev [OF assms(1,2,6)] set_password_rev [OF assms(1,3,8)] by auto
  obtain key where key: "session_secret w st1 = (key, st2)"
    and token: "token = b64e (session_payload (py_int (w_time w) + SESSION_TTL) (hex_bytes (w_nonce w)) 1
        @ hmac_sha256 C key (session_payload (py_int (w_time w) + SESSION_TTL) (hex_bytes (w_nonce w)) 1))"
    using assms(7) revs(1) by (auto simp: issue_session_def Let_def split: prod.splits)
  have "session_file st3 = session_file st2"
    using assms(1,3,8) by (rule set_password_record) (simp add: clear_password_def)
  then have "session_secret w' st3 = (key, st3)"
    by (rule session_secret_kept [OF key assms(4)])
  with assms(1,4,9) token revs(2) show ?thesis
    by (subst session_ok_token [where key = key]) (auto simp: crypto_ok_def draws_ok_def)
qed

section \<open>Passwords\<close>

lemma derive_record: "derive C password salt (default_kdf C @ rest) = derive C password salt (default_kdf C)"
  by (cases "has_scrypt C") (simp_all add: derive_def default_kdf_def jget_simps int_param_def)

text \<open>
  After a password was set, a password is verified exactly when it is at most 128 characters long
  and derives the same digest under the stored salt; the one that was set is.
\<close>

theorem verify_set_password:
  assumes "crypto_ok C" "draws_ok w" "set_password C w password st = (Inr (), st')"
    and "\<forall>e. derive C guess (w_salt w) (default_kdf C) = Inl e \<longrightarrow> e \<in> {ValueError, KeyError, TypeError}"
  shows "verify_password C guess st' = Inr (length guess \<le> MAX_PASSWORD \<and>
      derive C guess (w_salt w) (default_kdf C) = derive C password (w_salt w) (default_kdf C))
    \<and> verify_password C password st' = Inr True"
proof -
  obtain digest where d: "derive C password (w_salt w) (default_kdf C) = Inr digest"
    "length password \<le> MAX_PASSWORD"
    "load_record st' = Some (default_kdf C @ [(''salt'', JStr (hex_bytes (w_salt w))),
       (''hash'', JStr (hex_bytes digest)), (''rev'', JInt (rev_of st + 1))])"
    using assms(1-3) by (rule set_password_record)
  have fields: "hex_field (default_kdf C @ [(''salt'', JStr (hex_bytes (w_salt w))),
       (''hash'', JStr (hex_bytes digest)), (''rev'', JInt (rev_of st + 1))]) ''salt'' = Inr (w_salt w)"
    "hex_field (default_kdf C @ [(''salt'', JStr (hex_bytes (w_salt w))),
       (''hash'', JStr (hex_bytes digest)), (''rev'', JInt (rev_of st + 1))]) ''hash'' = Inr digest"
    by (simp_all add: hex_field_def default_kdf_keys map_add_def fromhex_hex)
  have iff: "verify_password C g st' = Inr (length g \<le> MAX_PASSWORD \<and>
      derive C g (w_salt w) (default_kdf C) = Inr digest)"
    if "\<forall>e. derive C g (w_salt w) (default_kdf C) = Inl e \<longrightarrow> e \<in> {ValueError, KeyError, TypeError}" for g
    using that by (auto simp: verify_password_def d(3) jget_app default_kdf_keys jget_simps fields
        derive_record res_bind_def split: sum.splits)
  show ?thesis using iff [OF assms(4)] iff [of password] d(1,2) by simp
qed

section \<open>Rate limits\<close>

text \<open>The events a limiter lets through, in the order they come.\<close>

fun admitted :: "('e \<Rightarrow> 's \<Rightarrow> bool \<times> 's) \<Rightarrow> 'e list \<Rightarrow> 's \<Rightarrow> 'e list" where
  "admitted attempt [] s = []"
| "admitted attempt (e # es) s =
     (if fst (attempt e s) then [e] else []) @ admitted attempt es (snd (attempt e s))"

text \<open>
  The contract of a sliding window: an event passes when fewer than \<open>limit\<close> stamps of its key are
  younger than \<open>window\<close>; old stamps are dropped, an event that passes is stamped, and the stamps
  of other keys stay.
\<close>

locale sliding_window =
  fixes limit :: nat
    and window :: time
    and key :: "'e \<Rightarrow> 'k"
    and stamp :: "'e \<Rightarrow> time"
    and hits :: "'s \<Rightarrow> 'k \<Rightarrow> time list"
    and attempt :: "'e \<Rightarrow> 's \<Rightarrow> bool \<times> 's"
  assumes attempt_ok:
      "fst (attempt e s) \<longleftrightarrow> length (filter (\<lambda>t. stamp e - t < window) (hits s (key e))) < limit"
    and attempt_hits:
      "hits (snd (attempt e s)) k = (if k = key e
         then filter (\<lambda>t. stamp e - t < window) (hits s k) @ (if fst (attempt e s) then [stamp e] else [])
         else hits s k)"
begin

definition in_window :: "time \<Rightarrow> time \<Rightarrow> bool" where
  "in_window a t \<longleftrightarrow> a \<le> t \<and> t < a + window"

definition bounded_by_limit :: "time list \<Rightarrow> bool" where
  "bounded_by_limit H \<longleftrightarrow> (\<forall>a. length (filter (in_window a) H) \<le> limit)"

text \<open>The stamps kept for a key agree with its history on all that can still matter after \<open>T\<close>.\<close>

definition agree :: "time \<Rightarrow> 's \<Rightarrow> 'k \<Rightarrow> time list \<Rightarrow> bool" where
  "agree T s k H \<longleftrightarrow> (\<forall>now\<ge>T. filter (\<lambda>t. now - t < window) (hits s k) = filter (\<lambda>t. now - t < window) H)"

lemma agree_step:
  assumes "agree T s k H" "T \<le> stamp e"
  shows "agree (stamp e) (snd (attempt e s)) k (H @ (if k = key e \<and> fst (attempt e s) then [stamp e] else []))"
proof -
  have "filter (\<lambda>t. stamp e - t < window \<and> now - t < window) xs = filter (\<lambda>t. now - t < window) xs"
    if "stamp e \<le> now" for now xs
    using that by (intro filter_cong) auto
  with assms show ?thesis by (auto simp: agree_def attempt_hits)
qed

lemma bounded_by_limit_step:
  assumes "agree T s (key e) H" "T \<le> stamp e" "bounded_by_limit H" "fst (attempt e s)"
  shows "bounded_by_limit (H @ [stamp e])"
proof -
  have "length (filter (in_window a) H) < limit" if "in_window a (stamp e)" for a
  proof -
    have "length (filter (in_window a) H) \<le> length (filter (\<lambda>t. stamp e - t < window) H)"
      using that by (intro length_filter_mono) (auto simp: in_window_def)
    also have "\<dots> < limit" using assms by (simp add: attempt_ok agree_def)
    finally show ?thesis .
  qed
  with assms(3) show ?thesis by (auto simp: bounded_by_limit_def Suc_le_eq)
qed

lemma window_bound_from:
  assumes "agree T s k H" "bounded_by_limit H" "sorted (map stamp es)" "\<forall>e\<in>set es. T \<le> stamp e"
  shows "bounded_by_limit (H @ map stamp (filter (\<lambda>e. key e = k) (admitted attempt es s)))"
  using assms
proof (induction es arbitrary: T s H)
  case (Cons e es)
  let ?s = "snd (attempt e s)"
  let ?H = "H @ (if k = key e \<and> fst (attempt e s) then [stamp e] else [])"
  have "agree (stamp e) ?s k ?H" using Cons.prems(1,4) by (intro agree_step) auto
  moreover have "bounded_by_limit ?H" using Cons.prems(1,2,4) bounded_by_limit_step by auto
  moreover have "sorted (map stamp es)" "\<forall>e'\<in>set es. stamp e \<le> stamp e'" using Cons.prems(3) by auto
  ultimately have "bounded_by_limit (?H @ map stamp (filter (\<lambda>e. key e = k) (admitted attempt es ?s)))"
    by (rule Cons.IH)
  then show ?case by (auto split: if_splits)
qed simp

lemma window_bound:
  assumes "hits s k = []" "sorted (map stamp es)"
  shows "length (filter (\<lambda>e. key e = k \<and> a \<le> stamp e \<and> stamp e < a + window) (admitted attempt es s)) \<le> limit"
proof -
  have "\<exists>T. \<forall>e\<in>set es. T \<le> stamp e" using assms(2) by (cases es) auto
  then obtain T where "\<forall>e\<in>set es. T \<le> stamp e" ..
  with assms have "bounded_by_limit ([] @ map stamp (filter (\<lambda>e. key e = k) (admitted attempt es s)))"
    by (intro window_bound_from) (auto simp: agree_def bounded_by_limit_def)
  then have "length (filter (in_window a) (map stamp (filter (\<lambda>e. key e = k) (admitted attempt es s)))) \<le> limit"
    by (simp add: bounded_by_limit_def)
  then show ?thesis by (simp add: filter_map o_def in_window_def conj_commute)
qed

end

text \<open>A report from an address, and a login attempt with a wrong password.\<close>

definition stamps_of :: "(string \<rightharpoonup> time list) \<Rightarrow> string \<Rightarrow> time list" where
  "stamps_of m ip = (case m ip of None \<Rightarrow> [] | Some ts \<Rightarrow> ts)"

definition try_report :: "request \<times> draws \<Rightarrow> authst \<Rightarrow> bool \<times> authst" where
  "try_report e st = (case check_report_rate (snd e) (fst e) st of (r, st') \<Rightarrow> (r = Inr (), st'))"

definition try_wrong_login :: "request \<times> draws \<Rightarrow> authst \<Rightarrow> bool \<times> authst" where
  "try_wrong_login e st =
     (case check_login_rate (snd e) (fst e) st of
        (Inl n, st') \<Rightarrow> (False, st')
      | (Inr u, st') \<Rightarrow> (True, record_login_failure (snd e) (fst e) st'))"

interpretation report_limit: sliding_window REPORT_LIMIT REPORT_WINDOW "\<lambda>e. client_ip (fst e)"
    "\<lambda>e. w_mono (snd e)" "\<lambda>st. stamps_of (report_hits st)" try_report
  by unfold_locales
    (auto simp: try_report_def check_report_rate_def recent_def stamps_of_def Let_def split: option.splits)

interpretation login_limit: sliding_window FAIL_LIMIT FAIL_WINDOW "\<lambda>e. client_ip (fst e)"
    "\<lambda>e. w_mono (snd e)" "\<lambda>st. stamps_of (failures st)" try_wrong_login
  by unfold_locales
    (auto simp: try_wrong_login_def check_login_rate_def record_login_failure_def recent_def stamps_of_def Let_def
      split: option.splits)

text \<open>
  C33: However reports arrive, from whatever addresses, at most eight of one address pass in any span
  of ten minutes.
\<close>

theorem report_rate_bound:
  assumes "report_hits st ip = None" "sorted (map (\<lambda>e. w_mono (snd e)) es)"
  shows "length (filter (\<lambda>e. client_ip (fst e) = ip \<and> a \<le> w_mono (snd e) \<and> w_mono (snd e) < a + 600)
    (admitted try_report es st)) \<le> 8"
  using report_limit.window_bound [of st ip es a] assms
  by (simp add: stamps_of_def REPORT_LIMIT_def REPORT_WINDOW_def)

text \<open>
  At most five wrong passwords of one address are looked at in any minute, when logins do not
  overlap.
\<close>

theorem login_rate_bound:
  assumes "failures st ip = None" "sorted (map (\<lambda>e. w_mono (snd e)) es)"
  shows "length (filter (\<lambda>e. client_ip (fst e) = ip \<and> a \<le> w_mono (snd e) \<and> w_mono (snd e) < a + 60)
    (admitted try_wrong_login es st)) \<le> 5"
  using login_limit.window_bound [of st ip es a] assms
  by (simp add: stamps_of_def FAIL_LIMIT_def FAIL_WINDOW_def)

section \<open>Instances\<close>

text \<open>A toy key derivation and a constant MAC, for closed instances only.\<close>

definition ex_crypto :: crypto where
  "ex_crypto = \<lparr>has_scrypt = True, scrypt = (\<lambda>raw salt n r p len. Inr (1 # raw)),
     pbkdf2_sha256 = (\<lambda>raw salt i len. Inr (1 # raw)), hmac_sha256 = (\<lambda>key m. replicate 32 7)\<rparr>"

definition ex_draws :: "time \<Rightarrow> draws" where
  "ex_draws now = \<lparr>w_time = now, w_mono = now, w_key = replicate 32 1, w_nonce = [2], w_salt = [3]\<rparr>"

definition ex_auth :: authst where
  "ex_auth = \<lparr>admin_file = None, session_file = None, failures = Map.empty, report_hits = Map.empty\<rparr>"

definition ex_request :: "string \<Rightarrow> request" where
  "ex_request cookie = \<lparr>rq_host = Some ''10.0.0.7'', rq_cookie = Some cookie, rq_https = False\<rparr>"

lemma ex_ok: "crypto_ok ex_crypto" "draws_ok (ex_draws now)"
  by (simp_all add: crypto_ok_def draws_ok_def ex_crypto_def ex_draws_def)

lemma ex_derive: "derive ex_crypto password salt (default_kdf ex_crypto) = Inr (1 # utf8_encode password)"
  by (simp add: derive_def default_kdf_def ex_crypto_def jget_simps int_of_json_def res_bind_def int_param_def DKLEN_def)

lemma ex_set_password: "p \<noteq> [] \<Longrightarrow> length p \<le> 128 \<Longrightarrow> \<exists>st'. set_password ex_crypto w p st = (Inr (), st')"
  by (simp add: set_password_def check_length_def MAX_PASSWORD_def ex_derive)

theorem issued_session_ok_witness:
  "fst (session_ok ex_crypto (ex_draws 100) (ex_request (fst (issue_session ex_crypto (ex_draws 50) ex_auth)))
     (snd (issue_session ex_crypto (ex_draws 50) ex_auth)))"
  using issued_session_ok [OF ex_ok prod.collapse [symmetric], of "ex_request (fst (issue_session ex_crypto (ex_draws 50) ex_auth))" 50 ex_auth "ex_draws 100"]
  by (simp add: ex_request_def ex_draws_def py_int_def SESSION_TTL_def)

theorem password_change_revokes_witness:
  "\<exists>st1 st2. session_ok ex_crypto (ex_draws 100) (ex_request (fst (issue_session ex_crypto (ex_draws 50) ex_auth)))
        (snd (issue_session ex_crypto (ex_draws 50) ex_auth)) = (True, st1)
     \<and> set_password ex_crypto (ex_draws 120) ''new'' st1 = (Inr (), st2)
     \<and> \<not> fst (session_ok ex_crypto (ex_draws 130) (ex_request (fst (issue_session ex_crypto (ex_draws 50) ex_auth))) st2)"
proof -
  let ?rq = "ex_request (fst (issue_session ex_crypto (ex_draws 50) ex_auth))"
  let ?st = "snd (issue_session ex_crypto (ex_draws 50) ex_auth)"
  have key: "session_secret (ex_draws 50) ex_auth = (fst (session_secret (ex_draws 50) ex_auth), ?st)"
    by (simp add: issue_session_def Let_def split_beta)
  have "rev_of ex_auth = rev_of ?st" using session_secret_admin [OF key] by (intro rev_of_cong) simp
  moreover have "fst (issue_session ex_crypto (ex_draws 50) ex_auth)
      = b64e (session_payload (50 + SESSION_TTL) (hex_bytes [2]) (rev_of ex_auth) @ replicate 32 7)"
    by (auto simp: issue_session_def ex_draws_def ex_crypto_def py_int_def Let_def split: prod.splits)
  ultimately have ok: "session_ok ex_crypto (ex_draws 100) ?rq ?st = (True, ?st)"
    using session_secret_kept [OF key ex_ok(2) refl, of "ex_draws 100"]
    by (subst session_ok_token [where e = "50 + SESSION_TTL" and nonce = "[2]" and r = "rev_of ex_auth" and mac = "replicate 32 7"
        and key = "fst (session_secret (ex_draws 50) ex_auth)"])
      (simp_all add: ex_request_def ex_crypto_def ex_draws_def py_int_def SESSION_TTL_def)
  obtain st2 where "set_password ex_crypto (ex_draws 120) ''new'' ?st = (Inr (), st2)"
    using ex_set_password [of "''new''" "ex_draws 120" ?st] by auto
  with ok password_change_revokes [OF ex_ok ok this, of "ex_draws 130"] show ?thesis by blast
qed

theorem cleared_password_revives_sessions_witness:
  "\<exists>st1 st3. set_password ex_crypto (ex_draws 10) ''first'' ex_auth = (Inr (), st1)
     \<and> set_password ex_crypto (ex_draws 30) ''second'' (clear_password (snd (issue_session ex_crypto (ex_draws 20) st1))) = (Inr (), st3)
     \<and> fst (session_ok ex_crypto (ex_draws 40) (ex_request (fst (issue_session ex_crypto (ex_draws 20) st1))) st3)"
proof -
  obtain st1 where st1: "set_password ex_crypto (ex_draws 10) ''first'' ex_auth = (Inr (), st1)"
    using ex_set_password [of "''first''" "ex_draws 10" ex_auth] by auto
  obtain token st2 where st2: "issue_session ex_crypto (ex_draws 20) st1 = (token, st2)" by fastforce
  obtain st3 where st3: "set_password ex_crypto (ex_draws 30) ''second'' (clear_password st2) = (Inr (), st3)"
    using ex_set_password [of "''second''" "ex_draws 30" "clear_password st2"] by auto
  have "\<not> password_is_set ex_auth" by (simp add: password_is_set_def load_record_def ex_auth_def)
  from cleared_password_revives_sessions [OF ex_ok(1) ex_ok(2) ex_ok(2) ex_ok(2) this st1 st2 st3, of "ex_request token" "ex_draws 40"]
  have "fst (session_ok ex_crypto (ex_draws 40) (ex_request token) st3)"
    by (simp add: ex_request_def ex_draws_def py_int_def SESSION_TTL_def)
  with st1 st2 st3 show ?thesis by auto
qed

theorem verify_set_password_witness:
  "\<exists>st'. set_password ex_crypto (ex_draws 10) ''secret'' ex_auth = (Inr (), st')
     \<and> verify_password ex_crypto ''secret'' st' = Inr True"
proof -
  obtain st' where st': "set_password ex_crypto (ex_draws 10) ''secret'' ex_auth = (Inr (), st')"
    using ex_set_password [of "''secret''" "ex_draws 10" ex_auth] by auto
  have "\<forall>e. derive ex_crypto ''guess'' (w_salt (ex_draws 10)) (default_kdf ex_crypto) = Inl e \<longrightarrow> e \<in> {ValueError, KeyError, TypeError}"
    by (simp add: ex_derive)
  from verify_set_password [OF ex_ok st' this] st' show ?thesis by blast
qed

theorem report_rate_bound_witness:
  "length (filter (\<lambda>e. client_ip (fst e) = ''10.0.0.7'' \<and> 0 \<le> w_mono (snd e) \<and> w_mono (snd e) < 0 + 600)
    (admitted try_report (map (\<lambda>i. (ex_request [], ex_draws (real i))) [0..<20]) ex_auth)) \<le> 8"
  by (rule report_rate_bound) (simp_all add: ex_auth_def ex_draws_def o_def sorted_map_mono mono_onI)

theorem login_rate_bound_witness:
  "length (filter (\<lambda>e. client_ip (fst e) = ''10.0.0.7'' \<and> 0 \<le> w_mono (snd e) \<and> w_mono (snd e) < 0 + 60)
    (admitted try_wrong_login (map (\<lambda>i. (ex_request [], ex_draws (real i))) [0..<20]) ex_auth)) \<le> 5"
  by (rule login_rate_bound) (simp_all add: ex_auth_def ex_draws_def o_def sorted_map_mono mono_onI)

end
