(* ===== verification/Search.thy ===== *)
theory Search
  imports Store_Props Labels Store Clubd
begin

text \<open>
  \<open>observer/search.py\<close>: what the catalog shows. A query gives rows of \<open>docs\<close>, which are paired with
  the club's vote on them. \<open>fts\<close> stands for SQLite's full-text index: the rowids that match an
  expression, best rank first, or the error it raises. \<open>LIMIT\<close> with a negative number is no limit, as
  in SQLite.
\<close>

section \<open>Queries\<close>

text \<open>\<open>_fts_escape\<close>: the quotes are dropped, so the doubling of quotes that follows does nothing.\<close>

definition fts_term :: "string \<Rightarrow> string option" where
  "fts_term raw =
     (let token = filter (\<lambda>c. c \<noteq> char_of (34 :: nat)) raw in
      if token = [] then None
      else Some (char_of (34 :: nat)
             # concat (map (\<lambda>c. if c = char_of (34 :: nat) then [c, c] else [c]) token)
             @ [char_of (34 :: nat), CHR ''*'']))"

definition fts_escape :: "string \<Rightarrow> string" where
  "fts_escape query = py_join '' '' (List.map_filter fts_term (py_split_ws query))"

definition sql_limit :: "int \<Rightarrow> 'a list \<Rightarrow> 'a list" where
  "sql_limit n xs = (if n < 0 then xs else take (nat n) xs)"

text \<open>\<open>rows[:n]\<close>.\<close>

definition py_head :: "int \<Rightarrow> 'a list \<Rightarrow> 'a list" where
  "py_head n xs = (if 0 \<le> n then take (nat n) xs else take (length xs - nat (- n)) xs)"

definition field_where :: "catalog \<Rightarrow> string option \<Rightarrow> drow \<Rightarrow> bool" where
  "field_where db field d =
     (let f = str_or field [] in
      f = [] \<or> d_field d = f \<or> list_ex (\<lambda>r. c_cid r = d_cid d \<and> c_field r = f) (classifies db))"

definition CATALOG_MIMES :: "string list" where
  "CATALOG_MIMES = [''text/html'', ''application/pdf'']"

definition mime_sql :: "string option \<Rightarrow> drow \<Rightarrow> bool" where
  "mime_sql mime d =
     (if mime = Some ''application/pdf'' then d_mime d = Some ''application/pdf''
      else if mime = Some ''text/html''
      then d_mime d \<in> {Some ''text/html'', Some ''application/xhtml+xml''}
      else True)"

definition listed :: "catalog \<Rightarrow> string option \<Rightarrow> string option \<Rightarrow> drow \<Rightarrow> bool" where
  "listed db field mime d \<longleftrightarrow> \<not> is_abusive db (d_cid d) \<and> field_where db field d \<and> mime_sql mime d"

type_synonym found = "drow \<times> tally option"

definition decorate :: "club \<Rightarrow> catalog \<Rightarrow> drow list \<Rightarrow> found list" where
  "decorate P db rows = apply_many P db d_cid rows"

definition shown_field :: "found \<Rightarrow> string option" where
  "shown_field r = (case snd r of None \<Rightarrow> Some (d_field (fst r)) | Some t \<Rightarrow> t_field t)"

text \<open>\<open>JOIN docs d ON d.rowid = docs_fts.rowid\<close>.\<close>

definition join_docs :: "catalog \<Rightarrow> int list \<Rightarrow> drow list" where
  "join_docs db ids = List.map_filter (\<lambda>i. sql_get d_rowid i (docs db)) ids"

text \<open>How many rows the statement may return: the vote may still drop some when a field is asked for.\<close>

definition sql_cap :: "string option \<Rightarrow> int \<Rightarrow> int" where
  "sql_cap field limit = min (if str_or field [] \<noteq> [] then limit * 3 else limit) 600"

definition search :: "(string \<Rightarrow> ftsrow list \<Rightarrow> int list res) \<Rightarrow> club \<Rightarrow> catalog \<Rightarrow> string \<Rightarrow> string option \<Rightarrow>
    string option \<Rightarrow> int \<Rightarrow> found list res" where
  "search fts P db query field mime limit =
     (let n = sql_cap field limit in
      if \<not> int64 n then Inl OverflowError
      else res_bind (fts (fts_escape query) (docs_fts db)) (\<lambda>ids.
        let rows = decorate P db (sql_limit n (filter (listed db field mime) (join_docs db ids)));
            rows = (if str_or field [] \<noteq> [] then filter (\<lambda>r. shown_field r = field) rows else rows)
        in Inr (py_head limit rows)))"

definition listing :: "catalog \<Rightarrow> string option \<Rightarrow> string option \<Rightarrow> drow list" where
  "listing db field mime = sort_key (\<lambda>d. - d_indexed_at d) (filter (listed db field mime) (docs db))"

definition browse :: "club \<Rightarrow> catalog \<Rightarrow> string option \<Rightarrow> string option \<Rightarrow> int \<Rightarrow> int \<Rightarrow> (found list \<times> int) res" where
  "browse P db field mime limit offset =
     (if \<not> int64 limit \<or> \<not> int64 offset then Inl OverflowError
      else Inr (decorate P db (sql_limit limit (drop (nat offset) (listing db field mime))),
                sql_count (listed db field mime) (docs db)))"

section \<open>Reports, ranking and counters\<close>

record reporter =
  ro_observer :: publisher
  ro_alias :: string
  ro_received :: time
  ro_blacklisted :: bool

record reported =
  rd_cid :: cid
  rd_doc :: "drow option"
  rd_mine :: bool
  rd_reporters :: "reporter list"

definition alias_of :: "catalog \<Rightarrow> publisher \<Rightarrow> string" where
  "alias_of db p = (case sql_get a_publisher p (aliases db) of None \<Rightarrow> [] | Some a \<Rightarrow> a_alias a)"

definition add_reporter :: "catalog \<Rightarrow> publisher option \<Rightarrow> reportrow \<Rightarrow> reported list \<Rightarrow> reported list" where
  "add_reporter db me r out =
     (let who = \<lparr>ro_observer = rp_publisher r, ro_alias = alias_of db (rp_publisher r), ro_received = rp_received r,
                 ro_blacklisted = is_blacklisted (rp_publisher r) db\<rparr>;
          mine = (str_or me [] \<noteq> [] \<and> me = Some (rp_publisher r));
          out1 = (if list_ex (\<lambda>i. rd_cid i = rp_cid r) out then out
                  else out @ [\<lparr>rd_cid = rp_cid r, rd_doc = sql_get d_cid (rp_cid r) (docs db), rd_mine = False,
                              rd_reporters = []\<rparr>])
      in map (\<lambda>i. if rd_cid i = rp_cid r
                  then i\<lparr>rd_reporters := rd_reporters i @ [who], rd_mine := rd_mine i \<or> mine\<rparr> else i) out1)"

definition abusive_reports :: "catalog \<Rightarrow> publisher option \<Rightarrow> reported list" where
  "abusive_reports db me =
     fold (add_reporter db me)
       (sort_key (\<lambda>r. - rp_received r) (filter (\<lambda>r. rp_reason r = ''abusive'') (reports db))) []"

record ranked =
  rk_observer :: publisher
  rk_alias :: string
  rk_n :: int

definition n_classified :: "catalog \<Rightarrow> publisher \<Rightarrow> int" where
  "n_classified db p = int (card (c_cid ` set (filter (\<lambda>r. c_publisher r = p) (classifies db))))"

definition observers :: "catalog \<Rightarrow> publisher option \<Rightarrow> int \<Rightarrow> ranked list" where
  "observers db me limit =
     map (\<lambda>p. \<lparr>rk_observer = p,
                rk_alias = (if str_or me [] \<noteq> [] \<and> me = Some p \<and> local_alias db \<noteq> [] then local_alias db else alias_of db p),
                rk_n = n_classified db p\<rparr>)
       (sql_limit limit (sort_key (\<lambda>p. (- n_classified db p, p)) (remdups (map c_publisher (classifies db)))))"

record catalog_counts =
  cs_classifies :: int
  cs_skips :: int
  cs_claims :: int
  cs_observers :: int
  cs_last_classify_at :: "time option"
  cs_skip_reasons :: "(string \<times> int) list"

definition skip_reason :: "skiprow \<Rightarrow> string" where
  "skip_reason s = str_or (s_reason s) []"

definition catalog_stats :: "time \<Rightarrow> catalog \<Rightarrow> catalog_counts \<times> catalog" where
  "catalog_stats now db =
     (case cached_count db of
        (n, db') \<Rightarrow>
          (\<lparr>cs_classifies = n, cs_skips = int (length (skips db)),
            cs_claims = sql_count (\<lambda>r. cl_until r > now) (claims db),
            cs_observers = int (length (remdups (map c_publisher (classifies db)))),
            cs_last_classify_at = (if docs db = [] then None else Some (Max (set (map d_indexed_at (docs db))))),
            cs_skip_reasons = map (\<lambda>r. (r, sql_count (\<lambda>s. skip_reason s = r) (skips db)))
                                (remdups (map skip_reason (skips db)))\<rparr>, db'))"

section \<open>Lemmas\<close>

lemma set_sql_limit: "set (sql_limit n xs) \<subseteq> set xs"
  by (auto simp: sql_limit_def dest: in_set_takeD)

lemma set_py_head: "set (py_head n xs) \<subseteq> set xs"
  by (auto simp: py_head_def dest: in_set_takeD)

lemma fst_decorate: "map fst (decorate P db rows) = rows"
  by (simp add: decorate_def apply_many_def Let_def o_def)

lemma in_decorate: "r \<in> set (decorate P db rows) \<Longrightarrow> fst r \<in> set rows"
  by (metis fst_decorate image_eqI list.set_map)

lemma join_docs_in: "d \<in> set (join_docs db ids) \<Longrightarrow> d \<in> set (docs db)"
  by (auto simp: join_docs_def List.map_filter_def dest: sql_get_Some)

lemma set_listing: "set (listing db field mime) = {d \<in> set (docs db). listed db field mime d}"
  by (simp add: listing_def)

lemma search_rows:
  assumes "search fts P db query field mime limit = Inr rs"
  shows "\<exists>ids n. set rs \<subseteq> set (decorate P db (sql_limit n (filter (listed db field mime) (join_docs db ids))))"
proof (cases "fts (fts_escape query) (docs_fts db)")
  case (Inr ids)
  let ?rows = "decorate P db (sql_limit (sql_cap field limit) (filter (listed db field mime) (join_docs db ids)))"
  have "rs = py_head limit (if str_or field [] \<noteq> [] then filter (\<lambda>r. shown_field r = field) ?rows else ?rows)"
  proof (cases "int64 (sql_cap field limit)")
    case True
    with assms show ?thesis
      unfolding search_def Let_def Inr res_bind_def sum.case by (simp only: not_True_eq_False if_False sum.inject)
  next
    case False
    with assms show ?thesis
      unfolding search_def Let_def by (simp only: not_False_eq_True if_True sum.distinct)
  qed
  then have "set rs \<subseteq> set (if str_or field [] \<noteq> [] then filter (\<lambda>r. shown_field r = field) ?rows else ?rows)"
    by (simp only: set_py_head)
  also have "\<dots> \<subseteq> set ?rows" by auto
  finally show ?thesis by (intro exI)
next
  case (Inl e)
  with assms show ?thesis unfolding search_def Let_def Inl res_bind_def sum.case by (simp split: if_splits)
qed

lemma search_not_abusive:
  assumes "search fts P db query field mime limit = Inr rs" "r \<in> set rs"
  shows "fst r \<in> set (docs db) \<and> \<not> is_abusive db (d_cid (fst r))"
proof -
  note rows = search_rows [OF assms(1)] assms(2)
  then obtain ids n where "r \<in> set (decorate P db (sql_limit n (filter (listed db field mime) (join_docs db ids))))"
    by blast
  then have "fst r \<in> set (filter (listed db field mime) (join_docs db ids))"
    using set_sql_limit by (fast dest: in_decorate)
  then show ?thesis by (auto simp: listed_def dest: join_docs_in)
qed

lemma browse_not_abusive:
  assumes "browse P db field mime limit offset = Inr (rs, n)" "r \<in> set rs"
  shows "fst r \<in> set (docs db) \<and> \<not> is_abusive db (d_cid (fst r))"
proof -
  have "r \<in> set (decorate P db (sql_limit limit (drop (nat offset) (listing db field mime))))"
    using assms by (auto simp: browse_def split: if_splits)
  then have "fst r \<in> set (listing db field mime)"
    using in_decorate set_sql_limit in_set_dropD by fast
  then show ?thesis by (auto simp: set_listing listed_def)
qed

text \<open>
  Neither a search nor a page of the listing shows a document that has an abusive report, whatever
  the query and the filters.
\<close>

theorem abusive_never_listed:
  assumes "search fts P db query field mime limit = Inr found" "browse P db field' mime' limit' offset = Inr (page, n)"
    and "r \<in> set found \<union> set page"
  shows "fst r \<in> set (docs db) \<and> \<not> is_abusive db (d_cid (fst r))"
  using assms search_not_abusive browse_not_abusive by blast

text \<open>A page after page reading of the listing.\<close>

definition page_docs :: "(found list \<times> int) res \<Rightarrow> drow list" where
  "page_docs r = (case r of Inl e \<Rightarrow> [] | Inr (rows, n) \<Rightarrow> map fst rows)"

lemma page_docs_browse: "int64 limit \<Longrightarrow> int64 offset \<Longrightarrow>
    page_docs (browse P db field mime limit offset) = sql_limit limit (drop (nat offset) (listing db field mime))"
  by (simp add: page_docs_def browse_def fst_decorate)

lemma concat_pages: "0 < n \<Longrightarrow> concat (map (\<lambda>i. take n (drop (i * n) xs)) [0..<k]) = take (k * n) xs"
proof (induction k)
  case (Suc k)
  have "take (Suc k * n) xs = take (k * n + n) xs" by (simp add: add.commute)
  also have "\<dots> = take (k * n) xs @ take n (drop (k * n) xs)" by (rule take_add)
  finally show ?case using Suc by simp
qed simp

text \<open>
  Reading the listing page by page shows each listed document exactly once, in the order of the
  listing, and the total the interface displays is their number.
\<close>

theorem browse_pages_cover:
  assumes "0 < n" "int n < 2 ^ 63" "int (k * n) < 2 ^ 63" "length (listing db field mime) \<le> k * n"
  shows "concat (map (\<lambda>i. page_docs (browse P db field mime (int n) (int (i * n)))) [0..<k]) = listing db field mime
    \<and> browse P db field mime (int n) 0 = Inr (fst (projr (browse P db field mime (int n) 0)), int (length (listing db field mime)))"
proof
  have small: "int64 (int (i * n))" if "i < k" for i
  proof -
    have "int (i * n) \<le> int (k * n)" using that by (intro of_nat_mono mult_right_mono) auto
    then have "int (i * n) < 2 ^ 63" using assms(3) by (rule order.strict_trans1)
    moreover have "- (2 ^ 63) \<le> int (i * n)" by (rule order.trans [of _ 0]) simp_all
    ultimately show ?thesis unfolding int64_def by blast
  qed
  have n64: "int64 (int n)" using assms(2) by (simp add: int64_def)
  have "map (\<lambda>i. page_docs (browse P db field mime (int n) (int (i * n)))) [0..<k]
      = map (\<lambda>i. take n (drop (i * n) (listing db field mime))) [0..<k]"
    using small n64 by (intro map_cong) (simp_all add: page_docs_browse sql_limit_def nat_mult_distrib del: of_nat_mult)
  then show "concat (map (\<lambda>i. page_docs (browse P db field mime (int n) (int (i * n)))) [0..<k]) = listing db field mime"
    using concat_pages [OF assms(1), of "listing db field mime" k] by (simp only: take_all [OF assms(4)])
  show "browse P db field mime (int n) 0 = Inr (fst (projr (browse P db field mime (int n) 0)), int (length (listing db field mime)))"
    using n64 by (simp add: browse_def int64_def listing_def sql_count_def)
qed

section \<open>Instances\<close>

lemma length_listing: "length (listing db field mime) \<le> length (docs db)"
  by (simp add: listing_def)

theorem browse_pages_cover_witness:
  "concat (map (\<lambda>i. page_docs (browse ex_club ex_catalog None None (int 1) (int (i * 1)))) [0..<2]) = listing ex_catalog None None
    \<and> browse ex_club ex_catalog None None (int 1) 0
        = Inr (fst (projr (browse ex_club ex_catalog None None (int 1) 0)), int (length (listing ex_catalog None None)))"
proof (rule browse_pages_cover)
  show "length (listing ex_catalog None None) \<le> 2 * 1"
    by (rule order.trans [OF length_listing]) (simp add: ex_catalog_def)
qed simp_all

theorem abusive_never_listed_witness:
  "\<exists>found page n r. search (\<lambda>q rows. Inr [1]) ex_club ex_catalog ''biology'' None None 10 = Inr found
     \<and> browse ex_club ex_catalog None None 10 0 = Inr (page, n)
     \<and> r \<in> set found \<and> \<not> is_abusive ex_catalog (d_cid (fst r))"
proof -
  have f: "(case search (\<lambda>q rows. Inr [1]) ex_club ex_catalog ''biology'' None None 10 of Inl e \<Rightarrow> False | Inr rs \<Rightarrow> rs \<noteq> [])"
    by code_simp
  then obtain found where found: "search (\<lambda>q rows. Inr [1]) ex_club ex_catalog ''biology'' None None 10 = Inr found" "found \<noteq> []"
    by (auto split: sum.splits)
  moreover obtain page n where page: "browse ex_club ex_catalog None None 10 0 = Inr (page, n)"
    by (auto simp: browse_def int64_def)
  ultimately show ?thesis
    using abusive_never_listed [OF found(1) page, of "hd found"] by (intro exI) auto
qed

end
