(* ===== verification/Config.thy ===== *)
theory Config
  imports Club
begin

text \<open>
  \<open>observer/config.py\<close> as far as it changes \<open>config.toml\<close>: the club id and the invite list of
  bootstrap peers are edited in the text of the file, so that comments and other keys stay. The
  regular expressions are written out. Files end lines with a newline; the text of a file is a
  string. Reading the values back is \<open>tomllib\<close>; of its grammar only basic strings are modelled.
\<close>

section \<open>Bootstrap addresses\<close>

definition NL :: char where "NL = CHR 0x0A"
definition DQ :: char where "DQ = CHR 0x22"
definition SQ :: char where "SQ = CHR 0x27"
definition BS :: char where "BS = CHR 0x5C"

definition SCHEMES :: "string list" where
  "SCHEMES = [''/ip4/'', ''/ip6/'', ''/dns/'', ''/dns4/'', ''/dns6/'', ''/dnsaddr/'']"

definition MAX_BOOTSTRAP :: nat where "MAX_BOOTSTRAP = 32"

definition parse_bootstrap_addr :: "json \<Rightarrow> string res" where
  "parse_bootstrap_addr v =
     (let addr = py_strip (py_str (if truthy v then v else JStr [])) in
      if addr = [] \<or> list_ex py_isspace addr then Inl ValueError
      else if length addr > 512 then Inl ValueError
      else if \<not> list_ex (\<lambda>p. py_startswith addr p) SCHEMES then Inl ValueError
      else if \<not> contains ''/p2p/'' addr \<and> \<not> contains ''/ipfs/'' addr then Inl ValueError
      else Inr addr)"

text \<open>
  The values of the setting: a list, or a string with newlines and commas between its items. A
  value that cannot be iterated raises TypeError; iterating an object gives its keys.
\<close>

definition bootstrap_values :: "json \<Rightarrow> string list res" where
  "bootstrap_values v =
     (case v of
        JNull \<Rightarrow> Inr []
      | JStr s \<Rightarrow> Inr (filter (\<lambda>x. x \<noteq> []) (map py_strip (split_by (\<lambda>c. c = CHR '','') (replace_char NL (CHR '','') s))))
      | JList xs \<Rightarrow> Inr (filter (\<lambda>x. x \<noteq> []) (map (\<lambda>x. py_strip (py_str x)) xs))
      | JObj kvs \<Rightarrow> Inr (filter (\<lambda>x. x \<noteq> []) (map (\<lambda>kv. py_strip (fst kv)) kvs))
      | _ \<Rightarrow> Inl TypeError)"

fun collect_peers :: "bool \<Rightarrow> string list \<Rightarrow> string list \<Rightarrow> string list res" where
  "collect_peers strict [] out = Inr out"
| "collect_peers strict (raw # raws) out =
     (case parse_bootstrap_addr (JStr raw) of
        Inl e \<Rightarrow> if strict then Inl e else collect_peers strict raws out
      | Inr addr \<Rightarrow> collect_peers strict raws (if addr \<in> set out then out else out @ [addr]))"

definition normalize_bootstrap_peers :: "json \<Rightarrow> bool \<Rightarrow> string list res" where
  "normalize_bootstrap_peers values strict =
     (case bootstrap_values values of
        Inl e \<Rightarrow> Inl e
      | Inr raws \<Rightarrow>
          (case collect_peers strict raws [] of
             Inl e \<Rightarrow> Inl e
           | Inr out \<Rightarrow> if length out > MAX_BOOTSTRAP then Inl ValueError else Inr out))"

section \<open>Writing TOML\<close>

definition toml_basic_string :: "string \<Rightarrow> string" where
  "toml_basic_string v = DQ # concat (map (\<lambda>c. if c = BS \<or> c = DQ then [BS, c] else [c]) v) @ [DQ]"

definition format_bootstrap_toml :: "string list \<Rightarrow> string" where
  "format_bootstrap_toml peers =
     (if peers = [] then ''[]''
      else CHR ''['' # NL # py_join [NL] (map (\<lambda>p. ''    '' @ toml_basic_string p @ '','') peers) @ [NL, CHR '']''])"

text \<open>
  What \<open>tomllib\<close> makes of the characters after an opening quote: None for a control character other
  than tab, or for a string that does not end. Of the escapes only those written here are read.
\<close>

definition toml_control :: "char \<Rightarrow> bool" where
  "toml_control c \<longleftrightarrow> (let n = (of_char c :: nat) in (n < 32 \<and> n \<noteq> 9) \<or> n = 127)"

fun toml_string_body :: "string \<Rightarrow> (string \<times> string) option" where
  "toml_string_body [] = None"
| "toml_string_body (c # s) =
     (if c = DQ then Some ([], s)
      else if toml_control c then None
      else if c = BS then
        (case s of
           d # s' \<Rightarrow> if d = BS \<or> d = DQ then map_option (\<lambda>(v, r). (d # v, r)) (toml_string_body s') else None
         | [] \<Rightarrow> None)
      else map_option (\<lambda>(v, r). (c # v, r)) (toml_string_body s))"

section \<open>Editing the text\<close>

text \<open>\<open>re.split(r"(?=^\[)", text, flags=re.M)\<close>: before every line that starts with a bracket.\<close>

definition is_ws :: "char \<Rightarrow> bool" where "is_ws c = py_isspace c"

fun split_lines :: "string \<Rightarrow> string list" where
  "split_lines [] = []"
| "split_lines (c # s) =
     (if c = NL then [NL] # split_lines s
      else case split_lines s of [] \<Rightarrow> [[c]] | l # ls \<Rightarrow> (c # l) # ls)"

text \<open>Lines with their newline, grouped into parts: a part goes on until a line that starts with a bracket.\<close>

fun group_parts :: "string list \<Rightarrow> string list list" where
  "group_parts [] = []"
| "group_parts (l # ls) =
     (case group_parts ls of
        [] \<Rightarrow> [[l]]
      | p # ps \<Rightarrow> (case p of
            [] \<Rightarrow> [l] # ps
          | k # ks \<Rightarrow> if py_startswith k ''['' then [l] # p # ps else (l # p) # ps))"

definition split_parts :: "string \<Rightarrow> string list" where
  "split_parts text = map concat (group_parts (split_lines text))"

text \<open>\<open>^\[club\]\s*$\<close> on the first line of a part.\<close>

definition club_header :: "string \<Rightarrow> bool" where
  "club_header part =
     (let line = takeWhile (\<lambda>c. c \<noteq> NL) part in
      py_startswith line ''[club]'' \<and> list_all is_ws (drop 6 line))"

text \<open>\<open>\s*key\s*=\s*\<close> at the start of \<open>s\<close>: the text matched and the rest.\<close>

definition match_ws :: "string \<Rightarrow> string \<times> string" where
  "match_ws s = (takeWhile is_ws s, dropWhile is_ws s)"

definition match_key :: "string \<Rightarrow> string \<Rightarrow> (string \<times> string) option" where
  "match_key key s =
     (case match_ws s of
        (w1, r1) \<Rightarrow>
          if \<not> py_startswith r1 key then None
          else (case match_ws (drop (length key) r1) of
                  (w2, r2) \<Rightarrow>
                    if \<not> py_startswith r2 ''='' then None
                    else (case match_ws (drop 1 r2) of (w3, r3) \<Rightarrow> Some (w1 @ key @ w2 @ ''='' @ w3, r3))))"

text \<open>Up to and including the first \<open>q\<close>; None when there is none.\<close>

definition match_until :: "char \<Rightarrow> string \<Rightarrow> string option" where
  "match_until q s = (if q \<in> set s then Some (drop 1 (dropWhile (\<lambda>c. c \<noteq> q) s)) else None)"

text \<open>The value of the old assignment: what follows it.\<close>

definition bootstrap_value :: "string \<Rightarrow> string option" where
  "bootstrap_value s =
     (case s of
        [] \<Rightarrow> None
      | c # r \<Rightarrow>
          if c = CHR ''['' then match_until (CHR '']'') r
          else if c = DQ then match_until DQ r
          else if c = SQ then match_until SQ r
          else None)"

text \<open>
  The first match of an assignment at a line start, with its value replaced. \<open>line\<close> says whether the
  position is a line start; white space before the key may span lines.
\<close>

fun sub_assign :: "(string \<Rightarrow> (string \<times> string) option) \<Rightarrow> bool \<Rightarrow> string \<Rightarrow> string option" where
  "sub_assign match line [] = (if line then map_option (\<lambda>(new, rest). new @ rest) (match []) else None)"
| "sub_assign match line (c # s) =
     (case (if line then match (c # s) else None) of
        Some (new, rest) \<Rightarrow> Some (new @ rest)
      | None \<Rightarrow> map_option (Cons c) (sub_assign match (c = NL) s))"

definition match_bootstrap :: "string \<Rightarrow> string \<Rightarrow> (string \<times> string) option" where
  "match_bootstrap formatted s =
     (case match_key ''bootstrap_peers'' s of
        None \<Rightarrow> None
      | Some (lhs, r) \<Rightarrow> map_option (\<lambda>rest. (lhs @ formatted, rest)) (bootstrap_value r))"

text \<open>\<open>(['"])([^'"]*)\2\<close>: no quote of either kind inside.\<close>

definition match_id :: "string \<Rightarrow> string \<Rightarrow> (string \<times> string) option" where
  "match_id new_id s =
     (case match_key ''id'' s of
        None \<Rightarrow> None
      | Some (lhs, r) \<Rightarrow>
          (case r of
             [] \<Rightarrow> None
           | q # t \<Rightarrow>
               if q \<noteq> DQ \<and> q \<noteq> SQ then None
               else (let rest = dropWhile (\<lambda>c. c \<noteq> DQ \<and> c \<noteq> SQ) t in
                     if py_startswith rest [q] then Some (lhs @ [q] @ new_id @ [q], drop 1 rest) else None)))"

text \<open>
  \<open>^(\[club\][ \t]*\n)\<close>: the new assignment goes right behind the header line. A header without a
  newline, or with other white space behind it, stays as it is.
\<close>

definition insert_assign :: "string \<Rightarrow> string \<Rightarrow> string" where
  "insert_assign assign part =
     (let line = takeWhile (\<lambda>c. c \<noteq> NL) part; rest = dropWhile (\<lambda>c. c \<noteq> NL) part in
      if rest \<noteq> [] \<and> list_all (\<lambda>c. c = CHR '' '' \<or> c = CHR 0x09) (drop 6 line)
      then line @ [NL] @ assign @ drop 1 rest else part)"

definition edit_part :: "(string \<Rightarrow> (string \<times> string) option) \<Rightarrow> string \<Rightarrow> string \<Rightarrow> string" where
  "edit_part match assign part =
     (if club_header part
      then (case sub_assign match True part of Some p \<Rightarrow> p | None \<Rightarrow> insert_assign assign part)
      else part)"

definition edit_club_section :: "(string \<Rightarrow> (string \<times> string) option) \<Rightarrow> string \<Rightarrow> string \<Rightarrow> string res" where
  "edit_club_section match assign text =
     (let parts = split_parts text in
      if list_ex club_header parts then Inr (concat (map (edit_part match assign) parts)) else Inl ValueError)"

text \<open>
  The inserted text is a replacement template of \<open>re.sub\<close>, in which a doubled backslash is one; the
  only other escape a formatted list has, of a quote, is left alone.
\<close>

fun template :: "string \<Rightarrow> string" where
  "template (c # d # s) =
     (if c = BS then (if d = BS then BS # template s else c # d # template s) else c # template (d # s))"
| "template s = s"

text \<open>The two writers; the file is None when there is none to update.\<close>

definition write_bootstrap_peers :: "json \<Rightarrow> string option \<Rightarrow> (string list \<times> string) res" where
  "write_bootstrap_peers values file =
     (case normalize_bootstrap_peers values True of
        Inl e \<Rightarrow> Inl e
      | Inr peers \<Rightarrow>
          (case file of
             None \<Rightarrow> Inl ValueError
           | Some text \<Rightarrow>
               (let formatted = format_bootstrap_toml peers in
                case edit_club_section (match_bootstrap formatted) (''bootstrap_peers = '' @ template formatted @ [NL]) text of
                  Inl e \<Rightarrow> Inl e
                | Inr text' \<Rightarrow> Inr (peers, text'))))"

definition write_club_id :: "json \<Rightarrow> string option \<Rightarrow> (string \<times> string) res" where
  "write_club_id v file =
     (case validate_club_id v of
        Inl e \<Rightarrow> Inl e
      | Inr new_id \<Rightarrow>
          (case file of
             None \<Rightarrow> Inl ValueError
           | Some text \<Rightarrow>
               (case edit_club_section (match_id new_id) (''id = '' @ [DQ] @ new_id @ [DQ, NL]) text of
                  Inl e \<Rightarrow> Inl e
                | Inr text' \<Rightarrow> Inr (new_id, text'))))"

section \<open>Laws\<close>

lemma parse_bootstrap_ok:
  "parse_bootstrap_addr v = Inr addr \<Longrightarrow> addr \<noteq> [] \<and> length addr \<le> 512 \<and> \<not> list_ex py_isspace addr
     \<and> parse_bootstrap_addr (JStr addr) = Inr addr"
  by (auto simp: parse_bootstrap_addr_def Let_def py_str_def split: if_splits)

lemma collect_peers_props:
  assumes "collect_peers strict raws out = Inr res" "distinct out" "\<forall>a\<in>set out. parse_bootstrap_addr (JStr a) = Inr a"
  shows "distinct res \<and> (\<forall>a\<in>set res. parse_bootstrap_addr (JStr a) = Inr a)"
  using assms
proof (induction raws arbitrary: out)
  case (Cons raw raws)
  show ?case
  proof (cases "parse_bootstrap_addr (JStr raw)")
    case (Inl e)
    with Cons.prems(1) have "collect_peers strict raws out = Inr res" by (simp split: if_splits)
    then show ?thesis by (rule Cons.IH [OF _ Cons.prems(2,3)])
  next
    case (Inr addr)
    then have ok: "parse_bootstrap_addr (JStr addr) = Inr addr" using parse_bootstrap_ok by blast
    from Cons.prems(1) Inr have "collect_peers strict raws (if addr \<in> set out then out else out @ [addr]) = Inr res"
      by simp
    then show ?thesis
    proof (rule Cons.IH)
      show "distinct (if addr \<in> set out then out else out @ [addr])" using Cons.prems(2) by simp
      show "\<forall>a\<in>set (if addr \<in> set out then out else out @ [addr]). parse_bootstrap_addr (JStr a) = Inr a"
        using Cons.prems(3) ok by (cases "addr \<in> set out") (simp_all only: if_True if_False set_append ball_Un list.set ball_simps)
    qed
  qed
qed simp

lemma collect_peers_id:
  "distinct (out @ addrs) \<Longrightarrow> \<forall>a\<in>set addrs. parse_bootstrap_addr (JStr a) = Inr a \<Longrightarrow> collect_peers strict addrs out = Inr (out @ addrs)"
  by (induction addrs arbitrary: out) auto

lemma normalize_length:
  assumes "normalize_bootstrap_peers values strict = Inr peers"
  shows "length peers \<le> 32" "distinct peers"
proof -
  obtain raws where raws: "collect_peers strict raws [] = Inr peers" "length peers \<le> MAX_BOOTSTRAP"
    using assms by (auto simp: normalize_bootstrap_peers_def split: sum.splits if_splits)
  then show "length peers \<le> 32" "distinct peers"
    using collect_peers_props [OF raws(1)] by (simp_all add: MAX_BOOTSTRAP_def)
qed

text \<open>
  The invite list that is saved has at most 32 addresses, all different and all valid, and reading it
  back, strictly or not, gives the same list.
\<close>

theorem normalized_peers_stable:
  assumes "normalize_bootstrap_peers values strict = Inr peers"
  shows "distinct peers \<and> length peers \<le> 32
    \<and> (\<forall>a\<in>set peers. length a \<le> 512 \<and> \<not> list_ex py_isspace a \<and> (contains ''/p2p/'' a \<or> contains ''/ipfs/'' a))
    \<and> normalize_bootstrap_peers (JList (map JStr peers)) strict' = Inr peers"
proof -
  obtain raws where raws: "collect_peers strict raws [] = Inr peers" "length peers \<le> MAX_BOOTSTRAP"
    using assms by (auto simp: normalize_bootstrap_peers_def split: sum.splits if_splits)
  then have p: "distinct peers" "\<forall>a\<in>set peers. parse_bootstrap_addr (JStr a) = Inr a"
    using collect_peers_props by force+
  have "parse_bootstrap_addr (JStr a) = Inr a \<Longrightarrow> a \<noteq> [] \<and> py_strip a = a \<and> length a \<le> 512
      \<and> \<not> list_ex py_isspace a \<and> (contains ''/p2p/'' a \<or> contains ''/ipfs/'' a)" for a
    by (auto simp: parse_bootstrap_addr_def Let_def py_str_def split: if_splits)
  with p(2) have ok: "\<forall>a\<in>set peers. a \<noteq> [] \<and> py_strip a = a \<and> length a \<le> 512 \<and> \<not> list_ex py_isspace a
      \<and> (contains ''/p2p/'' a \<or> contains ''/ipfs/'' a)" by blast
  then have "filter (\<lambda>x. x \<noteq> []) (map (\<lambda>x. py_strip (py_str x)) (map JStr peers)) = peers"
    by (induction peers) (auto simp: py_str_def)
  then have "normalize_bootstrap_peers (JList (map JStr peers)) strict' = Inr peers"
    using p collect_peers_id [of "[]" peers strict'] raws(2)
    by (simp add: normalize_bootstrap_peers_def bootstrap_values_def)
  with p(1) ok raws(2) show ?thesis by (simp add: MAX_BOOTSTRAP_def)
qed

lemma toml_body_escape:
  "list_all (\<lambda>c. \<not> toml_control c) v \<Longrightarrow>
     toml_string_body (concat (map (\<lambda>c. if c = BS \<or> c = DQ then [BS, c] else [c]) v) @ DQ # r) = Some (v, r)"
proof (induction v)
  case (Cons c v)
  have "BS \<noteq> DQ" "\<not> toml_control BS" by (simp_all add: BS_def DQ_def toml_control_def)
  with Cons show ?case by auto
qed simp

lemma toml_body_control:
  "\<not> list_all (\<lambda>c. \<not> toml_control c) v \<Longrightarrow>
     toml_string_body (concat (map (\<lambda>c. if c = BS \<or> c = DQ then [BS, c] else [c]) v) @ DQ # r) = None"
proof (induction v)
  case (Cons c v)
  have "BS \<noteq> DQ" "\<not> toml_control BS" "\<not> toml_control DQ" by (simp_all add: BS_def DQ_def toml_control_def)
  with Cons show ?case by auto
qed simp


definition ex_config :: string where
  "ex_config = ''[club]'' @ [NL] @ ''id = '' @ [DQ] @ ''academic'' @ [DQ, NL]"

definition ex_addr :: string where
  "ex_addr = ''/ip4/192.0.2.1/tcp/4713/p2p/x''"

theorem normalized_peers_witness:
  "distinct [ex_addr] \<and> normalize_bootstrap_peers (JList (map JStr [ex_addr])) True = Inr [ex_addr]"
proof -
  have "normalize_bootstrap_peers (JList [JStr ex_addr, JStr ''bad'', JStr ex_addr]) False = Inr [ex_addr]"
    by code_simp
  from normalized_peers_stable [OF this, of True] show ?thesis by blast
qed

text \<open>
  The text that is replaced ends at the first closing bracket, so an address that holds one, which
  validation lets through, leaves its tail behind when the list is saved again.
\<close>

theorem bracket_breaks_config:
  "\<exists>text1. write_bootstrap_peers (JList [JStr ''/ip4/192.0.2.1/p2p/x]y'']) (Some ex_config) = Inr ([''/ip4/192.0.2.1/p2p/x]y''], text1)
     \<and> write_bootstrap_peers (JList []) (Some text1)
        = Inr ([], ''[club]'' @ [NL] @ ''bootstrap_peers = []y'' @ [DQ] @ '','' @ [NL] @ '']'' @ [NL]
                   @ ''id = '' @ [DQ] @ ''academic'' @ [DQ, NL])"
proof (intro exI conjI)
  show "write_bootstrap_peers (JList [JStr ''/ip4/192.0.2.1/p2p/x]y'']) (Some ex_config)
      = Inr ([''/ip4/192.0.2.1/p2p/x]y''], ''[club]'' @ [NL] @ ''bootstrap_peers = ['' @ [NL] @ ''    '' @ [DQ]
          @ ''/ip4/192.0.2.1/p2p/x]y'' @ [DQ] @ '','' @ [NL] @ '']'' @ [NL] @ ''id = '' @ [DQ] @ ''academic'' @ [DQ, NL])"
    by code_simp
  show "write_bootstrap_peers (JList []) (Some (''[club]'' @ [NL] @ ''bootstrap_peers = ['' @ [NL] @ ''    '' @ [DQ]
          @ ''/ip4/192.0.2.1/p2p/x]y'' @ [DQ] @ '','' @ [NL] @ '']'' @ [NL] @ ''id = '' @ [DQ] @ ''academic'' @ [DQ, NL]))
      = Inr ([], ''[club]'' @ [NL] @ ''bootstrap_peers = []y'' @ [DQ] @ '','' @ [NL] @ '']'' @ [NL]
                   @ ''id = '' @ [DQ] @ ''academic'' @ [DQ, NL])"
    by code_simp
qed

end
