(* ===== verification/Queries.thy ===== *)
theory Queries
  imports Clubd
begin

text \<open>
  The reading half of \<open>observer/clubd_client.py\<close>: who clubd is, whom it is connected to, whether it is up, and
  handing it a new invite list. An answer is again \<open>Down\<close> (any \<open>RequestException\<close>), a body that is not JSON, or its
  JSON; \<open>requests\<close> raises an exception that is both a \<open>RequestException\<close> and a ValueError for the second.
\<close>

text \<open>Every caller passes the cached peer id through; JNull is the unset cache.\<close>

definition peer_id :: "club_reply \<Rightarrow> json \<Rightarrow> json res \<times> json" where
  "peer_id answer cache =
     (if truthy cache then (Inr cache, cache)
      else case answer of
        Reply (JObj o1) \<Rightarrow> (Inr (jget o1 ''peer_id''), jget o1 ''peer_id'')
      | Reply v \<Rightarrow> (Inl AttributeError, cache)
      | _ \<Rightarrow> (Inr JNull, cache))"

definition identity :: "club_reply \<Rightarrow> json \<Rightarrow> payload res \<times> json" where
  "identity answer cache =
     (case answer of
        Reply (JObj o1) \<Rightarrow> (Inr o1, if truthy (jget o1 ''peer_id'') then jget o1 ''peer_id'' else cache)
      | Reply v \<Rightarrow> (Inl AttributeError, cache)
      | _ \<Rightarrow> (Inr [], cache))"

text \<open>\<open>list(v or [])\<close>: of a list its items, of a string its characters, of an object its keys.\<close>

definition list_of :: "json \<Rightarrow> json list res" where
  "list_of v =
     (if \<not> truthy v then Inr []
      else case v of
        JList xs \<Rightarrow> Inr xs
      | JStr s \<Rightarrow> Inr (map (\<lambda>c. JStr [c]) s)
      | JObj kvs \<Rightarrow> Inr (map (\<lambda>kv. JStr (fst kv)) kvs)
      | _ \<Rightarrow> Inl TypeError)"

text \<open>An AttributeError is caught, a TypeError of \<open>list\<close> is not.\<close>

definition connected_peers :: "club_reply \<Rightarrow> json list res" where
  "connected_peers answer =
     (case answer of Reply (JObj o1) \<Rightarrow> list_of (jget o1 ''peers'') | _ \<Rightarrow> Inr [])"

definition set_bootstrap :: "(string list \<Rightarrow> club_reply) \<Rightarrow> string list \<Rightarrow> json option" where
  "set_bootstrap answer peers = (case answer peers of Reply v \<Rightarrow> Some v | _ \<Rightarrow> None)"

definition clubd_available :: "club_reply \<Rightarrow> bool" where
  "clubd_available answer \<longleftrightarrow> answer \<noteq> Down"

text \<open>Once known, the peer id is answered from the cache, whatever clubd says later.\<close>

lemma peer_id_cached: "truthy cache \<Longrightarrow> peer_id answer cache = (Inr cache, cache)"
  by (simp add: peer_id_def)

lemma peer_id_learnt:
  "peer_id answer cache = (Inr v, cache') \<Longrightarrow> truthy v \<Longrightarrow> peer_id answer' cache' = (Inr v, cache')"
  by (auto simp: peer_id_def split: if_splits club_reply.splits json.splits)

end
