(* ===== verification/Clubs.thy ===== *)
theory Clubs
  imports Club "HOL-Library.List_Lexorder" "HOL-Library.Char_ord"
begin

text \<open>
  The rest of \<open>observer/club.py\<close>: the list of installed clubs and the profile the process keeps. The
  directory \<open>clubs/\<close> is the list of its names (None when it cannot be read), which of them are directories,
  and what \<open>load\<close> makes of each; the order of the names is that of the operating system.
\<close>

fun installed :: "(string \<Rightarrow> bool) \<Rightarrow> (string \<Rightarrow> club res) \<Rightarrow> string list \<Rightarrow> club list res" where
  "installed isdir load [] = Inr []"
| "installed isdir load (n # ns) =
     (if \<not> isdir n then installed isdir load ns
      else case load n of
        Inl e \<Rightarrow> if e = ValueError then installed isdir load ns else Inl e
      | Inr P \<Rightarrow> (case installed isdir load ns of Inl e \<Rightarrow> Inl e | Inr Ps \<Rightarrow> Inr (P # Ps)))"

definition club_rank :: "string \<times> string \<Rightarrow> nat \<times> string" where
  "club_rank c = (if fst c = ''academic'' then 0 else 1, fst c)"

definition available_clubs :: "(string \<Rightarrow> bool) \<Rightarrow> (string \<Rightarrow> club res) \<Rightarrow> string list option \<Rightarrow> (string \<times> string) list res" where
  "available_clubs isdir load names =
     (case names of
        None \<Rightarrow> Inr []
      | Some ns \<Rightarrow>
          (case installed isdir load (sort ns) of
             Inl e \<Rightarrow> Inl e
           | Inr Ps \<Rightarrow> Inr (sort_key club_rank (map (\<lambda>P. (club_id P, club_name P)) Ps))))"

text \<open>\<open>_current\<close>: the profile is loaded once; a failed load leaves it unset.\<close>

definition current_club :: "club res \<Rightarrow> club option \<Rightarrow> club res \<times> club option" where
  "current_club loaded cur =
     (case cur of
        Some P \<Rightarrow> (Inr P, cur)
      | None \<Rightarrow> (case loaded of Inl e \<Rightarrow> (Inl e, None) | Inr P \<Rightarrow> (Inr P, Some P)))"

lemma installed_loads:
  "installed isdir load ns = Inr Ps \<Longrightarrow> set Ps = {P. \<exists>n\<in>set ns. isdir n \<and> load n = Inr P}"
  by (induction ns arbitrary: Ps) (auto split: if_splits sum.splits)

text \<open>
  The picker offers exactly the directories that load, academic first and the others by id; each
  load returns the id of its directory.
\<close>

theorem available_clubs_spec:
  assumes "available_clubs isdir load (Some ns) = Inr cs"
    "\<And>n P. n \<in> set ns \<Longrightarrow> isdir n \<Longrightarrow> load n = Inr P \<Longrightarrow> club_id P = n"
  shows "fst ` set cs = {n \<in> set ns. isdir n \<and> (\<exists>P. load n = Inr P)}
    \<and> sorted (map club_rank cs) \<and> (''academic'' \<in> fst ` set cs \<longrightarrow> fst (hd cs) = ''academic'')"
proof -
  obtain Ps where Ps: "installed isdir load (sort ns) = Inr Ps"
    and cs: "cs = sort_key club_rank (map (\<lambda>P. (club_id P, club_name P)) Ps)"
    using assms(1) by (auto simp: available_clubs_def split: sum.splits)
  have ids: "fst ` set cs = {n \<in> set ns. isdir n \<and> (\<exists>P. load n = Inr P)}"
    using installed_loads [OF Ps] assms(2) by (force simp: cs image_image)
  have sorted: "sorted (map club_rank cs)" by (simp add: cs)
  have "fst (hd cs) = ''academic''" if "''academic'' \<in> fst ` set cs"
  proof -
    from that obtain c where c: "c \<in> set cs" "fst c = ''academic''" by force
    then obtain d ds where d: "cs = d # ds" by (cases cs) auto
    with sorted c have "club_rank d \<le> club_rank c" by auto
    with c(2) show ?thesis by (auto simp: d club_rank_def less_eq_prod_def split: if_splits)
  qed
  with ids sorted show ?thesis by blast
qed

theorem available_clubs_witness:
  "\<exists>cs. available_clubs (\<lambda>n. n \<noteq> ''notes'') (\<lambda>n. if n = ''broken'' then Inl ValueError else Inr (ex_club\<lparr>club_id := n\<rparr>))
     (Some [''notes'', ''aa'', ''academic'', ''broken'']) = Inr cs \<and> fst (hd cs) = ''academic''"
proof -
  let ?run = "available_clubs (\<lambda>n. n \<noteq> ''notes'') (\<lambda>n. if n = ''broken'' then Inl ValueError else Inr (ex_club\<lparr>club_id := n\<rparr>))
     (Some [''notes'', ''aa'', ''academic'', ''broken''])"
  have run: "?run = Inr [(''academic'', ''academic''), (''aa'', ''academic'')]" by code_simp
  show ?thesis
    using available_clubs_spec [OF run] run by (auto split: if_splits)
qed

end
