(* ===== verification/Bootstrap.thy ===== *)
theory Bootstrap
  imports Config Queries Clubs "HOL-Library.Multiset"
begin

text \<open>
  \<open>observer/bootstrap.py\<close> and \<open>observer/clubd_flags.py\<close>: which listen addresses an invite shows, the
  status of the invite list, saving it, and the command line of clubd. What clubd answers is an
  argument.
\<close>

section \<open>Addresses to share\<close>

definition LOOPBACK :: "string list" where
  "LOOPBACK = [''/ip4/127.0.0.1/'', ''/ip4/0.0.0.0/'', ''/ip6/::1/'', ''/ip6/0:0:0:0:0:0:0:1/'']"

definition loopback :: "string \<Rightarrow> bool" where
  "loopback addr = list_ex (\<lambda>token. contains token addr) LOOPBACK"

definition docker_bridge :: "string \<Rightarrow> bool" where
  "docker_bridge addr = list_ex (\<lambda>token. contains token addr) [''/ip4/172.17.'', ''/ip4/172.18.'', ''/ip4/172.19.'']"

definition share_key :: "string \<Rightarrow> nat \<times> nat \<times> string" where
  "share_key a = (if docker_bridge a then 1 else 0, if contains ''/tcp/'' a then 0 else 1, a)"

definition shareable_addrs :: "string list \<Rightarrow> string list" where
  "shareable_addrs addrs = sort_key share_key (filter (\<lambda>a. a \<noteq> [] \<and> \<not> loopback a) addrs)"

section \<open>Status and saving\<close>

text \<open>What clubd answers on \<open>/id\<close>, \<open>/v1/peers\<close>, \<open>/health\<close>, and to a posted invite list.\<close>

record clubd_http =
  h_id :: club_reply
  h_peers :: club_reply
  h_health :: club_reply
  h_bootstrap :: "string list \<Rightarrow> club_reply"

record invite_status =
  is_clubd :: bool
  is_peer_id :: json
  is_club :: json
  is_addrs :: "json list"
  is_share :: "string list"
  is_connected :: "json list"
  is_bootstrap :: "string list"
  is_dial :: "json list option"
  is_applied :: "bool option"

text \<open>
  The addresses \<open>shareable_addrs\<close> looks at; clubd lists strings, on a number the search for a token
  raises.
\<close>

fun addr_strings :: "json list \<Rightarrow> string list res" where
  "addr_strings [] = Inr []"
| "addr_strings (v # vs) =
     (if \<not> truthy v then addr_strings vs
      else case v of
        JStr a \<Rightarrow> res_bind (addr_strings vs) (\<lambda>as. Inr (a # as))
      | _ \<Rightarrow> Inl TypeError)"

definition invite_id :: "clubd_http \<Rightarrow> payload \<Rightarrow> json \<Rightarrow> json res \<times> json" where
  "invite_id H ident cache =
     (if truthy (jget ident ''peer_id'') then (Inr (jget ident ''peer_id''), cache)
      else case peer_id (h_id H) cache of
        (Inl e, cache') \<Rightarrow> (Inl e, cache')
      | (Inr v, cache') \<Rightarrow> (Inr (if truthy v then v else JStr []), cache'))"

definition bootstrap_status :: "clubd_http \<Rightarrow> string \<Rightarrow> json \<Rightarrow> json \<Rightarrow> invite_status res \<times> json" where
  "bootstrap_status H own_club saved cache =
     (case identity (h_id H) cache of
        (Inl e, cache1) \<Rightarrow> (Inl e, cache1)
      | (Inr ident, cache1) \<Rightarrow>
          (case res_bind (list_of (jget ident ''addrs'')) (\<lambda>addrs.
                  res_bind (connected_peers (h_peers H)) (\<lambda>conn. Inr (addrs, conn))) of
             Inl e \<Rightarrow> (Inl e, cache1)
           | Inr (addrs, conn) \<Rightarrow>
               (case invite_id H ident cache1 of
                  (Inl e, cache2) \<Rightarrow> (Inl e, cache2)
                | (Inr pid, cache2) \<Rightarrow>
                    (res_bind (addr_strings addrs) (\<lambda>strs.
                     res_bind (normalize_bootstrap_peers (if truthy saved then saved else JList []) False) (\<lambda>peers.
                       Inr \<lparr>is_clubd = clubd_available (h_health H), is_peer_id = pid,
                            is_club = (if truthy (jget ident ''club'') then jget ident ''club'' else JStr own_club),
                            is_addrs = addrs, is_share = shareable_addrs strs, is_connected = conn,
                            is_bootstrap = peers, is_dial = None, is_applied = None\<rparr>)), cache2))))"

text \<open>\<open>applied\<close> of \<open>save\<close>: what clubd did with the new list.\<close>

definition mark_applied :: "json option \<Rightarrow> string list \<Rightarrow> invite_status \<Rightarrow> invite_status res" where
  "mark_applied applied saved out =
     (case applied of
        None \<Rightarrow> Inr (out\<lparr>is_bootstrap := saved, is_applied := Some False\<rparr>)
      | Some (JObj ans) \<Rightarrow>
          res_bind (if jget ans ''connected'' = JNull then Inr (is_connected out) else list_of (jget ans ''connected'')) (\<lambda>conn.
          res_bind (list_of (jget ans ''dial'')) (\<lambda>dial.
            Inr (out\<lparr>is_bootstrap := saved, is_connected := conn, is_dial := Some dial, is_applied := Some True\<rparr>)))
      | Some v \<Rightarrow> Inl AttributeError)"

text \<open>
  The file is written and clubd told before the status is collected; an exception after that leaves
  the new file. \<open>read_peers\<close> is the list as the written file is read back.
\<close>

definition bootstrap_save :: "clubd_http \<Rightarrow> string \<Rightarrow> (string \<Rightarrow> json) \<Rightarrow> json \<Rightarrow> json \<Rightarrow> string option \<Rightarrow>
    invite_status res \<times> json \<times> string option" where
  "bootstrap_save H own_club read_peers peers cache file =
     (case write_bootstrap_peers peers file of
        Inl e \<Rightarrow> (Inl e, cache, file)
      | Inr (saved, text) \<Rightarrow>
          (case bootstrap_status H own_club (read_peers text) cache of
             (r, cache') \<Rightarrow>
               (res_bind r (mark_applied (set_bootstrap (h_bootstrap H) saved) saved), cache', Some text)))"

section \<open>The command line of clubd\<close>

definition snapshot_host :: "string \<Rightarrow> string" where
  "snapshot_host web_host =
     (let host = py_strip (if web_host = [] then ''127.0.0.1'' else web_host) in
      if host \<in> {''0.0.0.0'', ''::'', ''[::]''} then ''127.0.0.1'' else host)"

text \<open>The settings the flags come from; integers are given after \<open>int()\<close>.\<close>

record flag_settings =
  fs_club :: string
  fs_listen_port :: int
  fs_api_host :: string
  fs_api_port :: int
  fs_identity :: string
  fs_inbox :: string
  fs_web_host :: string
  fs_web_port :: int
  fs_rate :: int
  fs_inbox_max_bytes :: int
  fs_inbox_keep_days :: int
  fs_mdns :: json
  fs_bootstrap :: json

definition mdns_on :: "json \<Rightarrow> bool" where
  "mdns_on v =
     (case v of
        JStr s \<Rightarrow> py_lower (py_strip s) \<notin> {''0'', ''false'', ''no'', ''off''}
      | _ \<Rightarrow> truthy v)"

definition flags :: "flag_settings \<Rightarrow> string list res" where
  "flags S =
     (case normalize_bootstrap_peers (if truthy (fs_bootstrap S) then fs_bootstrap S else JList []) False of
        Inl e \<Rightarrow> Inl e
      | Inr peers \<Rightarrow>
          Inr ([''-club'', fs_club S, ''-port'', dec_int (fs_listen_port S),
                ''-api'', fs_api_host S @ '':'' @ dec_int (fs_api_port S),
                ''-identity'', fs_identity S, ''-inbox'', fs_inbox S,
                ''-snapshot-url'', ''http://'' @ snapshot_host (fs_web_host S) @ '':'' @ dec_int (fs_web_port S) @ ''/api/snapshot'',
                ''-rate'', dec_int (fs_rate S), ''-inbox-max-bytes'', dec_int (fs_inbox_max_bytes S),
                ''-inbox-keep-days'', dec_int (fs_inbox_keep_days S),
                ''-mdns='' @ (if mdns_on (fs_mdns S) then ''true'' else ''false'')]
               @ (if peers = [] then [] else [''-bootstrap'', py_join '','' peers])))"

section \<open>Laws\<close>

text \<open>
  An invite shows each usable address as often as clubd listens on it, never a loopback one, and
  none behind a docker bridge before one that is not.
\<close>

theorem shareable_addrs_spec:
  "mset (shareable_addrs addrs) = mset (filter (\<lambda>a. a \<noteq> [] \<and> \<not> loopback a) addrs)
   \<and> sorted (map (\<lambda>a. if docker_bridge a then 1 else 0 :: nat) (shareable_addrs addrs))"
proof
  show "mset (shareable_addrs addrs) = mset (filter (\<lambda>a. a \<noteq> [] \<and> \<not> loopback a) addrs)"
    by (simp add: shareable_addrs_def)
  have "sorted (map share_key (shareable_addrs addrs))" by (simp add: shareable_addrs_def)
  then have "sorted (map fst (map share_key (shareable_addrs addrs)))"
    by (rule sorted_map_mono) (auto intro!: mono_onI simp: less_eq_prod_def)
  then show "sorted (map (\<lambda>a. if docker_bridge a then 1 else 0 :: nat) (shareable_addrs addrs))"
    by (simp add: share_key_def o_def)
qed

text \<open>A command line never hands clubd more than 32 invites, whatever the configuration file holds.\<close>

lemma flags_bootstrap_bound:
  assumes "flags S = Inr args"
  obtains peers where "length peers \<le> 32" "distinct peers" "peers \<noteq> [] \<Longrightarrow> \<exists>pre. args = pre @ [''-bootstrap'', py_join '','' peers]"
proof -
  obtain peers where p: "normalize_bootstrap_peers (if truthy (fs_bootstrap S) then fs_bootstrap S else JList []) False = Inr peers"
    using assms by (auto simp: flags_def split: sum.splits)
  from normalize_length [OF p] assms p show thesis
    by (intro that [of peers]) (auto simp: flags_def)
qed

end
