(* ===== verification/Web.thy ===== *)
theory Web
  imports Auth_Laws Classify Search Bootstrap
begin

text \<open>
  \<open>observer/web.py\<close>: the routes of the web interface over the modelled parts. A request is its route
  with the body's fields, the client it comes from, and what it draws from outside; the answer is
  an HTTP status, or a response. What a route posts to clubd is part of its result. Serving the
  static files is left out; requests are taken one at a time.
\<close>

section \<open>State, requests, answers\<close>

text \<open>The configuration file is its text, None when there is none.\<close>

record site =
  w_auth :: authst
  w_chat :: backend
  w_cat :: catalog
  w_queue :: queue
  w_conf :: "string option"
  w_peer :: json \<comment> \<open>the peer id clubd_client keeps\<close>

text \<open>
  The surroundings of a request: clubd's answers, the backends' answers, the installed clubs (\<open>club.load\<close>),
  what \<open>tomllib\<close> reads from the configuration file, and SQLite's full-text index.
\<close>

record world =
  x_env :: env
  x_reply :: "payload \<Rightarrow> club_reply"
  x_crypto :: crypto
  x_draws :: draws
  x_net :: net
  x_llm :: obj
  x_env_locks :: bool
  x_clubs :: "string \<Rightarrow> club res"
  x_club_dirs :: "string list option"
  x_is_dir :: "string \<Rightarrow> bool"
  x_read_id :: "string \<Rightarrow> json res"
  x_read_peers :: "string \<Rightarrow> json"
  x_start_peers :: json \<comment> \<open>the list the process started with\<close>
  x_http :: clubd_http
  x_fts :: "string \<Rightarrow> ftsrow list \<Rightarrow> int list res"
  x_snapshot_limit :: int
  x_fetch :: intcfg
  x_run :: "(string \<times> int) list"

datatype cookie = KeepCookie | DeleteCookie | SetCookie string bool

datatype body =
    Fields obj
  | Invite invite_status
  | Rows "found list" "int option"
  | TextBody string
  | Reported "reported list" "(proposal \<times> drow option) list"
  | Banned "blackrow list"
  | Ranking "ranked list"
  | Counters catalog_counts qstats obj

type_synonym answer_of = "(body \<times> cookie) http \<times> payload list \<times> site"

definition ok_flag :: "string \<times> json" where
  "ok_flag = (''ok'', JBool True)"

text \<open>A ValueError is answered with 400; any other exception reaches the server and gives 500.\<close>

definition status_of :: "pyerr \<Rightarrow> nat" where
  "status_of e = (if e = ValueError then 400 else 500)"

definition fail :: "nat \<Rightarrow> site \<Rightarrow> answer_of" where
  "fail n s = (Inl n, [], s)"

definition reply_with :: "obj \<Rightarrow> site \<Rightarrow> answer_of" where
  "reply_with o1 s = (Inr (Fields o1, KeepCookie), [], s)"

text \<open>A guard of \<open>auth\<close>, then the rest of the handler.\<close>

definition guarded :: "(authst \<Rightarrow> unit http \<times> authst) \<Rightarrow> (site \<Rightarrow> answer_of) \<Rightarrow> site \<Rightarrow> answer_of" where
  "guarded g k s =
     (case g (w_auth s) of
        (Inl n, a) \<Rightarrow> fail n (s\<lparr>w_auth := a\<rparr>)
      | (Inr u, a) \<Rightarrow> k (s\<lparr>w_auth := a\<rparr>))"

definition admin_only :: "world \<Rightarrow> request \<Rightarrow> (site \<Rightarrow> answer_of) \<Rightarrow> site \<Rightarrow> answer_of" where
  "admin_only X rq = guarded (require_admin (x_crypto X) (x_draws X) rq)"

definition admin_reads :: "world \<Rightarrow> request \<Rightarrow> (site \<Rightarrow> answer_of) \<Rightarrow> site \<Rightarrow> answer_of" where
  "admin_reads X rq = guarded (require_admin_read (x_crypto X) (x_draws X) rq)"

section \<open>Password and session\<close>

definition session_cookie :: "world \<Rightarrow> request \<Rightarrow> obj \<Rightarrow> site \<Rightarrow> answer_of" where
  "session_cookie X rq o1 s =
     (case set_session_cookie (x_crypto X) (x_draws X) rq (w_auth s) of
        (c, a) \<Rightarrow> (Inr (Fields o1, case c of None \<Rightarrow> DeleteCookie | Some (v, sec) \<Rightarrow> SetCookie v sec), [],
                   s\<lparr>w_auth := a\<rparr>))"

definition api_admin_status :: "world \<Rightarrow> request \<Rightarrow> site \<Rightarrow> answer_of" where
  "api_admin_status X rq s =
     (case auth_status (x_crypto X) (x_draws X) rq (w_auth s) of
        ((locked, ok), a) \<Rightarrow>
          reply_with [(''password_set'', JBool locked), (''authenticated'', JBool ok)] (s\<lparr>w_auth := a\<rparr>))"

definition api_admin_login :: "world \<Rightarrow> request \<Rightarrow> string \<Rightarrow> site \<Rightarrow> answer_of" where
  "api_admin_login X rq password =
     guarded (check_login_rate (x_draws X) rq) (\<lambda>s.
       if \<not> password_is_set (w_auth s) then fail 400 s
       else case verify_password (x_crypto X) password (w_auth s) of
         Inl e \<Rightarrow> fail 500 s
       | Inr ok \<Rightarrow>
           if \<not> ok then fail 401 (s\<lparr>w_auth := record_login_failure (x_draws X) rq (w_auth s)\<rparr>)
           else session_cookie X rq [ok_flag, (''password_set'', JBool True), (''authenticated'', JBool True)]
                  (s\<lparr>w_auth := clear_login_failures rq (w_auth s)\<rparr>))"

definition api_admin_logout :: "site \<Rightarrow> answer_of" where
  "api_admin_logout s =
     (Inr (Fields [ok_flag, (''password_set'', JBool (password_is_set (w_auth s))), (''authenticated'', JBool False)],
           DeleteCookie), [], s)"

definition store_password :: "world \<Rightarrow> request \<Rightarrow> string \<Rightarrow> site \<Rightarrow> answer_of" where
  "store_password X rq password s =
     (case set_password (x_crypto X) (x_draws X) password (w_auth s) of
        (Inl e, a) \<Rightarrow> fail (status_of e) (s\<lparr>w_auth := a\<rparr>)
      | (Inr u, a) \<Rightarrow>
          session_cookie X rq [ok_flag, (''password_set'', JBool True), (''authenticated'', JBool True)] (s\<lparr>w_auth := a\<rparr>))"

definition api_admin_password :: "world \<Rightarrow> request \<Rightarrow> string \<Rightarrow> string \<Rightarrow> site \<Rightarrow> answer_of" where
  "api_admin_password X rq password current s =
     (let locked = password_is_set (w_auth s);
          recover = is_corrupt (w_auth s) \<and> is_localhost rq
      in if locked \<and> \<not> recover then
           (if current = [] then fail 400 s
            else case verify_password (x_crypto X) current (w_auth s) of
              Inl e \<Rightarrow> fail 500 s
            | Inr ok \<Rightarrow> if \<not> ok then fail 401 s else store_password X rq password s)
         else if \<not> locked \<and> \<not> is_localhost rq then fail 403 s
         else store_password X rq password s)"

definition api_admin_password_clear :: "world \<Rightarrow> request \<Rightarrow> string \<Rightarrow> site \<Rightarrow> answer_of" where
  "api_admin_password_clear X rq current s =
     (let cleared = (Inr (Fields [ok_flag, (''password_set'', JBool False), (''authenticated'', JBool (is_localhost rq))],
                          DeleteCookie), [], s\<lparr>w_auth := clear_password (w_auth s)\<rparr>)
      in if \<not> password_is_set (w_auth s) then cleared
         else case verify_password (x_crypto X) current (w_auth s) of
           Inl e \<Rightarrow> fail 500 s
         | Inr ok \<Rightarrow>
             if \<not> ok \<and> \<not> (is_corrupt (w_auth s) \<and> is_localhost rq) then fail 401 s else cleared)"

section \<open>Settings\<close>

text \<open>An operation of \<open>llm\<close> on the part of the state it has.\<close>

definition on_settings :: "(chatst \<Rightarrow> obj res \<times> chatst) \<Rightarrow> backend \<Rightarrow> obj res \<times> backend" where
  "on_settings f b =
     (case f (chatst.truncate b) of
        (r, c) \<Rightarrow> (r, b\<lparr>llm_file := llm_file c, llm_cache := llm_cache c, hosts := hosts c\<rparr>))"

definition show_settings :: "world \<Rightarrow> (chatst \<Rightarrow> obj res \<times> chatst) \<Rightarrow> site \<Rightarrow> answer_of" where
  "show_settings X f s =
     (case on_settings f (w_chat s) of
        (Inl e, b) \<Rightarrow> fail (status_of e) (s\<lparr>w_chat := b\<rparr>)
      | (Inr out, b) \<Rightarrow>
          (case available (x_net X) (x_llm X) b of
             (Inl e, b') \<Rightarrow> fail 500 (s\<lparr>w_chat := b'\<rparr>)
           | (Inr up, b') \<Rightarrow> reply_with (out @ [(''available'', JBool up)]) (s\<lparr>w_chat := b'\<rparr>)))"

definition api_llm_get :: "world \<Rightarrow> request \<Rightarrow> site \<Rightarrow> answer_of" where
  "api_llm_get X rq = admin_reads X rq (show_settings X (public (x_llm X)))"

definition api_llm_set :: "world \<Rightarrow> request \<Rightarrow> string \<Rightarrow> string \<Rightarrow> string \<Rightarrow> string \<Rightarrow> string \<Rightarrow> bool option \<Rightarrow> site \<Rightarrow> answer_of" where
  "api_llm_set X rq pid name base_url model api_key on =
     admin_only X rq (show_settings X
       (if on = Some False then disable (x_llm X) pid
        else if base_url \<noteq> [] \<or> model \<noteq> [] \<or> api_key \<noteq> [] \<or> name \<noteq> []
        then save_provider (x_llm X) pid name base_url model api_key
        else set_active (x_llm X) pid))"

definition next_club :: "world \<Rightarrow> site \<Rightarrow> string res" where
  "next_club X s =
     (case w_conf s of
        None \<Rightarrow> Inr (club_id (e_club (x_env X)))
      | Some text \<Rightarrow> res_bind (x_read_id X text) (\<lambda>v. validate_club_id (jor v (JStr ''academic''))))"

definition club_choice :: "world \<Rightarrow> site \<Rightarrow> obj res" where
  "club_choice X s =
     (let P = e_club (x_env X) in
      res_bind (next_club X s) (\<lambda>nxt.
      res_bind (available_clubs (x_is_dir X) (x_clubs X) (x_club_dirs X)) (\<lambda>cs.
        Inr [(''current'', JObj [(''id'', JStr (club_id P)), (''name'', JStr (club_name P))]), (''next'', JStr nxt),
             (''restart_needed'', JBool (nxt \<noteq> club_id P)), (''env_locked'', JBool (x_env_locks X)),
             (''clubs'', JList (map (\<lambda>(i, n). JObj [(''id'', JStr i), (''name'', JStr n)]) cs))])))"

definition show_clubs :: "world \<Rightarrow> site \<Rightarrow> answer_of" where
  "show_clubs X s = (case club_choice X s of Inl e \<Rightarrow> fail 500 s | Inr o1 \<Rightarrow> reply_with o1 s)"

definition api_clubs :: "world \<Rightarrow> request \<Rightarrow> site \<Rightarrow> answer_of" where
  "api_clubs X rq = admin_reads X rq (show_clubs X)"

definition api_clubs_set :: "world \<Rightarrow> request \<Rightarrow> string \<Rightarrow> site \<Rightarrow> answer_of" where
  "api_clubs_set X rq wanted =
     admin_only X rq (\<lambda>s.
       if x_env_locks X then fail 409 s
       else case res_bind (validate_club_id (JStr wanted)) (\<lambda>c.
              res_bind (x_clubs X c) (\<lambda>P. write_club_id (JStr c) (w_conf s))) of
         Inl e \<Rightarrow> fail (status_of e) s
       | Inr (c, text) \<Rightarrow> show_clubs X (s\<lparr>w_conf := Some text\<rparr>))"

definition api_bootstrap_get :: "world \<Rightarrow> request \<Rightarrow> site \<Rightarrow> answer_of" where
  "api_bootstrap_get X rq =
     admin_reads X rq (\<lambda>s.
       case bootstrap_status (x_http X) (club_id (e_club (x_env X)))
              (case w_conf s of None \<Rightarrow> x_start_peers X | Some text \<Rightarrow> x_read_peers X text) (w_peer s) of
         (Inl e, cache) \<Rightarrow> fail 500 (s\<lparr>w_peer := cache\<rparr>)
       | (Inr out, cache) \<Rightarrow> (Inr (Invite out, KeepCookie), [], s\<lparr>w_peer := cache\<rparr>))"

definition api_bootstrap_set :: "world \<Rightarrow> request \<Rightarrow> string list \<Rightarrow> site \<Rightarrow> answer_of" where
  "api_bootstrap_set X rq peers =
     admin_only X rq (\<lambda>s.
       case bootstrap_save (x_http X) (club_id (e_club (x_env X))) (x_read_peers X) (JList (map JStr peers)) (w_peer s) (w_conf s) of
         (Inl e, cache, conf) \<Rightarrow> fail (status_of e) (s\<lparr>w_peer := cache, w_conf := conf\<rparr>)
       | (Inr out, cache, conf) \<Rightarrow> (Inr (Invite out, KeepCookie), [], s\<lparr>w_peer := cache, w_conf := conf\<rparr>))"

section \<open>Moderation\<close>

definition word_of_body :: "string \<Rightarrow> string" where
  "word_of_body v = py_lower (py_strip v)"

definition report_body :: "cid \<Rightarrow> string \<Rightarrow> bool \<Rightarrow> obj" where
  "report_body c reason waits =
     [ok_flag, (''cid'', JStr c), (''reason'', JStr reason), (''pending'', JBool waits)]"

text \<open>Publishing a report, and the answer to the client.\<close>

definition publish_then :: "world \<Rightarrow> cid \<Rightarrow> string \<Rightarrow> (site \<Rightarrow> site) \<Rightarrow> obj \<Rightarrow> site \<Rightarrow> answer_of" where
  "publish_then X c reason after out s =
     (case publish_report (x_env X) (x_reply X) c reason (w_cat s, w_queue s) of
        (r, posts, db, q) \<Rightarrow>
          (let s1 = s\<lparr>w_cat := db, w_queue := q\<rparr> in
           case r of
             Inl e \<Rightarrow> (Inl 500, posts, s1)
           | Inr ok \<Rightarrow> if \<not> ok then (Inl 503, posts, s1)
                       else (Inr (Fields out, KeepCookie), posts, after s1)))"

definition drop_pending :: "cid \<Rightarrow> string \<Rightarrow> site \<Rightarrow> site" where
  "drop_pending c reason s = s\<lparr>w_cat := drop_proposal c (Some reason) (w_cat s)\<rparr>"

definition propose :: "world \<Rightarrow> cid \<Rightarrow> string \<Rightarrow> site \<Rightarrow> answer_of" where
  "propose X c reason s =
     (if reason = ''abusive'' \<and> is_abusive (w_cat s) c then reply_with (report_body c reason False) s
      else case propose_report (e_now (x_env X)) c (Some reason) (w_cat s) of
        (ok, db) \<Rightarrow>
          if \<not> ok then fail 400 (s\<lparr>w_cat := db\<rparr>)
          else reply_with (report_body c reason True) (s\<lparr>w_cat := db\<rparr>))"

definition api_report :: "world \<Rightarrow> request \<Rightarrow> cid \<Rightarrow> string \<Rightarrow> site \<Rightarrow> answer_of" where
  "api_report X rq c reason0 s =
     (let reason = word_of_body reason0 in
      case is_admin (x_crypto X) (x_draws X) rq (w_auth s) of
        (admin, a) \<Rightarrow>
          (let s = s\<lparr>w_auth := a\<rparr> in
           if admin then
             (if reason \<notin> {''wrong'', ''abusive'', ''clear''} then fail 400 s
              else publish_then X c reason
                     (if reason \<in> {''abusive'', ''wrong''} then drop_pending c reason else (\<lambda>s. s))
                     (report_body c reason False) s)
           else if reason \<notin> {''abusive'', ''wrong''} then fail 401 s
           else guarded (check_report_rate (x_draws X) rq) (propose X c reason) s))"

definition api_reports :: "world \<Rightarrow> request \<Rightarrow> site \<Rightarrow> answer_of" where
  "api_reports X rq =
     admin_reads X rq (\<lambda>s. (Inr (Reported (abusive_reports (w_cat s) (e_peer (x_env X))) (list_proposals (w_cat s)),
                                KeepCookie), [], s))"

definition api_report_decide :: "world \<Rightarrow> request \<Rightarrow> cid \<Rightarrow> string \<Rightarrow> string \<Rightarrow> site \<Rightarrow> answer_of" where
  "api_report_decide X rq c action0 reason0 =
     admin_only X rq (\<lambda>s.
       let action = word_of_body action0;
           reason = word_of_body (if reason0 = [] then ''abusive'' else reason0);
           out = [ok_flag, (''cid'', JStr c), (''action'', JStr action), (''reason'', JStr reason)]
       in if action \<notin> {''accept'', ''reject''} then fail 400 s
          else if reason \<notin> {''abusive'', ''wrong''} then fail 400 s
          else if action = ''reject'' then reply_with out (drop_pending c reason s)
          else publish_then X c reason (drop_pending c reason) out s)"

definition api_blacklist_get :: "world \<Rightarrow> request \<Rightarrow> site \<Rightarrow> answer_of" where
  "api_blacklist_get X rq =
     admin_reads X rq (\<lambda>s. (Inr (Banned (list_blacklisted (w_cat s)), KeepCookie), [], s))"

definition api_blacklist_add :: "world \<Rightarrow> request \<Rightarrow> string \<Rightarrow> site \<Rightarrow> answer_of" where
  "api_blacklist_add X rq observer0 =
     admin_only X rq (\<lambda>s.
       let observer = py_strip observer0 in
       if observer = [] then fail 400 s
       else case blacklist (x_env X) (Some observer) (w_cat s) of
         (ok, db) \<Rightarrow> if \<not> ok then fail 400 (s\<lparr>w_cat := db\<rparr>)
                     else reply_with [ok_flag, (''observer'', JStr observer)] (s\<lparr>w_cat := db\<rparr>))"

definition api_blacklist_clear :: "world \<Rightarrow> request \<Rightarrow> string \<Rightarrow> site \<Rightarrow> answer_of" where
  "api_blacklist_clear X rq observer0 =
     admin_only X rq (\<lambda>s.
       let observer = py_strip observer0 in
       if observer = [] then fail 400 s
       else reply_with [ok_flag, (''observer'', JStr observer)]
              (s\<lparr>w_cat := snd (unblacklist (Some observer) (w_cat s))\<rparr>))"

definition api_alias_get :: "world \<Rightarrow> request \<Rightarrow> site \<Rightarrow> answer_of" where
  "api_alias_get X rq =
     admin_reads X rq (\<lambda>s. reply_with [(''alias'', JStr (local_alias (w_cat s))),
       (''peer_id'', JStr (str_or (e_peer (x_env X)) []))] s)"

definition api_alias_set :: "world \<Rightarrow> request \<Rightarrow> string \<Rightarrow> site \<Rightarrow> answer_of" where
  "api_alias_set X rq name =
     admin_only X rq (\<lambda>s.
       case set_and_publish (x_env X) (x_reply X) (JStr name) (w_cat s) of
         (Inl e, posts, db) \<Rightarrow> (Inl (status_of e), posts, s\<lparr>w_cat := db\<rparr>)
       | (Inr (n, published, peer), posts, db) \<Rightarrow>
           (Inr (Fields [(''alias'', JStr n), (''published'', published), (''peer_id'', JStr peer)], KeepCookie), posts,
            s\<lparr>w_cat := db\<rparr>))"

section \<open>Reading the catalog\<close>

definition show_rows :: "(found list \<times> int option) res \<Rightarrow> site \<Rightarrow> answer_of" where
  "show_rows r s = (case r of Inl e \<Rightarrow> fail 500 s | Inr (rows, n) \<Rightarrow> (Inr (Rows rows n, KeepCookie), [], s))"

definition api_search :: "world \<Rightarrow> string \<Rightarrow> string option \<Rightarrow> string option \<Rightarrow> int \<Rightarrow> site \<Rightarrow> answer_of" where
  "api_search X q field mime limit s =
     (if q = [] then fail 422 s
      else show_rows (map_sum (\<lambda>e. e) (\<lambda>rows. (rows, None))
             (search (x_fts X) (e_club (x_env X)) (w_cat s) q field mime (min limit 200))) s)"

definition api_browse :: "world \<Rightarrow> string option \<Rightarrow> string option \<Rightarrow> int \<Rightarrow> int \<Rightarrow> site \<Rightarrow> answer_of" where
  "api_browse X field mime limit offset s =
     show_rows (map_sum (\<lambda>e. e) (\<lambda>(rows, n). (rows, Some n))
       (browse (e_club (x_env X)) (w_cat s) field mime (min limit 100) (max offset 0))) s"

definition api_export :: "world \<Rightarrow> string option \<Rightarrow> string option \<Rightarrow> string option \<Rightarrow> site \<Rightarrow> answer_of" where
  "api_export X q field mime s =
     (case (if str_or q [] \<noteq> []
            then search (x_fts X) (e_club (x_env X)) (w_cat s) (str_or q []) field mime 100000
            else map_sum (\<lambda>e. e) fst (browse (e_club (x_env X)) (w_cat s) field mime 100000 0)) of
        Inl e \<Rightarrow> fail 500 s
      | Inr rows \<Rightarrow>
          (let text = py_join [NL] (map (\<lambda>r. d_cid (fst r)) rows) in
           (Inr (TextBody (text @ (if text = [] then [] else [NL])), KeepCookie), [], s)))"

definition api_snapshot :: "world \<Rightarrow> request \<Rightarrow> int option \<Rightarrow> site \<Rightarrow> answer_of" where
  "api_snapshot X rq limit s =
     (if \<not> is_localhost rq then fail 403 s
      else
        let cap = x_snapshot_limit X;
            n = (case limit of None \<Rightarrow> cap | Some l \<Rightarrow> min (max l 0) cap)
        in (Inr (TextBody (export_snapshot (w_cat s) n), KeepCookie), [], s))"

text \<open>\<open>/api/club\<close>, \<open>/api/observers\<close> and \<open>/api/stats\<close>: the joined club, the nodes, and the counters.\<close>

definition api_club :: "world \<Rightarrow> site \<Rightarrow> answer_of" where
  "api_club X s =
     (let P = e_club (x_env X) in
      reply_with [(''id'', JStr (club_id P)), (''name'', JStr (club_name P)), (''fields'', JList (map JStr (club_fields P))),
        (''mimes'', JList (map JStr CATALOG_MIMES)), (''prompt_ver'', JStr (prompt_ver P))] s)"

definition api_observers :: "world \<Rightarrow> site \<Rightarrow> answer_of" where
  "api_observers X s = (Inr (Ranking (observers (w_cat s) (e_peer (x_env X)) 50), KeepCookie), [], s)"

text \<open>The names and models of the backends in use, joined for display.\<close>

definition llm_labels :: "provider list \<Rightarrow> string res \<times> string res" where
  "llm_labels rows =
     (join_json [CHR '' '', CHR 0xB7, CHR '' ''] (filter truthy (map pv_model rows)),
      join_json '', '' (map (\<lambda>r. if truthy (pv_name r) then pv_name r else JStr (pv_id r)) rows))"

definition api_stats :: "world \<Rightarrow> site \<Rightarrow> answer_of" where
  "api_stats X s =
     (case catalog_stats (e_now (x_env X)) (w_cat s) of
        (c, db) \<Rightarrow>
          (case peer_id (h_id (x_http X)) (w_peer s) of
             (Inl e, cache) \<Rightarrow> fail 500 (s\<lparr>w_cat := db, w_peer := cache\<rparr>)
           | (Inr pid, cache) \<Rightarrow>
               (case available (x_net X) (x_llm X) (w_chat s) of
                  (Inl e, b) \<Rightarrow> fail 500 (s\<lparr>w_cat := db, w_peer := cache, w_chat := b\<rparr>)
                | (Inr up, b) \<Rightarrow>
                    (case enabled_here (x_llm X) b of
                       (Inl e, b2) \<Rightarrow> fail 500 (s\<lparr>w_cat := db, w_peer := cache, w_chat := b2\<rparr>)
                     | (Inr rows, b2) \<Rightarrow>
                         (let s' = s\<lparr>w_cat := db, w_peer := cache, w_chat := b2\<rparr> in
                          case llm_labels rows of
                            (Inr m, Inr nm) \<Rightarrow>
                              (Inr (Counters c (stats (x_fetch X) (e_now (x_env X)) (w_queue s))
                                     [(''run'', JObj (map (\<lambda>(k, n). (k, JInt n)) (x_run X))),
                                      (''clubd'', JBool (clubd_available (h_health (x_http X)))), (''peer_id'', pid),
                                      (''llm'', JBool up),
                                      (''club'', JObj [(''id'', JStr (club_id (e_club (x_env X)))),
                                                     (''name'', JStr (club_name (e_club (x_env X))))]),
                                      (''model'', JStr m), (''llm_name'', JStr nm)], KeepCookie), [], s')
                          | _ \<Rightarrow> fail 500 s')))))"

section \<open>The application\<close>

datatype route =
    Status | Login string | Logout | SetPassword string string | ClearPassword string
  | LlmGet | LlmSet string string string string string "bool option"
  | Clubs | ClubSet string | InviteGet | InviteSet "string list"
  | Report cid string | Reports | Decide cid string string
  | BlacklistGet | BlacklistAdd string | BlacklistClear string
  | AliasGet | AliasSet string
  | Query string "string option" "string option" int
  | Browse "string option" "string option" int int
  | Export "string option" "string option" "string option"
  | Snapshot "int option" | Profile | Nodes | Stats

fun handle :: "world \<Rightarrow> request \<Rightarrow> route \<Rightarrow> site \<Rightarrow> answer_of" where
  "handle X rq Status s = api_admin_status X rq s"
| "handle X rq (Login p) s = api_admin_login X rq p s"
| "handle X rq Logout s = api_admin_logout s"
| "handle X rq (SetPassword p cur) s = api_admin_password X rq p cur s"
| "handle X rq (ClearPassword cur) s = api_admin_password_clear X rq cur s"
| "handle X rq LlmGet s = api_llm_get X rq s"
| "handle X rq (LlmSet pid n u m k on) s = api_llm_set X rq pid n u m k on s"
| "handle X rq Clubs s = api_clubs X rq s"
| "handle X rq (ClubSet c) s = api_clubs_set X rq c s"
| "handle X rq InviteGet s = api_bootstrap_get X rq s"
| "handle X rq (InviteSet ps) s = api_bootstrap_set X rq ps s"
| "handle X rq (Report c r) s = api_report X rq c r s"
| "handle X rq Reports s = api_reports X rq s"
| "handle X rq (Decide c a r) s = api_report_decide X rq c a r s"
| "handle X rq BlacklistGet s = api_blacklist_get X rq s"
| "handle X rq (BlacklistAdd p) s = api_blacklist_add X rq p s"
| "handle X rq (BlacklistClear p) s = api_blacklist_clear X rq p s"
| "handle X rq AliasGet s = api_alias_get X rq s"
| "handle X rq (AliasSet n) s = api_alias_set X rq n s"
| "handle X rq (Query q f m l) s = api_search X q f m l s"
| "handle X rq (Browse f m l o1) s = api_browse X f m l o1 s"
| "handle X rq (Export q f m) s = api_export X q f m s"
| "handle X rq (Snapshot l) s = api_snapshot X rq l s"
| "handle X rq Profile s = api_club X s"
| "handle X rq Nodes s = api_observers X s"
| "handle X rq Stats s = api_stats X s"

end
