(* ===== verification/Web_Laws.thy ===== *)
theory Web_Laws
  imports Web Store_Props
begin

text \<open>
  What the routes guarantee together: who may change what, what accepting a report does to the
  listing, and how far the limits of the interface reach.
\<close>

section \<open>Only an administrator changes anything\<close>

text \<open>
  What a visitor must not change: the stored password, the backends' settings, the configuration file, the
  work queue, and the catalog except for the pending proposals and the cached count.
\<close>

definition kept_from_visitors :: "site \<Rightarrow> stored option \<times> stored option \<times> string option \<times> queue \<times> catalog" where
  "kept_from_visitors s =
     (admin_file (w_auth s), llm_file (w_chat s), w_conf s, w_queue s, (w_cat s)\<lparr>proposals := [], docs_count := None\<rparr>)"

text \<open>A handler that posts nothing and leaves that part of the state as it is.\<close>

definition harmless :: "site \<Rightarrow> answer_of \<Rightarrow> bool" where
  "harmless s a \<longleftrightarrow> (case a of (r, posts, s') \<Rightarrow> posts = [] \<and> kept_from_visitors s' = kept_from_visitors s)"

text \<open>
  Whether a request may change more: it is an administrator's, or it is one of the two password routes
  with the current password, or from the machine itself while the stored record cannot be read.
\<close>

definition may_change :: "world \<Rightarrow> request \<Rightarrow> route \<Rightarrow> site \<Rightarrow> bool" where
  "may_change X rq r s \<longleftrightarrow>
     fst (is_admin (x_crypto X) (x_draws X) rq (w_auth s))
     \<or> (case r of
          SetPassword p cur \<Rightarrow> verify_password (x_crypto X) cur (w_auth s) = Inr True
        | ClearPassword cur \<Rightarrow> verify_password (x_crypto X) cur (w_auth s) = Inr True
        | _ \<Rightarrow> False)
     \<or> is_corrupt (w_auth s) \<and> is_localhost rq"

named_theorems harm

lemma harmless_fail [harm]: "harmless s (fail n s') \<longleftrightarrow> kept_from_visitors s' = kept_from_visitors s"
  by (simp add: harmless_def fail_def)

lemma harmless_reply [harm]: "harmless s (reply_with o1 s') \<longleftrightarrow> kept_from_visitors s' = kept_from_visitors s"
  by (simp add: harmless_def reply_with_def)

lemma harmless_answer [harm]: "harmless s (r, [], s') \<longleftrightarrow> kept_from_visitors s' = kept_from_visitors s"
  by (simp add: harmless_def)

lemma kept_update [harm]:
  "admin_file a = admin_file (w_auth s) \<Longrightarrow> kept_from_visitors (s\<lparr>w_auth := a\<rparr>) = kept_from_visitors s"
  "llm_file b = llm_file (w_chat s) \<Longrightarrow> kept_from_visitors (s\<lparr>w_chat := b\<rparr>) = kept_from_visitors s"
  "kept_from_visitors (s\<lparr>w_peer := v\<rparr>) = kept_from_visitors s"
  "db\<lparr>proposals := [], docs_count := None\<rparr> = (w_cat s)\<lparr>proposals := [], docs_count := None\<rparr> \<Longrightarrow>
     kept_from_visitors (s\<lparr>w_cat := db\<rparr>) = kept_from_visitors s"
  by (simp_all add: kept_from_visitors_def)

subsection \<open>Guards\<close>

lemma session_secret_file_kept: "admin_file (snd (session_secret w st)) = admin_file st"
  by (rule session_secret_admin) (rule prod.collapse [symmetric])

lemma session_ok_state: "snd (session_ok C w rq st) \<in> {st, snd (session_secret w st)}"
  unfolding session_ok_def Let_def
  by (cases "b64d (str_or (rq_cookie rq) [])")
    (simp_all add: split_beta option.case_eq_if)

lemma session_ok_admin_file: "admin_file (snd (session_ok C w rq st)) = admin_file st"
  using session_ok_state [of C w rq st] by (elim insertE emptyE) (simp_all only: session_secret_file_kept)

lemma issue_session_admin_file: "admin_file (snd (issue_session C w st)) = admin_file st"
  by (simp add: issue_session_def Let_def split_beta session_secret_file_kept)

lemma guards_admin_file:
  "admin_file (snd (is_admin C w rq st)) = admin_file st"
  "admin_file (snd (require_admin C w rq st)) = admin_file st"
  "admin_file (snd (require_admin_read C w rq st)) = admin_file st"
  "admin_file (snd (auth_status C w rq st)) = admin_file st"
  "admin_file (snd (set_session_cookie C w rq st)) = admin_file st"
  by (simp_all add: is_admin_def require_admin_def require_admin_read_def auth_status_def set_session_cookie_def
      session_ok_admin_file issue_session_admin_file split_beta)

lemma limits_admin_file:
  "admin_file (snd (check_report_rate w rq st)) = admin_file st"
  "admin_file (snd (check_login_rate w rq st)) = admin_file st"
  "admin_file (record_login_failure w rq st) = admin_file st"
  "admin_file (clear_login_failures rq st) = admin_file st"
  by (simp_all add: check_report_rate_def check_login_rate_def record_login_failure_def clear_login_failures_def Let_def)

lemma harmless_guarded:
  assumes "admin_file (snd (g (w_auth s))) = admin_file (w_auth s)"
    and "\<And>s'. kept_from_visitors s' = kept_from_visitors s \<Longrightarrow> harmless s (k s')"
  shows "harmless s (guarded g k s)"
  using assms by (auto simp: guarded_def harm split: prod.splits sum.splits)

lemma admin_only_refuses:
  assumes "\<not> fst (is_admin (x_crypto X) (x_draws X) rq (w_auth s))"
  shows "harmless s (admin_only X rq k s)"
proof -
  have "\<exists>n a. require_admin (x_crypto X) (x_draws X) rq (w_auth s) = (Inl n, a)"
    using assms by (simp add: is_admin_def require_admin_def split_beta split: if_splits)
  then show ?thesis
    using guards_admin_file(2) [of "x_crypto X" "x_draws X" rq "w_auth s"]
    by (auto simp: admin_only_def guarded_def harm)
qed

lemma harmless_admin_reads:
  "(\<And>s'. kept_from_visitors s' = kept_from_visitors s \<Longrightarrow> harmless s (k s')) \<Longrightarrow> harmless s (admin_reads X rq k s)"
  unfolding admin_reads_def by (rule harmless_guarded) (simp_all add: guards_admin_file)

subsection \<open>Asking the backends writes no settings\<close>

lemma load_llm_file: "llm_file (snd (load_llm cfg st)) = llm_file st"
  by (auto simp: load_llm_def Let_def split: option.splits sum.splits)

lemma enabled_here_file: "llm_file (snd (enabled_here cfg b)) = llm_file b"
  by (simp add: enabled_here_def split: prod.splits)

lemma host_up_file: "llm_file (snd (host_up net p b)) = llm_file b"
  by (auto simp: host_up_def send_def set_host_def Let_def split: prod.splits option.splits)

lemma any_up_file: "llm_file (snd (any_up net ps ok b)) = llm_file b"
proof (induction ps arbitrary: ok b)
  case (Cons p ps)
  then show ?case by (simp add: split_beta host_up_file)
qed simp

lemma available_file: "llm_file (snd (available net cfg b)) = llm_file b"
  by (cases "fst (enabled_here cfg b)") (simp_all add: available_def split_beta any_up_file enabled_here_file)

lemma public_file: "llm_file (snd (public cfg st)) = llm_file st"
  by (cases "fst (load_llm cfg st)") (simp_all add: public_def split_beta load_llm_file)

lemma show_public_harmless:
  assumes "kept_from_visitors s' = kept_from_visitors s"
  shows "harmless s (show_settings X (public (x_llm X)) s')"
proof -
  have "llm_file (snd (on_settings (public (x_llm X)) (w_chat s'))) = llm_file (w_chat s')"
    using public_file [of "x_llm X" "chatst.truncate (w_chat s')"]
    by (auto simp: on_settings_def chatst.truncate_def split: prod.splits)
  then show ?thesis
    using available_file [of "x_net X" "x_llm X"] assms
    by (auto simp: show_settings_def harm split: prod.splits sum.splits)
       (metis kept_update(2) snd_conv)+
qed

subsection \<open>The routes\<close>

lemma harmless_login:
  "harmless s (api_admin_login X rq p s)"
  unfolding api_admin_login_def
  by (rule harmless_guarded)
    (auto simp: limits_admin_file guards_admin_file session_cookie_def harm split_beta split: sum.splits)

lemma propose_report_kept:
  "(snd (propose_report now c r db))\<lparr>proposals := [], docs_count := None\<rparr> = db\<lparr>proposals := [], docs_count := None\<rparr>"
  by (simp add: propose_report_def Let_def)

lemma harmless_propose:
  assumes "kept_from_visitors s' = kept_from_visitors s"
  shows "harmless s (propose X c reason s')"
  using propose_report_kept [of "e_now (x_env X)" c "Some reason" "w_cat s'"] assms
  by (auto simp: propose_def harm split_beta)

lemma harmless_report:
  assumes "\<not> fst (is_admin (x_crypto X) (x_draws X) rq (w_auth s))"
  shows "harmless s (api_report X rq c reason s)"
proof -
  define s1 where "s1 = s\<lparr>w_auth := snd (is_admin (x_crypto X) (x_draws X) rq (w_auth s))\<rparr>"
  have k: "kept_from_visitors s1 = kept_from_visitors s"
    by (simp add: s1_def harm guards_admin_file)
  have "harmless s1 (guarded (check_report_rate (x_draws X) rq) (propose X c r) s1)" for r
    by (rule harmless_guarded) (simp_all add: limits_admin_file harmless_propose)
  then have "harmless s (guarded (check_report_rate (x_draws X) rq) (propose X c r) s1)" for r
    by (simp add: harmless_def k)
  with assms k show ?thesis
    by (simp add: api_report_def Let_def split_beta harm s1_def [symmetric])
qed

lemma harmless_password:
  assumes "\<not> may_change X rq (SetPassword p cur) s"
  shows "harmless s (api_admin_password X rq p cur s)"
  using assms by (auto simp: may_change_def is_admin_def api_admin_password_def Let_def harm split: sum.splits)

lemma harmless_clear:
  assumes "\<not> may_change X rq (ClearPassword cur) s"
  shows "harmless s (api_admin_password_clear X rq cur s)"
proof (cases "password_is_set (w_auth s)")
  case True
  with assms show ?thesis
    by (auto simp: may_change_def api_admin_password_clear_def Let_def harm split: sum.splits)
next
  case False
  then have "admin_file (w_auth s) = None"
    by (auto simp: password_is_set_def load_record_def split: option.splits stored.splits json.splits if_splits)
  with False show ?thesis
    by (simp add: api_admin_password_clear_def clear_password_def harm)
qed

lemma harmless_stats: "harmless s (api_stats X s)"
proof -
  have db: "(snd (catalog_stats now db))\<lparr>proposals := [], docs_count := None\<rparr> = db\<lparr>proposals := [], docs_count := None\<rparr>" for now db
    by (simp add: catalog_stats_def cached_count_def Let_def split: option.splits)
  have b: "llm_file (snd (enabled_here cfg (snd (available net cfg b)))) = llm_file b" for net cfg b
    by (simp add: enabled_here_file available_file)
  define c where "c = catalog_stats (e_now (x_env X)) (w_cat s)"
  define p where "p = peer_id (h_id (x_http X)) (w_peer s)"
  define a where "a = available (x_net X) (x_llm X) (w_chat s)"
  define e where "e = enabled_here (x_llm X) (snd a)"
  have keep: "kept_from_visitors (s\<lparr>w_cat := snd c\<rparr>) = kept_from_visitors s"
    by (simp add: kept_from_visitors_def c_def db)
  have files: "llm_file (snd a) = llm_file (w_chat s)" "llm_file (snd e) = llm_file (w_chat s)"
    by (simp_all add: a_def e_def available_file b)
  show ?thesis
    unfolding api_stats_def c_def [symmetric] p_def [symmetric] a_def [symmetric]
    by (auto simp: split_beta harm keep files e_def [symmetric] Let_def split: sum.splits)
qed

lemma harmless_status: "harmless s (api_admin_status X rq s)"
  by (simp add: api_admin_status_def split_beta harm guards_admin_file)

lemma harmless_reading:
  "harmless s (api_admin_logout s)"
  "harmless s (api_llm_get X rq s)"
  "harmless s (api_clubs X rq s)"
  "harmless s (api_bootstrap_get X rq s)"
  "harmless s (api_reports X rq s)"
  "harmless s (api_blacklist_get X rq s)"
  "harmless s (api_alias_get X rq s)"
  by (simp_all add: api_admin_logout_def harm)
    (auto simp: api_llm_get_def api_clubs_def api_bootstrap_get_def api_reports_def
      api_blacklist_get_def api_alias_get_def show_clubs_def harm show_public_harmless split: sum.splits prod.splits
      intro!: harmless_admin_reads)

lemma harmless_catalog_reading:
  "harmless s (api_search X q f m l s)"
  "harmless s (api_browse X f m l off s)"
  "harmless s (api_export X q' f m s)"
  "harmless s (api_snapshot X rq cap s)"
  "harmless s (api_club X s)"
  "harmless s (api_observers X s)"
  by (auto simp: api_search_def api_browse_def api_export_def api_snapshot_def api_club_def api_observers_def show_rows_def
      harm Let_def split: sum.splits)

lemmas harmless_routes = harmless_login harmless_report harmless_password harmless_clear harmless_stats harmless_status
  harmless_reading harmless_catalog_reading


section \<open>An accepted report\<close>

text \<open>
  What is asked of clubd: it answers a posted body with the body, signed in the name of a publisher.
\<close>

definition signs :: "club_reply \<Rightarrow> payload \<Rightarrow> publisher \<Rightarrow> payload \<Rightarrow> bool" where
  "signs answer posted p sg \<longleftrightarrow>
     answer = Reply (JObj sg) \<and> truthy (jget sg ''sig'') \<and> jget sg ''publisher'' = JStr p \<and> p \<noteq> []
     \<and> (\<forall>k\<in>{''kind'', ''cid'', ''reason'', ''club''}. jget sg k = jget posted k)"

definition report_payload :: "string \<Rightarrow> cid \<Rightarrow> string \<Rightarrow> payload" where
  "report_payload club c reason =
     publish_body club [(''kind'', JStr ''report''), (''cid'', JStr c), (''reason'', JStr reason)]"

lemma report_payload_members:
  "jget (report_payload club c reason) ''kind'' = JStr ''report''"
  "jget (report_payload club c reason) ''cid'' = JStr c"
  "jget (report_payload club c reason) ''reason'' = JStr reason"
  "jget (report_payload club c reason) ''club'' = JStr club"
  by (simp_all add: report_payload_def jget_publish_body) (simp_all add: jget_simps)

lemma admit_signed_report:
  assumes "signs answer (report_payload (club_id (e_club E)) c reason) p sg"
    and "valid c" "reason \<in> set REPORT_REASONS" "\<not> is_blacklisted p db"
  shows "admit E sg db = Inr (Some (''report'', c, p))"
proof -
  have "jget sg ''kind'' = JStr ''report''" "jget sg ''cid'' = JStr c" "jget sg ''reason'' = JStr reason"
    "jget sg ''club'' = JStr (club_id (e_club E))" "jget sg ''publisher'' = JStr p" "p \<noteq> []"
    using assms(1) by (simp_all add: signs_def report_payload_members)
  moreover have "\<not> valid []" by code_simp
  then have "c \<noteq> []" using assms(2) by auto
  ultimately show ?thesis
    using assms(2-4) by (simp add: admit_def in_strings_def res_bind_def KINDS_def text_col_def str_or_def Let_def py_str_def)
qed

lemma publish_signed_report:
  assumes "signs (reply (report_payload (club_id (e_club E)) c reason)) (report_payload (club_id (e_club E)) c reason) p sg"
    and "valid c" "reason \<in> set REPORT_REASONS" "\<not> is_blacklisted p db"
    and "\<not> has_key m_hash (payload_hash (e_sha256 E) (JObj sg)) (messages db)"
  obtains q' where "publish_report E reply c reason (db, q) =
    (Inr True, [report_payload (club_id (e_club E)) c reason],
     ingest_report reason c p (e_now E) (db\<lparr>messages := messages db @ [message_of E sg ''report'' c p (e_now E)]\<rparr>), q')"
proof -
  let ?b = "report_payload (club_id (e_club E)) c reason"
  have sg: "reply ?b = Reply (JObj sg)" "truthy (jget sg ''sig'')" "jget sg ''reason'' = JStr reason"
    using assms(1) by (simp_all add: signs_def report_payload_members)
  have posted: "publish (club_id (e_club E)) reply [(''kind'', JStr ''report''), (''cid'', JStr c), (''reason'', JStr reason)]
      = (JObj sg, [?b])"
    using sg(1) assms(2)
    by (simp add: publish_def Let_def report_payload_def [symmetric] report_payload_members)
  have truthy: "truthy (JObj sg)" using sg(2) by (auto simp: jget_def)
  have adm: "admit E sg db = Inr (Some (''report'', c, p))"
    by (rule admit_signed_report [OF assms(1-4)])
  obtain q' where ing: "ingest_message E None sg (db, q) = (Inr True,
      ingest_report reason c p (e_now E) (db\<lparr>messages := messages db @ [message_of E sg ''report'' c p (e_now E)]\<rparr>), q')"
    using assms(5) by (simp add: ingest_message_def adm Let_def dispatch_def sg(3) message_of_def)
  have "publish_report E reply c reason (db, q) = (Inr True, [?b],
      ingest_report reason c p (e_now E) (db\<lparr>messages := messages db @ [message_of E sg ''report'' c p (e_now E)]\<rparr>), q')"
    using assms(3) truthy sg(2)
    by (simp add: publish_report_def posted ing del: truthy.simps)
  then show thesis by (rule that)
qed

lemma ingest_report_abusive: "is_abusive (ingest_report ''abusive'' c p now db) c"
  by (simp add: ingest_report_def is_abusive_def insert_or_replace_def list_ex_iff)

lemma drop_proposal_gone: "(c, r) \<notin> p_key ` set (proposals (drop_proposal c (Some r) db))"
  by (auto simp: drop_proposal_def str_or_def sql_delete_def p_key_def)


section \<open>Logging in\<close>

lemma is_admin_with_password:
  "password_is_set st \<Longrightarrow> is_admin C w rq st = session_ok C w rq st"
  by (simp add: is_admin_def)

text \<open>
  A login with the right password, within the limit, sets a cookie, and a request with this cookie
  is an administrator's for twelve hours and not after them.
\<close>

theorem login_opens_session:
  assumes "crypto_ok (x_crypto X)" "draws_ok (x_draws X)"
    and "verify_password (x_crypto X) password (w_auth s) = Inr True"
    and "length (recent FAIL_WINDOW (w_mono (x_draws X)) (failures (w_auth s) (client_ip rq))) < 5"
  shows "\<exists>out token s'. handle X rq (Login password) s = (Inr (out, SetCookie token (rq_https rq)), [], s')
    \<and> (\<forall>w rq'. rq_cookie rq' = Some token \<longrightarrow>
          fst (is_admin (x_crypto X) w rq' (w_auth s')) = (py_int (w_time w) \<le> py_int (w_time (x_draws X)) + 12 * 3600))"
proof -
  have set: "password_is_set (w_auth s)"
    using assms(3) by (auto simp: verify_password_def password_is_set_def split: option.splits)
  define a where "a = clear_login_failures rq (snd (check_login_rate (x_draws X) rq (w_auth s)))"
  obtain token a' where issue: "issue_session (x_crypto X) (x_draws X) a = (token, a')" by fastforce
  have kept: "admin_file a' = admin_file (w_auth s)" "admin_file a = admin_file (w_auth s)"
    "admin_file (snd (check_login_rate (x_draws X) rq (w_auth s))) = admin_file (w_auth s)"
    using issue_session_admin_file [of "x_crypto X" "x_draws X" a] issue by (simp_all add: a_def limits_admin_file)
  then have set': "password_is_set a'" "password_is_set (snd (check_login_rate (x_draws X) rq (w_auth s)))"
    "verify_password (x_crypto X) password (snd (check_login_rate (x_draws X) rq (w_auth s))) = Inr True"
    using set assms(3) load_record_cong [OF kept(1)] load_record_cong [OF kept(3)]
    by (simp_all add: password_is_set_def verify_password_def)
  have "fst (check_login_rate (x_draws X) rq (w_auth s)) = Inr ()"
    using assms(4) by (simp add: check_login_rate_def FAIL_LIMIT_def Let_def)
  then have "\<exists>out s'. handle X rq (Login password) s = (Inr (out, SetCookie token (rq_https rq)), [], s') \<and> w_auth s' = a'"
    using set'(2,3) issue
    by (simp add: api_admin_login_def guarded_def split_beta session_cookie_def set_session_cookie_def a_def [symmetric])
  moreover have "fst (is_admin (x_crypto X) w rq' a') = (py_int (w_time w) \<le> py_int (w_time (x_draws X)) + 12 * 3600)"
    if "rq_cookie rq' = Some token" for w rq'
    using issued_session_ok [OF assms(1,2) issue that, of w] set'(1)
    by (simp add: is_admin_with_password SESSION_TTL_def)
  ultimately show ?thesis by blast
qed

text \<open>
  The lock-out after five wrong passwords guards the login route only. While it answers 429, the
  password route tells a client whether a guess is right, as often as it asks: a wrong guess is answered with
  401 and leaves no trace, the right one passes the check.
\<close>

theorem password_route_unlimited:
  assumes "5 \<le> length (recent FAIL_WINDOW (w_mono (x_draws X)) (failures (w_auth s) (client_ip rq)))"
    and "password_is_set (w_auth s)" "\<not> is_corrupt (w_auth s)" "guess \<noteq> []"
    and "verify_password (x_crypto X) guess (w_auth s) = Inr right"
  shows "fst (handle X rq (Login guess) s) = Inl 429
    \<and> handle X rq (SetPassword [] guess) s = (Inl (if right then 400 else 401), [], s)"
proof
  show "fst (handle X rq (Login guess) s) = Inl 429"
    using assms(1) by (simp add: api_admin_login_def guarded_def check_login_rate_def FAIL_LIMIT_def fail_def Let_def)
  show "handle X rq (SetPassword [] guess) s = (Inl (if right then 400 else 401), [], s)"
    using assms(2-5)
    by (simp add: api_admin_password_def store_password_def set_password_def check_length_def status_of_def fail_def Let_def)
qed

section \<open>The limits of the interface\<close>

text \<open>
  The interface caps a page at 100 documents, but only from above: with a limit of \<open>-1\<close>, which SQLite reads as
  no limit, one request returns the whole listing.
\<close>

theorem negative_limit_lists_all:
  "\<exists>rows. handle X rq (Browse field mime (- 1) 0) s =
     (Inr (Rows rows (Some (int (length (listing (w_cat s) field mime)))), KeepCookie), [], s)
   \<and> map fst rows = listing (w_cat s) field mime"
  by (simp add: api_browse_def show_rows_def browse_def int64_def fst_decorate sql_limit_def listing_def sql_count_def)

section \<open>Instances\<close>

definition ex_world :: world where
  "ex_world = \<lparr>x_env = ex_env,
     x_reply = (\<lambda>b. Reply (JObj (b @ [(''publisher'', JStr ''me''), (''sig'', JStr ''5a'')]))),
     x_crypto = ex_crypto, x_draws = ex_draws 100, x_net = (\<lambda>log c. (Failed, 100)), x_llm = [], x_env_locks = False,
     x_clubs = (\<lambda>n. Inr ex_club), x_club_dirs = None, x_is_dir = (\<lambda>n. True),
     x_read_id = (\<lambda>t. Inl ValueError), x_read_peers = (\<lambda>t. JNull), x_start_peers = JNull,
     x_http = \<lparr>h_id = Down, h_peers = Down, h_health = Down, h_bootstrap = (\<lambda>ps. Down)\<rparr>,
     x_fts = (\<lambda>q rows. Inr []), x_snapshot_limit = 10, x_fetch = Map.empty, x_run = []\<rparr>"

definition ex_site :: site where
  "ex_site = \<lparr>w_auth = ex_auth,
     w_chat = \<lparr>llm_file = None, llm_cache = None, hosts = Map.empty, b_now = 1, b_log = []\<rparr>,
     w_cat = ex_catalog, w_queue = empty_queue, w_conf = None, w_peer = JNull\<rparr>"

definition ex_local :: request where
  "ex_local = \<lparr>rq_host = Some ''127.0.0.1'', rq_cookie = None, rq_https = False\<rparr>"

lemma ex_open: "\<not> password_is_set ex_auth" "\<not> is_corrupt ex_auth"
  by (simp_all add: password_is_set_def is_corrupt_def load_record_def ex_auth_def)



definition ex_locked :: site where
  "ex_locked = ex_site\<lparr>w_auth := snd (set_password ex_crypto (ex_draws 10) ''secret'' ex_auth)\<rparr>"

lemma ex_secret:
  "verify_password ex_crypto ''secret'' (w_auth ex_locked) = Inr True"
  "verify_password ex_crypto ''guess'' (w_auth ex_locked) = Inr False"
  "password_is_set (w_auth ex_locked)" "\<not> is_corrupt (w_auth ex_locked)"
  by code_simp+

lemma ex_failures: "failures (w_auth ex_locked) = Map.empty"
  by (simp add: ex_locked_def ex_auth_def set_password_def check_length_def MAX_PASSWORD_def ex_derive)

theorem login_opens_session_witness:
  "\<exists>out token s'. handle ex_world (ex_request []) (Login ''secret'') ex_locked = (Inr (out, SetCookie token False), [], s')
     \<and> fst (is_admin ex_crypto (ex_draws 200) (ex_request token) (w_auth s'))"
proof -
  have "\<exists>out token s'. handle ex_world (ex_request []) (Login ''secret'') ex_locked = (Inr (out, SetCookie token (rq_https (ex_request []))), [], s')
    \<and> (\<forall>w rq'. rq_cookie rq' = Some token \<longrightarrow>
          fst (is_admin (x_crypto ex_world) w rq' (w_auth s')) = (py_int (w_time w) \<le> py_int (w_time (x_draws ex_world)) + 12 * 3600))"
    by (rule login_opens_session) (simp_all add: ex_world_def ex_ok ex_secret ex_failures recent_def)
  then show ?thesis by (auto simp: ex_world_def ex_request_def ex_draws_def py_int_def)
qed

theorem password_route_unlimited_witness:
  "let s = ex_locked\<lparr>w_auth := (w_auth ex_locked)\<lparr>failures := [''10.0.0.7'' \<mapsto> [96, 97, 98, 99, 100]]\<rparr>\<rparr> in
     fst (handle ex_world (ex_request []) (Login ''guess'') s) = Inl 429
     \<and> handle ex_world (ex_request []) (SetPassword [] ''guess'') s = (Inl 401, [], s)"
proof -
  let ?s = "ex_locked\<lparr>w_auth := (w_auth ex_locked)\<lparr>failures := [''10.0.0.7'' \<mapsto> [96, 97, 98, 99, 100]]\<rparr>\<rparr>"
  have same: "load_record (w_auth ?s) = load_record (w_auth ex_locked)"
    by (rule load_record_cong) simp
  have crypto: "x_crypto ex_world = ex_crypto" by (simp add: ex_world_def)
  have "fst (handle ex_world (ex_request []) (Login ''guess'') ?s) = Inl 429
     \<and> handle ex_world (ex_request []) (SetPassword [] ''guess'') ?s = (Inl (if False then 400 else 401), [], ?s)"
  proof (rule password_route_unlimited)
    show "5 \<le> length (recent FAIL_WINDOW (w_mono (x_draws ex_world)) (failures (w_auth ?s) (client_ip (ex_request []))))"
      by (simp add: recent_def FAIL_WINDOW_def ex_world_def ex_draws_def client_ip_def ex_request_def str_or_def)
    show "password_is_set (w_auth ?s)" "\<not> is_corrupt (w_auth ?s)"
      using ex_secret(3,4) unfolding password_is_set_def is_corrupt_def same by simp_all
    show "verify_password (x_crypto ex_world) ''guess'' (w_auth ?s) = Inr False"
      using ex_secret(2) unfolding verify_password_def same crypto .
  qed simp
  then show ?thesis by (simp only: Let_def if_False)
qed

end
