(* ===== verification/Register.thy ===== *)
theory Register
  imports Store_Props
begin

text \<open>
  What the catalog of \<open>observer/store.py\<close> promises its readers, stated on maps: who claims what until when, why a
  CID is skipped, which reports stand, the display names, and under which publisher a CID was first
  catalogued. Ingesting a message, expiring claims and blacklisting refine the operations on these maps.
\<close>

section \<open>The abstract club\<close>

record club_view =
  v_claims :: "publisher \<rightharpoonup> cid \<times> time"
  v_skips :: "cid \<rightharpoonup> publisher \<times> string option"
  v_reports :: "cid \<times> publisher \<rightharpoonup> string"
  v_names :: "publisher \<rightharpoonup> string"
  v_first :: "cid \<rightharpoonup> publisher"

datatype club_msg =
    Classified cid publisher
  | Skip cid publisher "string option"
  | Claimed cid publisher time
  | Complaint cid publisher string
  | Named publisher string

definition without_claims_on :: "cid \<Rightarrow> (publisher \<rightharpoonup> cid \<times> time) \<Rightarrow> publisher \<rightharpoonup> cid \<times> time" where
  "without_claims_on c m = (\<lambda>p. case m p of Some (c', t) \<Rightarrow> if c' = c then None else Some (c', t) | None \<Rightarrow> None)"

text \<open>
  A claim counts while it lasts, and only if the publisher holds no live claim on another CID; a
  classification or a skip ends the claims on its CID; the first classification gives the CID its entry.
\<close>

fun club_step :: "time \<Rightarrow> club_msg \<Rightarrow> club_view \<Rightarrow> club_view" where
  "club_step now (Classified c p) V =
     V\<lparr>v_claims := without_claims_on c (v_claims V),
       v_first := (if v_first V c = None then (v_first V)(c \<mapsto> p) else v_first V)\<rparr>"
| "club_step now (Skip c p reason) V =
     V\<lparr>v_claims := without_claims_on c (v_claims V), v_skips := (v_skips V)(c \<mapsto> (p, reason))\<rparr>"
| "club_step now (Claimed c p until) V =
     (if now < until \<and> (case v_claims V p of Some (c', t) \<Rightarrow> c' = c \<or> t \<le> now | None \<Rightarrow> True)
      then V\<lparr>v_claims := (v_claims V)(p \<mapsto> (c, until))\<rparr> else V)"
| "club_step now (Complaint c p reason) V =
     V\<lparr>v_reports := (v_reports V)((c, p) := (if reason = ''clear'' then None else Some reason))\<rparr>"
| "club_step now (Named p name) V =
     V\<lparr>v_names := (v_names V)(p := (if name = [] then None else Some (take 32 name)))\<rparr>"

section \<open>The catalog as a club\<close>

text \<open>A table with a key, read as a map to what one expression makes of its rows.\<close>

definition column :: "('r \<Rightarrow> 'k) \<Rightarrow> ('r \<Rightarrow> 'a) \<Rightarrow> 'r list \<Rightarrow> 'k \<rightharpoonup> 'a" where
  "column key f t = (\<lambda>k. map_option f (sql_get key k t))"

definition view_of :: "catalog \<Rightarrow> club_view" where
  "view_of db =
     \<lparr>v_claims = column cl_publisher (\<lambda>r. (cl_cid r, cl_until r)) (claims db),
      v_skips = column s_cid (\<lambda>r. (s_publisher r, s_reason r)) (skips db),
      v_reports = column rp_key rp_reason (reports db),
      v_names = column a_publisher a_alias (aliases db),
      v_first = column d_cid d_publisher (docs db)\<rparr>"

definition text_of :: "json \<Rightarrow> string option" where
  "text_of v = (case text_col v of Inr t \<Rightarrow> t | Inl e \<Rightarrow> None)"

text \<open>What a message of a kind says.\<close>

definition message_view :: "env \<Rightarrow> (string \<times> json) list \<Rightarrow> string \<Rightarrow> cid \<Rightarrow> publisher \<Rightarrow> club_msg" where
  "message_view E obj kind c p =
     (if kind = ''classify'' then Classified c p
      else if kind = ''alias'' then Named p (collapse (py_str (if truthy (jget obj ''alias'') then jget obj ''alias'' else JStr [])))
      else if kind = ''skip'' then Skip c p (text_of (jget obj ''reason''))
      else if kind = ''claim'' then Claimed c p (case py_float E (jget obj ''until'') 0 of Inr t \<Rightarrow> t | Inl e \<Rightarrow> 0)
      else Complaint c p (case jget obj ''reason'' of JStr r \<Rightarrow> r | _ \<Rightarrow> []))"

section \<open>Refinement\<close>

lemma get_delete:
  "pk key t \<Longrightarrow> sql_get key p (sql_delete P t)
     = (case sql_get key p t of Some r \<Rightarrow> if P r then None else Some r | None \<Rightarrow> None)"
proof -
  assume k: "pk key t"
  have k': "pk key (sql_delete P t)"
    using k by (auto simp: pk_def sql_delete_def distinct_map_filter)
  show ?thesis
  proof (cases "sql_get key p t")
    case None
    then have "\<not> has_key key p (sql_delete P t)"
      by (auto simp: sql_get_None has_key_def sql_delete_def)
    with None show ?thesis by (simp flip: sql_get_None)
  next
    case (Some r)
    then have r: "r \<in> set t" "key r = p" using sql_get_Some by metis+
    show ?thesis
    proof (cases "P r")
      case False
      then have "r \<in> set (sql_delete P t)" using r by (simp add: sql_delete_def)
      with k' r(2) Some False show ?thesis using sql_get_pk by fastforce
    next
      case True
      have "x = r" if "x \<in> set t" "key x = p" for x
        using sql_get_pk [OF k that(1)] that(2) Some by simp
      then have "\<not> has_key key p (sql_delete P t)"
        using True by (auto simp: has_key_def sql_delete_def)
      with Some True show ?thesis by (simp flip: sql_get_None)
    qed
  qed
qed

lemma column_put: "column key f (insert_or_replace key r t) = (column key f t)(key r \<mapsto> f r)"
  by (auto simp: column_def sql_get_replace)

lemma column_del: "column key f (sql_delete (\<lambda>r. key r = k) t) = (column key f t)(k := None)"
  by (auto simp: column_def sql_get_delete_key)

lemma column_new: "\<not> has_key key (key r) t \<Longrightarrow> column key f (t @ [r]) = (column key f t)(key r \<mapsto> f r)"
  using sql_get_ignore [of key _ r t] by (auto simp: column_def insert_or_ignore_def)

lemma claims_deleted:
  "pk cl_publisher t \<Longrightarrow> column cl_publisher (\<lambda>r. (cl_cid r, cl_until r)) (sql_delete (\<lambda>r. cl_cid r = c) t)
     = without_claims_on c (column cl_publisher (\<lambda>r. (cl_cid r, cl_until r)) t)"
  by (auto simp: column_def get_delete without_claims_on_def fun_eq_iff split: option.splits)

lemma upsert_doc_first:
  "column d_cid d_publisher (docs (upsert_doc f i c db)) =
     (let m = column d_cid d_publisher (docs db) in
      if m (c_cid c) = None then m(c_cid c \<mapsto> c_publisher c) else m)"
proof (cases "has_key d_cid (c_cid c) (docs db)")
  case True
  then show ?thesis by (simp add: docs_upsert column_def sql_get_None)
next
  case False
  let ?d = "doc_of f i c (next_rowid (docs db))"
  have "column d_cid d_publisher (docs db @ [?d]) = (column d_cid d_publisher (docs db))(c_cid c \<mapsto> c_publisher c)"
    using column_new [of d_cid ?d "docs db" d_publisher] False by (simp add: doc_of_def)
  with False show ?thesis by (simp add: docs_upsert column_def sql_get_None)
qed

lemma view_insert_classify:
  assumes "pk cl_publisher (claims db)"
  shows "view_of (insert_classify row db) = club_step now (Classified (c_cid row) (c_publisher row)) (view_of db)"
  by (simp add: view_of_def insert_classify_def upsert_doc_first claims_deleted [OF assms] Let_def)

lemma view_ingest_claim:
  assumes "pk cl_publisher (claims db)" "ingest_claim E obj c p db = (Inr (), db')"
  shows "view_of db' = club_step (e_now E) (Claimed c p (case py_float E (jget obj ''until'') 0 of Inr t \<Rightarrow> t | Inl e \<Rightarrow> 0)) (view_of db)"
proof -
  obtain until where u: "py_float E (jget obj ''until'') 0 = Inr until"
    using assms(2) by (auto simp: ingest_claim_def split: sum.splits)
  have "list_ex (\<lambda>r. cl_publisher r = p \<and> cl_cid r \<noteq> c \<and> cl_until r > e_now E) (claims db)
      \<longleftrightarrow> (case sql_get cl_publisher p (claims db) of Some r \<Rightarrow> cl_cid r \<noteq> c \<and> e_now E < cl_until r | None \<Rightarrow> False)"
    using sql_get_pk [OF assms(1)]
    by (force simp: list_ex_iff sql_get_None has_key_def dest: sql_get_Some split: option.splits)
  then show ?thesis
    using assms(2) u
    by (cases "sql_get cl_publisher p (claims db)")
      (auto simp: ingest_claim_def view_of_def column_def sql_get_replace fun_eq_iff split: if_splits)
qed

lemma view_ingest_skip:
  assumes "pk cl_publisher (claims db)" "ingest_skip obj c p now db = (Inr (), db')"
  shows "view_of db' = club_step t (Skip c p (text_of (jget obj ''reason''))) (view_of db)"
proof -
  obtain reason where "text_col (jget obj ''reason'') = Inr reason"
    using assms(2) by (auto simp: ingest_skip_def res_bind_def split: sum.splits)
  then show ?thesis
    using assms(2)
    by (auto simp: ingest_skip_def res_bind_def view_of_def claims_deleted [OF assms(1)] column_put text_of_def split: sum.splits)
qed

lemma view_upsert_alias:
  "view_of (upsert_alias p v h now db) =
     club_step t (Named p (collapse (py_str (if truthy v then v else JStr [])))) (view_of db)"
  by (auto simp: upsert_alias_def Let_def view_of_def column_put column_del)

lemma view_ingest_report:
  "view_of (ingest_report reason c p now db) = club_step t (Complaint c p reason) (view_of db)"
  using column_del [of rp_key rp_reason "(c, p)" "reports db"]
  by (simp add: ingest_report_def view_of_def column_put) (simp add: rp_key_def)

lemma classify_row_key: "classify_row E obj h c p now = Inr row \<Longrightarrow> c_cid row = c \<and> c_publisher row = p"
  by (auto simp: classify_row_def res_bind_def split: sum.splits)

lemma view_dispatch:
  assumes "pk cl_publisher (claims db)" "dispatch E obj kind h c p now db = (Inr (), db')"
  shows "view_of db' = club_step (e_now E) (message_view E obj kind c p) (view_of db)"
proof -
  consider (cl) "kind = ''classify''" | (al) "kind = ''alias''" | (sk) "kind = ''skip''" | (cm) "kind = ''claim''"
    | (rp) "kind \<notin> {''classify'', ''alias'', ''skip'', ''claim''}" by auto
  then show ?thesis
  proof cases
    case cl
    then obtain row where row: "classify_row E obj h c p now = Inr row" "db' = insert_classify row db"
      using assms(2) by (auto simp: dispatch_def split: sum.splits)
    with cl show ?thesis
      using view_insert_classify [OF assms(1), of row "e_now E"] classify_row_key [OF row(1)]
      by (simp only: message_view_def simp_thms if_True row(2))
  next
    case al
    then have "db' = upsert_alias p (jget obj ''alias'') h now db" using assms(2) by (simp add: dispatch_def)
    moreover have "message_view E obj kind c p
        = Named p (collapse (py_str (if truthy (jget obj ''alias'') then jget obj ''alias'' else JStr [])))"
      using al by (simp add: message_view_def)
    ultimately show ?thesis by (simp only: view_upsert_alias [of _ _ _ _ _ "e_now E"])
  next
    case sk
    then show ?thesis using assms(2) view_ingest_skip [OF assms(1)] by (simp add: dispatch_def message_view_def)
  next
    case cm
    then show ?thesis using assms(2) view_ingest_claim [OF assms(1)] by (simp add: dispatch_def message_view_def)
  next
    case rp
    then have "db' = ingest_report (case jget obj ''reason'' of JStr r \<Rightarrow> r | _ \<Rightarrow> []) c p now db"
      using assms(2) by (simp add: dispatch_def)
    moreover have "message_view E obj kind c p = Complaint c p (case jget obj ''reason'' of JStr r \<Rightarrow> r | _ \<Rightarrow> [])"
      using rp by (simp add: message_view_def)
    ultimately show ?thesis by (simp only: view_ingest_report [of _ _ _ _ _ "e_now E"])
  qed
qed

lemma dispatch_raises: "dispatch E obj kind h c p now db = (Inl e, db') \<Longrightarrow> db' = db"
  by (auto simp: dispatch_def ingest_skip_def ingest_claim_def split: sum.splits if_splits)

text \<open>The message a call of \<open>ingest_message\<close> stores, if any.\<close>

definition stored_message :: "env \<Rightarrow> (string \<times> json) list \<Rightarrow> catalog \<Rightarrow> club_msg option" where
  "stored_message E obj db =
     (case admit E obj db of Inr (Some (kind, c, p)) \<Rightarrow> Some (message_view E obj kind c p) | _ \<Rightarrow> None)"

text \<open>
  C11: Ingesting a message refines the operation on the maps: a message that is taken does there what it says, one that
  is refused, known already, or raises, does nothing.
\<close>

theorem ingest_refines_club:
  assumes "wf_catalog db" "ingest_message E rt obj (db, q) = (r, db', q')"
  shows "view_of db' =
    (case stored_message E obj db of
       Some m \<Rightarrow> if r = Inr True then club_step (e_now E) m (view_of db) else view_of db
     | None \<Rightarrow> view_of db)"
proof (cases rule: ingest_message_cases [where E = E and rt = rt and obj = obj and db = db and q = q])
  case (unchanged r')
  then have "r \<noteq> Inr True" "db' = db" using assms(2) by auto
  then show ?thesis by (simp split: option.splits)
next
  case (stored kind c p now u db'' q'')
  let ?db = "db\<lparr>messages := messages db @ [message_of E obj kind c p now]\<rparr>"
  have db': "db' = db''" "r = (case u of Inl e \<Rightarrow> Inl e | Inr x \<Rightarrow> Inr True)" using assms(2) stored(4) by auto
  have same: "view_of ?db = view_of db" "claims ?db = claims db" by (simp_all add: view_of_def)
  have key: "pk cl_publisher (claims db)" using assms(1) by (simp add: wf_catalog_def keys_ok_def)
  show ?thesis
  proof (cases u)
    case (Inl e)
    then have "db'' = ?db" using stored(3) dispatch_raises by blast
    with Inl show ?thesis using same(1) by (simp add: db' split: option.splits)
  next
    case (Inr x)
    have "view_of db'' = club_step (e_now E) (message_view E obj kind c p) (view_of ?db)"
    proof (rule view_dispatch)
      show "pk cl_publisher (claims ?db)" using key same(2) by simp
      show "dispatch E obj kind (payload_hash (e_sha256 E) (JObj obj)) c p now ?db = (Inr (), db'')"
        using stored(3) Inr by simp
    qed
    with Inr show ?thesis by (simp only: db' same stored(1) stored_message_def sum.case option.case prod.case simp_thms if_True)
  qed
qed

text \<open>Expiring claims and skips refines forgetting what is over.\<close>

lemma view_expire_claims:
  assumes "wf_catalog db"
  shows "v_claims (view_of (expire_claims E db)) =
    (\<lambda>p. case v_claims (view_of db) p of Some (c, t) \<Rightarrow> if t \<le> e_now E then None else Some (c, t) | None \<Rightarrow> None)"
proof -
  have key: "pk cl_publisher (claims db)" using assms by (simp add: wf_catalog_def keys_ok_def)
  have "sql_get cl_publisher p (sql_delete (\<lambda>r. cl_until r \<le> e_now E) (claims db))
      = (case sql_get cl_publisher p (claims db) of Some r \<Rightarrow> if cl_until r \<le> e_now E then None else Some r | None \<Rightarrow> None)" for p
    by (rule get_delete [OF key])
  then show ?thesis
    by (auto simp: view_of_def expire_claims_def Let_def column_def fun_eq_iff split: option.splits)
qed

theorem ingest_refines_club_witness:
  "view_of (fst (snd (ex_ingest (ex_msg ''skip'' ''peer1'' ''f01551203aabbcc'' []))))
     = club_step (e_now ex_env) (Skip ''f01551203aabbcc'' ''peer1'' None) (view_of ex_catalog)"
proof -
  let ?m = "ex_msg ''skip'' ''peer1'' ''f01551203aabbcc'' []"
  obtain r db' q' where run: "ingest_message ex_env None ?m (ex_catalog, empty_queue) = (r, db', q')" by (metis prod_cases3)
  have "stored_message ex_env ?m ex_catalog = Some (Skip ''f01551203aabbcc'' ''peer1'' None)"
    by code_simp
  with ingest_refines_club [OF ex_wf_catalog run] ex_skip_new run show ?thesis
    by simp
qed

end
