(* ===== verification/Regex.thy ===== *)
theory Regex
  imports Prelude
begin

text \<open>
  The regular expressions of the sources as data, and the matcher of Python's \<open>re\<close> for them: leftmost
  match, alternatives in order, repetitions as long as possible first. Text is a string of characters below
  256, on which \<open>re.I\<close> compares lower-case forms. The matcher is checked against a denotation.
\<close>

section \<open>Expressions\<close>

text \<open>
  \<open>Run\<close> repeats one character class (\<open>c{lo,hi}\<close>; no upper limit is None); \<open>Edge\<close> is \<open>\b\<close>. The repetitions of the
  sources are all of single characters, except for optional parts.
\<close>

datatype rx =
    Eps
  | Edge
  | Cls "char \<Rightarrow> bool"
  | Run nat "nat option" "char \<Rightarrow> bool"
  | Seq rx rx
  | Alt rx rx

text \<open>\<open>\w\<close> for these characters: \<open>str.isalnum\<close> or an underscore.\<close>

definition word_char :: "char \<Rightarrow> bool" where
  "word_char c \<longleftrightarrow> (let n = (of_char c :: nat) in
     (48 \<le> n \<and> n \<le> 57) \<or> (65 \<le> n \<and> n \<le> 90) \<or> n = 95 \<or> (97 \<le> n \<and> n \<le> 122)
     \<or> n \<in> {170, 178, 179, 181, 185, 186, 188, 189, 190} \<or> (192 \<le> n \<and> n \<noteq> 215 \<and> n \<noteq> 247))"

definition decimal_char :: "char \<Rightarrow> bool" where
  "decimal_char c \<longleftrightarrow> (let n = (of_char c :: nat) in 48 \<le> n \<and> n \<le> 57)"

definition same_char :: "char \<Rightarrow> char \<Rightarrow> bool" where
  "same_char d c \<longleftrightarrow> lower_char c = lower_char d"

definition one_of :: "string \<Rightarrow> char \<Rightarrow> bool" where
  "one_of cs c \<longleftrightarrow> c \<in> set cs"

text \<open>Literal text, ignoring case; \<open>r?\<close>; a list of alternatives; a sequence.\<close>

fun lits :: "string \<Rightarrow> rx" where
  "lits [] = Eps"
| "lits (d # ds) = Seq (Cls (same_char d)) (lits ds)"

definition opt :: "rx \<Rightarrow> rx" where "opt r = Alt r Eps"

fun alts :: "rx list \<Rightarrow> rx" where
  "alts [] = Cls (\<lambda>c. False)"
| "alts [r] = r"
| "alts (r # rs) = Alt r (alts rs)"

fun seqs :: "rx list \<Rightarrow> rx" where
  "seqs [] = Eps"
| "seqs (r # rs) = Seq r (seqs rs)"

abbreviation words :: "string list \<Rightarrow> rx" where
  "words ws \<equiv> alts (map lits ws)"

section \<open>Matching\<close>

text \<open>
  A matcher gets the character before the position, the rest of the text, and what to do behind the
  match; it returns the first success.
\<close>

type_synonym 'a cont = "char option \<Rightarrow> string \<Rightarrow> 'a option"

abbreviation or_else :: "'a option \<Rightarrow> 'a option \<Rightarrow> 'a option" where
  "or_else a b \<equiv> (case a of None \<Rightarrow> b | Some x \<Rightarrow> Some x)"

fun run :: "(char \<Rightarrow> bool) \<Rightarrow> nat \<Rightarrow> nat \<Rightarrow> 'a cont \<Rightarrow> 'a cont" where
  "run f lo 0 k p s = (if lo = 0 then k p s else None)"
| "run f lo (Suc hi) k p s =
     or_else (case s of [] \<Rightarrow> None | c # s' \<Rightarrow> if f c then run f (lo - 1) hi k (Some c) s' else None)
       (if lo = 0 then k p s else None)"

definition headc :: "string \<Rightarrow> char option" where
  "headc s = (case s of [] \<Rightarrow> None | c # s' \<Rightarrow> Some c)"

definition is_word :: "char option \<Rightarrow> bool" where
  "is_word p \<longleftrightarrow> (case p of None \<Rightarrow> False | Some c \<Rightarrow> word_char c)"

primrec mt :: "rx \<Rightarrow> 'a cont \<Rightarrow> 'a cont" where
  "mt Eps k p s = k p s"
| "mt Edge k p s = (if is_word p \<noteq> is_word (headc s) then k p s else None)"
| "mt (Cls f) k p s = (case s of [] \<Rightarrow> None | c # s' \<Rightarrow> if f c then k (Some c) s' else None)"
| "mt (Run lo hi f) k p s = run f lo (case hi of None \<Rightarrow> length s | Some h \<Rightarrow> h) k p s"
| "mt (Seq a b) k p s = mt a (mt b k) p s"
| "mt (Alt a b) k p s = or_else (mt a k p s) (mt b k p s)"

text \<open>\<open>re.search\<close>: the first position where the matcher succeeds.\<close>

fun first_at :: "'a cont \<Rightarrow> 'a cont" where
  "first_at f p [] = f p []"
| "first_at f p (c # s) = or_else (f p (c # s)) (first_at f (Some c) s)"

definition found :: "rx \<Rightarrow> string \<Rightarrow> bool" where
  "found r s \<longleftrightarrow> first_at (mt r (\<lambda>p rest. Some rest)) None s \<noteq> None"

text \<open>The text between two positions.\<close>

definition upto :: "string \<Rightarrow> string \<Rightarrow> string" where
  "upto s rest = take (length s - length rest) s"

text \<open>\<open>len(re.findall(...))\<close>: after a match the search goes on behind it.\<close>

function count_from :: "rx \<Rightarrow> char option \<Rightarrow> string \<Rightarrow> nat" where
  "count_from r p [] = (if mt r (\<lambda>p rest. Some rest) p [] = None then 0 else 1)"
| "count_from r p (c # s) =
     (case mt r (\<lambda>p rest. Some (p, rest)) p (c # s) of
        None \<Rightarrow> count_from r (Some c) s
      | Some (p', rest) \<Rightarrow>
          if length rest < length (c # s) then Suc (count_from r p' rest)
          else Suc (count_from r (Some c) s))"
  by pat_completeness auto
termination by (relation "measure (\<lambda>(r, p, s). length s)") auto

definition found_count :: "rx \<Rightarrow> string \<Rightarrow> nat" where
  "found_count r s = count_from r None s"

section \<open>The denotation\<close>

text \<open>\<open>u\<close> matches between the characters \<open>p\<close> and \<open>n\<close>.\<close>

definition lastc :: "char option \<Rightarrow> string \<Rightarrow> char option" where
  "lastc p u = (if u = [] then p else Some (last u))"

definition nextc :: "string \<Rightarrow> char option \<Rightarrow> char option" where
  "nextc u n = (case u of [] \<Rightarrow> n | c # u' \<Rightarrow> Some c)"

primrec denotes :: "rx \<Rightarrow> char option \<Rightarrow> string \<Rightarrow> char option \<Rightarrow> bool" where
  "denotes Eps p u n = (u = [])"
| "denotes Edge p u n = (u = [] \<and> is_word p \<noteq> is_word n)"
| "denotes (Cls f) p u n = (\<exists>c. u = [c] \<and> f c)"
| "denotes (Run lo hi f) p u n = (lo \<le> length u \<and> (\<forall>h. hi = Some h \<longrightarrow> length u \<le> h) \<and> list_all f u)"
| "denotes (Seq a b) p u n = (\<exists>v w. u = v @ w \<and> denotes a p v (nextc w n) \<and> denotes b (lastc p v) w n)"
| "denotes (Alt a b) p u n = (denotes a p u n \<or> denotes b p u n)"

definition occurs :: "rx \<Rightarrow> string \<Rightarrow> bool" where
  "occurs r s \<longleftrightarrow> (\<exists>pre u post. s = pre @ u @ post \<and> denotes r (lastc None pre) u (headc post))"

named_theorems rxs \<comment> \<open>reading off a denotation\<close>

lemma lastc_simps [simp]: "lastc p [] = p" "lastc p (c # u) = lastc (Some c) u" "lastc p (u @ v) = lastc (lastc p u) v"
  by (auto simp: lastc_def)

lemma headc_simps [simp]: "headc [] = None" "headc (c # s) = Some c" "headc (u @ v) = nextc u (headc v)"
  by (auto simp: headc_def nextc_def split: list.split)

lemma nextc_simps [simp]: "nextc [] n = n" "nextc (c # u) n = Some c"
  by (simp_all add: nextc_def)

lemma or_else_None: "or_else a b = None \<longleftrightarrow> a = None \<and> b = None"
  by (simp split: option.split)

lemma run_succeeds:
  "run f lo hi k p s \<noteq> None \<longleftrightarrow>
     (\<exists>u v. s = u @ v \<and> lo \<le> length u \<and> length u \<le> hi \<and> list_all f u \<and> k (lastc p u) v \<noteq> None)"
proof (induction f lo hi k p s rule: run.induct)
  case (2 f lo hi k p s)
  show ?case
  proof (cases s)
    case Nil
    then show ?thesis by (auto simp: or_else_None)
  next
    case (Cons c s')
    have "(\<exists>u v. s = u @ v \<and> lo \<le> length u \<and> length u \<le> Suc hi \<and> list_all f u \<and> k (lastc p u) v \<noteq> None)
       \<longleftrightarrow> lo = 0 \<and> k p s \<noteq> None \<or>
         (\<exists>u v. s = (c # u) @ v \<and> lo \<le> length (c # u) \<and> length (c # u) \<le> Suc hi \<and> list_all f (c # u) \<and> k (lastc p (c # u)) v \<noteq> None)"
      (is "?l \<longleftrightarrow> ?r")
    proof
      assume ?l
      then obtain u v where u: "s = u @ v" "lo \<le> length u" "length u \<le> Suc hi" "list_all f u" "k (lastc p u) v \<noteq> None" by blast
      show ?r
      proof (cases u)
        case (Cons d u')
        with u \<open>s = c # s'\<close> show ?thesis by (intro disjI2 exI [of _ u'] exI [of _ v]) auto
      qed (use u in auto)
    next
      assume ?r
      then show ?l by (elim disjE) (force intro: exI [of _ "[]"], blast)
    qed
    then show ?thesis using 2 [OF Cons] Cons by (auto simp: or_else_None Suc_le_eq)
  qed
qed auto

lemma mt_succeeds:
  "mt r k p s \<noteq> None \<longleftrightarrow> (\<exists>u v. s = u @ v \<and> denotes r p u (headc v) \<and> k (lastc p u) v \<noteq> None)"
proof (induction r arbitrary: k p s)
  case (Cls f)
  show ?case
  proof (cases s)
    case (Cons c s')
    show ?thesis
    proof
      assume "mt (Cls f) k p s \<noteq> None"
      then show "\<exists>u v. s = u @ v \<and> denotes (Cls f) p u (headc v) \<and> k (lastc p u) v \<noteq> None"
        by (intro exI [of _ "[c]"] exI [of _ s']) (simp add: Cons split: if_splits)
    qed (auto simp: Cons)
  qed simp
next
  case (Run lo hi f)
  show ?case
    unfolding mt.simps denotes.simps run_succeeds by (intro iff_exI) (auto split: option.splits)
next
  case (Seq a b)
  have "mt (Seq a b) k p s \<noteq> None \<longleftrightarrow>
     (\<exists>u w v. s = u @ w @ v \<and> denotes a p u (nextc w (headc v)) \<and> denotes b (lastc p u) w (headc v) \<and> k (lastc (lastc p u) w) v \<noteq> None)"
    by (simp only: mt.simps Seq.IH) (metis headc_simps(3))
  then show ?case by (simp only: denotes.simps) (metis append_assoc lastc_simps(3))
qed (auto simp: or_else_None split: list.splits)

lemma first_at_succeeds:
  "first_at f p s \<noteq> None \<longleftrightarrow> (\<exists>pre rest. s = pre @ rest \<and> f (lastc p pre) rest \<noteq> None)"
proof (induction f p s rule: first_at.induct)
  case (2 f p c s)
  have "(\<exists>pre rest. c # s = pre @ rest \<and> f (lastc p pre) rest \<noteq> None) \<longleftrightarrow>
    f p (c # s) \<noteq> None \<or> (\<exists>pre rest. s = pre @ rest \<and> f (lastc (Some c) pre) rest \<noteq> None)"
    (is "?l \<longleftrightarrow> ?r")
  proof
    assume ?l
    then obtain pre rest where pre: "c # s = pre @ rest" "f (lastc p pre) rest \<noteq> None" by blast
    show ?r
    proof (cases pre)
      case Nil
      with pre show ?thesis by simp
    next
      case (Cons d pre')
      with pre have "s = pre' @ rest \<and> f (lastc (Some c) pre') rest \<noteq> None" by simp
      then show ?thesis by blast
    qed
  next
    assume ?r
    then show ?l
    proof
      assume "\<exists>pre rest. s = pre @ rest \<and> f (lastc (Some c) pre) rest \<noteq> None"
      then obtain pre rest where "s = pre @ rest" "f (lastc p (c # pre)) rest \<noteq> None" by auto
      then show ?l by (intro exI [of _ "c # pre"] exI [of _ rest]) simp
    qed (intro exI [of _ "[]"] exI [of _ "c # s"], simp)
  qed
  then show ?case using 2 by (cases "f p (c # s)") simp_all
qed auto

text \<open>The matcher finds a match exactly when the denotation has one somewhere in the text.\<close>

theorem found_iff_occurs: "found r s \<longleftrightarrow> occurs r s"
  unfolding found_def occurs_def first_at_succeeds mt_succeeds by blast

end
