(* ===== verification/Academic.thy ===== *)
theory Academic
  imports Regex Indexer_Laws
begin

text \<open>
  \<open>observer/academic.py\<close>: the cheap prior of the academic club, a score of patterns found in the text,
  with its regular expressions written out, and what it means for the indexer that asks it.
\<close>

section \<open>Patterns\<close>

abbreviation digit :: "nat \<Rightarrow> nat \<Rightarrow> rx" where
  "digit lo hi \<equiv> Run lo (Some hi) decimal_char"

definition space_char :: "char \<Rightarrow> bool" where "space_char c = py_isspace c"

definition colon_space :: "char \<Rightarrow> bool" where "colon_space c \<longleftrightarrow> c = CHR '':'' \<or> py_isspace c"

definition doi_char :: "char \<Rightarrow> bool" where
  "doi_char c \<longleftrightarrow> c \<in> set ''-._;()/:'' \<or> decimal_char c
     \<or> (let n = (of_char (lower_char c) :: nat) in 97 \<le> n \<and> n \<le> 122)"

definition digit_or_x :: "char \<Rightarrow> bool" where
  "digit_or_x c \<longleftrightarrow> decimal_char c \<or> same_char (CHR ''x'') c"

definition DOI :: rx where
  "DOI = seqs [Edge, lits ''10.'', digit 4 9, lits ''/'', Run 1 None doi_char]"
definition ARXIV :: rx where
  "ARXIV = seqs [Edge, lits ''arxiv'', Run 1 None colon_space, digit 4 4, lits ''.'', digit 4 5]"
definition PMID :: rx where
  "PMID = seqs [Edge, words [''pmid'', ''pubmed''], Run 0 (Some 1) colon_space, digit 5 8, Edge]"
definition ISSN :: rx where
  "ISSN = seqs [Edge, lits ''issn'', Run 0 (Some 1) colon_space, digit 4 4, opt (lits ''-''), digit 3 3, Cls digit_or_x, Edge]"
definition ORCID :: rx where
  "ORCID = seqs [Edge, lits ''orcid'', Alt (lits ''.org/'') (Run 1 None colon_space), digit 4 4, lits ''-'', digit 4 4, lits ''-'',
     digit 4 4, lits ''-'', digit 3 3, Cls digit_or_x, Edge]"
definition ABSTRACT :: rx where "ABSTRACT = seqs [Edge, lits ''abstract'', Edge]"
definition REFERENCES :: rx where "REFERENCES = seqs [Edge, words [''references'', ''bibliography''], Edge]"
definition ETAL :: rx where
  "ETAL = seqs [Edge, lits ''et'', Run 1 None space_char, lits ''al'', opt (lits ''.''), Edge]"
definition INTRO :: rx where "INTRO = seqs [Edge, words [''introduction'', ''corresponding author''], Edge]"
definition KEYWORDS_HEAD :: rx where
  "KEYWORDS_HEAD = seqs [Edge, lits ''keyword'', opt (lits ''s''), Run 0 None space_char, lits '':'']"
definition JOURNAL :: rx where
  "JOURNAL = seqs [Edge, words [''journal of'', ''proceedings of the'', ''ieee transactions'', ''acm transactions'', ''nature '',
     ''science '', ''plos one'', ''arxiv.org'', ''doi.org''], Edge]"
definition REPO :: rx where
  "REPO = seqs [Edge, words [''zenodo'', ''osf.io'', ''ssrn'', ''jstor'', ''figshare'', ''dryad'', ''datacite'', ''handle.net'',
     ''hal.science'', ''biorxiv'', ''medrxiv'', ''philpapers'', ''eric.ed.gov'', ''worldcat'', ''crossref'', ''pubmed.ncbi'', ''pmc.ncbi''], Edge]"

text \<open>\<open>universit[a\<close>/a-umlaut\<open>]t\<close>: the class ignores case as well.\<close>

definition a_umlaut :: "char \<Rightarrow> bool" where
  "a_umlaut c \<longleftrightarrow> lower_char c = CHR ''a'' \<or> lower_char c = CHR 0xE4"

definition INST :: rx where
  "INST = alts [seqs [lits ''.edu'', Edge], seqs [lits ''.ac.'', words [''uk'', ''jp'', ''kr'', ''za'', ''in''], Edge],
     seqs [Edge, alts [lits ''university'', seqs [lits ''universit'', Cls a_umlaut, lits ''t''], lits ''faculty of'', lits ''department of'',
       lits ''school of'', lits ''institute of'', lits ''research group'', lits ''graduate school'', lits ''max planck'', lits ''cnrs'',
       lits ''cern'', lits ''nih.gov''], Edge]]"
definition TEACH :: rx where
  "TEACH = seqs [Edge, words [''lecture notes'', ''course syllabus'', ''problem set'', ''seminar series'', ''tutorial notes''], Edge]"
definition THESIS :: rx where
  "THESIS = seqs [Edge, alts [lits ''dissertation'', lits ''phd thesis'', seqs [lits ''master'', opt (Cls (same_char (CHR 0x27))), lits ''s thesis''],
     lits ''habilitationsschrift''], Edge]"
definition DATA :: rx where
  "DATA = seqs [Edge, alts [lits ''data availability'', seqs [lits ''supplementary '', words [''data'', ''material'']], lits ''codebook'',
     lits ''dataset doi''], Edge]"
definition NAV :: rx where
  "NAV = seqs [Edge, words [''click here'', ''sign in'', ''log in'', ''add to cart'', ''privacy policy'', ''cookie policy'', ''subscribe now''], Edge]"
definition SOFTWARE :: rx where
  "SOFTWARE = seqs [Edge, words [''npm install'', ''pip install'', ''cargo add'', ''hello world'', ''getting started'', ''api reference'',
     ''changelog''], Edge]"

section \<open>Score and prior\<close>

definition MARKS :: "(rx \<times> nat) list" where
  "MARKS = [(DOI, 3), (ARXIV, 3), (ORCID, 3), (REPO, 3), (INST, 3), (PMID, 2), (THESIS, 2), (TEACH, 2), (ISSN, 1), (ABSTRACT, 2),
     (REFERENCES, 1), (ETAL, 1), (JOURNAL, 1), (INTRO, 1), (KEYWORDS_HEAD, 1), (DATA, 1)]"

definition pdf_named :: "string option \<Rightarrow> string option \<Rightarrow> bool" where
  "pdf_named mime filename \<longleftrightarrow>
     py_endswith (py_lower (str_or filename [])) ''.pdf'' \<or> str_or mime [] = ''application/pdf''"

definition score :: "string \<Rightarrow> string option \<Rightarrow> string option \<Rightarrow> nat" where
  "score t mime filename =
     sum_list (map (\<lambda>(r, n). if found r t then n else 0) MARKS) + (if pdf_named mime filename then 1 else 0)"

definition prior :: "string \<Rightarrow> string option \<Rightarrow> string option \<Rightarrow> string" where
  "prior t mime filename =
     (let n = score t mime filename; pdf = pdf_named mime filename in
      if n \<ge> 3 \<or> pdf \<and> n \<ge> 2 then LIKELY
      else if pdf then UNCERTAIN
      else if n < 2 \<and> found_count NAV t \<ge> 2 then UNLIKELY
      else if n < 2 \<and> found SOFTWARE t then UNLIKELY
      else if n < 2 \<and> length t < 400 then UNLIKELY
      else UNCERTAIN)"

section \<open>Laws\<close>

lemma labels_differ: "LIKELY \<noteq> UNLIKELY" "UNCERTAIN \<noteq> UNLIKELY" "UNCERTAIN \<noteq> LIKELY"
  by (simp_all add: LIKELY_def UNLIKELY_def UNCERTAIN_def)

lemma mark_le_score:
  assumes "(r, n) \<in> set MARKS" "found r t"
  shows "n \<le> score t mime filename"
proof -
  have "n \<in> set (map (\<lambda>(r, n). if found r t then n else 0) MARKS)" using assms by force
  then have "n \<le> sum_list (map (\<lambda>(r, n). if found r t then n else 0) MARKS)" by (rule member_le_sum_list) simp
  then show ?thesis by (simp add: score_def)
qed

lemma denotes_SeqI:
  "denotes a p v (nextc w n) \<Longrightarrow> denotes b (lastc p v) w n \<Longrightarrow> denotes (Seq a b) p (v @ w) n"
  by auto

lemma denotes_lits: "denotes (lits w) p w n"
proof (induction w arbitrary: p)
  case (Cons d w)
  have "denotes (Seq (Cls (same_char d)) (lits w)) p ([d] @ w) n"
    by (rule denotes_SeqI) (simp_all add: same_char_def Cons)
  then show ?case by simp
qed simp

text \<open>
  A text that names a DOI is likely, whatever else it has and whatever its type: after a character that is no
  letter, digit or underscore, \<open>10.\<close>, four to nine digits, a slash and a character of a DOI suffix.
\<close>

lemma doi_found:
  assumes "\<not> is_word (lastc None pre)" "4 \<le> length ds" "length ds \<le> 9" "list_all decimal_char ds" "doi_char c"
  shows "found DOI (pre @ ''10.'' @ ds @ ''/'' @ c # post)"
proof -
  have w: "is_word (Some (CHR ''1''))" by (simp add: is_word_def word_char_def)
  have "denotes DOI (lastc None pre) ([] @ ''10.'' @ ds @ ''/'' @ [c] @ []) (headc post)"
    unfolding DOI_def seqs.simps
  proof (intro denotes_SeqI)
    show "denotes Edge (lastc None pre) [] (nextc (''10.'' @ ds @ ''/'' @ [c] @ []) (headc post))"
      using assms(1) w by simp
  qed (use assms in \<open>simp_all add: denotes_lits del: lits.simps\<close>)
  then have "denotes DOI (lastc None pre) (''10.'' @ ds @ ''/'' @ [c]) (headc post)" by simp
  then show ?thesis
    unfolding found_iff_occurs occurs_def
    by (intro exI [of _ pre] exI [of _ "''10.'' @ ds @ ''/'' @ [c]"] exI [of _ post]) simp
qed

theorem doi_is_likely:
  assumes "pre = [] \<or> \<not> word_char (last pre)" "4 \<le> length ds" "length ds \<le> 9" "list_all decimal_char ds" "doi_char c"
  shows "prior (pre @ ''10.'' @ ds @ ''/'' @ c # post) mime filename = LIKELY"
proof -
  have "\<not> is_word (lastc None pre)" using assms(1) by (auto simp: is_word_def lastc_def)
  from doi_found [OF this assms(2-5)] have "3 \<le> score (pre @ ''10.'' @ ds @ ''/'' @ c # post) mime filename"
    by (intro mark_le_score [of DOI]) (simp_all add: MARKS_def)
  then show ?thesis by (simp add: prior_def)
qed

lemma prior_LIKELY: "prior t mime filename = LIKELY \<longleftrightarrow> score t mime filename \<ge> 3 \<or> pdf_named mime filename \<and> score t mime filename \<ge> 2"
  using labels_differ by (auto simp: prior_def Let_def)

lemma prior_UNLIKELY: "prior t mime filename = UNLIKELY \<Longrightarrow> \<not> pdf_named mime filename \<and> score t mime filename < 2"
  using labels_differ by (auto simp: prior_def Let_def split: if_splits)


section \<open>Instances\<close>

theorem doi_is_likely_witness:
  "prior (''Sign in. Log in. (see '' @ ''10.'' @ ''1000'' @ ''/'' @ CHR ''1'' # ''82)'') (Some ''text/html'') None = LIKELY"
  by (rule doi_is_likely) (simp_all add: word_char_def decimal_char_def doi_char_def)

text \<open>A PDF of one repeated letter, and a model that denies its scope.\<close>

definition ex_denial :: payload where "ex_denial = [(''in_scope'', JBool False)]"

definition ex_academic_view :: view where
  "ex_academic_view = ex_view\<lparr>v_prior := (\<lambda>t mime filename. prior t (Some mime) filename),
     v_classify := (\<lambda>_ _ _ _. Inr (Some ex_denial))\<rparr>"

lemma ex_academic_view_simps:
  "v_env ex_academic_view = v_env ex_view" "v_now ex_academic_view = v_now ex_view" "v_cat ex_academic_view = v_cat ex_view"
  "v_net ex_academic_view = v_net ex_view" "v_extract ex_academic_view = v_extract ex_view" "v_llm_up ex_academic_view = v_llm_up ex_view"
  "v_prior ex_academic_view = (\<lambda>t mime filename. prior t (Some mime) filename)" "v_reply ex_academic_view = v_reply ex_view"
  "v_classify ex_academic_view a b cc d = Inr (Some ex_denial)" "env_at ex_academic_view = env_at ex_view" "v_club ex_academic_view = v_club ex_view"
  by (simp_all add: ex_academic_view_def env_at_def fun_eq_iff v_club_def)

lemma ex_prior: "prior ex_text (Some ''application/pdf'') None = UNCERTAIN"
  by code_simp

lemma ex_academic_precheck: "precheck ex_academic_view ex_doc_row = None"
  using ex_precheck by (simp only: precheck_def ex_academic_view_simps)

definition ex_skip_body :: payload where
  "ex_skip_body = publish_body (v_club ex_view) (skip_payload (leaf_text 223) (Some ''application/pdf'') SCOPE_SKIP_REASON)"

lemma ex_skip_kind: "jget ex_skip_body ''kind'' = JStr ''skip''" "jget ex_skip_body ''cid'' = JStr (leaf_text 223)"
  unfolding ex_skip_body_def by (simp_all add: jget_publish_body) (simp_all add: skip_payload_def jget_def)

lemma ex_skip_run: "EPost ex_skip_body \<in> set (snd (the (process_one ex_academic_view ex_doc_row)))"
proof -
  have pdf: "processable (Some ''application/pdf'')" by code_simp
  have "publish_skip (v_club ex_view) (v_reply ex_view) (leaf_text 223) (Some ''application/pdf'') SCOPE_SKIP_REASON = (JBool True, [ex_skip_body])"
    using ex_skip_kind valid_leaf_text [of 223]
    by (simp add: publish_skip_def publish_def ex_view_simps flip: ex_skip_body_def)
  then have "EPost ex_skip_body \<in> set (snd (judge_text ex_academic_view ex_doc_row ex_text ''application/pdf'' 4 None None (fingerprint byte_sum ex_text)))"
    using labels_differ
    by (simp add: judge_text_def llm_verdict_def scope_skip_def ex_academic_view_simps ex_view_simps ex_prior ex_doc_row_simps
        ex_denial_def meta_in_scope_def jget_def)
  then have "EPost ex_skip_body \<in> set (snd (handle_sample ex_academic_view ex_doc_row pdf_result))"
    by (simp add: handle_sample_def pdf_result_simps ex_academic_view_simps ex_view_simps ex_extracted ex_usable classify_text_def
        classify_by_text_hash_def ex_cat_def empty_catalog_def pdf)
  then show ?thesis
    using file_net_fetch
    by (simp add: process_one_def ex_academic_precheck ex_doc_row_simps ex_academic_view_simps ex_view_simps handle_fetch_def pdf_result_simps split_beta)
qed


end
