(* ===== verification/License.thy ===== *)
theory License
  imports Regex Extract
begin

text \<open>
  The licence half of \<open>observer/extract.py\<close>: the patterns a licence is recognised by, its normal name, and where
  it is looked for in a page or a PDF. The start tags of a page (\<open>html.parser\<close>) and the metadata of a PDF
  (\<open>pypdf\<close>) are arguments. These are the \<open>x_license\<close> and \<open>x_html_license\<close> of the extractors.
\<close>

section \<open>Patterns\<close>

definition dash_space :: "char \<Rightarrow> bool" where "dash_space c \<longleftrightarrow> c = CHR ''-'' \<or> py_isspace c"

abbreviation dash :: rx where "dash \<equiv> Cls dash_space"
abbreviation opt_dash :: rx where "opt_dash \<equiv> Run 0 (Some 1) dash_space"

definition one_to_four :: "char \<Rightarrow> bool" where "one_to_four c \<longleftrightarrow> c \<in> set ''1234''"

definition CC_BODY :: rx where
  "CC_BODY = seqs [lits ''CC'', Run 0 None py_isspace,
     alts [seqs [lits ''BY'', dash, lits ''NC'', dash, words [''SA'', ''ND'']], seqs [lits ''BY'', dash, words [''SA'', ''ND'']],
           seqs [lits ''BY'', dash, lits ''NC''], lits ''BY''],
     opt (seqs [opt_dash, Alt (seqs [Cls one_to_four, lits ''.0'']) (Cls one_to_four)])]"

definition URL_HEAD :: rx where
  "URL_HEAD = seqs [lits ''http'', opt (lits ''s''), lits ''://'', opt (lits ''www.''), lits ''creativecommons.org/licenses/'']"

definition URL_CODE :: rx where "URL_CODE = seqs [lits ''by'', opt (lits ''-nc''), opt (words [''-nd'', ''-sa''])]"
definition URL_VERSION :: rx where "URL_VERSION = seqs [Cls one_to_four, opt (lits ''.0'')]"

definition later :: rx where "later = opt (seqs [dash, lits ''or'', dash, lits ''later''])"
definition two_three :: rx where "two_three = words [''2'', ''3'']"

definition SPDX_BODY :: rx where
  "SPDX_BODY = alts [seqs [lits ''Apache'', opt_dash, lits ''2.0''], lits ''MIT'',
     seqs [lits ''BSD'', opt_dash, two_three, dash, lits ''Clause''],
     seqs [lits ''GPL'', opt_dash, opt (lits ''v''), two_three, opt (lits ''.0''), later],
     seqs [lits ''LGPL'', opt_dash, opt (lits ''v''), words [''2.1'', ''3''], later],
     seqs [lits ''AGPL'', opt_dash, opt (lits ''v''), lits ''3'', opt (lits ''.0''), later],
     seqs [lits ''MPL'', opt_dash, lits ''2.0''], seqs [lits ''EPL'', opt_dash, lits ''2.0''], lits ''Unlicense'',
     seqs [lits ''CC0'', opt (seqs [opt_dash, lits ''1.0''])]]"

definition ALL_RIGHTS :: rx where
  "ALL_RIGHTS = seqs [Edge, lits ''all'', Run 1 None py_isspace, lits ''rights'', Run 1 None py_isspace, lits ''reserved'', Edge]"

definition CREATIVE_COMMONS :: rx where
  "CREATIVE_COMMONS = seqs [Edge, lits ''creative'', Run 1 None py_isspace, lits ''commons'', Edge]"

section \<open>Names\<close>

text \<open>\<open>re.sub("[...]+", new, s)\<close>: every run of such characters becomes \<open>new\<close>.\<close>

fun squash :: "(char \<Rightarrow> bool) \<Rightarrow> char \<Rightarrow> string \<Rightarrow> string" where
  "squash f new [] = []"
| "squash f new (c # s) =
     (if f c then (case s of [] \<Rightarrow> [new] | d # s' \<Rightarrow> if f d then squash f new s else new # squash f new s)
      else c # squash f new s)"

text \<open>A group between two word boundaries.\<close>

definition bounded_group :: "rx \<Rightarrow> string \<Rightarrow> string option" where
  "bounded_group r = first_at (mt Edge (\<lambda>p s. mt r (\<lambda>q rest. mt Edge (\<lambda>q rest. Some (upto s rest)) q rest) p s)) None"

definition named_terms :: "string \<Rightarrow> string option" where
  "named_terms v =
     map_option (\<lambda>rest. squash (one_of ''-_/'') (CHR '' '') (py_lower (take 180 rest)))
       (first_at (mt CREATIVE_COMMONS (\<lambda>p rest. Some rest)) None v)"

definition named_creative_commons :: "string \<Rightarrow> string option" where
  "named_creative_commons v =
     (case named_terms v of
        None \<Rightarrow> None
      | Some terms \<Rightarrow>
          (let nd = contains ''noderivatives'' terms \<or> contains ''no derivatives'' terms;
               sa = contains ''sharealike'' terms \<or> contains ''share alike'' terms
           in if \<not> contains ''attribution'' terms then None
              else if contains ''noncommercial'' terms \<or> contains ''non commercial'' terms then
                Some (if nd then ''CC-BY-NC-ND'' else if sa then ''CC-BY-NC-SA'' else ''CC-BY-NC'')
              else Some (if nd then ''CC-BY-ND'' else if sa then ''CC-BY-SA'' else ''CC-BY'')))"

definition cc_url :: "string \<Rightarrow> string option" where
  "cc_url = first_at (mt URL_HEAD (\<lambda>p s. mt URL_CODE (\<lambda>p1 s1. mt (lits ''/'') (\<lambda>p2 s2. mt URL_VERSION (\<lambda>p3 s3.
      mt (opt (lits ''/'')) (\<lambda>p4 s4. Some (''CC-'' @ py_upper (upto s s1) @ ''-'' @ upto s2 s3)) p3 s3) p2 s2) p1 s1) p s)) None"

definition LICENSE_NAMES :: "(string \<times> string) list" where
  "LICENSE_NAMES = [(''APACHE-2.0'', ''Apache-2.0''), (''MIT'', ''MIT''), (''BSD-2-CLAUSE'', ''BSD-2-Clause''),
     (''BSD-3-CLAUSE'', ''BSD-3-Clause''), (''MPL-2.0'', ''MPL-2.0''), (''EPL-2.0'', ''EPL-2.0''), (''UNLICENSE'', ''Unlicense''),
     (''CC0-1.0'', ''CC0-1.0''), (''CC0'', ''CC0-1.0'')]"

text \<open>\<open>raw.replace("-V", "-")\<close>.\<close>

fun drop_v :: "string \<Rightarrow> string" where
  "drop_v (c # d # s) = (if c = CHR ''-'' \<and> d = CHR ''V'' then c # drop_v s else c # drop_v (d # s))"
| "drop_v s = s"

definition spdx_name :: "string \<Rightarrow> string" where
  "spdx_name matched =
     (let raw = py_upper (squash py_isspace (CHR ''-'') matched) in
      case map_of LICENSE_NAMES raw of Some n \<Rightarrow> n | None \<Rightarrow> drop_v raw)"

definition normalize_license :: "string \<Rightarrow> string option" where
  "normalize_license value =
     (if value = [] then None
      else let v = collapse value in
        or_else (cc_url v)
       (or_else (named_creative_commons v)
       (or_else (map_option (\<lambda>g. squash dash_space (CHR ''-'') (py_upper g)) (bounded_group CC_BODY v))
       (or_else (map_option spdx_name (bounded_group SPDX_BODY v))
         (if found ALL_RIGHTS v then Some ''All rights reserved'' else None)))))"

section \<open>Where a licence is looked for\<close>

text \<open>
  \<open>_HTMLLicenseParser.handle_starttag\<close>: an attribute without a value is None, on which \<open>lower\<close> raises; a later
  attribute of a name wins. The exception ends the parse, the values so far stay.
\<close>

type_synonym attrs = "(string \<times> string option) list"

definition attr :: "attrs \<Rightarrow> string \<Rightarrow> string option" where
  "attr as k = (case map_of (rev as) k of None \<Rightarrow> Some [] | Some v \<Rightarrow> v)"

definition handle_starttag :: "string \<Rightarrow> attrs \<Rightarrow> string option list res" where
  "handle_starttag tag as =
     (if tag = ''link'' then
        (case attr as ''rel'' of
           None \<Rightarrow> Inl AttributeError
         | Some rel \<Rightarrow> Inr (if ''license'' \<in> set (py_split_ws (py_lower rel)) then [attr as ''href''] else []))
      else if tag = ''meta'' then
        (case attr as ''name'' of
           None \<Rightarrow> Inl AttributeError
         | Some name \<Rightarrow>
             Inr (if py_lower name \<in> {''license'', ''dc.rights'', ''dc.rightslicense'', ''dcterms.rights''} then [attr as ''content''] else []))
      else Inr [])"

fun tag_values :: "(string \<times> attrs) list \<Rightarrow> string option list" where
  "tag_values [] = []"
| "tag_values ((tag, as) # tags) =
     (case handle_starttag tag as of Inl e \<Rightarrow> [] | Inr vs \<Rightarrow> vs @ tag_values tags)"

text \<open>The first of the values that names a licence.\<close>

fun first_license :: "string option list \<Rightarrow> string option" where
  "first_license [] = None"
| "first_license (v # vs) = or_else (normalize_license (str_or v [])) (first_license vs)"

text \<open>A licence with where it was found.\<close>

definition html_license :: "(string \<times> attrs) list \<Rightarrow> string \<Rightarrow> (string \<times> string) option" where
  "html_license tags html =
     (case first_license (tag_values tags) of
        Some l \<Rightarrow> Some (l, ''html_metadata'')
      | None \<Rightarrow> map_option (\<lambda>l. (l, ''html_text'')) (normalize_license html))"

definition pdf_license :: "string list \<Rightarrow> (string \<times> string) option" where
  "pdf_license values = map_option (\<lambda>l. (l, ''pdf_metadata'')) (first_license (map Some values))"

section \<open>Laws\<close>

text \<open>
  The address of each of the six Creative Commons licences, in its current version, gives its name.
\<close>

theorem cc_url_names:
  "list_all (\<lambda>(code, version). normalize_license (''See https://creativecommons.org/licenses/'' @ code @ ''/'' @ version @ ''/ for terms'')
       = Some (''CC-'' @ py_upper code @ ''-'' @ version))
     (List.product [''by'', ''by-sa'', ''by-nd'', ''by-nc'', ''by-nc-sa'', ''by-nc-nd''] [''4.0''])"
  by code_simp

text \<open>
  The names that come out are not recognised when they come in: a text, a metadata field or a model that says
  \<open>CC-BY-4.0\<close>, as SPDX spells it, is taken to name no licence.
\<close>

theorem own_name_not_recognised:
  "normalize_license ''CC BY 4.0'' = Some ''CC-BY-4.0'' \<and> normalize_license ''CC-BY-4.0'' = None"
  by code_simp

end
