(* ===== verification/Rate.thy ===== *)
theory Rate
  imports Fetch_Laws
begin

text \<open>
  The byte budget of \<open>observer/fetch.py\<close> that all workers share. Clock readings and tokens are
  reals (floats in the code). An attempt is the body of the loop of \<open>consume\<close>, which runs under the
  limiter's lock; between two attempts a worker sleeps, and other workers make attempts of their own.
\<close>

section \<open>The limiter\<close>

record limiter =
  l_rate :: real
  l_capacity :: real
  l_tokens :: real
  l_ts :: time

definition new_limiter :: "intcfg \<Rightarrow> time \<Rightarrow> limiter" where
  "new_limiter F now =
     (let rate = of_int (cfg_get F ''rate_limit_kbps'' 1500) * 1024;
          capacity = max (max (rate * 2) (of_int (MAX_BLOCK F))) 1
      in \<lparr>l_rate = rate, l_capacity = capacity, l_tokens = capacity, l_ts = now\<rparr>)"

definition refill :: "time \<Rightarrow> limiter \<Rightarrow> limiter" where
  "refill now l =
     l\<lparr>l_tokens := min (l_capacity l) (l_tokens l + (now - l_ts l) * l_rate l), l_ts := now\<rparr>"

text \<open>None: the bytes are let through. Some t: the caller is to sleep t seconds.\<close>

definition attempt :: "time \<Rightarrow> int \<Rightarrow> limiter \<Rightarrow> time option \<times> limiter" where
  "attempt now n l =
     (let l = refill now l in
      if l_tokens l \<ge> of_int n then (None, l\<lparr>l_tokens := l_tokens l - of_int n\<rparr>)
      else (Some (min ((of_int n - l_tokens l) / l_rate l) 1), l))"

text \<open>
  A whole call when no other worker takes tokens meanwhile: \<open>late i\<close> is by how much the i-th
  sleep overshoots. None is a call that never returns; otherwise the time of its return.
\<close>

partial_function (option) consume_loop :: "(nat \<Rightarrow> time) \<Rightarrow> nat \<Rightarrow> time \<Rightarrow> int \<Rightarrow> limiter \<Rightarrow> (time \<times> limiter) option" where
  "consume_loop late i now n l =
     (case attempt now n l of
        (None, l') \<Rightarrow> Some (now, l')
      | (Some t, l') \<Rightarrow> consume_loop late (Suc i) (now + t + late i) n l')"

definition consume :: "(nat \<Rightarrow> time) \<Rightarrow> time \<Rightarrow> int \<Rightarrow> limiter \<Rightarrow> (time \<times> limiter) option" where
  "consume late now n l = (if l_rate l \<le> 0 then Some (now, l) else consume_loop late 0 now n l)"

text \<open>The attempts of all workers in the order in which they hold the lock, and the bytes let through.\<close>

primrec run_attempts :: "(time \<times> int) list \<Rightarrow> limiter \<Rightarrow> int \<times> limiter" where
  "run_attempts [] l = (0, l)"
| "run_attempts (a # as) l =
     (case attempt (fst a) (snd a) l of
        (r, l') \<Rightarrow> (case run_attempts as l' of
           (passed, l'') \<Rightarrow> ((if r = None then snd a else 0) + passed, l'')))"

section \<open>Laws\<close>

definition limiter_ok :: "limiter \<Rightarrow> bool" where
  "limiter_ok l \<longleftrightarrow> 0 < l_rate l \<and> 0 \<le> l_tokens l \<and> l_tokens l \<le> l_capacity l"

named_theorems limiter

lemma attempt_const [limiter]:
  "attempt now n l = (r, l') \<Longrightarrow> l_rate l' = l_rate l \<and> l_capacity l' = l_capacity l \<and> l_ts l' = now"
  by (auto simp: attempt_def refill_def Let_def split: if_splits)

lemma attempt_ok:
  "attempt now n l = (r, l') \<Longrightarrow> limiter_ok l \<Longrightarrow> l_ts l \<le> now \<Longrightarrow> 0 \<le> n \<Longrightarrow> limiter_ok l'"
  by (auto simp: attempt_def refill_def limiter_ok_def Let_def split: if_splits)

lemma attempt_passed:
  "attempt now n l = (None, l') \<Longrightarrow>
     of_int n + l_tokens l' = min (l_capacity l) (l_tokens l + (now - l_ts l) * l_rate l)"
  by (auto simp: attempt_def refill_def Let_def split: if_splits)

lemma attempt_fits: "attempt now n l = (None, l') \<Longrightarrow> of_int n \<le> l_capacity l"
  by (auto simp: attempt_def refill_def Let_def split: if_splits)

lemma attempt_waits:
  assumes "attempt now n l = (Some t, l')"
  shows "l_tokens l' = min (l_capacity l) (l_tokens l + (now - l_ts l) * l_rate l)"
    "l_tokens l' < of_int n" "t = min ((of_int n - l_tokens l') / l_rate l) 1"
  using assms by (auto simp: attempt_def refill_def Let_def split: if_splits)

lemma attempt_passes:
  "of_int n \<le> min (l_capacity l) (l_tokens l + (now - l_ts l) * l_rate l) \<Longrightarrow> fst (attempt now n l) = None"
  by (simp add: attempt_def refill_def Let_def)

text \<open>What has been let through is paid for by the tokens there were and the time that passed.\<close>

lemma run_attempts_paid:
  assumes "run_attempts as l = (passed, l')" "limiter_ok l" "\<forall>a\<in>set as. 0 \<le> snd a"
    "sorted (l_ts l # map fst as)"
  shows "of_int passed + l_tokens l' \<le> l_tokens l + (last (l_ts l # map fst as) - l_ts l) * l_rate l"
  using assms
proof (induction as arbitrary: l passed)
  case (Cons a as)
  obtain r l1 where one: "attempt (fst a) (snd a) l = (r, l1)" by fastforce
  obtain rest where more: "run_attempts as l1 = (rest, l')" and passed: "passed = (if r = None then snd a else 0) + rest"
    using Cons.prems(1) one by (auto split: prod.splits)
  have same: "l_rate l1 = l_rate l" "l_ts l1 = fst a" using attempt_const [OF one] by auto
  have le: "(if r = None then of_int (snd a) else 0) + l_tokens l1 \<le> l_tokens l + (fst a - l_ts l) * l_rate l"
    using attempt_passed [of "fst a" "snd a" l l1] attempt_waits(1) [of "fst a" "snd a" l _ l1] one by (cases r) auto
  have "of_int rest + l_tokens l' \<le> l_tokens l1 + (last (fst a # map fst as) - fst a) * l_rate l"
    using Cons.IH [OF more] attempt_ok [OF one] Cons.prems same by simp
  then show ?case using le passed by (auto simp: algebra_simps split: if_splits)
qed simp

lemma closer: "0 < r \<Longrightarrow> T + r \<le> T1 \<Longrightarrow> (n - T1) / r \<le> (n - T) / r - (1::real)"
  using divide_right_mono [of "n - T1" "n - T - r" r] by (simp add: diff_divide_distrib)

text \<open>A caller that finds the bucket full enough returns; otherwise every sleep brings it nearer.\<close>

lemma consume_loop_returns:
  assumes "limiter_ok l" "0 \<le> n" "of_int n \<le> l_capacity l" "l_ts l \<le> now" "\<And>k. 0 \<le> late k"
  shows "\<exists>t l'. consume_loop late i now n l = Some (t, l') \<and> now \<le> t"
  using assms
proof (induction "nat \<lceil>(of_int n - (l_tokens l + (now - l_ts l) * l_rate l)) / l_rate l\<rceil>" arbitrary: l i now rule: less_induct)
  case less
  obtain r l1 where one: "attempt now n l = (r, l1)" by fastforce
  show ?case
  proof (cases r)
    case None
    then show ?thesis using one by (simp add: consume_loop.simps)
  next
    case (Some t)
    let ?T = "l_tokens l + (now - l_ts l) * l_rate l" and ?now = "now + t + late i"
    let ?T1 = "l_tokens l1 + (?now - l_ts l1) * l_rate l1"
    note w = attempt_waits [OF one [unfolded Some]] and c = attempt_const [OF one]
    have rate: "0 < l_rate l" using less.prems(1) by (simp add: limiter_ok_def)
    have tok: "l_tokens l1 = ?T" using w(1,2) less.prems(3) by linarith
    have t: "0 < t" using w(2,3) rate by simp
    have T1: "?T1 = ?T + (t + late i) * l_rate l" using tok c by (simp add: algebra_simps)
    have up: "?T + t * l_rate l \<le> ?T1" using T1 less.prems(5) [of i] rate by (simp add: algebra_simps)
    show ?thesis
    proof (cases "of_int n \<le> ?T1")
      case True
      then have "fst (attempt ?now n l1) = None" using attempt_passes [of n l1 ?now] less.prems(3) c by simp
      then have "\<exists>l2. attempt ?now n l1 = (None, l2)" by (metis prod.collapse)
      then show ?thesis using one Some t less.prems(5) [of i] by (auto simp: consume_loop.simps [of late i] consume_loop.simps [of late "Suc i"])
    next
      case False
      have "t = 1"
      proof (rule ccontr)
        assume "t \<noteq> 1"
        then have "t = (of_int n - l_tokens l1) / l_rate l" using w(3) by linarith
        then have "t * l_rate l = of_int n - l_tokens l1" using rate by simp
        then show False using False up tok by simp
      qed
      then have "?T + l_rate l \<le> ?T1" using up by simp
      then have "(of_int n - ?T1) / l_rate l1 \<le> (of_int n - ?T) / l_rate l - 1"
        using closer [of "l_rate l" ?T ?T1 "of_int n"] rate c by simp
      moreover have "0 < (of_int n - ?T1) / l_rate l1" using False rate c by simp
      ultimately have less': "nat \<lceil>(of_int n - ?T1) / l_rate l1\<rceil> < nat \<lceil>(of_int n - ?T) / l_rate l\<rceil>" by linarith
      have "\<exists>t' l'. consume_loop late (Suc i) ?now n l1 = Some (t', l') \<and> ?now \<le> t'"
        using less.hyps [OF less'] attempt_ok [OF one less.prems(1,4,2)] less.prems c t by simp
      then show ?thesis using one Some t less.prems(5) [of i] by (auto simp: consume_loop.simps [of late i])
    qed
  qed
qed

text \<open>The bucket never holds more than its capacity.\<close>

lemma consume_loop_fits:
  assumes "consume_loop late i now n l = Some r"
  shows "of_int n \<le> l_capacity l"
proof (rule consume_loop.raw_induct [OF _ assms, where P = "\<lambda>late i now n l r. of_int n \<le> l_capacity l"])
  fix f :: "(nat \<Rightarrow> time) \<Rightarrow> nat \<Rightarrow> time \<Rightarrow> int \<Rightarrow> limiter \<Rightarrow> (time \<times> limiter) option" and late i now n l r
  assume IH: "\<And>late i now n l r. f late i now n l = Some r \<Longrightarrow> of_int n \<le> l_capacity l"
    and body: "(case attempt now n l of (None, l') \<Rightarrow> Some (now, l')
      | (Some t, l') \<Rightarrow> f late (Suc i) (now + t + late i) n l') = Some r"
  obtain o1 l1 where one: "attempt now n l = (o1, l1)" by fastforce
  show "of_int n \<le> l_capacity l"
    using body one IH [of late "Suc i" _ n l1 r] attempt_const [OF one] by (cases o1) (auto dest: attempt_fits)
qed

lemma run_attempts_same:
  "run_attempts as l = (passed, l') \<Longrightarrow> l_rate l' = l_rate l \<and> l_capacity l' = l_capacity l"
proof (induction as arbitrary: l passed)
  case (Cons a as)
  then show ?case
    using attempt_const [of "fst a" "snd a" l] by (auto split: prod.splits)
qed simp

lemma run_attempts_keep:
  "run_attempts as l = (passed, l') \<Longrightarrow> limiter_ok l \<Longrightarrow> \<forall>a\<in>set as. 0 \<le> snd a \<Longrightarrow>
     sorted (l_ts l # map fst as) \<Longrightarrow>
     limiter_ok l' \<and> l_rate l' = l_rate l \<and> l_capacity l' = l_capacity l \<and> l_ts l' = last (l_ts l # map fst as)"
proof (induction as arbitrary: l passed)
  case (Cons a as)
  obtain r l1 where one: "attempt (fst a) (snd a) l = (r, l1)" by fastforce
  have "limiter_ok l1" using attempt_ok [OF one] Cons.prems by simp
  then show ?case
    using Cons.IH [of l1] Cons.prems one attempt_const [OF one] by (auto split: prod.splits)
qed simp

lemma sorted_from_last: "sorted (x # xs @ ys) \<Longrightarrow> sorted (last (x # xs) # ys)"
  by (cases xs rule: rev_cases) (auto simp: sorted_append)

section \<open>Properties\<close>

lemma new_limiter_fits: "of_int (MAX_BLOCK F) \<le> l_capacity (new_limiter F now)"
  by (simp add: new_limiter_def Let_def)

lemma new_limiter_ok: "0 < cfg_get F ''rate_limit_kbps'' 1500 \<Longrightarrow> limiter_ok (new_limiter F now)"
  by (simp add: new_limiter_def limiter_ok_def Let_def)

lemma new_limiter_ts [simp]: "l_ts (new_limiter F now) = now"
  by (simp add: new_limiter_def Let_def)

text \<open>A call of consume with the limiter to itself returns exactly when no rate is set or the bytes fit into the bucket.\<close>

lemma consume_returns_iff:
  assumes "0 \<le> l_tokens l" "l_tokens l \<le> l_capacity l" "0 \<le> n" "l_ts l \<le> now" "\<And>k. 0 \<le> late k"
  shows "(\<exists>t l'. consume late now n l = Some (t, l')) \<longleftrightarrow> l_rate l \<le> 0 \<or> of_int n \<le> l_capacity l"
proof (cases "l_rate l \<le> 0")
  case False
  then have "limiter_ok l" using assms(1,2) by (simp add: limiter_ok_def)
  then show ?thesis
    using consume_loop_returns [of l n now late 0] consume_loop_fits [of late 0 now n l] assms False
    by (auto simp: consume_def)
qed (simp add: consume_def)


text \<open>
  C23: Whatever the workers ask for and however their attempts interleave, in any stretch of
  time no more bytes are let through than the bucket holds plus what the rate allows for it.
\<close>

theorem rate_bound:
  assumes "run_attempts before (new_limiter F t0) = (sent, l)" "run_attempts during l = (passed, l')"
    "0 < cfg_get F ''rate_limit_kbps'' 1500" "\<forall>a\<in>set (before @ during). 0 \<le> snd a"
    "sorted (t0 # map fst (before @ during))" "during \<noteq> []"
  shows "of_int passed \<le> l_capacity (new_limiter F t0)
     + (fst (last during) - last (t0 # map fst before)) * l_rate (new_limiter F t0)"
proof -
  let ?l = "new_limiter F t0"
  have t0: "l_ts ?l = t0" by simp
  have ok: "limiter_ok ?l" by (rule new_limiter_ok [OF assms(3)])
  have k: "limiter_ok l" "l_rate l = l_rate ?l" "l_capacity l = l_capacity ?l" "l_ts l = last (t0 # map fst before)"
    using run_attempts_keep [OF assms(1) ok] assms(4,5) t0 by (simp_all add: sorted_append)
  have s: "sorted (l_ts l # map fst during)"
    using sorted_from_last [of t0 "map fst before" "map fst during"] assms(5) k(4) by simp
  have "of_int passed + l_tokens l' \<le> l_tokens l + (last (l_ts l # map fst during) - l_ts l) * l_rate l"
    using run_attempts_paid [OF assms(2) k(1) _ s] assms(4) by simp
  moreover have "0 \<le> l_tokens l'" "l_tokens l \<le> l_capacity l"
    using run_attempts_keep [OF assms(2) k(1) _ s] assms(4) k(1) by (simp_all add: limiter_ok_def)
  ultimately show ?thesis using k assms(6) by (simp add: last_map)
qed


lemma rate_bound_witness:
  "of_int (fst (run_attempts [(5, 3000000), (5, 3000000), (6, 70000)] (new_limiter (\<lambda>_. None) 0)))
     \<le> l_capacity (new_limiter (\<lambda>_. None) 0) + (6 - 0) * l_rate (new_limiter (\<lambda>_. None) 0)"
  using rate_bound [of "[]" "\<lambda>_. None" 0 0 "new_limiter (\<lambda>_. None) 0" "[(5, 3000000), (5, 3000000), (6, 70000)]"
      "fst (run_attempts [(5, 3000000), (5, 3000000), (6, 70000)] (new_limiter (\<lambda>_. None) 0))"
      "snd (run_attempts [(5, 3000000), (5, 3000000), (6, 70000)] (new_limiter (\<lambda>_. None) 0))"]
  by (simp add: cfg_get_def)

end
