(* ===== verification/Sniffer.thy ===== *)
theory Sniffer
  imports Prelude
begin

text \<open>
  \<open>SnifferManager\<close> of \<open>observer/indexer.py\<close> and the end of \<open>main\<close> in \<open>observer/main.py\<close>: two threads share
  the manager object. The manager thread runs \<open>loop\<close>; the main thread calls \<open>stop\<close> once a signal has set
  the stop event. Every read or write of \<open>self.proc\<close> is a step of its own, so that the threads
  interleave as the interpreter lets them. Processes are numbered as they are created.
\<close>

section \<open>States\<close>

text \<open>
  Where a thread stands. \<open>Start\<close> and the positions up to \<open>Assign\<close> are those of \<open>start\<close>; their flag
  says whether it was called before the loop, where an exception ends the thread. \<open>Is_none\<close>, \<open>Poll\<close>
  are the two halves of \<open>running\<close> in the loop. \<open>Stop\<close> and the positions up to \<open>Clear\<close> are those of \<open>stop\<close>.
\<close>

datatype pc = Entry | Start bool | Start_poll bool | Popen bool | Assign bool nat
  | Pause | Test | Is_none | Poll
  | Stop | Stop_poll | Terminate | Await | Awaiting nat | Kill | Await_killed | Awaiting_killed nat | Clear
  | Idle | Finished | Gone

record sniffing =
  live :: "nat set" \<comment> \<open>sniffer processes that run\<close>
  fresh :: nat
  proc :: "nat option" \<comment> \<open>\<open>self.proc\<close>\<close>
  stopping :: bool \<comment> \<open>the stop event\<close>
  mgr :: pc
  main_thread :: pc

definition sniffing_start :: sniffing where
  "sniffing_start = \<lparr>live = {}, fresh = 0, proc = None, stopping = False, mgr = Entry, main_thread = Idle\<rparr>"

section \<open>The threads\<close>

text \<open>
  \<open>stop\<close>, for either thread: the next positions, with the processes and the handle it leaves. None
  of an attribute call is an AttributeError, which ends the thread. A wait returns when its process
  is dead, or times out, when it is the first one.
\<close>

fun stop_next :: "pc \<Rightarrow> nat set \<Rightarrow> nat option \<Rightarrow> (pc \<times> nat set \<times> nat option) list" where
  "stop_next Stop ps h = [(if h = None then Clear else Stop_poll, ps, h)]"
| "stop_next Stop_poll ps h =
     [(case h of None \<Rightarrow> Finished | Some p \<Rightarrow> if p \<in> ps then Terminate else Clear, ps, h)]"
| "stop_next Terminate ps h = [(if h = None then Finished else Await, ps, h)]"
| "stop_next Await ps h = [(case h of None \<Rightarrow> Finished | Some p \<Rightarrow> Awaiting p, ps, h)]"
| "stop_next (Awaiting p) ps h = (Kill, ps, h) # (if p \<in> ps then [] else [(Clear, ps, h)])"
| "stop_next Kill ps h = [case h of None \<Rightarrow> (Finished, ps, h) | Some p \<Rightarrow> (Await_killed, ps - {p}, h)]"
| "stop_next Await_killed ps h = [(case h of None \<Rightarrow> Finished | Some p \<Rightarrow> Awaiting_killed p, ps, h)]"
| "stop_next (Awaiting_killed p) ps h = (if p \<in> ps then [] else [(Clear, ps, h)])"
| "stop_next Clear ps h = [(Finished, ps, None)]"
| "stop_next _ ps h = []"

text \<open>An exception in \<open>start\<close> ends the thread before the loop, and is logged in the loop.\<close>

definition raised :: "bool \<Rightarrow> pc" where
  "raised outer = (if outer then Finished else Pause)"

definition start_next :: "sniffing \<Rightarrow> sniffing list" where
  "start_next s =
     (case mgr s of
        Start outer \<Rightarrow> [s\<lparr>mgr := if proc s = None then Popen outer else Start_poll outer\<rparr>]
      | Start_poll outer \<Rightarrow>
          [s\<lparr>mgr := (case proc s of
             None \<Rightarrow> raised outer
           | Some p \<Rightarrow> if p \<in> live s then (if outer then Test else Pause) else Popen outer)\<rparr>]
      | Popen outer \<Rightarrow>
          [s\<lparr>mgr := Assign outer (fresh s), live := insert (fresh s) (live s), fresh := fresh s + 1\<rparr>,
           s\<lparr>mgr := raised outer\<rparr>]
      | Assign outer p \<Rightarrow> [s\<lparr>mgr := if outer then Test else Pause, proc := Some p\<rparr>]
      | _ \<Rightarrow> [])"

definition mgr_next :: "sniffing \<Rightarrow> sniffing list" where
  "mgr_next s =
     (case mgr s of
        Entry \<Rightarrow> [s\<lparr>mgr := Start True\<rparr>, s\<lparr>mgr := Finished\<rparr>] \<comment> \<open>no sniffer binary\<close>
      | Pause \<Rightarrow> [s\<lparr>mgr := Test\<rparr>]
      | Test \<Rightarrow> [s\<lparr>mgr := if stopping s then Stop else Is_none\<rparr>]
      | Is_none \<Rightarrow> [s\<lparr>mgr := if proc s = None then Start False else Poll\<rparr>]
      | Poll \<Rightarrow>
          [s\<lparr>mgr := (case proc s of None \<Rightarrow> Pause | Some p \<Rightarrow> if p \<in> live s then Pause else Start False)\<rparr>]
      | _ \<Rightarrow> start_next s
           @ map (\<lambda>(pc, l, h). s\<lparr>mgr := pc, live := l, proc := h\<rparr>) (stop_next (mgr s) (live s) (proc s)))"

lemmas mgr_simps = mgr_next_def start_next_def

definition main_next :: "sniffing \<Rightarrow> sniffing list" where
  "main_next s =
     (case main_thread s of
        Idle \<Rightarrow> (if stopping s then [s\<lparr>main_thread := Stop\<rparr>] else [])
      | _ \<Rightarrow> map (\<lambda>(pc, l, h). s\<lparr>main_thread := pc, live := l, proc := h\<rparr>)
               (stop_next (main_thread s) (live s) (proc s)))"

text \<open>
  A sniffer may die at any time. When the main thread has returned, the interpreter ends the
  manager thread, which is a daemon, wherever it stands.
\<close>

inductive sniff_step :: "sniffing \<Rightarrow> sniffing \<Rightarrow> bool" where
  by_manager: "s' \<in> set (mgr_next s) \<Longrightarrow> sniff_step s s'"
| by_main: "s' \<in> set (main_next s) \<Longrightarrow> sniff_step s s'"
| dies: "sniff_step s (s\<lparr>live := live s - {p}\<rparr>)"
| sig: "sniff_step s (s\<lparr>stopping := True\<rparr>)"
| interpreter_exit: "main_thread s = Finished \<Longrightarrow> sniff_step s (s\<lparr>mgr := Gone\<rparr>)"

inductive sniff_reach :: "sniffing \<Rightarrow> bool" where
  init: "sniff_reach sniffing_start"
| step: "sniff_reach s \<Longrightarrow> sniff_step s s' \<Longrightarrow> sniff_reach s'"

section \<open>The invariant\<close>

text \<open>The manager may still start a sniffer before it looks at the stop event again.\<close>

fun may_start :: "bool \<Rightarrow> pc \<Rightarrow> bool" where
  "may_start stop Entry = True"
| "may_start stop (Start _) = True"
| "may_start stop (Start_poll _) = True"
| "may_start stop (Popen _) = True"
| "may_start stop Is_none = True"
| "may_start stop Poll = True"
| "may_start stop Pause = (\<not> stop)"
| "may_start stop Test = (\<not> stop)"
| "may_start stop _ = False"

text \<open>The positions between the two reads of the handle, and those behind the loop.\<close>

fun polls :: "pc \<Rightarrow> bool" where
  "polls (Start_poll _) = True"
| "polls Poll = True"
| "polls _ = False"

fun ends :: "pc \<Rightarrow> bool" where
  "ends Stop = True"
| "ends Stop_poll = True"
| "ends Terminate = True"
| "ends Await = True"
| "ends (Awaiting _) = True"
| "ends Kill = True"
| "ends Await_killed = True"
| "ends (Awaiting_killed _) = True"
| "ends Clear = True"
| "ends Idle = True"
| "ends Gone = True"
| "ends _ = False"

definition at_most_one :: "nat set \<Rightarrow> bool" where
  "at_most_one ps \<longleftrightarrow> (\<exists>p. ps \<subseteq> {p})"

lemma at_most_one_simps [simp]: "at_most_one {}" "at_most_one {p}" "at_most_one ps \<Longrightarrow> at_most_one (ps - qs)"
  by (auto simp: at_most_one_def)

definition sniff_inv :: "sniffing \<Rightarrow> bool" where
  "sniff_inv s \<longleftrightarrow> (main_thread s \<noteq> Idle \<longrightarrow> stopping s)
     \<and> at_most_one (live s)
     \<and> (may_start (stopping s) (mgr s) \<longrightarrow> live s \<subseteq> set_option (proc s))
     \<and> (may_start (stopping s) (mgr s) \<longrightarrow> main_thread s = Clear \<longrightarrow> live s = {})
     \<and> (\<forall>p. may_start (stopping s) (mgr s) \<longrightarrow> main_thread s \<in> {Awaiting p, Awaiting_killed p} \<longrightarrow> proc s = Some p)
     \<and> (\<forall>b. mgr s = Popen b \<longrightarrow> live s = {})
     \<and> (\<forall>b p. mgr s = Assign b p \<longrightarrow> live s \<subseteq> {p})
     \<and> (\<not> stopping s \<longrightarrow> polls (mgr s) \<longrightarrow> proc s \<noteq> None)
     \<and> (\<not> stopping s \<longrightarrow> \<not> ends (mgr s))"

lemma sniff_inv_start: "sniff_inv sniffing_start"
  by (simp add: sniff_inv_def sniffing_start_def)

lemma sniff_inv_mgr: "sniff_inv s \<Longrightarrow> s' \<in> set (mgr_next s) \<Longrightarrow> sniff_inv s'"
  by (cases "mgr s") (auto simp: sniff_inv_def mgr_simps raised_def split: option.splits if_splits)

lemma sniff_inv_main: "sniff_inv s \<Longrightarrow> s' \<in> set (main_next s) \<Longrightarrow> sniff_inv s'"
  by (cases "main_thread s") (auto simp: sniff_inv_def main_next_def split: option.splits if_splits)

lemma sniff_inv_step: "sniff_step s s' \<Longrightarrow> sniff_inv s \<Longrightarrow> sniff_inv s'"
proof (induction rule: sniff_step.induct)
  case (by_manager s' s)
  then show ?case by (simp add: sniff_inv_mgr)
next
  case (by_main s' s)
  then show ?case by (simp add: sniff_inv_main)
next
  case (dies s p)
  then show ?case by (auto simp: sniff_inv_def)
next
  case (sig s)
  then show ?case by (cases "mgr s") (auto simp: sniff_inv_def)
next
  case (interpreter_exit s)
  then show ?case by (auto simp: sniff_inv_def)
qed

lemma sniff_reach_inv: "sniff_reach s \<Longrightarrow> sniff_inv s"
  by (induction rule: sniff_reach.induct) (auto intro: sniff_inv_start sniff_inv_step)

section \<open>Schedules\<close>

text \<open>A schedule names the thread that moves, and which of its next states it takes.\<close>

datatype move = Manager nat | Main nat | Dies nat | Sig

fun run_move :: "move \<Rightarrow> sniffing \<Rightarrow> sniffing option" where
  "run_move (Manager k) s = (if k < length (mgr_next s) then Some (mgr_next s ! k) else None)"
| "run_move (Main k) s = (if k < length (main_next s) then Some (main_next s ! k) else None)"
| "run_move (Dies p) s = Some (s\<lparr>live := live s - {p}\<rparr>)"
| "run_move Sig s = Some (s\<lparr>stopping := True\<rparr>)"

primrec run_moves :: "move list \<Rightarrow> sniffing \<Rightarrow> sniffing option" where
  "run_moves [] s = Some s"
| "run_moves (m # ms) s = Option.bind (run_move m s) (run_moves ms)"

lemma run_move_step: "run_move m s = Some s' \<Longrightarrow> sniff_step s s'"
  by (cases m) (auto intro: sniff_step.intros nth_mem split: if_splits)

lemma run_moves_reach: "run_moves ms s = Some s' \<Longrightarrow> sniff_reach s \<Longrightarrow> sniff_reach s'"
proof (induction ms arbitrary: s)
  case (Cons m ms)
  then obtain s1 where "run_move m s = Some s1" "run_moves ms s1 = Some s'"
    by (auto simp: bind_eq_Some_conv)
  then show ?case using Cons.IH Cons.prems(2) run_move_step sniff_reach.step by blast
qed simp

section \<open>The manager brings the sniffer back\<close>

definition mgr_moves :: "sniffing \<Rightarrow> sniffing \<Rightarrow> bool" where
  "mgr_moves = (\<lambda>s s'. s' \<in> set (mgr_next s))\<^sup>*\<^sup>*"

definition recovers :: "sniffing \<Rightarrow> bool" where
  "recovers s \<longleftrightarrow> (\<exists>s' p. mgr_moves s s' \<and> proc s' = Some p \<and> p \<in> live s')"

named_theorems recover

lemma recovers_now: "proc s = Some p \<Longrightarrow> p \<in> live s \<Longrightarrow> recovers s"
  by (auto simp: recovers_def mgr_moves_def)

lemma recovers_step: "s' \<in> set (mgr_next s) \<Longrightarrow> recovers s' \<Longrightarrow> recovers s"
  unfolding recovers_def mgr_moves_def by (meson converse_rtranclp_into_rtranclp)

lemma recovers_popen [recover]:
  assumes "mgr s = Popen b"
  shows "recovers s"
proof -
  let ?s1 = "s\<lparr>mgr := Assign b (fresh s), live := insert (fresh s) (live s), fresh := fresh s + 1\<rparr>"
  have "recovers ?s1"
    by (rule recovers_step [of "?s1\<lparr>mgr := if b then Test else Pause, proc := Some (fresh s)\<rparr>"])
      (auto simp: mgr_simps intro: recovers_now)
  with assms show ?thesis by (auto simp: mgr_simps intro: recovers_step [of ?s1])
qed

lemma recovers_goto:
  assumes "mgr_next s = [s\<lparr>mgr := pc\<rparr>]" "recovers (s\<lparr>mgr := pc\<rparr>)"
  shows "recovers s"
  using recovers_step [of "s\<lparr>mgr := pc\<rparr>" s] assms by simp

lemma recovers_start_poll [recover]: "mgr s = Start_poll b \<Longrightarrow> proc s = Some p \<Longrightarrow> recovers s"
  by (cases "p \<in> live s", erule (1) recovers_now, rule recovers_goto [where pc = "Popen b"])
    (auto simp: mgr_simps intro: recover)

lemma recovers_start [recover]: "mgr s = Start b \<Longrightarrow> recovers s"
  by (rule recovers_goto [where pc = "if proc s = None then Popen b else Start_poll b"])
    (auto simp: mgr_simps intro: recover)

lemma recovers_poll [recover]: "mgr s = Poll \<Longrightarrow> proc s = Some p \<Longrightarrow> recovers s"
  by (cases "p \<in> live s", erule (1) recovers_now, rule recovers_goto [where pc = "Start False"])
    (auto simp: mgr_simps intro: recover)

lemma recovers_is_none [recover]: "mgr s = Is_none \<Longrightarrow> recovers s"
  by (rule recovers_goto [where pc = "if proc s = None then Start False else Poll"])
    (auto simp: mgr_simps intro: recover)

lemma recovers_test [recover]: "mgr s = Test \<Longrightarrow> \<not> stopping s \<Longrightarrow> recovers s"
  by (rule recovers_goto [where pc = "Is_none"]) (auto simp: mgr_simps intro: recover)

lemma recovers_pause [recover]: "mgr s = Pause \<Longrightarrow> \<not> stopping s \<Longrightarrow> recovers s"
  by (rule recovers_goto [where pc = "Test"]) (auto simp: mgr_simps intro: recover)

lemma recovers_assign [recover]: "mgr s = Assign b p \<Longrightarrow> \<not> stopping s \<Longrightarrow> recovers s"
  by (rule recovers_step [of "s\<lparr>mgr := if b then Test else Pause, proc := Some p\<rparr>"])
    (auto simp: mgr_simps intro: recover)

lemma recovers_entry [recover]: "mgr s = Entry \<Longrightarrow> recovers s"
  by (rule recovers_step [of "s\<lparr>mgr := Start True\<rparr>"]) (auto simp: mgr_simps intro: recover)

section \<open>Properties\<close>

text \<open>C20: At no moment do two sniffers of the node run.\<close>

theorem one_sniffer:
  assumes "sniff_reach s"
  shows "card (live s) \<le> 1"
  using sniff_reach_inv [OF assms] card_mono [of "{_}" "live s"]
  by (auto simp: sniff_inv_def at_most_one_def)


text \<open>
  The node can stop in order, with both threads at their ends, and leave a sniffer behind: the
  manager, about to restart a dead sniffer, creates it while the main thread finds the dead one and
  clears the handle.
\<close>

definition orphan_schedule :: "move list" where
  "orphan_schedule = replicate 4 (Manager 0) @ [Dies 0] @ replicate 5 (Manager 0) @ [Sig, Main 0, Main 0, Main 0]
     @ [Manager 0, Manager 0, Main 0] @ replicate 4 (Manager 0)"

theorem sniffer_left_behind:
  "\<exists>s. sniff_reach s \<and> main_thread s = Finished \<and> mgr s = Finished \<and> live s \<noteq> {}"
proof -
  have "\<exists>s. run_moves orphan_schedule sniffing_start = Some s \<and> main_thread s = Finished \<and> mgr s = Finished \<and> live s = {1}"
    by (simp add: orphan_schedule_def sniffing_start_def numeral_eq_Suc mgr_simps main_next_def)
  then show ?thesis using run_moves_reach [OF _ sniff_reach.init] by blast
qed

lemma ex_sniffing: "sniff_reach \<lparr>live = {}, fresh = 1, proc = Some 0, stopping = False, mgr = Is_none, main_thread = Idle\<rparr>"
  by (rule run_moves_reach [of "replicate 4 (Manager 0) @ [Manager 0, Dies 0]", OF _ sniff_reach.init])
    (simp add: sniffing_start_def numeral_eq_Suc mgr_simps)

lemma one_sniffer_witness:
  "card (live \<lparr>live = {1}, fresh = 2, proc = Some 0, stopping = False, mgr = Assign False 1, main_thread = Idle\<rparr>) \<le> 1"
  by (rule one_sniffer [OF run_moves_reach [of "[Manager 0, Manager 0, Manager 0, Manager 0, Manager 0, Dies 0]
        @ replicate 5 (Manager 0)", OF _ sniff_reach.init]])
    (simp add: sniffing_start_def numeral_eq_Suc mgr_simps)


end
