(* ===== verification/Files.thy ===== *)
theory Files
  imports Ingest
begin

text \<open>
  How the program writes the files it must not lose: \<open>_write_secret_file\<close> of \<open>observer/auth.py\<close>, \<open>_write\<close>
  of \<open>observer/llm.py\<close>, \<open>_save_offsets\<close> and \<open>_load_offsets\<close> of \<open>observer/ingest.py\<close>. A system call is a step that
  succeeds or raises OSError; the process can be killed between any two of them, so a write is the
  list of the file systems it passes through. \<open>os.write\<close> returns the number of bytes it took, which
  may be fewer than given (a nearly full disk), and none of the callers looks at it.
\<close>

section \<open>System calls\<close>

text \<open>384 is the octal mode 600: only the owner may read and write.\<close>

type_synonym filesys = "string \<rightharpoonup> bytes \<times> nat" \<comment> \<open>content and permission bits\<close>

datatype call = Makedirs | Mkstemp | Write | Fsync | Close | Chmod_tmp | Replace | Chmod_path
  | Close_again | Unlink

definition chmod_file :: "string \<Rightarrow> nat \<Rightarrow> filesys \<Rightarrow> filesys" where
  "chmod_file p mode fs = (case fs p of None \<Rightarrow> fs | Some (data, _) \<Rightarrow> fs(p \<mapsto> (data, mode)))"

definition replace_file :: "string \<Rightarrow> string \<Rightarrow> filesys \<Rightarrow> filesys" where
  "replace_file src dst fs = (fs(dst := fs src))(src := None)"

text \<open>Calls in order until one fails: the file systems after each, and what is left to run from the failing one on.\<close>

fun run_calls :: "(call \<Rightarrow> bool) \<Rightarrow> (call \<times> (filesys \<Rightarrow> filesys)) list \<Rightarrow> filesys \<Rightarrow> filesys list \<times> call option" where
  "run_calls fails [] fs = ([], None)"
| "run_calls fails ((c, f) # cs) fs =
     (if fails c then ([], Some c)
      else case run_calls fails cs (f fs) of (trace, r) \<Rightarrow> (f fs # trace, r))"

definition last_fs :: "filesys \<Rightarrow> filesys list \<Rightarrow> filesys" where
  "last_fs fs trace = (if trace = [] then fs else last trace)"

section \<open>Atomic writes\<close>

text \<open>
  The common shape of the three functions. \<open>fd\<close> is -1 only once the close has returned, so the
  handler closes it again after a failure up to there, and an exception of that close leaves the
  temporary file behind; a failing unlink is ignored. \<open>k\<close> is what \<open>os.write\<close> returns, \<open>tmp\<close> the name
  \<open>mkstemp\<close> chose. The result: the file systems passed through, and whether the function returns.
\<close>

definition write_calls :: "bool \<Rightarrow> nat \<Rightarrow> bytes \<Rightarrow> string \<Rightarrow> string \<Rightarrow> (call \<times> (filesys \<Rightarrow> filesys)) list" where
  "write_calls secret k data tmp path =
     [(Write, \<lambda>fs. fs(tmp \<mapsto> (take k data, 384))), (Fsync, id), (Close, id)]
     @ (if secret then [(Chmod_tmp, chmod_file tmp 384)] else [])
     @ [(Replace, replace_file tmp path)]
     @ (if secret then [(Chmod_path, chmod_file path 384)] else [])"

definition write_failed :: "(call \<Rightarrow> bool) \<Rightarrow> call \<Rightarrow> string \<Rightarrow> filesys \<Rightarrow> filesys list" where
  "write_failed fails c tmp fs =
     (if c \<in> {Write, Fsync, Close} \<and> fails Close_again then []
      else if fails Unlink then [] else [fs(tmp := None)])"

definition atomic_write ::
  "bool \<Rightarrow> (call \<Rightarrow> bool) \<Rightarrow> nat \<Rightarrow> string \<Rightarrow> bytes \<Rightarrow> string \<Rightarrow> filesys \<Rightarrow> filesys list \<times> bool" where
  "atomic_write secret fails k tmp data path fs =
     (if fails Makedirs \<or> fails Mkstemp then ([], False)
      else
        let fs0 = fs(tmp \<mapsto> ([], 384)) in
        case run_calls fails (write_calls secret k data tmp path) fs0 of
          (trace, None) \<Rightarrow> (fs0 # trace, True)
        | (trace, Some c) \<Rightarrow> (fs0 # trace @ write_failed fails c tmp (last_fs fs0 trace), False))"

definition write_secret_file where "write_secret_file = atomic_write True"

definition write_settings where "write_settings = atomic_write True"

section \<open>The cursor of the inbox\<close>

definition save_offsets ::
  "(json \<Rightarrow> bytes) \<Rightarrow> (call \<Rightarrow> bool) \<Rightarrow> nat \<Rightarrow> string \<Rightarrow> (string \<times> json) list \<Rightarrow> string \<Rightarrow> filesys \<Rightarrow> filesys list \<times> bool" where
  "save_offsets to_json fails k tmp offsets path = atomic_write False fails k tmp (to_json (JObj offsets)) path"

text \<open>\<open>parse\<close> stands for reading a file as UTF-8 and JSON; None is an exception, which moves on to the next path.\<close>

fun load_offsets :: "(bytes \<Rightarrow> json option) \<Rightarrow> filesys \<Rightarrow> string list \<Rightarrow> (string \<times> json) list" where
  "load_offsets parse fs [] = []"
| "load_offsets parse fs (p # ps) =
     (case fs p of
        None \<Rightarrow> load_offsets parse fs ps
      | Some (data, _) \<Rightarrow> (case parse data of Some (JObj d) \<Rightarrow> d | _ \<Rightarrow> load_offsets parse fs ps))"

definition dirname :: "string \<Rightarrow> string" where
  "dirname p =
     (let head = py_rstrip (\<lambda>c. c \<noteq> CHR ''/'') p
      in if list_all (\<lambda>c. c = CHR ''/'') head then head else py_rstrip (\<lambda>c. c = CHR ''/'') head)"

definition path_join :: "string \<Rightarrow> string \<Rightarrow> string" where
  "path_join a b = (if a = [] \<or> last a = CHR ''/'' then a @ b else a @ ''/'' @ b)"

definition offset_path :: "string \<Rightarrow> string" where
  "offset_path inbox =
     (let parent = dirname (py_rstrip (\<lambda>c. c = CHR ''/'') inbox)
      in path_join (if parent = [] then ''.'' else parent) ''inbox-offsets.json'')"

definition legacy_offset_path :: "string \<Rightarrow> string" where
  "legacy_offset_path inbox = path_join inbox ''.offsets.json''"

section \<open>What a write leaves\<close>

text \<open>Every file but the two named is as before; the path holds what it held, or what was written.\<close>

definition intact :: "string \<Rightarrow> string \<Rightarrow> bytes \<Rightarrow> filesys \<Rightarrow> filesys \<Rightarrow> bool" where
  "intact tmp path new fs fs' \<longleftrightarrow>
     (\<forall>p. p \<noteq> tmp \<longrightarrow> p \<noteq> path \<longrightarrow> fs' p = fs p) \<and> (fs' path = fs path \<or> fs' path = Some (new, 384))
     \<and> (\<forall>data mode. fs' tmp = Some (data, mode) \<longrightarrow> mode = 384)"

lemma chmod_same [simp]: "chmod_file p m (fs(p \<mapsto> (d, m))) = fs(p \<mapsto> (d, m))"
  by (simp add: chmod_file_def)

lemma replace_tmp [simp]: "fs tmp = None \<Longrightarrow> tmp \<noteq> path \<Longrightarrow> replace_file tmp path (fs(tmp \<mapsto> x)) = fs(path \<mapsto> x)"
  by (auto simp: replace_file_def fun_eq_iff)

lemma drop_tmp [simp]: "fs tmp = None \<Longrightarrow> fs(tmp := None) = fs"
  by (auto simp: fun_eq_iff)

text \<open>The file systems that the calls pass through when none fails.\<close>

primrec all_states :: "(call \<times> (filesys \<Rightarrow> filesys)) list \<Rightarrow> filesys \<Rightarrow> filesys list" where
  "all_states [] fs = []"
| "all_states (cf # cs) fs = snd cf fs # all_states cs (snd cf fs)"

lemma run_calls_states:
  "run_calls fails cs fs = (trace, r) \<Longrightarrow>
     set trace \<subseteq> set (all_states cs fs) \<and> (r = None \<longrightarrow> trace = all_states cs fs)"
proof (induction cs arbitrary: fs trace)
  case (Cons cf cs)
  then show ?case by (cases cf) (fastforce split: if_splits prod.splits)
qed simp

lemma write_states:
  assumes "fs tmp = None" "tmp \<noteq> path"
  shows "set (all_states (write_calls secret k data tmp path) (fs(tmp \<mapsto> ([], 384))))
       \<subseteq> {fs(tmp \<mapsto> (take k data, 384)), fs(path \<mapsto> (take k data, 384))}"
    "last (all_states (write_calls secret k data tmp path) (fs(tmp \<mapsto> ([], 384)))) = fs(path \<mapsto> (take k data, 384))"
    "all_states (write_calls secret k data tmp path) (fs(tmp \<mapsto> ([], 384))) \<noteq> []"
  using assms by (simp_all add: write_calls_def)

text \<open>The four file systems a write passes through.\<close>

lemma atomic_write_states:
  assumes "fs tmp = None" "tmp \<noteq> path" "atomic_write secret fails k tmp data path fs = (trace, r)"
  shows "set trace \<subseteq> {fs(tmp \<mapsto> ([], 384)), fs(tmp \<mapsto> (take k data, 384)), fs(path \<mapsto> (take k data, 384)), fs}"
    "r \<Longrightarrow> last trace = fs(path \<mapsto> (take k data, 384))"
    "\<not> r \<Longrightarrow> \<not> fails Close_again \<Longrightarrow> \<not> fails Unlink \<Longrightarrow> last_fs fs trace tmp = None"
proof -
  let ?fs0 = "fs(tmp \<mapsto> ([], 384))" and ?cs = "write_calls secret k data tmp path"
  obtain t o' where run: "run_calls fails ?cs ?fs0 = (t, o')" by fastforce
  note st = write_states [of fs tmp path secret k data, OF assms(1,2)]
  have t: "set t \<subseteq> {fs(tmp \<mapsto> (take k data, 384)), fs(path \<mapsto> (take k data, 384))}" "o' = None \<Longrightarrow> t = all_states ?cs ?fs0"
    using run_calls_states [OF run] st(1) by auto
  have "last_fs ?fs0 t \<in> insert ?fs0 (set t)" by (simp add: last_fs_def)
  then have "(last_fs ?fs0 t)(tmp := None) \<in> {fs(path \<mapsto> (take k data, 384)), fs}"
    using t(1) assms(1,2) by (auto simp: fun_upd_twist)
  then show "set trace \<subseteq> {fs(tmp \<mapsto> ([], 384)), fs(tmp \<mapsto> (take k data, 384)), fs(path \<mapsto> (take k data, 384)), fs}"
    using assms(3) run t(1) by (auto simp: atomic_write_def Let_def write_failed_def split: if_splits option.splits)
  show "r \<Longrightarrow> last trace = fs(path \<mapsto> (take k data, 384))"
    using assms(3) run t(2) st(2,3) by (auto simp: atomic_write_def Let_def split: if_splits option.splits)
  show "\<not> r \<Longrightarrow> \<not> fails Close_again \<Longrightarrow> \<not> fails Unlink \<Longrightarrow> last_fs fs trace tmp = None"
    using assms run by (auto simp: atomic_write_def Let_def write_failed_def last_fs_def split: if_splits option.splits)
qed

lemma atomic_write_intact:
  assumes "fs tmp = None" "tmp \<noteq> path" "atomic_write secret fails k tmp data path fs = (trace, r)" "fs' \<in> set trace"
  shows "intact tmp path (take k data) fs fs'"
  using atomic_write_states(1) [OF assms(1-3)] assms(1,2,4) by (auto simp: intact_def)

text \<open>The function returns although the file holds only what the disk took.\<close>

lemma short_write_installs:
  assumes "write_secret_file (\<lambda>_. False) k tmp data path fs = (trace, r)" "fs tmp = None" "tmp \<noteq> path"
  shows "r \<and> last trace path = Some (take k data, 384)"
proof -
  have r using assms(1) by (auto simp: write_secret_file_def atomic_write_def write_calls_def Let_def)
  then show ?thesis
    using atomic_write_states(2) [OF assms(2,3) assms(1) [unfolded write_secret_file_def]] by simp
qed

lemma load_offsets_cong: "\<forall>p\<in>set ps. fs' p = fs p \<Longrightarrow> load_offsets parse fs' ps = load_offsets parse fs ps"
proof (induction ps)
  case (Cons p ps)
  then have "load_offsets parse fs' ps = load_offsets parse fs ps" "fs' p = fs p" by simp_all
  then show ?case by (simp only: load_offsets.simps)
qed simp

section \<open>Properties\<close>

text \<open>
  C21: Whichever system call of writing the password file fails, and wherever the process is killed,
  no other file changes, the password file holds its old content or what was written, nobody but
  the owner can read what was written, and a call that returns has installed it.
\<close>

theorem secret_write_atomic:
  assumes "write_secret_file fails k tmp data path fs = (trace, r)" "fs tmp = None" "tmp \<noteq> path" "fs' \<in> set trace"
  shows "(\<forall>p. p \<notin> {tmp, path} \<longrightarrow> fs' p = fs p)
     \<and> (fs' path = fs path \<or> fs' path = Some (take k data, 384))
     \<and> (fs' tmp = None \<or> (\<exists>part. fs' tmp = Some (part, 384)))
     \<and> (r \<longrightarrow> last trace = fs(path \<mapsto> (take k data, 384)))"
  using atomic_write_intact [OF assms(2,3) assms(1) [unfolded write_secret_file_def] assms(4)]
    atomic_write_states(2) [OF assms(2,3) assms(1) [unfolded write_secret_file_def]]
  by (cases "fs' tmp") (auto simp: intact_def)


lemma secret_write_atomic_witness:
  "(\<lambda>fs'. fs' ''pw'' = Some ([1], 384) \<or> fs' ''pw'' = Some (take 2 [5, 6, 7], 384))
     ((fst (write_secret_file (\<lambda>c. c = Chmod_path) 2 ''tmp'' [5, 6, 7] ''pw'' [''pw'' \<mapsto> ([1], 384)])) ! 5)"
proof -
  obtain trace r where run: "write_secret_file (\<lambda>c. c = Chmod_path) 2 ''tmp'' [5, 6, 7] ''pw'' [''pw'' \<mapsto> ([1], 384)] = (trace, r)"
    by fastforce
  then have "5 < length trace" by (auto simp: write_secret_file_def atomic_write_def write_calls_def Let_def)
  then show ?thesis using secret_write_atomic [OF run, of "trace ! 5"] run by simp
qed


end
