(* ===== verification/Startup.thy ===== *)
theory Startup
  imports Files
begin

text \<open>
  What a node settles before its threads run: the places of its files (\<open>observer/config.py\<close>), moving the
  catalog and inbox of a version without clubs to their new places (\<open>migrate_legacy_paths\<close>), the limit on
  open files (\<open>observer/main.py\<close>); and how a write waits for a busy work queue (\<open>_locked_write\<close> of
  \<open>observer/work.py\<close>).
\<close>

section \<open>Places\<close>

definition abs_path :: "string \<Rightarrow> string \<Rightarrow> string" where
  "abs_path base p = (if p = [] then p else if hd p = CHR ''/'' then p else path_join base p)"

definition club_path :: "string \<Rightarrow> string option \<Rightarrow> string \<Rightarrow> string \<Rightarrow> string" where
  "club_path base raw legacy namespaced =
     (if str_or raw [] = [] \<or> raw = Some legacy then abs_path base namespaced else abs_path base (the raw))"

definition db_path :: "string \<Rightarrow> string option \<Rightarrow> string \<Rightarrow> string" where
  "db_path base raw clubid = club_path base raw ''data/club.sqlite'' (''data/'' @ clubid @ ''/club.sqlite'')"

definition inbox_dir :: "string \<Rightarrow> string option \<Rightarrow> string \<Rightarrow> string" where
  "inbox_dir base raw clubid = club_path base raw ''data/inbox'' (''data/'' @ clubid @ ''/inbox'')"

section \<open>Moving the files of an older version\<close>

text \<open>A tree of files, in some order, and the directories; the inbox holds files only. Its operations succeed.\<close>

record tree =
  t_files :: "(string \<times> bytes) list"
  t_dirs :: "string list"

definition file_at :: "tree \<Rightarrow> string \<Rightarrow> bool" where
  "file_at t p \<longleftrightarrow> p \<in> fst ` set (t_files t)"

definition make_dirs :: "string \<Rightarrow> tree \<Rightarrow> tree" where
  "make_dirs d t = (if d \<in> set (t_dirs t) then t else t\<lparr>t_dirs := t_dirs t @ [d]\<rparr>)"

text \<open>\<open>os.rename\<close> replaces a file at the new name.\<close>

definition rename :: "string \<Rightarrow> string \<Rightarrow> tree \<Rightarrow> tree" where
  "rename src dst t =
     (if src = dst then t
      else t\<lparr>t_files := map (\<lambda>(p, c). (if p = src then dst else p, c)) (filter (\<lambda>(p, c). p \<noteq> dst) (t_files t))\<rparr>)"

definition child_name :: "string \<Rightarrow> string \<Rightarrow> string option" where
  "child_name d p =
     (let pre = path_join d []; n = drop (length pre) p
      in if py_startswith p pre \<and> n \<noteq> [] \<and> CHR ''/'' \<notin> set n then Some n else None)"

definition listdir :: "tree \<Rightarrow> string \<Rightarrow> string list" where
  "listdir t d = List.map_filter (\<lambda>(p, c). child_name d p) (t_files t)"

definition inbox_has_jsonl :: "tree \<Rightarrow> string \<Rightarrow> bool" where
  "inbox_has_jsonl t d \<longleftrightarrow> list_ex (\<lambda>n. py_endswith n ''.jsonl'') (listdir t d)"

definition move_suffix :: "string \<Rightarrow> string \<Rightarrow> string \<Rightarrow> tree \<Rightarrow> tree" where
  "move_suffix old db suffix t =
     (if file_at t (old @ suffix) then rename (old @ suffix) (db @ suffix) t else t)"

definition move_db :: "(string \<Rightarrow> string) \<Rightarrow> string \<Rightarrow> string \<Rightarrow> tree \<Rightarrow> bool \<times> tree" where
  "move_db abspath old db t =
     (if file_at t old \<and> abspath old \<noteq> abspath db \<and> \<not> file_at t db then
        (True, fold (move_suffix old db) [''-wal'', ''-shm''] (rename old db (make_dirs (if dirname db = [] then ''.'' else dirname db) t)))
      else (False, t))"

fun move_names :: "string \<Rightarrow> string \<Rightarrow> string list \<Rightarrow> bool \<times> tree \<Rightarrow> bool \<times> tree" where
  "move_names old new [] mt = mt"
| "move_names old new (n # ns) (moved, t) =
     (if file_at t (path_join new n) then move_names old new ns (moved, t)
      else move_names old new ns (True, rename (path_join old n) (path_join new n) t))"

definition remove_dir :: "string \<Rightarrow> tree \<Rightarrow> tree" where
  "remove_dir d t = (if listdir t d = [] then t\<lparr>t_dirs := removeAll d (t_dirs t)\<rparr> else t)"

definition move_inbox :: "(string \<Rightarrow> string) \<Rightarrow> string \<Rightarrow> string \<Rightarrow> bool \<times> tree \<Rightarrow> bool \<times> tree" where
  "move_inbox abspath old new mt =
     (case mt of (moved, t) \<Rightarrow>
        if old \<in> set (t_dirs t) \<and> abspath old \<noteq> abspath new then
          (let t = make_dirs new t in
           if inbox_has_jsonl t new then (moved, t)
           else map_prod id (remove_dir old) (move_names old new (listdir t old) (moved, t)))
        else mt)"

definition migrate_legacy_paths :: "(string \<Rightarrow> string) \<Rightarrow> string \<Rightarrow> string \<Rightarrow> string \<Rightarrow> string \<Rightarrow> tree \<Rightarrow> bool \<times> tree" where
  "migrate_legacy_paths abspath base clubid db inbox t =
     (if clubid \<noteq> ''academic'' then (False, t)
      else move_inbox abspath (path_join (path_join base ''data'') ''inbox'') inbox
             (move_db abspath (path_join (path_join base ''data'') ''club.sqlite'') db t))"

section \<open>The limit on open files\<close>

text \<open>\<open>allowed\<close> is whether the system accepts a soft limit; \<open>unlimited\<close> is the value of an unlimited one.\<close>

fun try_limits :: "(int \<Rightarrow> bool) \<Rightarrow> int \<Rightarrow> int \<Rightarrow> int \<Rightarrow> int list \<Rightarrow> int" where
  "try_limits allowed unlimited soft hard [] = soft"
| "try_limits allowed unlimited soft hard (c # cs) =
     (let want = (if hard = unlimited then c else min c hard) in
      if want \<le> soft then try_limits allowed unlimited soft hard cs
      else if allowed want then want
      else try_limits allowed unlimited soft hard cs)"

definition raise_fd_limit :: "(int \<Rightarrow> bool) \<Rightarrow> int \<Rightarrow> intcfg \<Rightarrow> intcfg \<Rightarrow> int \<Rightarrow> int \<Rightarrow> int" where
  "raise_fd_limit allowed unlimited fetch sniffer soft hard =
     (let target = max (max 8192 (cfg_get fetch ''concurrency'' 8 * 16)) (cfg_get sniffer ''high_connections'' 400 * 4 + 256)
      in if soft \<ge> target then soft
         else try_limits allowed unlimited soft hard [target, 16384, 10240, 8192, 4096, 2048])"

section \<open>A busy work queue\<close>

text \<open>
  One try of a write: its value, the busy or locked error of SQLite, another error. The tries and the
  seconds slept after each busy one, which include the last.
\<close>

datatype 'a db_try = Written 'a | Busy_db | Db_error pyerr

definition pause_after :: "nat \<Rightarrow> time" where
  "pause_after k = (1 / 20) * 2 ^ min k 4"

fun write_tries :: "nat \<Rightarrow> nat \<Rightarrow> (nat \<Rightarrow> 'a db_try) \<Rightarrow> 'a res option \<times> time" where
  "write_tries k 0 tries = (None, 0)"
| "write_tries k (Suc n) tries =
     (case tries k of
        Written x \<Rightarrow> (Some (Inr x), 0)
      | Db_error e \<Rightarrow> (Some (Inl e), 0)
      | Busy_db \<Rightarrow> map_prod id (\<lambda>s. s + pause_after k) (write_tries (Suc k) n tries))"

text \<open>None is the busy error itself, raised in the end.\<close>

definition locked_write :: "(nat \<Rightarrow> 'a db_try) \<Rightarrow> 'a res option \<times> time" where
  "locked_write tries = write_tries 0 6 tries"

section \<open>Laws\<close>

lemma raise_fd_limit_raises:
  "soft \<le> raise_fd_limit allowed unlimited fetch sniffer soft hard"
proof -
  have "soft \<le> try_limits allowed unlimited soft hard cs" for cs
    by (induction cs) (auto simp: Let_def)
  then show ?thesis by (simp add: raise_fd_limit_def Let_def del: try_limits.simps)
qed

lemma upt_Cons: "[k..<k + Suc n] = k # [Suc k..<Suc k + n]"
  by (simp add: upt_conv_Cons del: upt_Suc)

lemma write_tries_result:
  "fst (write_tries k n tries) =
     (case find (\<lambda>i. tries i \<noteq> Busy_db) [k..<k + n] of
        None \<Rightarrow> None
      | Some i \<Rightarrow> (case tries i of Written x \<Rightarrow> Some (Inr x) | Db_error e \<Rightarrow> Some (Inl e) | Busy_db \<Rightarrow> None))"
proof (induction k n tries rule: write_tries.induct)
  case (2 k n tries)
  then show ?case unfolding upt_Cons by (cases "tries k") (simp_all del: upt_Suc)
qed simp

lemma pause_nonneg: "0 \<le> pause_after k"
  by (simp add: pause_after_def)

lemma write_tries_wait: "snd (write_tries k n tries) \<le> sum_list (map pause_after [k..<k + n])"
proof (induction k n tries rule: write_tries.induct)
  case (2 k n tries)
  have "0 \<le> sum_list (map pause_after [Suc k..<Suc k + n])" by (intro sum_list_nonneg) (auto simp: pause_nonneg)
  then show ?case using 2 pause_nonneg [of k] unfolding upt_Cons by (cases "tries k") (simp_all del: upt_Suc)
qed simp

text \<open>A write gives the outcome of the first of six tries that is not busy, and waits at most 2.35 seconds.\<close>

theorem locked_write_bounded:
  "fst (locked_write tries) =
     (case find (\<lambda>i. tries i \<noteq> Busy_db) [0..<6] of
        None \<Rightarrow> None
      | Some i \<Rightarrow> (case tries i of Written x \<Rightarrow> Some (Inr x) | Db_error e \<Rightarrow> Some (Inl e) | Busy_db \<Rightarrow> None))
   \<and> snd (locked_write tries) \<le> 47 / 20"
  using write_tries_result [of 0 6 tries] write_tries_wait [of 0 6 tries]
  by (simp add: locked_write_def pause_after_def numeral_eq_Suc)

text \<open>A rename to a new name keeps the contents as they are, in their order, and the names apart.\<close>

definition names_apart :: "tree \<Rightarrow> bool" where
  "names_apart t \<longleftrightarrow> distinct (map fst (t_files t))"

lemma rename_keeps:
  assumes "names_apart t" "\<not> file_at t dst \<or> src = dst"
  shows "names_apart (rename src dst t)" "map snd (t_files (rename src dst t)) = map snd (t_files t)"
proof -
  have f: "filter (\<lambda>(p, c). p \<noteq> dst) (t_files t) = t_files t" if "src \<noteq> dst"
    using assms(2) that by (force simp: file_at_def filter_id_conv)
  show "map snd (t_files (rename src dst t)) = map snd (t_files t)"
    using f by (auto simp: rename_def comp_def split_beta)
  have "map fst (t_files (rename src dst t)) = map (\<lambda>p. if p = src then dst else p) (map fst (t_files t))" if "src \<noteq> dst"
    using f that by (simp add: rename_def comp_def split_beta)
  moreover have "inj_on (\<lambda>p. if p = src then dst else p) (fst ` set (t_files t))" if "src \<noteq> dst"
    using assms(2) that by (auto simp: inj_on_def file_at_def)
  ultimately show "names_apart (rename src dst t)"
    using assms(1) distinct_map [of "\<lambda>p. if p = src then dst else p" "map fst (t_files t)"]
    by (cases "src = dst") (simp_all only: names_apart_def set_map, simp_all add: rename_def)
qed

lemma rename_files: "file_at (rename src dst t) p \<Longrightarrow> file_at t p \<or> p = dst"
  by (auto simp: file_at_def rename_def split: if_splits)

lemma make_dirs_files [simp]: "t_files (make_dirs d t) = t_files t" "file_at (make_dirs d t) p = file_at t p"
  "names_apart (make_dirs d t) = names_apart t"
  by (simp_all add: make_dirs_def file_at_def names_apart_def)

lemma remove_dir_files [simp]: "t_files (remove_dir d t) = t_files t" "names_apart (remove_dir d t) = names_apart t"
  by (simp_all add: remove_dir_def names_apart_def)

definition same_contents :: "tree \<Rightarrow> tree \<Rightarrow> bool" where
  "same_contents t t' \<longleftrightarrow> names_apart t' \<and> map snd (t_files t') = map snd (t_files t)"

lemma move_names_keeps: "names_apart t \<Longrightarrow> same_contents t (snd (move_names old new ns (m, t)))"
proof (induction ns arbitrary: m t)
  case (Cons n ns)
  then show ?case
    using rename_keeps [of t "path_join new n" "path_join old n"]
      Cons.IH [of "rename (path_join old n) (path_join new n) t" True]
    by (simp add: same_contents_def)
qed (simp add: same_contents_def)

lemma move_inbox_keeps: "names_apart t \<Longrightarrow> same_contents t (snd (move_inbox abspath old new (m, t)))"
  using move_names_keeps [of "make_dirs new t" old new "listdir (make_dirs new t) old" m]
  by (simp add: move_inbox_def same_contents_def Let_def)

lemma move_suffix_keeps:
  "names_apart t \<Longrightarrow> \<not> file_at t (db @ s) \<Longrightarrow> same_contents t (move_suffix old db s t)"
  using rename_keeps [of t "db @ s" "old @ s"] by (simp add: move_suffix_def same_contents_def)

lemma move_suffix_files: "file_at (move_suffix old db s t) p \<Longrightarrow> file_at t p \<or> p = db @ s"
  by (auto simp: move_suffix_def dest: rename_files split: if_splits)

lemma same_contents_trans: "same_contents t t' \<Longrightarrow> same_contents t' t'' \<Longrightarrow> same_contents t t''"
  by (simp add: same_contents_def)

lemma move_db_keeps:
  assumes "names_apart t" "\<not> file_at t (db @ ''-wal'')" "\<not> file_at t (db @ ''-shm'')"
  shows "same_contents t (snd (move_db abspath old db t))"
proof (cases "file_at t old \<and> abspath old \<noteq> abspath db \<and> \<not> file_at t db")
  case True
  define t0 where "t0 = make_dirs (if dirname db = [] then ''.'' else dirname db) t"
  define t1 where "t1 = rename old db t0"
  define t2 where "t2 = move_suffix old db ''-wal'' t1"
  have t0: "t_files t0 = t_files t" "file_at t0 p = file_at t p" "names_apart t0" for p
    using assms(1) unfolding t0_def by simp_all
  have s1: "same_contents t t1"
    using rename_keeps [of t0 db old] t0 True by (simp add: same_contents_def t1_def)
  have w: "\<not> file_at t1 (db @ ''-wal'')" "\<not> file_at t1 (db @ ''-shm'')"
    using assms(2,3) t0(2) rename_files [of old db t0 "db @ ''-wal''"] rename_files [of old db t0 "db @ ''-shm''"]
    unfolding t1_def by auto
  have s2: "same_contents t1 t2" using move_suffix_keeps s1 w(1) unfolding t2_def same_contents_def by blast
  have "\<not> file_at t2 (db @ ''-shm'')"
    using w(2) move_suffix_files [of old db "''-wal''" t1 "db @ ''-shm''"] unfolding t2_def by auto
  then have "same_contents t2 (move_suffix old db ''-shm'' t2)"
    using move_suffix_keeps s2 unfolding same_contents_def by blast
  then have "same_contents t (move_suffix old db ''-shm'' t2)"
    using s1 s2 same_contents_trans by blast
  then show ?thesis using True by (simp add: move_db_def t2_def t1_def t0_def)
next
  case False
  have "move_db abspath old db t = (False, t)" unfolding move_db_def by (rule if_not_P [OF False])
  then show ?thesis using assms(1) by (simp add: same_contents_def)
qed

text \<open>Moving the files of an older version loses and overwrites none of them.\<close>

theorem migration_keeps_contents:
  assumes "names_apart t" "\<not> file_at t (db @ ''-wal'')" "\<not> file_at t (db @ ''-shm'')"
  shows "map snd (t_files (snd (migrate_legacy_paths abspath base clubid db inbox t))) = map snd (t_files t)"
proof (cases "clubid = ''academic''")
  case True
  let ?r = "move_db abspath (path_join (path_join base ''data'') ''club.sqlite'') db t"
  have "same_contents t (snd ?r)" by (rule move_db_keeps [OF assms])
  then show ?thesis
    using True move_inbox_keeps [of "snd ?r" abspath _ _ "fst ?r"] by (simp add: migrate_legacy_paths_def same_contents_def)
qed (simp add: migrate_legacy_paths_def)

lemma migration_keeps_contents_witness:
  "map snd (t_files (snd (migrate_legacy_paths id ''/n'' ''academic'' ''/n/data/academic/club.sqlite'' ''/n/data/academic/inbox''
       \<lparr>t_files = [(''/n/data/club.sqlite'', [1]), (''/n/data/club.sqlite-wal'', [2]), (''/n/data/inbox/x.jsonl'', [3])],
        t_dirs = [''/n/data/inbox'']\<rparr>))) = [[1], [2], [3]]"
  using migration_keeps_contents [of "\<lparr>t_files = [(''/n/data/club.sqlite'', [1]), (''/n/data/club.sqlite-wal'', [2]), (''/n/data/inbox/x.jsonl'', [3])],
        t_dirs = [''/n/data/inbox'']\<rparr>" "''/n/data/academic/club.sqlite''" id "''/n''" "''academic''" "''/n/data/academic/inbox''"]
  by (simp add: names_apart_def file_at_def)

end
