(* ===== verification/Pages.thy ===== *)
theory Pages
  imports License Extract
begin

text \<open>
  Text out of pages, the rest of \<open>observer/extract.py\<close>: the article extractor with its fall-back, the
  stripping of scripts and tags, and the reading of a PDF. \<open>trafilatura\<close>, \<open>pypdf\<close>, the HTML parser and
  UTF-8 decoding are arguments: an article extractor returns a text, nothing, or raises; a PDF is its
  pages' texts and its metadata. With these functions \<open>page_extractors\<close> makes the extractors of \<open>Extract\<close>.
\<close>

section \<open>Stripping markup\<close>

text \<open>\<open>re.I\<close> on bytes compares ASCII letters only.\<close>

definition lower_byte :: "byte \<Rightarrow> byte" where
  "lower_byte b = (if 65 \<le> b \<and> b \<le> 90 then b + 32 else b)"

definition ascii :: "string \<Rightarrow> bytes" where
  "ascii s = map of_char s"

definition starts_ci :: "bytes \<Rightarrow> bytes \<Rightarrow> bool" where
  "starts_ci pat s = py_startswith (map lower_byte s) pat"

text \<open>What follows the first occurrence, if there is one.\<close>

fun after_ci :: "bytes \<Rightarrow> bytes \<Rightarrow> bytes option" where
  "after_ci pat [] = None"
| "after_ci pat (b # s) =
     (if starts_ci pat (b # s) then Some (drop (length pat) (b # s)) else after_ci pat s)"

lemma after_ci_shorter: "after_ci pat s = Some rest \<Longrightarrow> length rest \<le> length s"
  by (induction s) (auto split: if_splits)

text \<open>The rest behind a script or style element that starts here.\<close>

definition element_end :: "bytes \<Rightarrow> bytes option" where
  "element_end s =
     (case (if starts_ci (ascii ''<script'') s then after_ci (ascii ''</script>'') (drop 7 s) else None) of
        Some rest \<Rightarrow> Some rest
      | None \<Rightarrow> if starts_ci (ascii ''<style'') s then after_ci (ascii ''</style>'') (drop 6 s) else None)"

lemma element_end_shorter: "element_end (b # s) = Some rest \<Longrightarrow> length rest < Suc (length s)"
  by (auto simp: element_end_def dest!: after_ci_shorter split: option.splits if_splits)

function strip_scripts :: "bytes \<Rightarrow> bytes" where
  "strip_scripts [] = []"
| "strip_scripts (b # s) =
     (case element_end (b # s) of Some rest \<Rightarrow> 32 # strip_scripts rest | None \<Rightarrow> b # strip_scripts s)"
  by pat_completeness auto
termination
  by (relation "measure length") (auto dest: element_end_shorter)

text \<open>The rest behind a tag that starts here: an opening bracket, bytes other than the closing one, that one.\<close>

definition tag_end :: "bytes \<Rightarrow> bytes option" where
  "tag_end s =
     (case s of
        [] \<Rightarrow> None
      | b # t \<Rightarrow>
          if b = 60 \<and> takeWhile (\<lambda>c. c \<noteq> 62) t \<noteq> [] then
            (case dropWhile (\<lambda>c. c \<noteq> 62) t of [] \<Rightarrow> None | _ # rest \<Rightarrow> Some rest)
          else None)"

lemma tag_end_shorter: "tag_end (b # s) = Some rest \<Longrightarrow> length rest < Suc (length s)"
  using length_dropWhile_le [of "\<lambda>c. c \<noteq> 62" s]
  by (auto simp: tag_end_def split: list.splits if_splits)

function strip_tags :: "bytes \<Rightarrow> bytes" where
  "strip_tags [] = []"
| "strip_tags (b # s) =
     (case tag_end (b # s) of Some rest \<Rightarrow> 32 # strip_tags rest | None \<Rightarrow> b # strip_tags s)"
  by pat_completeness auto
termination
  by (relation "measure length") (auto dest: tag_end_shorter)

section \<open>HTML\<close>

text \<open>\<open>tf\<close> is the article extractor, None where it is not installed.\<close>

definition html_text :: "(string \<Rightarrow> string option res) option \<Rightarrow> (bytes \<Rightarrow> string) \<Rightarrow> bytes \<Rightarrow> string" where
  "html_text tf decode data =
     (let stripped = collapse (decode (strip_tags (strip_scripts data)))
      in case tf of
           None \<Rightarrow> stripped
         | Some f \<Rightarrow> (case f (decode data) of Inr (Some t) \<Rightarrow> if t \<noteq> [] then t else stripped | _ \<Rightarrow> stripped))"

section \<open>PDF\<close>

record pdf =
  pdf_pages :: "string option res list" \<comment> \<open>\<open>extract_text\<close> of each page\<close>
  pdf_metadata :: "string list res"
  pdf_xmp :: "string list res"

fun read_pages :: "nat \<Rightarrow> nat \<Rightarrow> string option res list \<Rightarrow> string list res" where
  "read_pages max_chars n [] = Inr []"
| "read_pages max_chars n (p # ps) =
     (case p of
        Inl e \<Rightarrow> Inl e
      | Inr t \<Rightarrow>
          let txt = str_or t [] in
          if n + length txt \<ge> max_chars then Inr [txt]
          else map_sum id (\<lambda>ts. txt # ts) (read_pages max_chars (n + length txt) ps))"

definition pdf_values :: "pdf \<Rightarrow> string list" where
  "pdf_values p = (case pdf_metadata p of Inl _ \<Rightarrow> [] | Inr vs \<Rightarrow> filter (\<lambda>v. v \<noteq> []) vs)
     @ (case pdf_xmp p of Inl _ \<Rightarrow> [] | Inr vs \<Rightarrow> vs)"

definition pdf_text :: "(bytes \<Rightarrow> pdf res) \<Rightarrow> nat \<Rightarrow> bytes \<Rightarrow> string \<times> (string \<times> string) option" where
  "pdf_text reader max_chars data =
     (case reader data of
        Inl _ \<Rightarrow> ([], None)
      | Inr p \<Rightarrow>
          (case read_pages max_chars 0 (take 10 (pdf_pages p)) of
             Inl _ \<Rightarrow> ([], None)
           | Inr parts \<Rightarrow> (py_join [CHR 0x0A] parts, pdf_license (pdf_values p))))"

definition page_extractors ::
  "(string \<Rightarrow> string option res) option \<Rightarrow> (bytes \<Rightarrow> string) \<Rightarrow> (string \<Rightarrow> (string \<times> attrs) list)
     \<Rightarrow> (bytes \<Rightarrow> pdf res) \<Rightarrow> (bytes \<Rightarrow> bool) \<Rightarrow> nat \<Rightarrow> extractors" where
  "page_extractors tf decode tags reader json_ok max_chars =
     \<lparr>x_html_text = html_text tf decode, x_html_license = (\<lambda>d. map_option fst (html_license (tags (decode d)) (decode d))),
      x_pdf = (\<lambda>d. map_prod id (map_option fst) (pdf_text reader max_chars d)), x_license = normalize_license,
      x_json_ok = json_ok, x_max_chars = max_chars\<rparr>"

section \<open>Laws\<close>

text \<open>A tag: an opening bracket, one or more bytes other than the closing bracket, the closing bracket.\<close>

definition has_tag :: "bytes \<Rightarrow> bool" where
  "has_tag s \<longleftrightarrow> (\<exists>a body c. s = a @ 60 # body @ 62 # c \<and> body \<noteq> [] \<and> 62 \<notin> set body)"

lemma tag_end_tag: "62 \<notin> set body \<Longrightarrow> body \<noteq> [] \<Longrightarrow> tag_end (60 # body @ 62 # c) = Some c"
  by (induction body) (auto simp: tag_end_def takeWhile_append dropWhile_append)

lemma tag_end_iff:
  "tag_end (b # s) \<noteq> None \<longleftrightarrow> b = 60 \<and> (\<exists>body c. s = body @ 62 # c \<and> body \<noteq> [] \<and> 62 \<notin> set body)"
proof
  assume some: "tag_end (b # s) \<noteq> None"
  then obtain x c where d: "dropWhile (\<lambda>c. c \<noteq> 62) s = x # c" "b = 60" "takeWhile (\<lambda>c. c \<noteq> 62) s \<noteq> []"
    by (auto simp: tag_end_def split: if_splits list.splits)
  have "x = 62" using hd_dropWhile [of "\<lambda>c. c \<noteq> 62" s] d(1) by simp
  then have "s = takeWhile (\<lambda>c. c \<noteq> 62) s @ 62 # c" using takeWhile_dropWhile_id [of "\<lambda>c. c \<noteq> 62" s] d(1) by simp
  then show "b = 60 \<and> (\<exists>body c. s = body @ 62 # c \<and> body \<noteq> [] \<and> 62 \<notin> set body)"
    using d set_takeWhileD by metis
qed (auto simp: tag_end_tag)

lemma has_tag_Cons: "has_tag (b # s) \<longleftrightarrow> tag_end (b # s) \<noteq> None \<or> has_tag s"
proof
  assume "has_tag (b # s)"
  then obtain a body c where h: "b # s = a @ 60 # body @ 62 # c" "body \<noteq> []" "62 \<notin> set body"
    unfolding has_tag_def by blast
  show "tag_end (b # s) \<noteq> None \<or> has_tag s"
  proof (cases a)
    case Nil
    then show ?thesis using h tag_end_tag by auto
  next
    case (Cons x a')
    then have "has_tag s" using h unfolding has_tag_def by auto
    then show ?thesis ..
  qed
next
  assume "tag_end (b # s) \<noteq> None \<or> has_tag s"
  then show "has_tag (b # s)"
    unfolding tag_end_iff has_tag_def by (metis append_Cons append_Nil)
qed

lemma tag_end_suffix: "tag_end (b # s) = Some rest \<Longrightarrow> set rest \<subseteq> set s"
  by (auto simp: tag_end_def split: if_splits list.splits dest!: arg_cong [where f = set] intro: set_dropWhileD)

lemma strip_tags_close: "62 \<in> set (strip_tags s) \<Longrightarrow> 62 \<in> set s"
proof (induction s rule: strip_tags.induct)
  case (2 b s)
  then show ?case using tag_end_suffix [of b s] by (auto split: option.splits)
qed simp

text \<open>What was no tag becomes none: its opening bracket is followed by the closing one, or by no closing one at all.\<close>

lemma strip_keeps_broken: "tag_end (b # s) = None \<Longrightarrow> tag_end (b # strip_tags s) = None"
proof (rule ccontr)
  assume none: "tag_end (b # s) = None" and "tag_end (b # strip_tags s) \<noteq> None"
  then obtain body c where b: "b = 60" "strip_tags s = body @ 62 # c" "body \<noteq> []" "62 \<notin> set body"
    unfolding tag_end_iff by auto
  then have "62 \<in> set s" using strip_tags_close [of s] by simp
  then obtain pre post where s: "s = pre @ 62 # post" "62 \<notin> set pre" using split_list_first by fast
  then have "pre = []" using none b(1) tag_end_tag by fastforce
  then have "strip_tags s = 62 # strip_tags post" using s(1) by (simp add: tag_end_def)
  then show False using b(2-4) by (cases body) auto
qed

theorem no_tag_survives: "\<not> has_tag (strip_tags s)"
proof (induction s rule: strip_tags.induct)
  case (2 b s)
  show ?case
  proof (cases "tag_end (b # s)")
    case None
    then show ?thesis using "2.IH"(1) by (simp add: has_tag_Cons strip_keeps_broken)
  next
    case (Some rest)
    then show ?thesis using "2.IH"(2) by (simp add: has_tag_Cons tag_end_def)
  qed
qed (simp add: has_tag_def)

lemma markup_example:
  "strip_tags (strip_scripts (ascii ''a<SCRIPT x>b</p></Script>c<br/>d<>e<'')) = ascii ''a c d<>e<''"
  by (simp add: ascii_def element_end_def starts_ci_def py_startswith_def lower_byte_def tag_end_def)

text \<open>
  A PDF is read page by page until the wanted number of characters is there: the parts are the texts
  of the first pages, all of them or enough, and no page is read once there are enough.
\<close>

lemma read_pages_prefix:
  "read_pages max_chars n (map Inr ts) = Inr parts \<Longrightarrow>
     parts = map (\<lambda>t. str_or t []) (take (length parts) ts)
     \<and> (length parts = length ts \<or> max_chars \<le> n + length (concat parts))
     \<and> (\<forall>k < length parts. 0 < k \<longrightarrow> n + length (concat (take k parts)) < max_chars)"
proof (induction ts arbitrary: n parts)
  case (Cons t ts)
  show ?case
  proof (cases "max_chars \<le> n + length (str_or t [])")
    case True
    then show ?thesis using Cons.prems by (auto simp: Let_def)
  next
    case False
    then obtain rest where r: "read_pages max_chars (n + length (str_or t [])) (map Inr ts) = Inr rest" "parts = str_or t [] # rest"
      using Cons.prems by (auto simp: Let_def map_sum_def split: sum.splits)
    note IH = Cons.IH [OF r(1)]
    have "n + length (concat (take k parts)) < max_chars" if "k < length parts" "0 < k" for k
    proof (cases k)
      case (Suc j)
      then show ?thesis using IH that r(2) False by (cases j) auto
    qed (use that in simp)
    moreover have "parts = map (\<lambda>t. str_or t []) (take (length parts) (t # ts))" using IH r(2) by simp
    moreover have "length parts = length (t # ts) \<or> max_chars \<le> n + length (concat parts)" using IH r(2) by auto
    ultimately show ?thesis by blast
  qed
qed simp

end
